(* ===== verification/Prelude.thy ===== *)
theory Prelude
  imports Complex_Main "HOL-Library.AList" "HOL-Library.Multiset"
    "HOL-Library.Char_ord" "HOL-Library.List_Lexorder"
begin

text \<open>
  What the component theories share: Python's exceptions and results as values, Python
  dictionaries (insertion-ordered association lists) and the two-level dictionaries in which a
  node keeps its replicas, slices, ceiling division, and the interface \<open>keyed_table\<close> through
  which the components count what a table holds.

  Numbers: Python integers are \<open>int\<close>; floats (times, paddings, the CPU budget) are \<open>rat\<close>,
  so rounding of float arithmetic is not modelled.
\<close>

text \<open>Keys of tables are often pairs; quantifiers over keys stay quantifiers over keys.\<close>

declare split_paired_All [simp del] split_paired_Ex [simp del]

section \<open>Exceptions and results\<close>

text \<open>
  The exceptions the modelled code raises, catches or tells apart. \<open>RayTaskError e\<close> is Ray's
  wrapper around an exception raised inside an actor, with \<open>e\<close> its \<open>cause\<close> attribute;
  \<open>OtherError\<close> is any other exception, with its text.
\<close>

datatype exn =
    KeyError
  | ValueError
  | ZeroDivisionError
  | CheckpointUnreachable
  | ActorDiedError
  | ActorUnavailableError
  | CachedActorError
  | RayTaskError exn
  | DeploymentError string
  | OtherError string

type_synonym 'a res = "exn + 'a"

text \<open>
  A Python call that mutates an object and may raise: the object afterwards, and the value or
  the exception. What was written before a raise stays written.
\<close>

type_synonym ('s, 'a) run = "'s \<times> (exn + 'a)"

definition bind_run :: "('s, 'a) run \<Rightarrow> ('s \<Rightarrow> 'a \<Rightarrow> ('s, 'b) run) \<Rightarrow> ('s, 'b) run" where
  "bind_run r f = (case r of (s, Inl e) \<Rightarrow> (s, Inl e) | (s, Inr a) \<Rightarrow> f s a)"

definition bind_res :: "'a res \<Rightarrow> ('a \<Rightarrow> 'b res) \<Rightarrow> 'b res" where
  "bind_res r f = (case r of Inl e \<Rightarrow> Inl e | Inr a \<Rightarrow> f a)"

named_theorems run_simps \<open>one step of a computation that mutates and may raise\<close>

lemma bind_run_Inl [simp, run_simps]: "bind_run (s, Inl e) f = (s, Inl e)"
  by (simp add: bind_run_def)

lemma bind_run_Inr [simp, run_simps]: "bind_run (s, Inr a) f = f s a"
  by (simp add: bind_run_def)

lemma bind_res_Inl [simp, run_simps]: "bind_res (Inl e) f = Inl e"
  by (simp add: bind_res_def)

lemma bind_res_Inr [simp, run_simps]: "bind_res (Inr a) f = f a"
  by (simp add: bind_res_def)

lemma bind_res_eq_Inr:
  "bind_res r f = Inr b \<longleftrightarrow> (\<exists>a. r = Inr a \<and> f a = Inr b)"
  by (cases r) auto

lemma bind_run_eq_Inr:
  "bind_run r f = (s', Inr b) \<longleftrightarrow> (\<exists>s a. r = (s, Inr a) \<and> f s a = (s', Inr b))"
  by (cases r; cases "snd r") auto

text \<open>The same for a call that mutates nothing, over any type of errors.\<close>

definition bind_sum :: "'e + 'a \<Rightarrow> ('a \<Rightarrow> 'e + 'b) \<Rightarrow> 'e + 'b" where
  "bind_sum r f = (case r of Inl e \<Rightarrow> Inl e | Inr a \<Rightarrow> f a)"

lemma bind_sum_simps [simp]: "bind_sum (Inl e) f = Inl e" "bind_sum (Inr a) f = f a"
  by (simp_all add: bind_sum_def)

lemma bind_sum_Inr: "bind_sum r f = Inr b \<longleftrightarrow> (\<exists>a. r = Inr a \<and> f a = Inr b)"
  by (cases r) simp_all

text \<open>
  What a computation keeps: a preorder between the object before and after, true of each step,
  is true of the whole, whether or not it raised.
\<close>

locale kept =
  fixes R :: "'s \<Rightarrow> 's \<Rightarrow> bool"
  assumes kept_refl: "R s s"
    and kept_trans: "R s t \<Longrightarrow> R t u \<Longrightarrow> R s u"
begin

lemma kept_bind:
  assumes "R s (fst r)" and "\<And>s' a. r = (s', Inr a) \<Longrightarrow> R s' (fst (f s' a))"
  shows "R s (fst (bind_run r f))"
proof (cases r)
  case (Pair s' x)
  then show ?thesis using assms kept_trans by (cases x) auto
qed

lemma kept_fold:
  assumes "\<And>x s. x \<in> set xs \<Longrightarrow> R s (f x s)"
  shows "R s (fold f xs s)"
  using assms
proof (induction xs arbitrary: s)
  case (Cons x xs)
  then have "R s (f x s)" and "R (f x s) (fold f xs (f x s))" by simp_all
  then show ?case by (simp add: kept_trans[of s "f x s"])
qed (simp add: kept_refl)

end

section \<open>Numbers and slices\<close>

text \<open>\<open>math.ceil(a / b)\<close> on integers (\<open>b\<close> is checked against 0 by the callers).\<close>

definition ceil_div :: "int \<Rightarrow> int \<Rightarrow> int" where
  "ceil_div a b = - ((- a) div b)"

lemma ceil_div_nonneg: "0 \<le> a \<Longrightarrow> 0 < b \<Longrightarrow> 0 \<le> ceil_div a b"
  unfolding ceil_div_def by (simp add: div_nonpos_pos_le0)

lemma ceil_div_covers: "0 < b \<Longrightarrow> a \<le> b * ceil_div a b"
proof -
  assume b: "0 < b"
  have "b * ((- a) div b) + (- a) mod b = - a" by (rule mult_div_mod_eq)
  moreover have "0 \<le> (- a) mod b" using b by simp
  ultimately have "b * ((- a) div b) \<le> - a" by linarith
  then show ?thesis unfolding ceil_div_def by simp
qed

lemma ceil_div_least: "0 < b \<Longrightarrow> a \<le> b * k \<Longrightarrow> ceil_div a b \<le> k"
proof -
  assume b: "0 < b" and k: "a \<le> b * k"
  from k have "b * (- k) \<le> - a" by simp
  then have "(b * (- k)) div b \<le> (- a) div b" using b by (rule zdiv_mono1)
  moreover have "(b * (- k)) div b = - k" using b by (intro nonzero_mult_div_cancel_left) simp
  ultimately show ?thesis unfolding ceil_div_def by linarith
qed

text \<open>The slice \<open>xs[:k]\<close>: a negative \<open>k\<close> counts from the end.\<close>

definition py_take :: "int \<Rightarrow> 'a list \<Rightarrow> 'a list" where
  "py_take k xs = (if 0 \<le> k then take (nat k) xs else take (length xs - nat (- k)) xs)"

lemma set_py_take: "set (py_take k xs) \<subseteq> set xs"
  unfolding py_take_def by (auto dest: in_set_takeD)

lemma distinct_py_take: "distinct xs \<Longrightarrow> distinct (py_take k xs)"
  unfolding py_take_def by (auto intro: distinct_take)

lemma length_py_take: "0 \<le> k \<Longrightarrow> k \<le> int (length xs) \<Longrightarrow> int (length (py_take k xs)) = k"
  unfolding py_take_def by simp

lemma map_py_take: "map f (py_take k xs) = py_take k (map f xs)"
  unfolding py_take_def by (simp add: take_map)

section \<open>Dictionaries\<close>

text \<open>
  A Python dictionary keeps its insertion order: an assignment to a present key keeps the key's
  place, a new key goes to the end. That is \<open>AList.update\<close>, and \<open>del\<close> / \<open>pop\<close> is
  \<open>AList.delete\<close>; a lookup is \<open>map_of\<close>.
\<close>

type_synonym ('k, 'v) dict = "('k \<times> 'v) list"

abbreviation dict_set :: "'k \<Rightarrow> 'v \<Rightarrow> ('k, 'v) dict \<Rightarrow> ('k, 'v) dict" where
  "dict_set \<equiv> AList.update"

abbreviation dict_del :: "'k \<Rightarrow> ('k, 'v) dict \<Rightarrow> ('k, 'v) dict" where
  "dict_del \<equiv> AList.delete"

definition dict_wf :: "('k, 'v) dict \<Rightarrow> bool" where
  "dict_wf d \<longleftrightarrow> distinct (map fst d)"

text \<open>\<open>d.get(k, default)\<close>.\<close>

definition dict_get :: "('k, 'v) dict \<Rightarrow> 'k \<Rightarrow> 'v \<Rightarrow> 'v" where
  "dict_get d k x = (case map_of d k of None \<Rightarrow> x | Some v \<Rightarrow> v)"

lemma dict_wf_set [simp]: "dict_wf d \<Longrightarrow> dict_wf (dict_set k v d)"
  by (simp add: dict_wf_def distinct_update)

lemma dict_wf_del [simp]: "dict_wf d \<Longrightarrow> dict_wf (dict_del k d)"
  by (simp add: dict_wf_def distinct_delete)

lemma dict_wf_Nil [simp]: "dict_wf []"
  by (simp add: dict_wf_def)

lemma dict_wf_single [simp]: "dict_wf [(k, v)]"
  by (simp add: dict_wf_def)

section \<open>The interface of a table\<close>

text \<open>
  What the components rely on of a table of values under keys. \<open>entries\<close> is the order in
  which the code iterates. The lemmas say how the entries, and so every sum over them, change
  with an insertion and a removal: that is what the resource accounts of a node rest on.
\<close>

locale keyed_table =
  fixes lookup :: "'t \<Rightarrow> 'k \<Rightarrow> 'v option"
    and put :: "'k \<Rightarrow> 'v \<Rightarrow> 't \<Rightarrow> 't"
    and remove :: "'k \<Rightarrow> 't \<Rightarrow> 't"
    and entries :: "'t \<Rightarrow> ('k \<times> 'v) list"
    and wf :: "'t \<Rightarrow> bool"
  assumes wf_put: "wf t \<Longrightarrow> wf (put k v t)"
    and wf_remove: "wf t \<Longrightarrow> wf (remove k t)"
    and lookup_put: "wf t \<Longrightarrow> lookup (put k v t) = (lookup t)(k \<mapsto> v)"
    and lookup_remove: "wf t \<Longrightarrow> lookup (remove k t) = (lookup t)(k := None)"
    and entries_lookup: "wf t \<Longrightarrow> (k, v) \<in> set (entries t) \<longleftrightarrow> lookup t k = Some v"
    and distinct_entries: "wf t \<Longrightarrow> distinct (map fst (entries t))"
begin

lemma distinct_pairs: "wf t \<Longrightarrow> distinct (entries t)"
  using distinct_entries by (auto simp: distinct_map)

lemma sum_entries:
  fixes f :: "'k \<times> 'v \<Rightarrow> 'b::comm_monoid_add"
  shows "wf t \<Longrightarrow> sum_list (map f (entries t)) = sum f (set (entries t))"
  by (simp add: sum_list_distinct_conv_sum_set distinct_pairs)

lemma set_put_new:
  "wf t \<Longrightarrow> lookup t k = None \<Longrightarrow> set (entries (put k v t)) = insert (k, v) (set (entries t))"
  by (auto simp: entries_lookup wf_put lookup_put split: if_splits)

lemma set_remove:
  "wf t \<Longrightarrow> set (entries (remove k t)) = {e \<in> set (entries t). fst e \<noteq> k}"
  by (auto simp: entries_lookup wf_remove lookup_remove split: if_splits)

lemma set_remove_Some:
  assumes "wf t" and "lookup t k = Some v"
  shows "set (entries t) = insert (k, v) (set (entries (remove k t)))"
    and "(k, v) \<notin> set (entries (remove k t))"
  using assms by (auto simp: entries_lookup set_remove)

lemma sum_put_new:
  fixes f :: "'k \<times> 'v \<Rightarrow> 'b::comm_monoid_add"
  assumes "wf t" and "lookup t k = None"
  shows "sum_list (map f (entries (put k v t))) = f (k, v) + sum_list (map f (entries t))"
proof -
  have "(k, v) \<notin> set (entries t)" using assms by (simp add: entries_lookup)
  then show ?thesis using assms by (simp add: sum_entries wf_put set_put_new)
qed

lemma sum_remove:
  fixes f :: "'k \<times> 'v \<Rightarrow> 'b::comm_monoid_add"
  assumes "wf t" and "lookup t k = Some v"
  shows "sum_list (map f (entries t)) = f (k, v) + sum_list (map f (entries (remove k t)))"
  using set_remove_Some[OF assms] assms by (simp add: sum_entries wf_remove)

lemma lookup_None_iff: "wf t \<Longrightarrow> lookup t k = None \<longleftrightarrow> k \<notin> fst ` set (entries t)"
proof
  assume t: "wf t" and "lookup t k = None"
  then have "(k, v) \<notin> set (entries t)" for v by (simp add: entries_lookup)
  then show "k \<notin> fst ` set (entries t)" by auto
next
  assume t: "wf t" and "k \<notin> fst ` set (entries t)"
  then have "lookup t k \<noteq> Some v" for v
    by (auto simp: entries_lookup[symmetric] image_iff)
  then show "lookup t k = None" by (cases "lookup t k") auto
qed

end

text \<open>A flat dictionary is a table.\<close>

interpretation flat: keyed_table map_of dict_set dict_del id dict_wf
  by unfold_locales
    (auto simp: dict_wf_def distinct_update distinct_delete update_conv' delete_conv')

section \<open>Two-level dictionaries\<close>

text \<open>
  \<open>Dict[MODEL_KEY, Dict[REPLICA_ID, Deployment]]\<close>, the shape of a node's \<open>deployments\<close> and
  \<open>cache\<close>. The code never leaves an empty inner dictionary behind: each removal is followed
  by \<open>if not d[k]: del d[k]\<close>.
\<close>

type_synonym ('k, 'r, 'v) nested = "('k, ('r, 'v) dict) dict"

definition nget :: "('k, 'r, 'v) nested \<Rightarrow> 'k \<times> 'r \<Rightarrow> 'v option" where
  "nget d kr = (case map_of d (fst kr) of None \<Rightarrow> None | Some inner \<Rightarrow> map_of inner (snd kr))"

text \<open>\<open>d.setdefault(k, {})[r] = v\<close>\<close>

definition nput :: "'k \<times> 'r \<Rightarrow> 'v \<Rightarrow> ('k, 'r, 'v) nested \<Rightarrow> ('k, 'r, 'v) nested" where
  "nput kr v d = dict_set (fst kr) (dict_set (snd kr) v (dict_get d (fst kr) [])) d"

text \<open>\<open>del d[k][r]\<close>, then \<open>del d[k]\<close> when that left it empty.\<close>

definition ndel :: "'k \<times> 'r \<Rightarrow> ('k, 'r, 'v) nested \<Rightarrow> ('k, 'r, 'v) nested" where
  "ndel kr d =
     (case map_of d (fst kr) of
        None \<Rightarrow> d
      | Some inner \<Rightarrow>
          let inner' = dict_del (snd kr) inner in
          if inner' = [] then dict_del (fst kr) d else dict_set (fst kr) inner' d)"

text \<open>\<open>for k, inner in d.items(): for r, v in inner.items()\<close>\<close>

definition nitems :: "('k, 'r, 'v) nested \<Rightarrow> (('k \<times> 'r) \<times> 'v) list" where
  "nitems d = concat (map (\<lambda>(k, inner). map (\<lambda>(r, v). ((k, r), v)) inner) d)"

definition nwf :: "('k, 'r, 'v) nested \<Rightarrow> bool" where
  "nwf d \<longleftrightarrow> dict_wf d \<and> (\<forall>inner \<in> snd ` set d. dict_wf inner \<and> inner \<noteq> [])"

lemma nwf_Nil [simp]: "nwf []"
  by (simp add: nwf_def)

lemma nitems_Nil [simp]: "nitems [] = []"
  by (simp add: nitems_def)

lemma nget_Nil [simp]: "nget [] kr = None"
  by (simp add: nget_def)

lemma nget_ndel_same: "nget (ndel kr d) kr = None"
  by (auto simp: nget_def ndel_def Let_def update_conv' delete_conv' split: option.splits)

lemma nget_ndel_other: "kr' \<noteq> kr \<Longrightarrow> nget (ndel kr d) kr' = nget d kr'"
proof (cases "map_of d (fst kr)")
  case (Some inner)
  assume ne: "kr' \<noteq> kr"
  show ?thesis
  proof (cases "dict_del (snd kr) inner = []")
    case True
    then have "map_of (dict_del (snd kr) inner) x = None" for x by simp
    then have "map_of inner x = None" if "x \<noteq> snd kr" for x
      using that by (metis map_of_delete)
    with True Some ne show ?thesis
      by (cases "fst kr' = fst kr")
        (auto simp: nget_def ndel_def delete_conv' prod_eq_iff split: option.splits)
  next
    case False
    with Some ne show ?thesis
      by (cases "fst kr' = fst kr")
        (auto simp: nget_def ndel_def Let_def update_conv' prod_eq_iff)
  qed
qed (simp add: nget_def ndel_def)

lemma nget_ndel: "nget (ndel kr d) = (nget d)(kr := None)"
  by (rule ext) (simp add: nget_ndel_same nget_ndel_other)

lemma nget_nput: "nget (nput kr v d) = (nget d)(kr \<mapsto> v)"
  by (rule ext, rule prod.exhaust[of kr])
    (auto simp: nget_def nput_def dict_get_def update_conv' split: option.splits)

lemma dict_wf_in: "dict_wf d \<Longrightarrow> (k, v) \<in> set d \<longleftrightarrow> map_of d k = Some v"
  by (simp add: dict_wf_def)

lemma nwf_inner: "nwf d \<Longrightarrow> map_of d k = Some inner \<Longrightarrow> dict_wf inner \<and> inner \<noteq> []"
  unfolding nwf_def by (force dest: map_of_SomeD)

lemma set_dict_set: "set (dict_set k v d) \<subseteq> insert (k, v) (set d)"
  by (induction d) auto

lemma set_dict_del: "set (dict_del k d) \<subseteq> set d"
  by (induction d) auto

lemma nwf_set_inner:
  assumes d: "nwf d" and i: "dict_wf inner" "inner \<noteq> []"
  shows "nwf (dict_set k inner d)"
  unfolding nwf_def
proof (intro conjI ballI)
  show "dict_wf (dict_set k inner d)" using d by (simp add: nwf_def)
next
  fix x assume "x \<in> snd ` set (dict_set k inner d)"
  then have "x = inner \<or> x \<in> snd ` set d" using set_dict_set[of k inner d] by auto
  then show "dict_wf x" using d i by (auto simp: nwf_def)
next
  fix x assume "x \<in> snd ` set (dict_set k inner d)"
  then have "x = inner \<or> x \<in> snd ` set d" using set_dict_set[of k inner d] by auto
  then show "x \<noteq> []" using d i by (auto simp: nwf_def)
qed

lemma nwf_nput: "nwf d \<Longrightarrow> nwf (nput kr v d)"
proof -
  assume d: "nwf d"
  have "dict_wf (dict_get d (fst kr) [])"
    using nwf_inner[OF d] by (auto simp: dict_get_def split: option.splits)
  then have "dict_wf (dict_set (snd kr) v (dict_get d (fst kr) []))" by simp
  then show ?thesis
    unfolding nput_def by (intro nwf_set_inner[OF d]) simp_all
qed

lemma nwf_ndel: "nwf d \<Longrightarrow> nwf (ndel kr d)"
proof (cases "map_of d (fst kr)")
  case (Some inner)
  assume d: "nwf d"
  have "dict_wf inner" using nwf_inner[OF d Some] by simp
  then have "nwf (dict_set (fst kr) (dict_del (snd kr) inner) d)"
    if "dict_del (snd kr) inner \<noteq> []"
    using that by (intro nwf_set_inner[OF d]) simp_all
  moreover have "nwf (dict_del (fst kr) d)"
    using d set_dict_del[of "fst kr" d] unfolding nwf_def by auto
  ultimately show ?thesis using Some by (simp add: ndel_def Let_def)
qed (simp add: ndel_def)

lemma nitems_nget: "nwf d \<Longrightarrow> (kr, v) \<in> set (nitems d) \<longleftrightarrow> nget d kr = Some v"
proof -
  assume d: "nwf d"
  have "(kr, v) \<in> set (nitems d) \<longleftrightarrow> (\<exists>inner. (fst kr, inner) \<in> set d \<and> (snd kr, v) \<in> set inner)"
    by (cases kr) (force simp: nitems_def)
  also have "\<dots> \<longleftrightarrow> nget d kr = Some v"
    using d nwf_inner[OF d]
    by (auto simp: nwf_def dict_wf_in nget_def split: option.splits)
  finally show ?thesis .
qed

lemma distinct_nitems: "nwf d \<Longrightarrow> distinct (map fst (nitems d))"
proof (induction d)
  case (Cons e d)
  obtain k inner where e: "e = (k, inner)" by (cases e)
  from Cons.prems have "nwf d" and "dict_wf inner" and k: "k \<notin> fst ` set d"
    by (auto simp: nwf_def dict_wf_def e)
  then have "distinct (map fst (nitems d))" using Cons.IH by simp
  moreover have "distinct (map (\<lambda>(r, v). (k, r)) inner)"
    using \<open>dict_wf inner\<close>
    by (auto simp: dict_wf_def distinct_map inj_on_def split: prod.splits) (metis fst_conv snd_conv)
  moreover have "fst ` fst ` set (nitems d) \<subseteq> fst ` set d"
    by (force simp: nitems_def)
  ultimately show ?case using k
    by (auto simp: nitems_def e comp_def case_prod_unfold image_iff)
qed simp

lemma map_of_nitems: "nwf d \<Longrightarrow> map_of (nitems d) = nget d"
proof (rule ext)
  fix k assume d: "nwf d"
  show "map_of (nitems d) k = nget d k"
  proof (cases "nget d k")
    case None
    then have "k \<notin> fst ` set (nitems d)" using nitems_nget[OF d] by fastforce
    then show ?thesis using None by (simp add: map_of_eq_None_iff)
  next
    case (Some v)
    then show ?thesis using nitems_nget[OF d] distinct_nitems[OF d] by (simp add: map_of_eq_Some_iff)
  qed
qed

interpretation reps: keyed_table nget nput ndel nitems nwf
  by unfold_locales
    (simp_all add: nwf_nput nwf_ndel nget_nput nget_ndel nitems_nget distinct_nitems)

text \<open>
  Two facts the loops over a table need whether or not it is well formed: a removal removes, and
  an insertion inserts.
\<close>

lemma nget_ndel_None: "nget d kr' = None \<Longrightarrow> nget (ndel kr d) kr' = None"
  by (simp add: nget_ndel)

end
