(* ===== verification/Schema.thy ===== *)
theory Schema
  imports Prelude
begin

text \<open>
  The data contracts the services share: model keys and their JSON suffix
  (\<open>common/types.py\<close>), and the messages of the controller's deploy, evict and
  get_deployment calls (\<open>common/schema/controller.py\<close>).

  Error texts are constructors: \<open>deploy_error\<close> has one per message the placement code
  writes, with the values the message interpolates.
\<close>

section \<open>Keys\<close>

type_synonym model_key = string
type_synonym replica_id = string
type_synonym node_id = string

text \<open>One replica of one model, the unit of eviction.\<close>

type_synonym replica_key = "model_key \<times> replica_id"

text \<open>What \<open>json.loads\<close> returns.\<close>

datatype json =
    JNull
  | JBool bool
  | JNum rat
  | JStr string
  | JList "json list"
  | JObj "(string \<times> json) list"

text \<open>
  \<open>key_field\<close>: the suffix after the first colon, read as JSON. \<open>loads\<close> is
  \<open>json.loads\<close>, \<open>None\<close> where it raises \<open>ValueError\<close>; a missing colon is the
  \<open>IndexError\<close> and a suffix that is not an object the \<open>AttributeError\<close> of the source,
  and all three give \<open>None\<close>.
\<close>

definition key_suffix :: "model_key \<Rightarrow> string option" where
  "key_suffix mk = (case dropWhile (\<lambda>c. c \<noteq> CHR '':'') mk of [] \<Rightarrow> None | _ # s \<Rightarrow> Some s)"

definition key_field :: "(string \<Rightarrow> json option) \<Rightarrow> model_key \<Rightarrow> string \<Rightarrow> json option" where
  "key_field loads mk name =
     (case key_suffix mk of
        None \<Rightarrow> None
      | Some s \<Rightarrow>
          (case loads s of
             Some (JObj fields) \<Rightarrow> map_of fields name
           | _ \<Rightarrow> None))"

text \<open>Python truth of the value \<open>key_field\<close> returns, a missing field and null included.\<close>

fun truthy :: "json option \<Rightarrow> bool" where
  "truthy None = False"
| "truthy (Some JNull) = False"
| "truthy (Some (JBool b)) = b"
| "truthy (Some (JNum x)) = (x \<noteq> 0)"
| "truthy (Some (JStr s)) = (s \<noteq> [])"
| "truthy (Some (JList xs)) = (xs \<noteq> [])"
| "truthy (Some (JObj fs)) = (fs \<noteq> [])"

section \<open>Actor classes\<close>

text \<open>
  \<open>actor_class: Optional[Union[str, type]]\<close>: a dotted import path, or a class object, of
  which the code reads the module, the qualified name and the \<open>CACHEABLE\<close> attribute (absent
  is \<open>None\<close>).
\<close>

record class_obj =
  cls_module :: string
  cls_qualname :: string
  cls_cacheable :: "bool option"

datatype actor_class = ClassPath string | ClassObj class_obj

section \<open>Deploy requests\<close>

record deployment_config =
  cfg_pinned :: bool
  cfg_replicas :: int
  cfg_size_bytes :: "int option"
  cfg_padding_factor :: "rat option"
  cfg_padding_bias :: "int option"
  cfg_gpus :: "int option"
  cfg_max_tp :: "int option"
  cfg_execution_timeout_seconds :: "rat option"
  cfg_dtype :: "string option"
  cfg_actor_class :: "actor_class option"

text \<open>\<open>DeploymentConfig()\<close>: the field defaults.\<close>

definition default_config :: deployment_config where
  "default_config =
     \<lparr>cfg_pinned = False, cfg_replicas = 1, cfg_size_bytes = None, cfg_padding_factor = None,
      cfg_padding_bias = None, cfg_gpus = None, cfg_max_tp = None,
      cfg_execution_timeout_seconds = None, cfg_dtype = None, cfg_actor_class = None\<rparr>"

text \<open>The three shapes a deploy request comes in.\<close>

datatype deploy_arg =
    OneModel model_key
  | ModelList "model_key list"
  | Configs "(model_key, deployment_config) dict"

text \<open>\<open>DeploymentConfig.normalize\<close>\<close>

fun normalize :: "deploy_arg \<Rightarrow> (model_key, deployment_config) dict" where
  "normalize (Configs d) = d"
| "normalize (OneModel mk) = [(mk, default_config)]"
| "normalize (ModelList mks) = fold (\<lambda>mk d. dict_set mk default_config d) mks []"

lemma map_of_fold_default:
  "map_of (fold (\<lambda>mk d. dict_set mk x d) mks d) mk =
     (if mk \<in> set mks then Some x else map_of d mk)"
  by (induction mks arbitrary: d) (auto simp: update_conv')

lemma dict_wf_fold_default: "dict_wf d \<Longrightarrow> dict_wf (fold (\<lambda>mk d. dict_set mk x d) mks d)"
  by (induction mks arbitrary: d) auto

lemma dict_wf_normalize: "(\<And>d. a = Configs d \<Longrightarrow> dict_wf d) \<Longrightarrow> dict_wf (normalize a)"
  by (cases a) (simp_all add: dict_wf_fold_default)

section \<open>Deploy responses\<close>

text \<open>
  Why a node cannot take a replica, where that is not want of room
  (\<open>Candidate.reason\<close>): the GPU count asked for, and the model's largest degree.
\<close>

datatype reason = UnevenSplit int int

datatype deploy_error =
    EvaluationFailed exn
  | NoGpuNodes
  | Stated reason
  | CantAccommodate nat int \<comment> \<open>replicas placed, replicas asked for\<close>
  | NothingPlaced

record model_deploy_result =
  res_replicas :: "replica_id list"
  res_error :: "deploy_error option"

definition empty_result :: model_deploy_result where
  "empty_result = \<lparr>res_replicas = [], res_error = None\<rparr>"

record deploy_response =
  resp_results :: "(model_key, model_deploy_result) dict"
  resp_evictions :: "replica_key set"
  resp_change :: bool

definition empty_response :: deploy_response where
  "empty_response = \<lparr>resp_results = [], resp_evictions = {}, resp_change = False\<rparr>"

section \<open>Replica snapshots\<close>

datatype deployment_level = HOT | WARM | COLD

text \<open>\<open>DeploymentLevel.value\<close>\<close>

fun level_value :: "deployment_level \<Rightarrow> string" where
  "level_value HOT = ''hot''"
| "level_value WARM = ''warm''"
| "level_value COLD = ''cold''"

record replica_state =
  rs_model_key :: model_key
  rs_replica_id :: replica_id
  rs_deployment_level :: string
  rs_gpus :: "(int, int) dict"
  rs_size_bytes :: int
  rs_pinned :: bool
  rs_node_id :: "node_id option"
  rs_execution_timeout_seconds :: "rat option"
  rs_actor_class :: "string option"
  rs_deployed :: rat

end
