(* ===== verification/Deployment.thy ===== *)
theory Deployment
  imports Schema
begin

text \<open>
  \<open>controller/cluster/deployment.py\<close>: one replica's bookkeeping, and the Ray actor
  operations the controller drives it through. An actor operation is a value of
  \<open>actor_op\<close>, the call the code makes on Ray; what Ray answers is an argument of the
  controller's functions.
\<close>

section \<open>The record\<close>

record deployment =
  dep_model_key :: model_key
  dep_replica_id :: replica_id
  dep_level :: deployment_level
  dep_gpus :: "(int, int) dict"
  dep_size_bytes :: int
  dep_pinned :: bool
  dep_node_id :: "node_id option"
  dep_execution_timeout_seconds :: "rat option"
  dep_actor_class :: "actor_class option"
  dep_dtype :: "string option"
  dep_deployed :: rat

section \<open>Resolving the actor class\<close>

text \<open>\<open>str.rpartition(".")\<close>, the head and the tail.\<close>

definition rpartition_dot :: "string \<Rightarrow> string \<times> string" where
  "rpartition_dot s =
     (let r = rev s;
          tl_part = takeWhile (\<lambda>c. c \<noteq> CHR ''.'') r;
          rest = dropWhile (\<lambda>c. c \<noteq> CHR ''.'') r
      in case rest of [] \<Rightarrow> ([], s) | _ # hd_part \<Rightarrow> (rev hd_part, rev tl_part))"

text \<open>
  \<open>import_class m n\<close> is \<open>getattr(importlib.import_module(m), n)\<close>: the class, or what
  importing it raises.
\<close>

definition resolve_actor_class ::
  "(string \<Rightarrow> string \<Rightarrow> class_obj res) \<Rightarrow> deployment \<Rightarrow> class_obj res" where
  "resolve_actor_class import_class dep =
     (case dep_actor_class dep of
        None \<Rightarrow> Inl ValueError
      | Some (ClassPath p) \<Rightarrow>
          (case rpartition_dot p of
             (module_path, class_name) \<Rightarrow>
               if module_path = [] then Inl ValueError else import_class module_path class_name)
      | Some (ClassObj c) \<Rightarrow> Inr c)"

text \<open>\<open>bool(getattr(cls, "CACHEABLE", True))\<close>, and True where the class does not resolve.\<close>

definition cacheable :: "(string \<Rightarrow> string \<Rightarrow> class_obj res) \<Rightarrow> deployment \<Rightarrow> bool" where
  "cacheable import_class dep =
     (case resolve_actor_class import_class dep of
        Inl _ \<Rightarrow> True
      | Inr c \<Rightarrow> (case cls_cacheable c of None \<Rightarrow> True | Some b \<Rightarrow> b))"

section \<open>Names and snapshots\<close>

text \<open>The actor's name: replica id, a fixed infix, model key.\<close>

definition dep_name :: "deployment \<Rightarrow> string" where
  "dep_name dep = dep_replica_id dep @ '':ModelActor:'' @ dep_model_key dep"

fun actor_class_repr :: "actor_class option \<Rightarrow> string option" where
  "actor_class_repr None = None"
| "actor_class_repr (Some (ClassPath p)) = Some p"
| "actor_class_repr (Some (ClassObj c)) = Some (cls_module c @ ''.'' @ cls_qualname c)"

definition dep_get_state :: "deployment \<Rightarrow> replica_state" where
  "dep_get_state dep =
     \<lparr>rs_model_key = dep_model_key dep, rs_replica_id = dep_replica_id dep,
      rs_deployment_level = level_value (dep_level dep), rs_gpus = dep_gpus dep,
      rs_size_bytes = dep_size_bytes dep, rs_pinned = dep_pinned dep,
      rs_node_id = dep_node_id dep,
      rs_execution_timeout_seconds = dep_execution_timeout_seconds dep,
      rs_actor_class = actor_class_repr (dep_actor_class dep),
      rs_deployed = dep_deployed dep\<rparr>"

definition end_time :: "deployment \<Rightarrow> rat \<Rightarrow> rat" where
  "end_time dep minimum_deployment_time_seconds =
     dep_deployed dep + minimum_deployment_time_seconds"

text \<open>Colons end the replica id: the ids are hex digits, so a name tells which actor it is.\<close>

lemma dep_name_inj:
  assumes eq: "dep_name d = dep_name e"
    and d: "CHR '':'' \<notin> set (dep_replica_id d)" and e: "CHR '':'' \<notin> set (dep_replica_id e)"
  shows "dep_replica_id d = dep_replica_id e \<and> dep_model_key d = dep_model_key e"
proof -
  have split: "takeWhile (\<lambda>c. c \<noteq> CHR '':'') (r @ CHR '':'' # s) = r" if "CHR '':'' \<notin> set r" for r s
    using that by (auto simp: takeWhile_append)
  have "dep_replica_id d = dep_replica_id e"
    using arg_cong[OF eq, of "takeWhile (\<lambda>c. c \<noteq> CHR '':'')"] split[OF d] split[OF e]
    by (simp add: dep_name_def)
  with eq show ?thesis by (simp add: dep_name_def)
qed

section \<open>Actor operations\<close>

text \<open>
  The environment \<open>create\<close> gives the actor: two fixed settings, then the providers'
  settings, then the service label, each overriding what came before.
\<close>

definition dict_merge :: "('k, 'v) dict \<Rightarrow> ('k, 'v) dict \<Rightarrow> ('k, 'v) dict" where
  "dict_merge d e = fold (\<lambda>(k, v) d. dict_set k v d) e d"

lemma map_of_dict_merge:
  "dict_wf e \<Longrightarrow> map_of (dict_merge d e) k = (case map_of e k of None \<Rightarrow> map_of d k | Some v \<Rightarrow> Some v)"
proof (induction e arbitrary: d)
  case (Cons x e)
  obtain a b where x: "x = (a, b)" by (cases x)
  from Cons.prems have e: "dict_wf e" and "a \<notin> fst ` set e" by (auto simp: dict_wf_def x)
  then have "map_of e a = None" by (simp add: map_of_eq_None_iff)
  then show ?case using Cons.IH[OF e, of "dict_set a b d"]
    by (auto simp: dict_merge_def x update_conv' split: option.splits)
qed (simp add: dict_merge_def)

text \<open>\<open>_provider_runtime_env\<close>: one update per provider, in the order Redis, object store,
  Loki, Influx; the arguments are what each \<open>to_env()\<close> returns.\<close>

definition provider_runtime_env ::
  "(string, string) dict \<Rightarrow> (string, string) dict \<Rightarrow> (string, string) dict \<Rightarrow>
   (string, string) dict \<Rightarrow> (string, string) dict" where
  "provider_runtime_env redis objectstore loki influx =
     foldl dict_merge [] [redis, objectstore, loki, influx]"

definition create_env :: "(string, string) dict \<Rightarrow> (string, string) dict" where
  "create_env providers =
     dict_set ''NDIF_SERVICE'' ''model''
       (dict_merge
          [(''RAY_EXPERIMENTAL_NOSET_CUDA_VISIBLE_DEVICES'', ''1''),
           (''PYTORCH_CUDA_ALLOC_CONF'', ''expandable_segments:True'')]
          providers)"

text \<open>\<open>BaseModelDeploymentArgs\<close>, the fields the controller sets.\<close>

record deployment_args =
  arg_model_key :: model_key
  arg_execution_timeout :: "rat option"
  arg_dtype :: "string option"
  arg_gpu_mem_bytes_by_id :: "(int, int) dict"

text \<open>The calls made on Ray, each naming the actor.\<close>

datatype actor_op =
    Kill string \<comment> \<open>\<open>ray.kill(actor, no_restart=True)\<close>\<close>
  | Restart string \<comment> \<open>\<open>ray.kill(actor, no_restart=False)\<close>\<close>
  | ToCache string
  | FromCache string "(int, int) dict"
  | CreateActor string string class_obj deployment_args "(string, string) dict"
      \<comment> \<open>name, node name, class, arguments, environment\<close>
  | AwaitCache string \<comment> \<open>\<open>ray.get(future)\<close>: blocks until the offload is over\<close>
  | Monitor string string \<comment> \<open>name, operation: the future is awaited in a task of its own\<close>

definition dep_delete :: "deployment \<Rightarrow> actor_op" where
  "dep_delete dep = Kill (dep_name dep)"

definition dep_restart :: "deployment \<Rightarrow> actor_op" where
  "dep_restart dep = Restart (dep_name dep)"

definition dep_cache :: "deployment \<Rightarrow> actor_op" where
  "dep_cache dep = ToCache (dep_name dep)"

definition dep_from_cache :: "deployment \<Rightarrow> actor_op" where
  "dep_from_cache dep = FromCache (dep_name dep) (dep_gpus dep)"

text \<open>\<open>create\<close>: nothing is created when the class does not resolve; the exception is only
  logged.\<close>

definition dep_create ::
  "(string \<Rightarrow> string \<Rightarrow> class_obj res) \<Rightarrow> (string, string) dict \<Rightarrow> deployment \<Rightarrow> string \<Rightarrow>
   deployment_args \<Rightarrow> actor_op list" where
  "dep_create import_class providers dep node_name args =
     (case resolve_actor_class import_class dep of
        Inl _ \<Rightarrow> []
      | Inr c \<Rightarrow>
          [CreateActor (dep_name dep) node_name c
             (args\<lparr>arg_gpu_mem_bytes_by_id := dep_gpus dep\<rparr>) (create_env providers)])"

end
