(* ===== verification/Evaluator.thy ===== *)
theory Evaluator
  imports Deployment
begin

text \<open>
  \<open>controller/cluster/evaluator.py\<close>: how much GPU memory a model takes and how it can be
  split, memoized per model key. The numbers come from nnsight, which is not part of the
  repository: \<open>hub\<close> holds the three calls made on it.
\<close>

section \<open>The tensor-parallel degree\<close>

text \<open>\<open>tp_degree\<close>: the first divisor of \<open>limit\<close> in \<open>range(gpus, limit + 1)\<close>.\<close>

definition tp_degree :: "int option \<Rightarrow> int \<Rightarrow> int option" where
  "tp_degree limit gpus =
     (case limit of
        None \<Rightarrow> None
      | Some l \<Rightarrow>
          if gpus < 2 then None
          else find (\<lambda>degree. l mod degree = 0) [gpus..l])"

section \<open>The evaluator's state and its environment\<close>

record checkpoint_description =
  desc_size_bytes :: int
  desc_n_params :: "int option"
  desc_config :: "string option"
  desc_revision :: "string option"

record hub =
  describe_checkpoint :: "model_key \<Rightarrow> string \<Rightarrow> checkpoint_description res"
  max_tp_size :: "model_key \<Rightarrow> int option res"
  bytes_per_element :: "string \<Rightarrow> rat"

record cache_entry =
  ce_base_size_in_bytes :: int
  ce_n_params :: int
  ce_config :: "string option"
  ce_revision :: "string option"
  ce_dtype :: string
  ce_max_tp :: "int option"

record evaluator =
  ev_padding_factor :: rat
  ev_padding_bias :: int
  ev_tp_model_actor_class :: "string option"
  ev_cache :: "(model_key, cache_entry) dict"

definition new_evaluator :: "rat \<Rightarrow> int \<Rightarrow> string option \<Rightarrow> evaluator" where
  "new_evaluator padding_factor padding_bias tp_class =
     \<lparr>ev_padding_factor = padding_factor, ev_padding_bias = padding_bias,
      ev_tp_model_actor_class = tp_class, ev_cache = []\<rparr>"

text \<open>\<open>_dtype_name\<close>. A dtype reaches the evaluator as a name (\<open>DeploymentConfig.dtype\<close> is a
  string), so the \<open>torch.dtype\<close> branch of the source is not taken.\<close>

definition dtype_name :: "string option \<Rightarrow> string" where
  "dtype_name d = (case d of None \<Rightarrow> ''bfloat16'' | Some s \<Rightarrow> s)"

text \<open>Python's \<open>round\<close>: to the nearest integer, ties to the even one.\<close>

definition py_round :: "rat \<Rightarrow> int" where
  "py_round x =
     (let lo = \<lfloor>x\<rfloor>; d = x - of_int lo in
      if d < 1/2 then lo else if d > 1/2 then lo + 1 else if even lo then lo else lo + 1)"

section \<open>Memoized entries\<close>

text \<open>\<open>_entry\<close>: the cached entry when it was computed for this dtype, else a fresh one, which
  replaces it. Either call on nnsight may raise; then nothing is stored.\<close>

definition ev_entry :: "hub \<Rightarrow> evaluator \<Rightarrow> model_key \<Rightarrow> string option \<Rightarrow> (evaluator, cache_entry) run" where
  "ev_entry h ev mk dtype =
     (let resolved = dtype_name dtype;
          compute =
            (case describe_checkpoint h mk resolved of
               Inl e \<Rightarrow> (ev, Inl e)
             | Inr described \<Rightarrow>
                 (case max_tp_size h mk of
                    Inl e \<Rightarrow> (ev, Inl e)
                  | Inr tp \<Rightarrow>
                      let base = desc_size_bytes described;
                          entry =
                            \<lparr>ce_base_size_in_bytes = base,
                             ce_n_params =
                               (case desc_n_params described of
                                  Some n \<Rightarrow> n
                                | None \<Rightarrow> py_round (of_int base / bytes_per_element h resolved)),
                             ce_config = desc_config described,
                             ce_revision = desc_revision described,
                             ce_dtype = resolved, ce_max_tp = tp\<rparr>
                      in (ev\<lparr>ev_cache := dict_set mk entry (ev_cache ev)\<rparr>, Inr entry)))
      in case map_of (ev_cache ev) mk of
           Some c \<Rightarrow> if ce_dtype c = resolved then (ev, Inr c) else compute
         | None \<Rightarrow> compute)"

text \<open>\<open>prefetch\<close>: the entry, for its effect on the cache only.\<close>

definition prefetch :: "hub \<Rightarrow> evaluator \<Rightarrow> model_key \<Rightarrow> string option \<Rightarrow> evaluator" where
  "prefetch h ev mk dtype = fst (ev_entry h ev mk dtype)"

section \<open>The padded size\<close>

definition padded :: "int \<Rightarrow> rat \<Rightarrow> int \<Rightarrow> int" where
  "padded base padding bias = \<lceil>of_int base + of_int base * padding + of_int bias\<rceil>"

text \<open>\<open>ModelEvaluator.__call__\<close>: a failure to describe the model is returned as the exception,
  unless the caller named the size.\<close>

definition ev_call ::
  "hub \<Rightarrow> evaluator \<Rightarrow> model_key \<Rightarrow> rat option \<Rightarrow> string option \<Rightarrow> int option \<Rightarrow> int option \<Rightarrow>
   (evaluator, int) run" where
  "ev_call h ev mk padding_factor dtype size_bytes padding_bias =
     (let effective_padding = (case padding_factor of Some p \<Rightarrow> p | None \<Rightarrow> ev_padding_factor ev);
          effective_bias = (case padding_bias of Some b \<Rightarrow> b | None \<Rightarrow> ev_padding_bias ev)
      in case size_bytes of
           None \<Rightarrow>
             bind_run (ev_entry h ev mk dtype)
               (\<lambda>ev' c. (ev', Inr (padded (ce_base_size_in_bytes c) effective_padding effective_bias)))
         | Some base \<Rightarrow>
             (fst (ev_entry h ev mk dtype), Inr (padded base effective_padding effective_bias)))"

section \<open>The largest degree, and the class that serves it\<close>

definition tp_enabled :: "evaluator \<Rightarrow> bool" where
  "tp_enabled ev \<longleftrightarrow> ev_tp_model_actor_class ev \<noteq> None"

text \<open>\<open>max_tp\<close>: the override caps the model's own limit, and stands in for it where there is
  none to read.\<close>

definition ev_max_tp ::
  "hub \<Rightarrow> evaluator \<Rightarrow> model_key \<Rightarrow> string option \<Rightarrow> int option \<Rightarrow> evaluator \<times> int option" where
  "ev_max_tp h ev mk dtype override =
     (if \<not> tp_enabled ev then (ev, None)
      else if override = Some 0 then (ev, None)
      else
        (case ev_entry h ev mk dtype of
           (ev', Inl CheckpointUnreachable) \<Rightarrow>
             (ev', if override \<noteq> None then override else None)
         | (ev', Inl _) \<Rightarrow> (ev', override)
         | (ev', Inr c) \<Rightarrow>
             (case override of
                None \<Rightarrow> (ev', ce_max_tp c)
              | Some v \<Rightarrow>
                  (case ce_max_tp c of
                     None \<Rightarrow> (ev', Some v)
                   | Some limit \<Rightarrow> (ev', Some (min v limit))))))"

text \<open>\<open>actor_class\<close>: the tensor-parallel class exactly when the model splits evenly into the
  cards the replica got.\<close>

definition ev_actor_class ::
  "hub \<Rightarrow> evaluator \<Rightarrow> model_key \<Rightarrow> int \<Rightarrow> actor_class \<Rightarrow> string option \<Rightarrow> int option \<Rightarrow>
   evaluator \<times> actor_class" where
  "ev_actor_class h ev mk gpus dflt dtype max_tp_override =
     (case ev_tp_model_actor_class ev of
        None \<Rightarrow> (ev, dflt)
      | Some tp_class \<Rightarrow>
          if gpus < 2 then (ev, dflt)
          else
            (case ev_max_tp h ev mk dtype max_tp_override of
               (ev', limit) \<Rightarrow>
                 if tp_degree limit gpus \<noteq> Some gpus then (ev', dflt)
                 else (ev', ClassPath tp_class)))"

section \<open>The degree is the least one that works\<close>

lemma find_upto_Some:
  "find P [i..j] = Some k \<Longrightarrow> i \<le> k \<and> k \<le> j \<and> P k \<and> (\<forall>m. i \<le> m \<and> m < k \<longrightarrow> \<not> P m)"
proof (induction "nat (j - i + 1)" arbitrary: i)
  case 0
  then show ?case by simp
next
  case (Suc n)
  then have ij: "i \<le> j" by simp
  then have u: "[i..j] = i # [i+1..j]" by (simp add: upto_rec1)
  show ?case
  proof (cases "P i")
    case True
    with Suc.prems u show ?thesis using ij by auto
  next
    case False
    with Suc.prems u have "find P [i+1..j] = Some k" by simp
    moreover have "n = nat (j - (i + 1) + 1)" using Suc.hyps(2) ij by simp
    ultimately have "i + 1 \<le> k \<and> k \<le> j \<and> P k \<and> (\<forall>m. i + 1 \<le> m \<and> m < k \<longrightarrow> \<not> P m)"
      using Suc.hyps(1) by blast
    with False show ?thesis by (metis add1_zle_eq order_le_less order_trans zle_add1_eq_le)
  qed
qed

lemma find_upto_None: "find P [i..j] = None \<longleftrightarrow> (\<forall>m. i \<le> m \<and> m \<le> j \<longrightarrow> \<not> P m)"
  by (auto simp: find_None_iff)

lemma tp_degree_SomeD:
  assumes "tp_degree limit g = Some d"
  obtains l where "limit = Some l" "2 \<le> g" "g \<le> d" "d \<le> l" "l mod d = 0"
    "\<And>m. g \<le> m \<Longrightarrow> m < d \<Longrightarrow> l mod m \<noteq> 0"
  using assms
  by (auto simp: tp_degree_def dest!: find_upto_Some split: option.splits if_splits)

text \<open>The degree \<open>tp_degree\<close> picks for \<open>g\<close> cards is the least divisor of the model's
  limit that is at least \<open>g\<close>, for every limit and every count of two or more cards; and it
  answers \<open>None\<close> exactly where there is no such divisor.\<close>

theorem tp_degree_least_divisor:
  assumes "2 \<le> g" and "0 < l"
  shows "(\<forall>d. tp_degree (Some l) g = Some d \<longleftrightarrow>
            g \<le> d \<and> d dvd l \<and> (\<forall>m. g \<le> m \<and> m dvd l \<longrightarrow> d \<le> m)) \<and>
         (tp_degree (Some l) g = None \<longleftrightarrow> \<not> (\<exists>d. g \<le> d \<and> d dvd l))"
proof -
  have le: "d \<le> l" if "d dvd l" for d using that assms(2) by (rule zdvd_imp_le)
  have "tp_degree (Some l) g = None \<longleftrightarrow> (\<forall>m. g \<le> m \<and> m \<le> l \<longrightarrow> \<not> m dvd l)"
    using assms by (simp add: tp_degree_def find_upto_None dvd_eq_mod_eq_0)
  with le have none: "tp_degree (Some l) g = None \<longleftrightarrow> \<not> (\<exists>d. g \<le> d \<and> d dvd l)" by blast
  have some: "g \<le> d \<and> d dvd l \<and> (\<forall>m. g \<le> m \<and> m dvd l \<longrightarrow> d \<le> m)"
    if "tp_degree (Some l) g = Some d" for d
    using that by (elim tp_degree_SomeD) (simp add: dvd_eq_mod_eq_0, metis not_le)
  have "tp_degree (Some l) g = Some d"
    if d: "g \<le> d \<and> d dvd l \<and> (\<forall>m. g \<le> m \<and> m dvd l \<longrightarrow> d \<le> m)" for d
  proof -
    obtain d' where d': "tp_degree (Some l) g = Some d'"
      using none d by (cases "tp_degree (Some l) g") auto
    from some[OF d'] d have "d' \<le> d" and "d \<le> d'" by blast+
    then have "d' = d" by simp
    with d' show ?thesis by simp
  qed
  with some none show ?thesis by blast
qed

theorem tp_degree_least_divisor_witness:
  "tp_degree (Some 8) 3 = Some 4 \<and> (2::int) \<le> 3 \<and> (0::int) < 8"
proof -
  have "\<forall>m::int. 3 \<le> m \<and> m dvd 8 \<longrightarrow> 4 \<le> m"
  proof (intro allI impI)
    fix m :: int assume "3 \<le> m \<and> m dvd 8"
    then show "4 \<le> m" by (cases "m = 3") auto
  qed
  then show ?thesis using tp_degree_least_divisor[of 3 8] by auto
qed

section \<open>The evaluator's answers\<close>

text \<open>The entry answered for a dtype was computed for it, and is in the cache afterwards.\<close>

lemma ev_entry_Inr:
  assumes "ev_entry h ev mk dtype = (ev', Inr c)"
  shows "ce_dtype c = dtype_name dtype \<and> map_of (ev_cache ev') mk = Some c"
  using assms
  by (auto simp: ev_entry_def Let_def update_conv' split: option.splits if_splits sum.splits)

lemma ev_entry_Inl: "ev_entry h ev mk dtype = (ev', Inl e) \<Longrightarrow> ev' = ev"
  by (auto simp: ev_entry_def Let_def split: option.splits if_splits sum.splits)

lemma ev_entry_frame:
  "ev_padding_factor (fst (ev_entry h ev mk dtype)) = ev_padding_factor ev"
  "ev_padding_bias (fst (ev_entry h ev mk dtype)) = ev_padding_bias ev"
  "ev_tp_model_actor_class (fst (ev_entry h ev mk dtype)) = ev_tp_model_actor_class ev"
  by (auto simp: ev_entry_def Let_def split: option.splits if_splits sum.splits)

lemma ev_entry_hit:
  "map_of (ev_cache ev) mk = Some c \<Longrightarrow> ce_dtype c = dtype_name dtype \<Longrightarrow>
   ev_entry h ev mk dtype = (ev, Inr c)"
  by (simp add: ev_entry_def Let_def)

text \<open>Memoization is transparent to the network: once an entry for a model and a dtype was
  obtained, the evaluator gives the same entry again for that dtype whatever nnsight answers
  then (a Hub that became unreachable included), and does not change.\<close>

lemma ev_entry_memoized:
  assumes "ev_entry h ev mk dtype = (ev', Inr c)"
  shows "ev_entry h' ev' mk dtype = (ev', Inr c)"
  using ev_entry_Inr[OF assms] by (simp add: ev_entry_hit)

end
