(* ===== verification/Node.thy ===== *)
theory Node
  imports Evaluator
begin

text \<open>
  \<open>controller/cluster/node.py\<close>: a GPU node, its resources, its HOT deployments and its WARM
  cache; the candidate a node makes for a replica (\<open>evaluate\<close>), and the two operations that
  change it (\<open>deploy\<close>, \<open>evict\<close>). The invariant \<open>node_inv\<close> and the lemmas that the
  operations keep it are in the theory \<open>Node_Inv\<close>.
\<close>

section \<open>What the interpreter supplies\<close>

text \<open>
  The clock (one reading per operation), the import system, \<open>uuid4().hex[:5]\<close> (the k-th id
  drawn), \<open>random.choice\<close> (the index drawn for the k-th choice among n), and the order in
  which \<open>list\<close> enumerates a set.
\<close>

record runtime =
  rt_now :: rat
  rt_import_class :: "string \<Rightarrow> string \<Rightarrow> class_obj res"
  rt_uuid :: "nat \<Rightarrow> replica_id"
  rt_choice :: "nat \<Rightarrow> nat \<Rightarrow> nat"
  rt_set_list :: "replica_key list \<Rightarrow> replica_key list"

text \<open>\<open>list\<close> of a set yields each element exactly once (the set is given by its elements);
  \<open>random.choice\<close> picks one of what it is given.\<close>

definition rt_ok :: "runtime \<Rightarrow> bool" where
  "rt_ok rt \<longleftrightarrow>
     (\<forall>xs. distinct (rt_set_list rt xs) \<and> set (rt_set_list rt xs) = set xs) \<and>
     (\<forall>k m. 0 < m \<longrightarrow> rt_choice rt k m < m)"

section \<open>Candidates\<close>

datatype candidate_level =
    DEPLOYED | CACHED_AND_FREE | FREE | CACHED_AND_FULL | FULL | CANT_ACCOMMODATE

text \<open>The values of the \<open>IntEnum\<close>, by which the levels compare.\<close>

fun candidate_value :: "candidate_level \<Rightarrow> nat" where
  "candidate_value DEPLOYED = 0"
| "candidate_value CACHED_AND_FREE = 1"
| "candidate_value FREE = 2"
| "candidate_value CACHED_AND_FULL = 3"
| "candidate_value FULL = 4"
| "candidate_value CANT_ACCOMMODATE = 5"

lemma candidate_value_inj: "candidate_value a = candidate_value b \<Longrightarrow> a = b"
  by (cases a; cases b) simp_all

instantiation candidate_level :: linorder
begin

definition less_eq_candidate_level :: "candidate_level \<Rightarrow> candidate_level \<Rightarrow> bool" where
  "less_eq_candidate_level a b \<longleftrightarrow> candidate_value a \<le> candidate_value b"

definition less_candidate_level :: "candidate_level \<Rightarrow> candidate_level \<Rightarrow> bool" where
  "less_candidate_level a b \<longleftrightarrow> candidate_value a < candidate_value b"

instance
  by standard
    (auto simp: less_eq_candidate_level_def less_candidate_level_def intro: candidate_value_inj)

end

record candidate =
  cand_level :: candidate_level
  cand_gpus :: "(int, int) dict"
  cand_evictions :: "replica_key list"
  cand_reason :: "reason option"

definition cant_accommodate :: "reason option \<Rightarrow> candidate" where
  "cant_accommodate r =
     \<lparr>cand_level = CANT_ACCOMMODATE, cand_gpus = [], cand_evictions = [], cand_reason = r\<rparr>"

section \<open>GPU and CPU resources\<close>

record gpu =
  gpu_index :: int
  gpu_memory_bytes :: int
  gpu_available :: int

definition new_gpu :: "int \<Rightarrow> int \<Rightarrow> gpu" where
  "new_gpu i m = \<lparr>gpu_index = i, gpu_memory_bytes = m, gpu_available = m\<rparr>"

definition gpu_fits :: "gpu \<Rightarrow> int \<Rightarrow> bool" where
  "gpu_fits g sz \<longleftrightarrow> gpu_available g \<ge> sz"

record gpu_resources =
  gr_gpu_type :: string
  gr_gpus :: "gpu list"

definition gr_total :: "gpu_resources \<Rightarrow> int" where
  "gr_total r = int (length (gr_gpus r))"

definition gr_memory_bytes :: "gpu_resources \<Rightarrow> int" where
  "gr_memory_bytes r = (case gr_gpus r of [] \<Rightarrow> 0 | g # _ \<Rightarrow> gpu_memory_bytes g)"

definition gr_required :: "gpu_resources \<Rightarrow> int \<Rightarrow> int res" where
  "gr_required r sz =
     (if gr_memory_bytes r = 0 then Inl ValueError
      else Inr (ceil_div sz (gr_memory_bytes r)))"

definition gr_fitting :: "gpu_resources \<Rightarrow> int \<Rightarrow> gpu list" where
  "gr_fitting r sz = sort_key gpu_available (filter (\<lambda>g. gpu_fits g sz) (gr_gpus r))"

text \<open>
  \<open>gpu_map[idx].available_memory_bytes += delta\<close>, where \<open>gpu_map\<close> has the last GPU of each
  index.
\<close>

fun gpu_adjust :: "int \<Rightarrow> int \<Rightarrow> gpu list \<Rightarrow> gpu list" where
  "gpu_adjust idx delta [] = []"
| "gpu_adjust idx delta (g # gs) =
     (if gpu_index g = idx \<and> idx \<notin> gpu_index ` set gs
      then g\<lparr>gpu_available := gpu_available g + delta\<rparr> # gs
      else g # gpu_adjust idx delta gs)"

text \<open>The loop of \<open>allocate\<close> (\<open>sign\<close> is -1) and \<open>release\<close> (1); an unknown index raises
  \<open>KeyError\<close> after the earlier ones were written.\<close>

fun gpu_adjust_all :: "int \<Rightarrow> (int, int) dict \<Rightarrow> gpu list \<Rightarrow> (gpu list, unit) run" where
  "gpu_adjust_all sign [] gs = (gs, Inr ())"
| "gpu_adjust_all sign ((idx, bytes) # rest) gs =
     (if idx \<in> gpu_index ` set gs then gpu_adjust_all sign rest (gpu_adjust idx (sign * bytes) gs)
      else (gs, Inl KeyError))"

definition gr_allocate :: "gpu_resources \<Rightarrow> (int, int) dict \<Rightarrow> (gpu_resources, unit) run" where
  "gr_allocate r allocation =
     (case gpu_adjust_all (- 1) allocation (gr_gpus r) of (gs, x) \<Rightarrow> (r\<lparr>gr_gpus := gs\<rparr>, x))"

definition gr_release :: "gpu_resources \<Rightarrow> (int, int) dict \<Rightarrow> (gpu_resources, unit) run" where
  "gr_release r allocation =
     (case gpu_adjust_all 1 allocation (gr_gpus r) of (gs, x) \<Rightarrow> (r\<lparr>gr_gpus := gs\<rparr>, x))"

record cpu_resources =
  cr_memory_bytes :: rat
  cr_available :: rat

definition cr_allocate :: "cpu_resources \<Rightarrow> int \<Rightarrow> cpu_resources" where
  "cr_allocate c sz = c\<lparr>cr_available := cr_available c - of_int sz\<rparr>"

definition cr_release :: "cpu_resources \<Rightarrow> int \<Rightarrow> cpu_resources" where
  "cr_release c sz = c\<lparr>cr_available := cr_available c + of_int sz\<rparr>"

section \<open>The node\<close>

type_synonym replica_table = "(model_key, replica_id, deployment) nested"

record node =
  nd_id :: node_id
  nd_name :: string
  nd_gpu :: gpu_resources
  nd_cpu :: cpu_resources
  nd_min_time :: "rat option"
  nd_deployments :: replica_table
  nd_cache :: replica_table

definition new_node ::
  "node_id \<Rightarrow> string \<Rightarrow> gpu_resources \<Rightarrow> cpu_resources \<Rightarrow> rat option \<Rightarrow> node" where
  "new_node i name gr cr min_time =
     \<lparr>nd_id = i, nd_name = name, nd_gpu = gr, nd_cpu = cr, nd_min_time = min_time,
      nd_deployments = [], nd_cache = []\<rparr>"

definition iter_deployments :: "node \<Rightarrow> (replica_key \<times> deployment) list" where
  "iter_deployments n = nitems (nd_deployments n)"

definition iter_cache :: "node \<Rightarrow> (replica_key \<times> deployment) list" where
  "iter_cache n = nitems (nd_cache n)"

record node_state =
  ns_id :: node_id
  ns_name :: string
  ns_gpu_type :: string
  ns_total_gpus :: int
  ns_gpu_memory_bytes :: int
  ns_cpu_memory_bytes :: rat
  ns_available_cpu_memory_bytes :: rat
  ns_gpu_details :: "gpu list"
  ns_deployments :: "replica_state list"
  ns_num_deployments :: nat
  ns_cache :: "replica_state list"
  ns_cache_size :: int

definition nd_get_state :: "node \<Rightarrow> node_state" where
  "nd_get_state n =
     \<lparr>ns_id = nd_id n, ns_name = nd_name n, ns_gpu_type = gr_gpu_type (nd_gpu n),
      ns_total_gpus = gr_total (nd_gpu n), ns_gpu_memory_bytes = gr_memory_bytes (nd_gpu n),
      ns_cpu_memory_bytes = cr_memory_bytes (nd_cpu n),
      ns_available_cpu_memory_bytes = cr_available (nd_cpu n),
      ns_gpu_details = gr_gpus (nd_gpu n),
      ns_deployments = map (\<lambda>(_, d). dep_get_state d) (iter_deployments n),
      ns_num_deployments = sum_list (map (\<lambda>(_, replicas). length replicas) (nd_deployments n)),
      ns_cache = map (\<lambda>(_, d). dep_get_state d) (iter_cache n),
      ns_cache_size = sum_list (map (\<lambda>(_, d). dep_size_bytes d) (iter_cache n))\<rparr>"

section \<open>Evicting a replica\<close>

text \<open>\<open>exclude is not None and model_key in exclude\<close>\<close>

definition excluded :: "model_key set option \<Rightarrow> model_key \<Rightarrow> bool" where
  "excluded exclude mk = (case exclude of None \<Rightarrow> False | Some s \<Rightarrow> mk \<in> s)"

text \<open>The loop of \<open>find_cache_evictions\<close>: cached replicas until \<open>needed\<close> bytes are freed.\<close>

fun cache_evictions_loop ::
  "model_key set option \<Rightarrow> rat \<Rightarrow> deployment list \<Rightarrow> deployment list \<Rightarrow> deployment list option" where
  "cache_evictions_loop exclude needed evictions [] = None"
| "cache_evictions_loop exclude needed evictions (d # ds) =
     (if excluded exclude (dep_model_key d) then cache_evictions_loop exclude needed evictions ds
      else
        let evictions' = evictions @ [d]; needed' = needed - of_int (dep_size_bytes d) in
        if needed' \<le> 0 then Some evictions'
        else cache_evictions_loop exclude needed' evictions' ds)"

definition find_cache_evictions ::
  "node \<Rightarrow> int \<Rightarrow> model_key set option \<Rightarrow> deployment list option" where
  "find_cache_evictions n sz exclude =
     (let needed = of_int sz - cr_available (nd_cpu n) in
      if needed \<le> 0 then Some []
      else cache_evictions_loop exclude needed []
             (sort_key dep_size_bytes (map snd (iter_cache n))))"

text \<open>Dropping the cached replicas \<open>find_cache_evictions\<close> listed.\<close>

fun drop_cached :: "node \<Rightarrow> deployment list \<Rightarrow> (node, unit) run" where
  "drop_cached n [] = (n, Inr ())"
| "drop_cached n (d # ds) =
     (let k = (dep_model_key d, dep_replica_id d) in
      if nget (nd_cache n) k = None then (n, Inl KeyError)
      else drop_cached
             (n\<lparr>nd_cache := ndel k (nd_cache n),
                nd_cpu := cr_release (nd_cpu n) (dep_size_bytes d)\<rparr>) ds)"

text \<open>The WARM record a demoted replica gets; it keeps the id, the size, the class and the
  dtype.\<close>

definition demoted :: "runtime \<Rightarrow> node \<Rightarrow> replica_id \<Rightarrow> deployment \<Rightarrow> deployment" where
  "demoted rt n rid dep =
     \<lparr>dep_model_key = dep_model_key dep, dep_replica_id = rid, dep_level = WARM, dep_gpus = [],
      dep_size_bytes = dep_size_bytes dep, dep_pinned = False, dep_node_id = Some (nd_id n),
      dep_execution_timeout_seconds = None, dep_actor_class = dep_actor_class dep,
      dep_dtype = dep_dtype dep, dep_deployed = rt_now rt\<rparr>"

text \<open>\<open>Node.evict\<close>: a WARM replica is dropped; a HOT one gives its GPUs back and is parked in
  the cache when it may be and there is, or can be made, CPU room.\<close>

definition nd_evict ::
  "runtime \<Rightarrow> node \<Rightarrow> replica_key \<Rightarrow> model_key set option \<Rightarrow> (node, unit) run" where
  "nd_evict rt n k exclude =
     (case nget (nd_cache n) k of
        Some cached \<Rightarrow>
          (n\<lparr>nd_cache := ndel k (nd_cache n),
             nd_cpu := cr_release (nd_cpu n) (dep_size_bytes cached)\<rparr>, Inr ())
      | None \<Rightarrow>
          (case nget (nd_deployments n) k of
             None \<Rightarrow> (n, Inl KeyError)
           | Some dep \<Rightarrow>
               (case gr_release (nd_gpu n) (dep_gpus dep) of
                  (gr, Inl e) \<Rightarrow> (n\<lparr>nd_gpu := gr\<rparr>, Inl e)
                | (gr, Inr _) \<Rightarrow>
                    let n1 = n\<lparr>nd_gpu := gr\<rparr>;
                        cache_evictions =
                          (if cacheable (rt_import_class rt) dep
                           then find_cache_evictions n1 (dep_size_bytes dep) exclude else None)
                    in case cache_evictions of
                         None \<Rightarrow> (n1\<lparr>nd_deployments := ndel k (nd_deployments n1)\<rparr>, Inr ())
                       | Some evs \<Rightarrow>
                           bind_run (drop_cached n1 evs)
                             (\<lambda>n2 _.
                                (n2\<lparr>nd_deployments := ndel k (nd_deployments n2),
                                    nd_cpu := cr_allocate (nd_cpu n2) (dep_size_bytes dep),
                                    nd_cache := nput k (demoted rt n2 (snd k) dep) (nd_cache n2)\<rparr>,
                                 Inr ())))))"

section \<open>Placing a replica\<close>

text \<open>The evictions a candidate asks for, in its order.\<close>

fun nd_evict_all ::
  "runtime \<Rightarrow> node \<Rightarrow> replica_key list \<Rightarrow> model_key set option \<Rightarrow> (node, unit) run" where
  "nd_evict_all rt n [] exclude = (n, Inr ())"
| "nd_evict_all rt n (k # ks) exclude =
     bind_run (nd_evict rt n k exclude) (\<lambda>n' _. nd_evict_all rt n' ks exclude)"

text \<open>The WARM replica a placement promotes, if the model has one: its id is reused, its CPU
  memory given back.\<close>

definition promote :: "node \<Rightarrow> model_key \<Rightarrow> node \<times> replica_id option" where
  "promote n mk =
     (case map_of (nd_cache n) mk of
        Some ((rid, cached) # _) \<Rightarrow>
          (n\<lparr>nd_cache := ndel (mk, rid) (nd_cache n),
             nd_cpu := cr_release (nd_cpu n) (dep_size_bytes cached)\<rparr>, Some rid)
      | _ \<Rightarrow> (n, None))"

text \<open>\<open>Node.deploy\<close>; \<open>fresh\<close> is what \<open>_new_replica_id()\<close> would return.\<close>

definition nd_deploy ::
  "runtime \<Rightarrow> replica_id \<Rightarrow> node \<Rightarrow> model_key \<Rightarrow> candidate \<Rightarrow> int \<Rightarrow> bool \<Rightarrow> model_key set option \<Rightarrow>
   rat option \<Rightarrow> actor_class option \<Rightarrow> string option \<Rightarrow> (node, replica_id) run" where
  "nd_deploy rt fresh n mk cand sz pinned exclude timeout cls dtype =
     bind_run (nd_evict_all rt n (cand_evictions cand) exclude)
       (\<lambda>n1 _.
          case gr_allocate (nd_gpu n1) (cand_gpus cand) of
            (gr, Inl e) \<Rightarrow> (n1\<lparr>nd_gpu := gr\<rparr>, Inl e)
          | (gr, Inr _) \<Rightarrow>
              (case promote (n1\<lparr>nd_gpu := gr\<rparr>) mk of
                 (n2, reused) \<Rightarrow>
                   let rid = (case reused of Some r \<Rightarrow> r | None \<Rightarrow> fresh);
                       dep =
                         \<lparr>dep_model_key = mk, dep_replica_id = rid, dep_level = HOT,
                          dep_gpus = cand_gpus cand, dep_size_bytes = sz, dep_pinned = pinned,
                          dep_node_id = Some (nd_id n2), dep_execution_timeout_seconds = timeout,
                          dep_actor_class = cls, dep_dtype = dtype, dep_deployed = rt_now rt\<rparr>
                   in (n2\<lparr>nd_deployments := nput (mk, rid) dep (nd_deployments n2)\<rparr>, Inr rid)))"

section \<open>Finding room\<close>

definition evictable :: "runtime \<Rightarrow> node \<Rightarrow> deployment \<Rightarrow> bool \<Rightarrow> bool" where
  "evictable rt n dep pinned =
     (if dep_pinned dep then False
      else if \<not> pinned \<and>
              (case nd_min_time n of
                 None \<Rightarrow> False
               | Some t \<Rightarrow> rt_now rt - dep_deployed dep < t)
      then False
      else True)"

text \<open>The HOT replicas that may go, in iteration order.\<close>

definition evictable_items ::
  "runtime \<Rightarrow> node \<Rightarrow> bool \<Rightarrow> model_key set option \<Rightarrow> (replica_key \<times> deployment) list" where
  "evictable_items rt n pinned exclude =
     filter (\<lambda>(k, d). \<not> excluded exclude (fst k) \<and> evictable rt n d pinned) (iter_deployments n)"

text \<open>\<open>occupants_by_gpu[idx]\<close>: what each of them holds on one GPU.\<close>

definition occupants :: "(replica_key \<times> deployment) list \<Rightarrow> int \<Rightarrow> (replica_key \<times> int) list" where
  "occupants items idx =
     concat (map (\<lambda>(k, d). map (\<lambda>(_, b). (k, b)) (filter (\<lambda>(i, _). i = idx) (dep_gpus d))) items)"

text \<open>The inner loop: occupants, smallest first, until \<open>needed\<close> bytes are freed.\<close>

fun free_loop ::
  "int \<Rightarrow> int \<Rightarrow> replica_key list \<Rightarrow> (replica_key \<times> int) list \<Rightarrow> int \<times> replica_key list" where
  "free_loop needed freed ks [] = (freed, ks)"
| "free_loop needed freed ks ((k, bytes) # occ) =
     (let ks' = ks @ [k]; freed' = freed + bytes in
      if needed \<le> freed' then (freed', ks') else free_loop needed freed' ks' occ)"

text \<open>The plan for one GPU: which replicas to evict to have \<open>per_gpu\<close> bytes there, if that can
  be done.\<close>

definition gpu_plan ::
  "(replica_key \<times> deployment) list \<Rightarrow> int \<Rightarrow> gpu \<Rightarrow> (int \<times> replica_key list) option" where
  "gpu_plan items per_gpu g =
     (let needed = per_gpu - gpu_available g in
      if needed \<le> 0 then Some (gpu_index g, [])
      else
        (case free_loop needed 0 [] (sort_key snd (occupants items (gpu_index g))) of
           (freed, ks) \<Rightarrow> if needed \<le> freed then Some (gpu_index g, ks) else None))"

text \<open>\<open>Node.find_evictions\<close>\<close>

definition find_evictions ::
  "runtime \<Rightarrow> node \<Rightarrow> int \<Rightarrow> int \<Rightarrow> bool \<Rightarrow> model_key set option \<Rightarrow>
   (replica_key list \<times> (int, int) dict) res" where
  "find_evictions rt n gpus_needed per_gpu pinned exclude =
     (let items = evictable_items rt n pinned exclude;
          gs = gr_gpus (nd_gpu n) in
      if \<not> (\<forall>(k, d) \<in> set items. fst ` set (dep_gpus d) \<subseteq> gpu_index ` set gs) then Inl KeyError
      else
        let gpu_plans = List.map_filter (gpu_plan items per_gpu) gs in
        if int (length gpu_plans) < gpus_needed then Inr ([], [])
        else
          let chosen = py_take gpus_needed (sort_key (\<lambda>p. length (snd p)) gpu_plans) in
          Inr (rt_set_list rt (concat (map snd chosen)),
               fold (\<lambda>(i, _) d. dict_set i per_gpu d) chosen []))"

text \<open>\<open>Node.evaluate\<close>\<close>

definition gpus_needed_for ::
  "node \<Rightarrow> int \<Rightarrow> int option \<Rightarrow> int option \<Rightarrow> (reason + int) res" where
  "gpus_needed_for n sz max_tp gpus =
     (case gpus of
        Some g \<Rightarrow>
          (case max_tp of
             Some l \<Rightarrow>
               if g > 1 \<and> tp_degree max_tp g \<noteq> Some g then Inr (Inl (UnevenSplit g l))
               else Inr (Inr g)
           | None \<Rightarrow> Inr (Inr g))
      | None \<Rightarrow>
          bind_res (gr_required (nd_gpu n) sz)
            (\<lambda>needed.
               case tp_degree max_tp needed of
                 Some degree \<Rightarrow> Inr (Inr (if degree > needed then degree else needed))
               | None \<Rightarrow> Inr (Inr needed)))"

definition nd_evaluate ::
  "runtime \<Rightarrow> node \<Rightarrow> model_key \<Rightarrow> int \<Rightarrow> bool \<Rightarrow> model_key set option \<Rightarrow> int option \<Rightarrow> int option \<Rightarrow>
   int option \<Rightarrow> candidate res" where
  "nd_evaluate rt n mk sz pinned exclude max_tp gpus per_gpu_bytes =
     (let cached = (case map_of (nd_cache n) mk of None \<Rightarrow> False | Some rs \<Rightarrow> rs \<noteq> []) in
      bind_res (gpus_needed_for n sz max_tp gpus)
        (\<lambda>r. case r of
           Inl rsn \<Rightarrow> Inr (cant_accommodate (Some rsn))
         | Inr gpus_needed \<Rightarrow>
             if gpus_needed > gr_total (nd_gpu n) then Inr (cant_accommodate None)
             else
               bind_res
                 (case per_gpu_bytes of
                    Some b \<Rightarrow> Inr b
                  | None \<Rightarrow>
                      if gpus_needed = 0 then Inl ZeroDivisionError
                      else Inr (ceil_div sz gpus_needed))
                 (\<lambda>per_gpu.
                    let fitting = gr_fitting (nd_gpu n) per_gpu in
                    if int (length fitting) \<ge> gpus_needed then
                      Inr \<lparr>cand_level = (if cached then CACHED_AND_FREE else FREE),
                           cand_gpus =
                             fold (\<lambda>g d. dict_set (gpu_index g) per_gpu d)
                               (py_take gpus_needed fitting) [],
                           cand_evictions = [], cand_reason = None\<rparr>
                    else
                      bind_res (find_evictions rt n gpus_needed per_gpu pinned exclude)
                        (\<lambda>(evictions, gs).
                           if gs = [] then Inr (cant_accommodate None)
                           else
                             Inr \<lparr>cand_level = (if cached then CACHED_AND_FULL else FULL),
                                  cand_gpus = gs, cand_evictions = evictions,
                                  cand_reason = None\<rparr>))))"

text \<open>\<open>Node.purge\<close>: every replica's actor is deleted.\<close>

definition nd_purge :: "node \<Rightarrow> actor_op list" where
  "nd_purge n = map (\<lambda>(_, d). dep_delete d) (iter_deployments n @ iter_cache n)"

end
