(* ===== verification/Node_Inv.thy ===== *)
theory Node_Inv
  imports Node
begin

text \<open>
  The invariant of a node and what keeps it. A node is a HOT side (its GPUs and its
  \<open>deployments\<close>) and a WARM side (its CPU budget and its \<open>cache\<close>). On each side the books
  balance, so that what is available is the capacity less what the recorded replicas take, and
  nothing is over-committed; no replica is on both sides.
\<close>

section \<open>Accounts\<close>

text \<open>What an allocation takes of one GPU.\<close>

definition alloc_at :: "(int, int) dict \<Rightarrow> int \<Rightarrow> int" where
  "alloc_at a i = (case map_of a i of None \<Rightarrow> 0 | Some b \<Rightarrow> b)"

abbreviation alloc_on :: "deployment \<Rightarrow> int \<Rightarrow> int" where
  "alloc_on d \<equiv> alloc_at (dep_gpus d)"

definition used :: "replica_table \<Rightarrow> int \<Rightarrow> int" where
  "used D i = sum_list (map (\<lambda>(k, d). alloc_on d i) (nitems D))"

definition cached_bytes :: "replica_table \<Rightarrow> int" where
  "cached_bytes C = sum_list (map (\<lambda>(k, d). dep_size_bytes d) (nitems C))"

definition dep_key :: "deployment \<Rightarrow> replica_key" where
  "dep_key d = (dep_model_key d, dep_replica_id d)"

text \<open>An allocation on the GPUs of a node.\<close>

definition alloc_ok :: "gpu list \<Rightarrow> (int, int) dict \<Rightarrow> bool" where
  "alloc_ok gs a \<longleftrightarrow>
     dict_wf a \<and> fst ` set a \<subseteq> gpu_index ` set gs \<and> (\<forall>b \<in> snd ` set a. 0 \<le> b)"

definition hot_ok :: "gpu list \<Rightarrow> replica_key \<Rightarrow> deployment \<Rightarrow> bool" where
  "hot_ok gs k d \<longleftrightarrow>
     dep_key d = k \<and> dep_level d = HOT \<and> 0 \<le> dep_size_bytes d \<and> alloc_ok gs (dep_gpus d)"

definition warm_ok :: "replica_key \<Rightarrow> deployment \<Rightarrow> bool" where
  "warm_ok k d \<longleftrightarrow> dep_key d = k \<and> dep_level d = WARM \<and> 0 \<le> dep_size_bytes d"

definition hot_inv :: "gpu list \<Rightarrow> replica_table \<Rightarrow> bool" where
  "hot_inv gs D \<longleftrightarrow>
     nwf D \<and> distinct (map gpu_index gs) \<and>
     (\<forall>k d. nget D k = Some d \<longrightarrow> hot_ok gs k d) \<and>
     (\<forall>g \<in> set gs. gpu_available g = gpu_memory_bytes g - used D (gpu_index g)) \<and>
     (\<forall>g \<in> set gs. 0 \<le> gpu_available g)"

definition warm_inv :: "cpu_resources \<Rightarrow> replica_table \<Rightarrow> bool" where
  "warm_inv c C \<longleftrightarrow>
     nwf C \<and> (\<forall>k d. nget C k = Some d \<longrightarrow> warm_ok k d) \<and>
     cr_available c = cr_memory_bytes c - of_int (cached_bytes C) \<and> 0 \<le> cr_available c"

definition node_inv :: "node \<Rightarrow> bool" where
  "node_inv n \<longleftrightarrow>
     hot_inv (gr_gpus (nd_gpu n)) (nd_deployments n) \<and> warm_inv (nd_cpu n) (nd_cache n) \<and>
     (\<forall>k. nget (nd_deployments n) k = None \<or> nget (nd_cache n) k = None)"

lemma hot_invI:
  assumes "nwf D" and "distinct (map gpu_index gs)"
    and "\<And>k d. nget D k = Some d \<Longrightarrow> hot_ok gs k d"
    and "\<And>g. g \<in> set gs \<Longrightarrow>
           gpu_available g = gpu_memory_bytes g - used D (gpu_index g) \<and> 0 \<le> gpu_available g"
  shows "hot_inv gs D"
  using assms unfolding hot_inv_def by blast

lemma hot_invD:
  assumes "hot_inv gs D"
  shows "nwf D" and "distinct (map gpu_index gs)"
    and "\<And>k d. nget D k = Some d \<Longrightarrow> hot_ok gs k d"
    and "\<And>g. g \<in> set gs \<Longrightarrow> gpu_available g = gpu_memory_bytes g - used D (gpu_index g)"
    and "\<And>g. g \<in> set gs \<Longrightarrow> 0 \<le> gpu_available g"
  using assms unfolding hot_inv_def by blast+

lemma warm_invI:
  assumes "nwf C" and "\<And>k d. nget C k = Some d \<Longrightarrow> warm_ok k d"
    and "cr_available c = cr_memory_bytes c - of_int (cached_bytes C)" and "0 \<le> cr_available c"
  shows "warm_inv c C"
  using assms unfolding warm_inv_def by blast

lemma warm_invD:
  assumes "warm_inv c C"
  shows "nwf C" and "\<And>k d. nget C k = Some d \<Longrightarrow> warm_ok k d"
    and "cr_available c = cr_memory_bytes c - of_int (cached_bytes C)" and "0 \<le> cr_available c"
  using assms unfolding warm_inv_def by blast+

section \<open>GPU arithmetic\<close>

definition shift :: "(int \<Rightarrow> int) \<Rightarrow> gpu list \<Rightarrow> gpu list" where
  "shift f gs = map (\<lambda>g. g\<lparr>gpu_available := gpu_available g + f (gpu_index g)\<rparr>) gs"

lemma shift_index [simp]: "map gpu_index (shift f gs) = map gpu_index gs"
  by (induction gs) (simp_all add: shift_def)

lemma shift_index_image [simp]: "gpu_index ` set (shift f gs) = gpu_index ` set gs"
  by (metis list.set_map shift_index)

lemma shift_memory [simp]: "map gpu_memory_bytes (shift f gs) = map gpu_memory_bytes gs"
  by (induction gs) (simp_all add: shift_def)

lemma length_shift [simp]: "length (shift f gs) = length gs"
  by (simp add: shift_def)

lemma shift_zero [simp]: "shift (\<lambda>i. 0) gs = gs"
  by (induction gs) (simp_all add: shift_def)

lemma shift_shift: "shift f (shift h gs) = shift (\<lambda>i. h i + f i) gs"
  by (induction gs) (simp_all add: shift_def algebra_simps)

lemma shift_cong: "(\<And>i. i \<in> gpu_index ` set gs \<Longrightarrow> f i = h i) \<Longrightarrow> shift f gs = shift h gs"
  by (induction gs) (simp_all add: shift_def)

lemma gpu_adjust_shift:
  "distinct (map gpu_index gs) \<Longrightarrow> idx \<in> gpu_index ` set gs \<Longrightarrow>
   gpu_adjust idx delta gs = shift (\<lambda>i. if i = idx then delta else 0) gs"
proof (induction gs)
  case (Cons g gs)
  have same: "shift (\<lambda>i. if i = gpu_index g then delta else 0) gs = gs"
    if "gpu_index g \<notin> gpu_index ` set gs"
  proof -
    have "shift (\<lambda>i. if i = gpu_index g then delta else 0) gs = shift (\<lambda>i. 0) gs"
      by (rule shift_cong) (use that in \<open>simp split: if_split\<close>, metis imageI)
    then show ?thesis by simp
  qed
  show ?case
  proof (cases "gpu_index g = idx")
    case True
    with Cons.prems have "idx \<notin> gpu_index ` set gs" by auto
    with True same show ?thesis by (simp add: shift_def)
  next
    case False
    with Cons show ?thesis by (auto simp: shift_def)
  qed
qed simp

lemma alloc_at_Cons:
  "alloc_at ((i, b) # a) j = (if j = i then b else alloc_at a j)"
  by (simp add: alloc_at_def)

lemma gpu_adjust_all_shift:
  "distinct (map gpu_index gs) \<Longrightarrow> dict_wf a \<Longrightarrow> fst ` set a \<subseteq> gpu_index ` set gs \<Longrightarrow>
   gpu_adjust_all sign a gs = (shift (\<lambda>i. sign * alloc_at a i) gs, Inr ())"
proof (induction a arbitrary: gs)
  case Nil
  then show ?case by (simp add: alloc_at_def)
next
  case (Cons x a)
  obtain i b where x: "x = (i, b)" by (cases x)
  from Cons.prems have i: "i \<in> gpu_index ` set gs" and a: "dict_wf a" "i \<notin> fst ` set a"
    by (auto simp: x dict_wf_def)
  then have z: "alloc_at a i = 0" by (simp add: alloc_at_def map_of_eq_None_iff[THEN iffD2])
  let ?gs = "shift (\<lambda>j. if j = i then sign * b else 0) gs"
  have "gpu_adjust_all sign (x # a) gs = gpu_adjust_all sign a ?gs"
    using i Cons.prems(1) by (simp add: x gpu_adjust_shift)
  also have "\<dots> = (shift (\<lambda>j. sign * alloc_at a j) ?gs, Inr ())"
    using Cons.prems a by (intro Cons.IH) (auto simp: x)
  also have "shift (\<lambda>j. sign * alloc_at a j) ?gs = shift (\<lambda>j. sign * alloc_at (x # a) j) gs"
    unfolding shift_shift x by (rule shift_cong) (simp add: alloc_at_Cons z)
  finally show ?case .
qed

lemma alloc_at_nonneg: "alloc_ok gs a \<Longrightarrow> 0 \<le> alloc_at a i"
  by (force simp: alloc_ok_def alloc_at_def split: option.splits dest: map_of_SomeD)

lemma hot_ok_nonneg: "hot_ok gs k d \<Longrightarrow> 0 \<le> alloc_on d i"
  unfolding hot_ok_def by (blast intro: alloc_at_nonneg)

lemma alloc_ok_index: "gpu_index ` set gs = gpu_index ` set gs' \<Longrightarrow> alloc_ok gs a = alloc_ok gs' a"
  by (simp add: alloc_ok_def)

lemma alloc_ok_shift [simp]: "alloc_ok (shift f gs) a = alloc_ok gs a"
  by (rule alloc_ok_index) simp

lemma hot_ok_shift [simp]: "hot_ok (shift f gs) k d = hot_ok gs k d"
  by (simp add: hot_ok_def)

section \<open>Removing and adding a HOT replica\<close>

lemma used_ndel:
  "nwf D \<Longrightarrow> nget D k = Some d \<Longrightarrow> used D i = alloc_on d i + used (ndel k D) i"
  unfolding used_def using reps.sum_remove[of D k d "\<lambda>(k, d). alloc_on d i"] by simp

lemma used_nput:
  "nwf D \<Longrightarrow> nget D k = None \<Longrightarrow> used (nput k d D) i = alloc_on d i + used D i"
  unfolding used_def using reps.sum_put_new[of D k "\<lambda>(k, d). alloc_on d i" d] by simp

lemma hot_release:
  assumes inv: "hot_inv gs D" and k: "nget D k = Some d"
  shows "gpu_adjust_all 1 (dep_gpus d) gs = (shift (alloc_on d) gs, Inr ())"
    and "hot_inv (shift (alloc_on d) gs) (ndel k D)"
proof -
  note wf = hot_invD(1)[OF inv] and dist = hot_invD(2)[OF inv]
  have ok: "alloc_ok gs (dep_gpus d)" using hot_invD(3)[OF inv k] by (simp add: hot_ok_def)
  then show "gpu_adjust_all 1 (dep_gpus d) gs = (shift (alloc_on d) gs, Inr ())"
    using gpu_adjust_all_shift[OF dist, of "dep_gpus d" 1] by (simp add: alloc_ok_def)
  have books: "gpu_available g = gpu_memory_bytes g - used (ndel k D) (gpu_index g) \<and> 0 \<le> gpu_available g"
    if "g \<in> set (shift (alloc_on d) gs)" for g
  proof -
    from that obtain h where h: "h \<in> set gs" "g = h\<lparr>gpu_available := gpu_available h + alloc_on d (gpu_index h)\<rparr>"
      by (auto simp: shift_def)
    then show ?thesis
      using hot_invD(4,5)[OF inv h(1)] used_ndel[OF wf k, of "gpu_index h"]
        alloc_at_nonneg[OF ok, of "gpu_index h"] by simp
  qed
  show "hot_inv (shift (alloc_on d) gs) (ndel k D)"
    by (rule hot_invI[OF _ _ _ books])
      (use wf dist hot_invD(3)[OF inv] in \<open>simp_all add: nwf_ndel nget_ndel split: if_splits\<close>)
qed

lemma hot_place:
  assumes inv: "hot_inv gs D" and k: "nget D k = None" and ok: "hot_ok gs k d"
    and room: "\<And>g. g \<in> set gs \<Longrightarrow> alloc_on d (gpu_index g) \<le> gpu_available g"
  shows "gpu_adjust_all (- 1) (dep_gpus d) gs = (shift (\<lambda>i. - alloc_on d i) gs, Inr ())"
    and "hot_inv (shift (\<lambda>i. - alloc_on d i) gs) (nput k d D)"
proof -
  note wf = hot_invD(1)[OF inv] and dist = hot_invD(2)[OF inv]
  show "gpu_adjust_all (- 1) (dep_gpus d) gs = (shift (\<lambda>i. - alloc_on d i) gs, Inr ())"
    using gpu_adjust_all_shift[OF dist, of "dep_gpus d" "- 1"] ok by (simp add: hot_ok_def alloc_ok_def)
  have books: "gpu_available g = gpu_memory_bytes g - used (nput k d D) (gpu_index g) \<and> 0 \<le> gpu_available g"
    if "g \<in> set (shift (\<lambda>i. - alloc_on d i) gs)" for g
  proof -
    from that obtain h where h: "h \<in> set gs" "g = h\<lparr>gpu_available := gpu_available h - alloc_on d (gpu_index h)\<rparr>"
      by (auto simp: shift_def)
    then show ?thesis
      using hot_invD(4,5)[OF inv h(1)] used_nput[OF wf k, of d "gpu_index h"] room[OF h(1)] by simp
  qed
  show "hot_inv (shift (\<lambda>i. - alloc_on d i) gs) (nput k d D)"
    by (rule hot_invI[OF _ _ _ books])
      (use wf dist hot_invD(3)[OF inv] ok in \<open>auto simp: nwf_nput nget_nput split: if_splits\<close>)
qed

section \<open>Removing and adding a WARM replica\<close>

lemma cached_ndel:
  "nwf C \<Longrightarrow> nget C k = Some d \<Longrightarrow> cached_bytes C = dep_size_bytes d + cached_bytes (ndel k C)"
  unfolding cached_bytes_def using reps.sum_remove[of C k d "\<lambda>(k, d). dep_size_bytes d"] by simp

lemma cached_nput:
  "nwf C \<Longrightarrow> nget C k = None \<Longrightarrow> cached_bytes (nput k d C) = dep_size_bytes d + cached_bytes C"
  unfolding cached_bytes_def using reps.sum_put_new[of C k "\<lambda>(k, d). dep_size_bytes d" d] by simp

lemma warm_drop:
  assumes "warm_inv c C" and "nget C k = Some d"
  shows "warm_inv (cr_release c (dep_size_bytes d)) (ndel k C)"
proof -
  note inv = warm_invD[OF assms(1)]
  have "0 \<le> dep_size_bytes d" using inv(2)[OF assms(2)] by (simp add: warm_ok_def)
  then show ?thesis
    using inv cached_ndel[OF inv(1) assms(2)]
    by (intro warm_invI) (simp_all add: cr_release_def nwf_ndel nget_ndel split: if_splits)
qed

lemma warm_park:
  assumes "warm_inv c C" and "nget C k = None" and "warm_ok k d"
    and "of_int (dep_size_bytes d) \<le> cr_available c"
  shows "warm_inv (cr_allocate c (dep_size_bytes d)) (nput k d C)"
  using assms(3,4) warm_invD[OF assms(1)] cached_nput[OF warm_invD(1)[OF assms(1)] assms(2), of d]
  by (intro warm_invI) (auto simp: cr_allocate_def nwf_nput nget_nput split: if_splits)

section \<open>Making CPU room\<close>

lemma cache_evictions_loop_Some:
  "cache_evictions_loop ex needed evs ds = Some r \<Longrightarrow>
   \<exists>sel. r = evs @ sel \<and> set sel \<subseteq> set ds \<and> (distinct (map f ds) \<longrightarrow> distinct (map f sel)) \<and>
         needed \<le> of_int (sum_list (map dep_size_bytes sel)) \<and>
         (\<forall>d \<in> set sel. \<not> excluded ex (dep_model_key d))"
proof (induction ex needed evs ds rule: cache_evictions_loop.induct)
  case (1 ex needed evs)
  then show ?case by simp
next
  case (2 ex needed evs d ds)
  show ?case
  proof (cases "excluded ex (dep_model_key d)")
    case True
    with "2.prems" have "cache_evictions_loop ex needed evs ds = Some r" by simp
    from "2.IH"(1)[OF True this] obtain sel where "r = evs @ sel \<and> set sel \<subseteq> set ds \<and>
      (distinct (map f ds) \<longrightarrow> distinct (map f sel)) \<and>
      needed \<le> of_int (sum_list (map dep_size_bytes sel)) \<and>
      (\<forall>d \<in> set sel. \<not> excluded ex (dep_model_key d))" by blast
    then show ?thesis by (intro exI[of _ sel]) auto
  next
    case False
    show ?thesis
    proof (cases "needed - of_int (dep_size_bytes d) \<le> 0")
      case True
      with False "2.prems" show ?thesis by (intro exI[of _ "[d]"]) (auto simp: Let_def)
    next
      case more: False
      with False "2.prems"
      have "cache_evictions_loop ex (needed - of_int (dep_size_bytes d)) (evs @ [d]) ds = Some r"
        by (simp add: Let_def)
      from "2.IH"(2)[OF False refl refl more this] obtain sel where
        "r = (evs @ [d]) @ sel \<and> set sel \<subseteq> set ds \<and>
         (distinct (map f ds) \<longrightarrow> distinct (map f sel)) \<and>
         needed - of_int (dep_size_bytes d) \<le> of_int (sum_list (map dep_size_bytes sel)) \<and>
         (\<forall>d \<in> set sel. \<not> excluded ex (dep_model_key d))" by blast
      then show ?thesis using False by (intro exI[of _ "d # sel"]) (auto simp: image_iff)
    qed
  qed
qed

text \<open>What \<open>find_cache_evictions\<close> lists is cached, without repetition, outside the excluded
  models, and big enough.\<close>

lemma find_cache_evictions_Some:
  assumes inv: "warm_inv (nd_cpu n) (nd_cache n)" and r: "find_cache_evictions n sz ex = Some ds"
  shows "distinct (map dep_key ds)"
    and "\<And>d. d \<in> set ds \<Longrightarrow> nget (nd_cache n) (dep_key d) = Some d"
    and "\<And>d. d \<in> set ds \<Longrightarrow> \<not> excluded ex (dep_model_key d)"
    and "of_int sz \<le> cr_available (nd_cpu n) + of_int (sum_list (map dep_size_bytes ds))"
proof -
  let ?cached = "sort_key dep_size_bytes (map snd (nitems (nd_cache n)))"
  note wf = warm_invD(1)[OF inv]
  have key: "dep_key d = k" if "(k, d) \<in> set (nitems (nd_cache n))" for k d
    using that warm_invD(2)[OF inv] by (simp add: nitems_nget[OF wf] warm_ok_def)
  then have "map dep_key (map snd (nitems (nd_cache n))) = map fst (nitems (nd_cache n))"
    by auto
  then have "distinct (map dep_key (map snd (nitems (nd_cache n))))"
    using distinct_nitems[OF wf] by (simp only:)
  then have dist: "distinct (map dep_key ?cached)"
    by (simp add: distinct_map inj_on_def) blast
  have look: "nget (nd_cache n) (dep_key d) = Some d" if "d \<in> set ?cached" for d
    using that key by (auto simp: nitems_nget[OF wf, symmetric])
  have "ds = [] \<and> of_int sz \<le> cr_available (nd_cpu n) \<or>
    set ds \<subseteq> set ?cached \<and> distinct (map dep_key ds) \<and>
    of_int sz - cr_available (nd_cpu n) \<le> of_int (sum_list (map dep_size_bytes ds)) \<and>
    (\<forall>d \<in> set ds. \<not> excluded ex (dep_model_key d))"
  proof (cases "of_int sz - cr_available (nd_cpu n) \<le> 0")
    case True
    with r show ?thesis by (simp add: find_cache_evictions_def)
  next
    case False
    with r have "cache_evictions_loop ex (of_int sz - cr_available (nd_cpu n)) [] ?cached = Some ds"
      by (simp add: find_cache_evictions_def iter_cache_def Let_def)
    from cache_evictions_loop_Some[OF this, of dep_key] dist show ?thesis by auto
  qed
  then consider "ds = []" "of_int sz \<le> cr_available (nd_cpu n)"
    | "set ds \<subseteq> set ?cached" "distinct (map dep_key ds)"
      "of_int sz - cr_available (nd_cpu n) \<le> of_int (sum_list (map dep_size_bytes ds))"
      "\<forall>d \<in> set ds. \<not> excluded ex (dep_model_key d)"
    by blast
  note c = this
  show "distinct (map dep_key ds)" using c by cases auto
  show "nget (nd_cache n) (dep_key d) = Some d" if "d \<in> set ds" for d
    using c that by cases (simp, blast intro: look)
  show "\<not> excluded ex (dep_model_key d)" if "d \<in> set ds" for d
    using c that by cases auto
  show "of_int sz \<le> cr_available (nd_cpu n) + of_int (sum_list (map dep_size_bytes ds))"
    using c by cases simp_all
qed

lemma drop_cached_ok:
  assumes "warm_inv (nd_cpu n) (nd_cache n)" and "distinct (map dep_key ds)"
    and "\<And>d. d \<in> set ds \<Longrightarrow> nget (nd_cache n) (dep_key d) = Some d"
  shows "\<exists>C c. drop_cached n ds = (n\<lparr>nd_cache := C, nd_cpu := c\<rparr>, Inr ()) \<and> warm_inv c C \<and>
    cr_memory_bytes c = cr_memory_bytes (nd_cpu n) \<and>
    cr_available c = cr_available (nd_cpu n) + of_int (sum_list (map dep_size_bytes ds)) \<and>
    (\<forall>k. nget C k = (if k \<in> dep_key ` set ds then None else nget (nd_cache n) k))"
  using assms
proof (induction ds arbitrary: n)
  case Nil
  then show ?case by (intro exI[of _ "nd_cache n"] exI[of _ "nd_cpu n"]) simp
next
  case (Cons d ds)
  let ?n = "n\<lparr>nd_cache := ndel (dep_key d) (nd_cache n),
              nd_cpu := cr_release (nd_cpu n) (dep_size_bytes d)\<rparr>"
  have look: "nget (nd_cache n) (dep_key d) = Some d" using Cons.prems(3) by simp
  have "warm_inv (nd_cpu ?n) (nd_cache ?n)" using warm_drop[OF Cons.prems(1) look] by simp
  moreover have "nget (nd_cache ?n) (dep_key e) = Some e" if "e \<in> set ds" for e
  proof -
    have "dep_key e \<noteq> dep_key d" using that Cons.prems(2) by (metis distinct.simps(2) image_eqI list.map(2) list.set_map)
    then show ?thesis using that Cons.prems(3)[of e] by (simp add: nget_ndel)
  qed
  ultimately obtain C c where 1: "drop_cached ?n ds = (?n\<lparr>nd_cache := C, nd_cpu := c\<rparr>, Inr ())"
    and 2: "warm_inv c C" "cr_memory_bytes c = cr_memory_bytes (nd_cpu ?n)"
    and 3: "cr_available c = cr_available (nd_cpu ?n) + of_int (sum_list (map dep_size_bytes ds))"
    and 4: "\<forall>k. nget C k = (if k \<in> dep_key ` set ds then None else nget (nd_cache ?n) k)"
    using Cons.IH[of ?n] Cons.prems(2) by auto
  have "drop_cached n (d # ds) = (n\<lparr>nd_cache := C, nd_cpu := c\<rparr>, Inr ())"
    using 1 look by (simp add: dep_key_def[symmetric])
  with 2 3 4 show ?case
    by (intro exI[of _ C] exI[of _ c]) (auto simp: cr_release_def nget_ndel)
qed

section \<open>Evicting\<close>

text \<open>What evicting a HOT replica changes: \<open>n'\<close> has its GPU memory back and the replica off the
  HOT side; the cache has lost at most replicas of models outside \<open>ex\<close>, and has gained at most
  this one, demoted.\<close>

definition hot_evicted ::
  "runtime \<Rightarrow> node \<Rightarrow> replica_key \<Rightarrow> deployment \<Rightarrow> model_key set option \<Rightarrow> node \<Rightarrow> bool" where
  "hot_evicted rt n k d ex n' \<longleftrightarrow>
     nd_id n' = nd_id n \<and> nd_name n' = nd_name n \<and> nd_min_time n' = nd_min_time n \<and>
     nd_gpu n' = (nd_gpu n)\<lparr>gr_gpus := shift (alloc_on d) (gr_gpus (nd_gpu n))\<rparr> \<and>
     nd_deployments n' = ndel k (nd_deployments n) \<and>
     cr_memory_bytes (nd_cpu n') = cr_memory_bytes (nd_cpu n) \<and>
     (\<forall>k'. k' \<noteq> k \<longrightarrow> nget (nd_cache n') k' = nget (nd_cache n) k' \<or>
                      nget (nd_cache n') k' = None \<and> \<not> excluded ex (fst k')) \<and>
     (nget (nd_cache n') k = None \<or> nget (nd_cache n') k = Some (demoted rt n (snd k) d))"

lemma nd_evict_hot:
  assumes inv: "node_inv n" and k: "nget (nd_deployments n) k = Some d"
  shows "\<exists>n'. nd_evict rt n k ex = (n', Inr ()) \<and> node_inv n' \<and> hot_evicted rt n k d ex n'"
proof -
  let ?gs = "gr_gpus (nd_gpu n)" and ?n1 = "n\<lparr>nd_gpu := (nd_gpu n)\<lparr>gr_gpus := shift (alloc_on d) (gr_gpus (nd_gpu n))\<rparr>\<rparr>"
  from inv have hot: "hot_inv ?gs (nd_deployments n)" and warm: "warm_inv (nd_cpu n) (nd_cache n)"
    and sides: "\<And>k. nget (nd_deployments n) k = None \<or> nget (nd_cache n) k = None"
    by (auto simp: node_inv_def)
  have kc: "nget (nd_cache n) k = None" using sides[of k] k by simp
  have rel: "gr_release (nd_gpu n) (dep_gpus d) = (nd_gpu ?n1, Inr ())"
    using hot_release(1)[OF hot k] by (simp add: gr_release_def)
  have hot': "hot_inv (shift (alloc_on d) ?gs) (ndel k (nd_deployments n))"
    by (rule hot_release(2)[OF hot k])
  have dk: "dep_key d = k" "0 \<le> dep_size_bytes d"
    using hot_invD(3)[OF hot k] by (auto simp: hot_ok_def)
  let ?ce = "if cacheable (rt_import_class rt) d then find_cache_evictions ?n1 (dep_size_bytes d) ex else None"
  show ?thesis
  proof (cases ?ce)
    case None
    let ?n' = "?n1\<lparr>nd_deployments := ndel k (nd_deployments n)\<rparr>"
    have "nd_evict rt n k ex = (?n', Inr ())"
      using kc k rel None by (simp add: nd_evict_def Let_def)
    moreover have "node_inv ?n'" using hot' warm sides by (auto simp: node_inv_def nget_ndel)
    ultimately show ?thesis using kc by (auto simp: hot_evicted_def)
  next
    case (Some evs)
    then have "find_cache_evictions ?n1 (dep_size_bytes d) ex = Some evs" by (simp split: if_splits)
    from find_cache_evictions_Some[OF _ this] warm
    have evs: "distinct (map dep_key evs)"
      "\<And>e. e \<in> set evs \<Longrightarrow> nget (nd_cache ?n1) (dep_key e) = Some e"
      "\<And>e. e \<in> set evs \<Longrightarrow> \<not> excluded ex (dep_model_key e)"
      "of_int (dep_size_bytes d) \<le> cr_available (nd_cpu n) + of_int (sum_list (map dep_size_bytes evs))"
      by auto
    obtain C c where drop: "drop_cached ?n1 evs = (?n1\<lparr>nd_cache := C, nd_cpu := c\<rparr>, Inr ())"
      and wC: "warm_inv c C" and mem: "cr_memory_bytes c = cr_memory_bytes (nd_cpu n)"
      and av: "cr_available c = cr_available (nd_cpu n) + of_int (sum_list (map dep_size_bytes evs))"
      and look: "\<And>k. nget C k = (if k \<in> dep_key ` set evs then None else nget (nd_cache n) k)"
      using drop_cached_ok[of ?n1 evs] warm evs(1,2) by auto
    let ?w = "demoted rt n (snd k) d"
    let ?n' = "n\<lparr>nd_gpu := nd_gpu ?n1, nd_deployments := ndel k (nd_deployments n),
                 nd_cpu := cr_allocate c (dep_size_bytes d), nd_cache := nput k ?w C\<rparr>"
    have "nd_evict rt n k ex = (?n', Inr ())"
      using kc k rel Some drop by (simp add: nd_evict_def Let_def demoted_def)
    moreover have "warm_inv (cr_allocate c (dep_size_bytes d)) (nput k ?w C)"
      using warm_park[OF wC, of k ?w] look kc dk evs(4) av
      by (simp add: demoted_def warm_ok_def dep_key_def prod_eq_iff)
    ultimately show ?thesis
      using hot' sides look evs(3) kc mem
      by (auto simp: node_inv_def hot_evicted_def nget_ndel nget_nput cr_allocate_def dep_key_def)
  qed
qed

section \<open>The invariant, computed\<close>

text \<open>The same invariant over the entries of the tables, which a concrete node evaluates.\<close>

definition node_check :: "node \<Rightarrow> bool" where
  "node_check n \<longleftrightarrow>
     (let gs = gr_gpus (nd_gpu n); D = nd_deployments n; C = nd_cache n; c = nd_cpu n in
      nwf D \<and> distinct (map gpu_index gs) \<and>
      list_all (\<lambda>(k, d). hot_ok gs k d) (nitems D) \<and>
      list_all (\<lambda>g. gpu_available g = gpu_memory_bytes g - used D (gpu_index g) \<and> 0 \<le> gpu_available g) gs \<and>
      nwf C \<and> list_all (\<lambda>(k, d). warm_ok k d) (nitems C) \<and>
      cr_available c = cr_memory_bytes c - of_int (cached_bytes C) \<and> 0 \<le> cr_available c \<and>
      list_all (\<lambda>(k, d). k \<notin> set (map fst (nitems C))) (nitems D))"

lemma node_check_inv: "node_check n \<Longrightarrow> node_inv n"
proof -
  assume chk: "node_check n"
  let ?gs = "gr_gpus (nd_gpu n)" and ?D = "nd_deployments n" and ?C = "nd_cache n" and ?c = "nd_cpu n"
  from chk have wf: "nwf ?D" "nwf ?C" by (simp_all add: node_check_def Let_def)
  have "hot_ok ?gs k d" if "nget ?D k = Some d" for k d
    using chk that by (auto simp: node_check_def Let_def list_all_iff nitems_nget[OF wf(1), symmetric])
  then have "hot_inv ?gs ?D"
    using chk unfolding hot_inv_def node_check_def Let_def list_all_iff by blast
  moreover have "warm_ok k d" if "nget ?C k = Some d" for k d
    using chk that by (auto simp: node_check_def Let_def list_all_iff nitems_nget[OF wf(2), symmetric])
  then have "warm_inv ?c ?C"
    using chk by (intro warm_invI) (simp_all add: node_check_def Let_def)
  moreover have "nget ?D k = None \<or> nget ?C k = None" for k
  proof (cases "nget ?D k")
    case (Some d)
    then have "(k, d) \<in> set (nitems ?D)" using wf by (simp add: nitems_nget)
    with chk have "k \<notin> fst ` set (nitems ?C)" by (auto simp: node_check_def Let_def list_all_iff)
    then show ?thesis using reps.lookup_None_iff[OF wf(2)] by simp
  qed simp
  ultimately show ?thesis by (simp add: node_inv_def)
qed

text \<open>A node as Ray reports it: empty, its books balanced.\<close>

lemma new_node_inv:
  assumes "distinct (map gpu_index gs)" and "\<forall>g \<in> set gs. gpu_available g = gpu_memory_bytes g \<and> 0 \<le> gpu_memory_bytes g"
    and "cr_available c = cr_memory_bytes c" and "0 \<le> cr_memory_bytes c" and "gr_gpus gr = gs"
  shows "node_inv (new_node i name gr c t)"
  using assms
  by (auto simp: node_inv_def new_node_def used_def cached_bytes_def intro!: hot_invI warm_invI)

end
