(* ===== verification/Placement.thy ===== *)
theory Placement
  imports Node_Inv
begin

text \<open>
  The contract between \<open>Node.evaluate\<close>, which proposes a candidate, and \<open>Node.deploy\<close>, which
  carries it out: a candidate the one returns is one the other can carry out on the node as it
  stands, without raising and without over-committing a GPU or the CPU budget.
\<close>

section \<open>Evicting a list of replicas\<close>

text \<open>What evicting the replicas \<open>ks\<close> frees on one GPU.\<close>

definition freed_by :: "replica_table \<Rightarrow> replica_key list \<Rightarrow> int \<Rightarrow> int" where
  "freed_by D ks i = sum_list (map (\<lambda>k. alloc_on (the (nget D k)) i) ks)"

text \<open>Outside the replicas \<open>S\<close>, a cache lost at most replicas of models not in \<open>ex\<close>.\<close>

definition cache_kept ::
  "model_key set option \<Rightarrow> replica_key set \<Rightarrow> replica_table \<Rightarrow> replica_table \<Rightarrow> bool" where
  "cache_kept ex S C C' \<longleftrightarrow>
     (\<forall>k. k \<notin> S \<longrightarrow> nget C' k = nget C k \<or> nget C' k = None \<and> \<not> excluded ex (fst k))"

lemma cache_kept_trans:
  "cache_kept ex S C C1 \<Longrightarrow> cache_kept ex T C1 C2 \<Longrightarrow> cache_kept ex (S \<union> T) C C2"
  unfolding cache_kept_def by (metis UnI1 UnI2)

lemma cache_kept_None: "cache_kept ex S C C' \<Longrightarrow> k \<notin> S \<Longrightarrow> nget C k = None \<Longrightarrow> nget C' k = None"
  unfolding cache_kept_def by metis

lemma hot_evicted_cache: "hot_evicted rt n k d ex n' \<Longrightarrow> cache_kept ex {k} (nd_cache n) (nd_cache n')"
  by (simp add: hot_evicted_def cache_kept_def)

definition all_evicted :: "node \<Rightarrow> replica_key list \<Rightarrow> model_key set option \<Rightarrow> node \<Rightarrow> bool" where
  "all_evicted n ks ex n' \<longleftrightarrow>
     nd_id n' = nd_id n \<and> nd_name n' = nd_name n \<and> nd_min_time n' = nd_min_time n \<and>
     nd_gpu n' = (nd_gpu n)\<lparr>gr_gpus := shift (freed_by (nd_deployments n) ks) (gr_gpus (nd_gpu n))\<rparr> \<and>
     cr_memory_bytes (nd_cpu n') = cr_memory_bytes (nd_cpu n) \<and>
     (\<forall>k. nget (nd_deployments n') k = (if k \<in> set ks then None else nget (nd_deployments n) k)) \<and>
     cache_kept ex (set ks) (nd_cache n) (nd_cache n')"

lemma nd_evict_warm:
  assumes inv: "node_inv n" and k: "nget (nd_cache n) k = Some c"
  shows "nd_evict rt n k ex =
      (n\<lparr>nd_cache := ndel k (nd_cache n), nd_cpu := cr_release (nd_cpu n) (dep_size_bytes c)\<rparr>, Inr ())"
    and "node_inv (n\<lparr>nd_cache := ndel k (nd_cache n), nd_cpu := cr_release (nd_cpu n) (dep_size_bytes c)\<rparr>)"
  using assms warm_drop[of "nd_cpu n" "nd_cache n" k c]
  by (auto simp: nd_evict_def node_inv_def nget_ndel)

lemma nd_evict_missing:
  "nget (nd_cache n) k = None \<Longrightarrow> nget (nd_deployments n) k = None \<Longrightarrow>
   nd_evict rt n k ex = (n, Inl KeyError)"
  by (simp add: nd_evict_def)

lemma nd_evict_all_ok:
  assumes "node_inv n" and "distinct ks" and "\<And>k. k \<in> set ks \<Longrightarrow> nget (nd_deployments n) k \<noteq> None"
  shows "\<exists>n'. nd_evict_all rt n ks ex = (n', Inr ()) \<and> node_inv n' \<and> all_evicted n ks ex n'"
  using assms
proof (induction ks arbitrary: n)
  case Nil
  have "freed_by (nd_deployments n) [] = (\<lambda>i. 0)" by (rule ext) (simp add: freed_by_def)
  with Nil show ?case by (simp add: all_evicted_def cache_kept_def)
next
  case (Cons k ks)
  obtain d where d: "nget (nd_deployments n) k = Some d" using Cons.prems(3)[of k] by auto
  from nd_evict_hot[OF Cons.prems(1) d] obtain n1
    where n1: "nd_evict rt n k ex = (n1, Inr ())" "node_inv n1" "hot_evicted rt n k d ex n1"
    by blast
  have "nget (nd_deployments n1) k' \<noteq> None" if "k' \<in> set ks" for k'
    using that Cons.prems(2,3) n1(3) by (auto simp: hot_evicted_def nget_ndel)
  then obtain n2 where n2: "nd_evict_all rt n1 ks ex = (n2, Inr ())" "node_inv n2" "all_evicted n1 ks ex n2"
    using Cons.IH[OF n1(2)] Cons.prems(2) by auto
  have "freed_by (nd_deployments n1) ks = freed_by (nd_deployments n) ks"
    using n1(3) Cons.prems(2)
    by (intro ext) (auto simp: freed_by_def hot_evicted_def nget_ndel intro!: arg_cong[where f = sum_list])
  then have "shift (freed_by (nd_deployments n1) ks) (shift (alloc_on d) (gr_gpus (nd_gpu n)))
      = shift (freed_by (nd_deployments n) (k # ks)) (gr_gpus (nd_gpu n))"
    unfolding shift_shift by (intro shift_cong) (simp add: freed_by_def d)
  moreover have "cache_kept ex (set (k # ks)) (nd_cache n) (nd_cache n2)"
    using cache_kept_trans[OF hot_evicted_cache[OF n1(3)], of "set ks" "nd_cache n2"] n2(3)
    by (simp add: all_evicted_def)
  ultimately have "all_evicted n (k # ks) ex n2"
    using n1(3) n2(3) by (simp add: all_evicted_def hot_evicted_def nget_ndel)
  with n1(1) n2 show ?case by simp
qed

section \<open>Carrying out a candidate\<close>

text \<open>A candidate that fits the node: its allocation names the node's GPUs, its evictions are
  HOT replicas that may go, and on each GPU the room there is, with what the evictions free, is
  enough.\<close>

definition cand_ok :: "runtime \<Rightarrow> node \<Rightarrow> bool \<Rightarrow> model_key set option \<Rightarrow> candidate \<Rightarrow> bool" where
  "cand_ok rt n pinned ex c \<longleftrightarrow>
     alloc_ok (gr_gpus (nd_gpu n)) (cand_gpus c) \<and> distinct (cand_evictions c) \<and>
     (\<forall>k \<in> set (cand_evictions c).
        \<exists>d. nget (nd_deployments n) k = Some d \<and> evictable rt n d pinned \<and> \<not> excluded ex (fst k)) \<and>
     (\<forall>g \<in> set (gr_gpus (nd_gpu n)).
        alloc_at (cand_gpus c) (gpu_index g)
          \<le> gpu_available g + freed_by (nd_deployments n) (cand_evictions c) (gpu_index g))"

text \<open>What a placement leaves: the new replica is HOT with the candidate's GPUs, the evicted ones
  are not, every other HOT replica is as it was.\<close>

definition placed ::
  "runtime \<Rightarrow> node \<Rightarrow> model_key \<Rightarrow> candidate \<Rightarrow> int \<Rightarrow> bool \<Rightarrow> replica_id \<Rightarrow> node \<Rightarrow> bool" where
  "placed rt n mk c sz pinned rid n' \<longleftrightarrow>
     nd_id n' = nd_id n \<and> nd_name n' = nd_name n \<and> nd_min_time n' = nd_min_time n \<and>
     map gpu_memory_bytes (gr_gpus (nd_gpu n')) = map gpu_memory_bytes (gr_gpus (nd_gpu n)) \<and>
     cr_memory_bytes (nd_cpu n') = cr_memory_bytes (nd_cpu n) \<and>
     (\<exists>d. nget (nd_deployments n') (mk, rid) = Some d \<and> dep_gpus d = cand_gpus c \<and>
          dep_size_bytes d = sz \<and> dep_pinned d = pinned) \<and>
     (\<forall>k. k \<noteq> (mk, rid) \<longrightarrow>
        nget (nd_deployments n') k =
          (if k \<in> set (cand_evictions c) then None else nget (nd_deployments n) k))"

lemma promote_ok:
  assumes warm: "warm_inv (nd_cpu n) (nd_cache n)" and p: "promote n mk = (n', r)"
  shows "\<exists>C c. n' = n\<lparr>nd_cache := C, nd_cpu := c\<rparr> \<and> warm_inv c C \<and>
    cr_memory_bytes c = cr_memory_bytes (nd_cpu n) \<and>
    (r = None \<and> C = nd_cache n \<or>
     (\<exists>rid. r = Some rid \<and> C = ndel (mk, rid) (nd_cache n) \<and> nget (nd_cache n) (mk, rid) \<noteq> None))"
proof (cases r)
  case None
  with p have "n' = n" by (auto simp: promote_def split: option.splits list.splits)
  with None warm show ?thesis
    by (intro exI[of _ "nd_cache n"] exI[of _ "nd_cpu n"]) simp
next
  case (Some rid)
  with p obtain cached rest where m: "map_of (nd_cache n) mk = Some ((rid, cached) # rest)"
    and n': "n' = n\<lparr>nd_cache := ndel (mk, rid) (nd_cache n),
                    nd_cpu := cr_release (nd_cpu n) (dep_size_bytes cached)\<rparr>"
    by (auto simp: promote_def split: option.splits list.splits)
  then have g: "nget (nd_cache n) (mk, rid) = Some cached" by (simp add: nget_def)
  from warm_drop[OF warm g] n' g Some show ?thesis
    by (intro exI[of _ "ndel (mk, rid) (nd_cache n)"] exI[of _ "cr_release (nd_cpu n) (dep_size_bytes cached)"])
      (simp add: cr_release_def)
qed

lemma nd_deploy_ok:
  assumes inv: "node_inv n" and ok: "cand_ok rt n pinned' ex c" and sz: "0 \<le> sz"
    and fresh: "nget (nd_deployments n) (mk, fresh) = None" "nget (nd_cache n) (mk, fresh) = None"
  shows "\<exists>n' rid. nd_deploy rt fresh n mk c sz pinned ex timeout cls dtype = (n', Inr rid) \<and>
    node_inv n' \<and> placed rt n mk c sz pinned rid n' \<and>
    (excluded ex mk \<longrightarrow> nget (nd_deployments n) (mk, rid) = None)"
proof -
  let ?ks = "cand_evictions c"
  from ok have "distinct ?ks" and "\<And>k. k \<in> set ?ks \<Longrightarrow> nget (nd_deployments n) k \<noteq> None"
    by (auto simp: cand_ok_def)
  from nd_evict_all_ok[OF inv this] obtain n1
    where n1: "nd_evict_all rt n ?ks ex = (n1, Inr ())" and inv1: "node_inv n1"
      and ev: "all_evicted n ?ks ex n1" by blast
  let ?gs = "gr_gpus (nd_gpu n1)"
  have gs: "?gs = shift (freed_by (nd_deployments n) ?ks) (gr_gpus (nd_gpu n))"
    using ev by (simp add: all_evicted_def)
  have aok: "alloc_ok ?gs (cand_gpus c)" using ok gs by (simp add: cand_ok_def)
  from inv1 have hot1: "hot_inv ?gs (nd_deployments n1)" and warm1: "warm_inv (nd_cpu n1) (nd_cache n1)"
    and sides: "\<And>k. nget (nd_deployments n1) k = None \<or> nget (nd_cache n1) k = None"
    by (auto simp: node_inv_def)
  have room: "alloc_at (cand_gpus c) (gpu_index g) \<le> gpu_available g" if "g \<in> set ?gs" for g
    using that ok unfolding gs cand_ok_def by (auto simp: shift_def)
  let ?gs2 = "shift (\<lambda>i. - alloc_at (cand_gpus c) i) ?gs"
  have alloc: "gr_allocate (nd_gpu n1) (cand_gpus c) = ((nd_gpu n1)\<lparr>gr_gpus := ?gs2\<rparr>, Inr ())"
    using gpu_adjust_all_shift[OF hot_invD(2)[OF hot1], of "cand_gpus c" "- 1"] aok
    by (simp add: gr_allocate_def alloc_ok_def)
  obtain n2 reused where p: "promote (n1\<lparr>nd_gpu := (nd_gpu n1)\<lparr>gr_gpus := ?gs2\<rparr>\<rparr>) mk = (n2, reused)"
    by fastforce
  from promote_ok[OF _ p] warm1 obtain C cr where n2: "n2 = n1\<lparr>nd_gpu := (nd_gpu n1)\<lparr>gr_gpus := ?gs2\<rparr>, nd_cache := C, nd_cpu := cr\<rparr>"
    and wC: "warm_inv cr C" "cr_memory_bytes cr = cr_memory_bytes (nd_cpu n1)"
    and C: "reused = None \<and> C = nd_cache n1 \<or>
            (\<exists>r. reused = Some r \<and> C = ndel (mk, r) (nd_cache n1) \<and> nget (nd_cache n1) (mk, r) \<noteq> None)"
    by auto
  define rid where "rid = (case reused of Some r \<Rightarrow> r | None \<Rightarrow> fresh)"
  let ?dep = "\<lparr>dep_model_key = mk, dep_replica_id = rid, dep_level = HOT,
     dep_gpus = cand_gpus c, dep_size_bytes = sz, dep_pinned = pinned,
     dep_node_id = Some (nd_id n2), dep_execution_timeout_seconds = timeout,
     dep_actor_class = cls, dep_dtype = dtype, dep_deployed = rt_now rt\<rparr>"
  have new: "nget (nd_deployments n1) (mk, rid) = None \<and> nget C (mk, rid) = None"
  proof (cases reused)
    case None
    have "(mk, fresh) \<notin> set ?ks" using fresh ok by (auto simp: cand_ok_def)
    then have "nget (nd_cache n1) (mk, fresh) = None"
      using ev fresh(2) by (auto simp: all_evicted_def intro: cache_kept_None)
    with None C ev fresh show ?thesis by (simp add: rid_def all_evicted_def)
  next
    case (Some r)
    with C sides[of "(mk, r)"] show ?thesis by (auto simp: rid_def nget_ndel)
  qed
  have "excluded ex mk \<longrightarrow> nget (nd_deployments n) (mk, rid) = None"
  proof (cases reused)
    case None
    with fresh show ?thesis by (simp add: rid_def)
  next
    case (Some r)
    show ?thesis
    proof
      assume "excluded ex mk"
      then have "(mk, r) \<notin> set ?ks" using ok by (auto simp: cand_ok_def)
      moreover have "nget (nd_cache n1) (mk, r) \<noteq> None" using Some C by simp
      ultimately have "nget (nd_cache n) (mk, r) \<noteq> None"
        using ev by (auto simp: all_evicted_def dest: cache_kept_None)
      then show "nget (nd_deployments n) (mk, rid) = None"
        using inv Some by (auto simp: node_inv_def rid_def)
    qed
  qed
  moreover
  have look: "nget C k = None \<or> nget C k = nget (nd_cache n1) k" for k
    using C by (auto simp: nget_ndel split: option.splits)
  have apart: "\<forall>k. nget (nput (mk, rid) ?dep (nd_deployments n1)) k = None \<or> nget C k = None"
  proof
    fix k
    show "nget (nput (mk, rid) ?dep (nd_deployments n1)) k = None \<or> nget C k = None"
      using sides[of k] look[of k] new by (cases "k = (mk, rid)") (auto simp: nget_nput)
  qed
  have "hot_ok ?gs (mk, rid) ?dep" using aok sz by (simp add: hot_ok_def dep_key_def)
  with hot_place(2)[OF hot1, of "(mk, rid)" ?dep] new room
  have "hot_inv ?gs2 (nput (mk, rid) ?dep (nd_deployments n1))" by simp
  then have "node_inv (n2\<lparr>nd_deployments := nput (mk, rid) ?dep (nd_deployments n2)\<rparr>)"
    using wC new apart by (simp add: node_inv_def n2)
  moreover have "nd_deploy rt fresh n mk c sz pinned ex timeout cls dtype
      = (n2\<lparr>nd_deployments := nput (mk, rid) ?dep (nd_deployments n2)\<rparr>, Inr rid)"
    using n1 alloc p by (simp add: nd_deploy_def rid_def Let_def)
  moreover have "placed rt n mk c sz pinned rid (n2\<lparr>nd_deployments := nput (mk, rid) ?dep (nd_deployments n2)\<rparr>)"
    using ev wC(2) by (auto simp: placed_def n2 all_evicted_def nget_nput)
  ultimately show ?thesis by blast
qed

section \<open>The candidates a node proposes\<close>

lemma map_of_fold_dict_set:
  "map_of (fold (\<lambda>x d. dict_set (f x) v d) xs d) i = (if i \<in> f ` set xs then Some v else map_of d i)"
  by (induction xs arbitrary: d) (auto simp: update_conv')

lemma dict_wf_fold_dict_set: "dict_wf d \<Longrightarrow> dict_wf (fold (\<lambda>x d. dict_set (f x) v d) xs d)"
  by (induction xs arbitrary: d) simp_all

text \<open>An even share of \<open>per\<close> bytes on each of the GPUs \<open>xs\<close> names.\<close>

lemma even_share:
  assumes "f ` set xs \<subseteq> gpu_index ` set gs" and "0 \<le> per"
  shows "alloc_ok gs (fold (\<lambda>x d. dict_set (f x) per d) xs [])"
    and "alloc_at (fold (\<lambda>x d. dict_set (f x) per d) xs []) i = (if i \<in> f ` set xs then per else 0)"
proof -
  let ?a = "fold (\<lambda>x d. dict_set (f x) per d) xs []"
  have wf: "dict_wf ?a" by (simp add: dict_wf_fold_dict_set)
  have m: "map_of ?a i = (if i \<in> f ` set xs then Some per else None)" for i
    by (simp add: map_of_fold_dict_set)
  have "dom (map_of ?a) = f ` set xs" by (auto simp: m dom_def split: if_splits)
  then have keys: "fst ` set ?a \<subseteq> gpu_index ` set gs"
    using assms(1) by (simp add: dom_map_of_conv_image_fst)
  have "0 \<le> snd e" if "e \<in> set ?a" for e
    using that wf m[of "fst e"] assms(2) dict_wf_in[of ?a "fst e" "snd e"] by (simp split: if_splits)
  then show "alloc_ok gs ?a" using wf keys by (simp add: alloc_ok_def)
  show "alloc_at ?a i = (if i \<in> f ` set xs then per else 0)" by (simp add: alloc_at_def m)
qed

lemma free_loop_prefix:
  "free_loop needed freed ks occ = (freed', ks') \<Longrightarrow>
   \<exists>m. ks' = ks @ map fst (take m occ) \<and> freed' = freed + sum_list (map snd (take m occ))"
proof (induction needed freed ks occ rule: free_loop.induct)
  case (1 needed freed ks)
  then show ?case by simp
next
  case (2 needed freed ks k b occ)
  show ?case
  proof (cases "needed \<le> freed + b")
    case True
    with "2.prems" show ?thesis by (intro exI[of _ 1]) (simp add: Let_def)
  next
    case False
    with "2.prems" have "free_loop needed (freed + b) (ks @ [k]) occ = (freed', ks')"
      by (simp add: Let_def)
    from "2.IH"[OF refl refl False this] obtain m where
      "ks' = (ks @ [k]) @ map fst (take m occ) \<and> freed' = freed + b + sum_list (map snd (take m occ))"
      by blast
    then show ?thesis by (intro exI[of _ "Suc m"]) simp
  qed
qed

lemma filter_key_dict:
  "dict_wf a \<Longrightarrow> filter (\<lambda>(i', _). i' = i) a = (case map_of a i of None \<Rightarrow> [] | Some b \<Rightarrow> [(i, b)])"
proof (induction a)
  case (Cons x a)
  obtain j b where x: "x = (j, b)" by (cases x)
  from Cons.prems have "dict_wf a" and "j \<notin> fst ` set a" by (auto simp: dict_wf_def x)
  then show ?case using Cons.IH by (auto simp: x map_of_eq_None_iff[THEN iffD2] split: option.splits)
qed simp

text \<open>The occupants of a GPU: each evictable replica that holds some of it, once, with what it
  holds.\<close>

lemma occupants_eq:
  assumes "\<And>k d. (k, d) \<in> set items \<Longrightarrow> dict_wf (dep_gpus d)"
  shows "occupants items i =
    map (\<lambda>(k, d). (k, alloc_on d i)) (filter (\<lambda>(k, d). map_of (dep_gpus d) i \<noteq> None) items)"
  using assms
proof (induction items)
  case (Cons x items)
  obtain k d where x: "x = (k, d)" by (cases x)
  have "occupants items i =
    map (\<lambda>(k, d). (k, alloc_on d i)) (filter (\<lambda>(k, d). map_of (dep_gpus d) i \<noteq> None) items)"
    using Cons by (metis list.set_intros(2))
  moreover have "dict_wf (dep_gpus d)" using Cons.prems[of k d] x by simp
  ultimately show ?case
    by (auto simp: occupants_def x filter_key_dict alloc_at_def split: option.splits)
qed (simp add: occupants_def)

lemma evictable_itemsD:
  assumes "nwf (nd_deployments n)" and "(k, d) \<in> set (evictable_items rt n pinned ex)"
  shows "nget (nd_deployments n) k = Some d" and "evictable rt n d pinned" and "\<not> excluded ex (fst k)"
  using assms by (auto simp: evictable_items_def iter_deployments_def nitems_nget)

lemma gpu_plan_frees:
  assumes inv: "node_inv n" and plan: "gpu_plan (evictable_items rt n pinned ex) per g = Some (i, ks)"
  shows "i = gpu_index g" and "set ks \<subseteq> fst ` set (evictable_items rt n pinned ex)"
    and "per \<le> gpu_available g + (\<Sum>k \<in> set ks. alloc_on (the (nget (nd_deployments n) k)) i)"
proof -
  let ?items = "evictable_items rt n pinned ex" and ?D = "nd_deployments n"
  have hot: "hot_inv (gr_gpus (nd_gpu n)) ?D" using inv by (simp add: node_inv_def)
  note wf = hot_invD(1)[OF hot]
  have look: "nget ?D k = Some d" if "(k, d) \<in> set ?items" for k d
    using evictable_itemsD(1)[OF wf that] .
  then have "dict_wf (dep_gpus d)" if "(k, d) \<in> set ?items" for k d
    using that hot_invD(3)[OF hot, of k d] by (simp add: hot_ok_def alloc_ok_def)
  then have occ: "occupants ?items i =
      map (\<lambda>(k, d). (k, alloc_on d i)) (filter (\<lambda>(k, d). map_of (dep_gpus d) i \<noteq> None) ?items)" for i
    by (rule occupants_eq)
  have "distinct (map fst ?items)"
    using distinct_nitems[OF wf] by (simp add: evictable_items_def iter_deployments_def distinct_map_filter)
  then have dist: "distinct (map fst (occupants ?items i))" for i
    by (simp add: occ comp_def case_prod_unfold distinct_map_filter)
  show i: "i = gpu_index g" using plan by (auto simp: gpu_plan_def Let_def split: if_splits prod.splits)
  let ?occ = "sort_key snd (occupants ?items i)"
  have "ks = [] \<and> per \<le> gpu_available g \<or>
    (\<exists>m. ks = map fst (take m ?occ) \<and> per - gpu_available g \<le> sum_list (map snd (take m ?occ)))"
    using plan free_loop_prefix[of "per - gpu_available g" 0 "[]" ?occ] i
    by (auto simp: gpu_plan_def Let_def split: if_splits prod.splits)
  then consider "ks = []" "per \<le> gpu_available g"
    | m where "ks = map fst (take m ?occ)" "per - gpu_available g \<le> sum_list (map snd (take m ?occ))"
    by blast
  then have "set ks \<subseteq> fst ` set ?items \<and>
    per \<le> gpu_available g + (\<Sum>k \<in> set ks. alloc_on (the (nget ?D k)) i)"
  proof cases
    case 1
    then show ?thesis by simp
  next
    case 2
    let ?t = "take m ?occ"
    have sub: "set ?t \<subseteq> set (occupants ?items i)" by (auto dest: in_set_takeD)
    have b: "b = alloc_on (the (nget ?D k)) i \<and> k \<in> fst ` set ?items" if "(k, b) \<in> set ?t" for k b
      using subsetD[OF sub that] look by (force simp: occ)
    have "distinct (map fst ?occ)"
      using dist[of i] by (simp add: distinct_map inj_on_def)
    then have "distinct ks" using 2(1) by (simp add: take_map[symmetric])
    then have "sum_list (map (\<lambda>k. alloc_on (the (nget ?D k)) i) ks)
        = (\<Sum>k \<in> set ks. alloc_on (the (nget ?D k)) i)"
      by (rule sum_list_distinct_conv_sum_set)
    moreover have "map (\<lambda>k. alloc_on (the (nget ?D k)) i) ks = map snd ?t"
      unfolding 2(1) map_map using b by (intro map_cong) force+
    moreover have "set ks \<subseteq> fst ` set ?items" unfolding 2(1) using b by force
    ultimately show ?thesis using 2(2) by simp
  qed
  then show "set ks \<subseteq> fst ` set ?items"
    and "per \<le> gpu_available g + (\<Sum>k \<in> set ks. alloc_on (the (nget ?D k)) i)" by auto
qed

lemma map_filter_Some: "y \<in> set (List.map_filter f xs) \<longleftrightarrow> (\<exists>x \<in> set xs. f x = Some y)"
  by (force simp: List.map_filter_def)

lemma freed_by_sum: "distinct ks \<Longrightarrow> freed_by D ks i = (\<Sum>k \<in> set ks. alloc_on (the (nget D k)) i)"
  by (simp add: freed_by_def sum_list_distinct_conv_sum_set)

lemma index_unique:
  "hot_inv gs D \<Longrightarrow> g \<in> set gs \<Longrightarrow> h \<in> set gs \<Longrightarrow> gpu_index g = gpu_index h \<Longrightarrow> g = h"
  using hot_invD(2) by (fastforce simp: distinct_map inj_on_def)

text \<open>\<open>find_evictions\<close> does not raise on a node whose books balance, and what it answers is a
  set of evictions that makes the room it promises.\<close>

lemma find_evictions_ok:
  assumes inv: "node_inv n" and rt: "rt_ok rt" and per: "0 \<le> per"
  shows "\<exists>evs a. find_evictions rt n needed per pinned ex = Inr (evs, a) \<and>
    cand_ok rt n pinned ex \<lparr>cand_level = lvl, cand_gpus = a, cand_evictions = evs, cand_reason = r\<rparr>"
proof -
  let ?items = "evictable_items rt n pinned ex" and ?D = "nd_deployments n" and ?gs = "gr_gpus (nd_gpu n)"
  let ?plans = "List.map_filter (gpu_plan ?items per) ?gs"
  have hot: "hot_inv ?gs ?D" using inv by (simp add: node_inv_def)
  note wf = hot_invD(1)[OF hot]
  have hok: "hot_ok ?gs k d" if "(k, d) \<in> set ?items" for k d
    using hot_invD(3)[OF hot evictable_itemsD(1)[OF wf that]] .
  then have keys: "\<forall>(k, d) \<in> set ?items. fst ` set (dep_gpus d) \<subseteq> gpu_index ` set ?gs"
    by (fastforce simp: hot_ok_def alloc_ok_def)
  show ?thesis
  proof (cases "int (length ?plans) < needed")
    case True
    then show ?thesis
      using keys hot_invD(5)[OF hot]
      by (simp add: find_evictions_def cand_ok_def alloc_ok_def alloc_at_def freed_by_def)
  next
    case False
    define chosen where "chosen = py_take needed (sort_key (\<lambda>p. length (snd p)) ?plans)"
    define evs where "evs = rt_set_list rt (concat (map snd chosen))"
    define a where "a = fold (\<lambda>p d. dict_set (fst p) per d) chosen []"
    have res: "find_evictions rt n needed per pinned ex = Inr (evs, a)"
      using keys False by (simp add: find_evictions_def chosen_def evs_def a_def case_prod_unfold Let_def)
    have sub: "set chosen \<subseteq> set ?plans"
      unfolding chosen_def using set_py_take by fastforce
    have from_gpu: "\<exists>g \<in> set ?gs. gpu_plan ?items per g = Some (i, ks)" if "(i, ks) \<in> set chosen" for i ks
      using that sub by (auto simp: map_filter_Some)
    have idx: "fst ` set chosen \<subseteq> gpu_index ` set ?gs"
      using from_gpu gpu_plan_frees(1)[OF inv] by force
    have evs: "distinct evs" "set evs = (\<Union>p \<in> set chosen. set (snd p))"
      using rt by (auto simp: rt_ok_def evs_def)
    have ev_items: "set evs \<subseteq> fst ` set ?items"
      using from_gpu gpu_plan_frees(2)[OF inv] unfolding evs(2) by fastforce
    have nonneg: "0 \<le> alloc_on (the (nget ?D k)) i" if "k \<in> set evs" for k i
    proof -
      from that ev_items obtain d where "(k, d) \<in> set ?items" by auto
      then show ?thesis
        using hok evictable_itemsD(1)[OF wf] by (fastforce simp: hot_ok_def intro: alloc_at_nonneg)
    qed
    have freed: "0 \<le> freed_by ?D evs i" for i
      unfolding freed_by_sum[OF evs(1)] using nonneg by (intro sum_nonneg)
    have room: "alloc_at a (gpu_index g) \<le> gpu_available g + freed_by ?D evs (gpu_index g)"
      if g: "g \<in> set ?gs" for g
    proof (cases "gpu_index g \<in> fst ` set chosen")
      case True
      then obtain ks where ks: "(gpu_index g, ks) \<in> set chosen" by auto
      obtain h where h: "h \<in> set ?gs" "gpu_plan ?items per h = Some (gpu_index g, ks)"
        using from_gpu[OF ks] by blast
      have "h = g" using index_unique[OF hot h(1) g] gpu_plan_frees(1)[OF inv h(2)] by simp
      with gpu_plan_frees(3)[OF inv h(2)]
      have "per \<le> gpu_available g + (\<Sum>k \<in> set ks. alloc_on (the (nget ?D k)) (gpu_index g))" by simp
      also have "(\<Sum>k \<in> set ks. alloc_on (the (nget ?D k)) (gpu_index g)) \<le> freed_by ?D evs (gpu_index g)"
        unfolding freed_by_sum[OF evs(1)] using ks nonneg by (intro sum_mono2) (auto simp: evs(2))
      finally show ?thesis using even_share(2)[OF idx per, of "gpu_index g"] True by (simp add: a_def)
    next
      case False
      then show ?thesis
        using even_share(2)[OF idx per, of "gpu_index g"] freed[of "gpu_index g"] hot_invD(5)[OF hot g]
        by (simp add: a_def)
    qed
    have "\<exists>d. nget ?D k = Some d \<and> evictable rt n d pinned \<and> \<not> excluded ex (fst k)" if "k \<in> set evs" for k
    proof -
      from that ev_items obtain d where "(k, d) \<in> set ?items" by auto
      from evictable_itemsD[OF wf this] show ?thesis by blast
    qed
    then show ?thesis
      using res room evs(1) even_share(1)[OF idx per] by (simp add: cand_ok_def a_def)
  qed
qed

section \<open>Evaluating\<close>

lemma used_nonneg: "hot_inv gs D \<Longrightarrow> 0 \<le> used D i"
  unfolding used_def
proof (rule sum_list_nonneg)
  fix x assume inv: "hot_inv gs D" and "x \<in> set (map (\<lambda>(k, d). alloc_on d i) (nitems D))"
  then obtain k d where x: "(k, d) \<in> set (nitems D)" "x = alloc_on d i" by auto
  then have "hot_ok gs k d" using hot_invD(1,3)[OF inv] by (simp add: nitems_nget)
  then show "0 \<le> x" using x(2) by (simp add: hot_ok_nonneg)
qed

lemma gr_memory_nonneg: "node_inv n \<Longrightarrow> 0 \<le> gr_memory_bytes (nd_gpu n)"
proof (cases "gr_gpus (nd_gpu n)")
  case (Cons g gs)
  assume "node_inv n"
  then have hot: "hot_inv (gr_gpus (nd_gpu n)) (nd_deployments n)" by (simp add: node_inv_def)
  have "g \<in> set (gr_gpus (nd_gpu n))" using Cons by simp
  from hot_invD(4,5)[OF hot this] used_nonneg[OF hot, of "gpu_index g"]
  show ?thesis using Cons by (simp add: gr_memory_bytes_def)
qed (simp add: gr_memory_bytes_def)

lemma gpus_needed_nonneg:
  assumes "node_inv n" and "0 \<le> sz" and "\<And>g. gpus = Some g \<Longrightarrow> 0 \<le> g"
    and "gpus_needed_for n sz max_tp gpus = Inr (Inr needed)"
  shows "0 \<le> needed"
proof (cases gpus)
  case (Some g)
  with assms(3,4) show ?thesis by (auto simp: gpus_needed_for_def split: option.splits if_splits)
next
  case None
  with assms(4) obtain m where m: "gr_required (nd_gpu n) sz = Inr m" and "m \<le> needed"
    by (auto simp: gpus_needed_for_def bind_res_eq_Inr split: option.splits if_splits)
  moreover have "0 < gr_memory_bytes (nd_gpu n)"
    using m gr_memory_nonneg[OF assms(1)] by (auto simp: gr_required_def split: if_splits)
  ultimately show ?thesis
    using ceil_div_nonneg[OF assms(2)] by (fastforce simp: gr_required_def split: if_splits)
qed

lemma cant_accommodate_ok: "node_inv n \<Longrightarrow> cand_ok rt n pinned ex (cant_accommodate r)"
  by (auto simp: cand_ok_def cant_accommodate_def alloc_ok_def alloc_at_def freed_by_def node_inv_def
      dest: hot_invD(5))

lemma free_candidate_ok:
  assumes inv: "node_inv n" and per: "0 \<le> per"
  shows "cand_ok rt n pinned ex
    \<lparr>cand_level = lvl,
     cand_gpus = fold (\<lambda>g d. dict_set (gpu_index g) per d) (py_take needed (gr_fitting (nd_gpu n) per)) [],
     cand_evictions = [], cand_reason = r\<rparr>"
proof -
  let ?gs = "gr_gpus (nd_gpu n)" and ?xs = "py_take needed (gr_fitting (nd_gpu n) per)"
  have hot: "hot_inv ?gs (nd_deployments n)" using inv by (simp add: node_inv_def)
  have sub: "g \<in> set ?gs \<and> per \<le> gpu_available g" if "g \<in> set ?xs" for g
    using that set_py_take[of needed "gr_fitting (nd_gpu n) per"] by (auto simp: gr_fitting_def gpu_fits_def)
  then have idx: "gpu_index ` set ?xs \<subseteq> gpu_index ` set ?gs" by blast
  have "(if gpu_index g \<in> gpu_index ` set ?xs then per else 0) \<le> gpu_available g" if "g \<in> set ?gs" for g
  proof (cases "gpu_index g \<in> gpu_index ` set ?xs")
    case True
    then obtain h where h: "h \<in> set ?xs" "gpu_index g = gpu_index h" by blast
    from sub[OF h(1)] index_unique[OF hot that _ h(2)] True show ?thesis by simp
  next
    case False
    then show ?thesis using hot_invD(5)[OF hot that] by simp
  qed
  then show ?thesis
    using even_share[OF idx per] by (simp add: cand_ok_def freed_by_def)
qed

lemma nd_evaluate_ok:
  assumes inv: "node_inv n" and rt: "rt_ok rt" and sz: "0 \<le> sz"
    and g: "\<And>g. gpus = Some g \<Longrightarrow> 0 \<le> g" and b: "\<And>b. per_gpu_bytes = Some b \<Longrightarrow> 0 \<le> b"
    and ev: "nd_evaluate rt n mk sz pinned ex max_tp gpus per_gpu_bytes = Inr c"
  shows "cand_ok rt n pinned ex c"
proof -
  from ev obtain r where r: "gpus_needed_for n sz max_tp gpus = Inr r"
    by (auto simp: nd_evaluate_def bind_res_eq_Inr Let_def)
  show ?thesis
  proof (cases r)
    case (Inl rsn)
    with ev r have "c = cant_accommodate (Some rsn)" by (simp add: nd_evaluate_def)
    with inv show ?thesis by (simp add: cant_accommodate_ok)
  next
    case (Inr needed)
    have nn: "0 \<le> needed" using gpus_needed_nonneg[OF inv sz g] r Inr by simp
    show ?thesis
    proof (cases "needed > gr_total (nd_gpu n)")
      case True
      with ev r Inr have "c = cant_accommodate None" by (simp add: nd_evaluate_def)
      with inv show ?thesis by (simp add: cant_accommodate_ok)
    next
      case False
      with ev r Inr obtain per where p: "(case per_gpu_bytes of Some b \<Rightarrow> Inr b
          | None \<Rightarrow> if needed = 0 then Inl ZeroDivisionError else Inr (ceil_div sz needed)) = Inr per"
        by (auto simp: nd_evaluate_def bind_res_eq_Inr Let_def)
      then have per: "0 \<le> per"
        using b ceil_div_nonneg[OF sz, of needed] nn by (auto split: option.splits if_splits)
      from find_evictions_ok[OF inv rt per] obtain evs a where
        fe: "find_evictions rt n needed per pinned ex = Inr (evs, a)" by metis
      have fok: "cand_ok rt n pinned ex \<lparr>cand_level = lvl, cand_gpus = a, cand_evictions = evs, cand_reason = None\<rparr>" for lvl
        using find_evictions_ok[OF inv rt per, of needed pinned ex lvl None] fe by auto
      show ?thesis
        using ev r Inr False p fe fok cant_accommodate_ok[OF inv] free_candidate_ok[OF inv per]
        by (auto simp: nd_evaluate_def Let_def split: if_splits)
    qed
  qed
qed

end
