(* ===== verification/Example.thy ===== *)
theory Example
  imports Placement
begin

text \<open>A concrete runtime and a concrete node, at which the properties of the placement code are
  applied: two GPUs of 10 bytes; on the first an evictable replica of model \<open>a\<close> (8 bytes), on
  the second a pinned one of model \<open>b\<close> (9 bytes); in the cache a replica of model \<open>c\<close> (5 of 20
  bytes).\<close>

definition ex_rt :: runtime where
  "ex_rt = \<lparr>rt_now = 1000,
            rt_import_class = (\<lambda>m c. Inr \<lparr>cls_module = m, cls_qualname = c, cls_cacheable = None\<rparr>),
            rt_uuid = (\<lambda>k. if k = 0 then ''u0'' else ''u1''), rt_choice = (\<lambda>k m. 0),
            rt_set_list = remdups\<rparr>"

definition ex_dep :: "model_key \<Rightarrow> replica_id \<Rightarrow> deployment_level \<Rightarrow> (int, int) dict \<Rightarrow> int \<Rightarrow> bool \<Rightarrow> deployment" where
  "ex_dep mk rid lvl gpus sz pinned =
     \<lparr>dep_model_key = mk, dep_replica_id = rid, dep_level = lvl, dep_gpus = gpus,
      dep_size_bytes = sz, dep_pinned = pinned, dep_node_id = Some ''n1'',
      dep_execution_timeout_seconds = None, dep_actor_class = Some (ClassPath ''pkg.Actor''),
      dep_dtype = Some ''bfloat16'', dep_deployed = 0\<rparr>"

definition ex_node :: node where
  "ex_node =
     \<lparr>nd_id = ''n1'', nd_name = ''node1'',
      nd_gpu = \<lparr>gr_gpu_type = ''A'',
                gr_gpus = [\<lparr>gpu_index = 0, gpu_memory_bytes = 10, gpu_available = 2\<rparr>,
                           \<lparr>gpu_index = 1, gpu_memory_bytes = 10, gpu_available = 1\<rparr>]\<rparr>,
      nd_cpu = \<lparr>cr_memory_bytes = 20, cr_available = 15\<rparr>,
      nd_min_time = Some 60,
      nd_deployments = [(''a'', [(''r1'', ex_dep ''a'' ''r1'' HOT [(0, 8)] 8 False)]),
                        (''b'', [(''r2'', ex_dep ''b'' ''r2'' HOT [(1, 9)] 9 True)])],
      nd_cache = [(''c'', [(''r3'', ex_dep ''c'' ''r3'' WARM [] 5 False)])]\<rparr>"

lemma ex_rt_ok: "rt_ok ex_rt"
  by (simp add: rt_ok_def ex_rt_def)

lemma ex_node_inv: "node_inv ex_node"
  by (rule node_check_inv) code_simp

end
