(* ===== verification/Cluster.thy ===== *)
theory Cluster
  imports Example
begin

text \<open>
  \<open>controller/cluster/cluster.py\<close>: the nodes and the evaluator; syncing the nodes with Ray
  (\<open>update_nodes\<close>), placing a batch of models (\<open>deploy\<close>) and evicting one (\<open>evict\<close>).
\<close>

section \<open>State\<close>

text \<open>\<open>cl_draws\<close> counts the placements begun so far: it says which of the runtime's random
  choices and fresh ids comes next. It is no field of the source.\<close>

record cluster =
  cl_nodes :: "(node_id, node) dict"
  cl_evaluator :: evaluator
  cl_default_class :: string
  cl_min_time :: "rat option"
  cl_cache_percentage :: rat
  cl_draws :: nat

definition new_cluster :: "rat option \<Rightarrow> rat \<Rightarrow> rat \<Rightarrow> int \<Rightarrow> string option \<Rightarrow> string \<Rightarrow> cluster" where
  "new_cluster min_time cache_percentage padding_factor padding_bias tp_class dflt_class =
     \<lparr>cl_nodes = [], cl_evaluator = new_evaluator padding_factor padding_bias tp_class,
      cl_default_class = dflt_class, cl_min_time = min_time,
      cl_cache_percentage = cache_percentage, cl_draws = 0\<rparr>"

record cluster_state =
  cs_nodes :: "node_state list"
  cs_evaluator :: evaluator

definition cl_get_state :: "cluster \<Rightarrow> cluster_state" where
  "cl_get_state cl =
     \<lparr>cs_nodes = map (\<lambda>(_, n). nd_get_state n) (cl_nodes cl), cs_evaluator = cl_evaluator cl\<rparr>"

section \<open>Syncing with Ray\<close>

text \<open>What \<open>list_nodes\<close> reports of a node: the three resources read from
  \<open>resources_total\<close>, absent where the dictionary has no such key.\<close>

record ray_node =
  ray_state :: string
  ray_node_id :: node_id
  ray_node_name :: string
  ray_gpu :: "rat option"
  ray_cuda_memory_bytes :: "rat option"
  ray_cpu_memory_bytes :: "rat option"
  ray_accelerator_type :: "string option"

text \<open>\<open>int\<close> of a float truncates towards 0.\<close>

definition py_int :: "rat \<Rightarrow> int" where
  "py_int x = (if 0 \<le> x then \<lfloor>x\<rfloor> else \<lceil>x\<rceil>)"

definition managed :: "ray_node \<Rightarrow> bool" where
  "managed r \<longleftrightarrow> ray_state r = ''ALIVE'' \<and> ray_gpu r \<noteq> None"

text \<open>The node built for a GPU node seen for the first time.\<close>

definition register_node :: "cluster \<Rightarrow> ray_node \<Rightarrow> rat \<Rightarrow> node res" where
  "register_node cl r gpu_count =
     (let total_gpus = py_int gpu_count in
      case ray_cuda_memory_bytes r of
        None \<Rightarrow> Inl KeyError
      | Some cuda \<Rightarrow>
          if total_gpus = 0 then Inl ZeroDivisionError
          else
            (case ray_cpu_memory_bytes r of
               None \<Rightarrow> Inl KeyError
             | Some cpu \<Rightarrow>
                 let per_gpu = py_int cuda div total_gpus;
                     cpu_bytes = cpu * cl_cache_percentage cl
                 in Inr (new_node (ray_node_id r) (ray_node_name r)
                      \<lparr>gr_gpu_type = (case ray_accelerator_type r of Some t \<Rightarrow> t | None \<Rightarrow> ''unknown''),
                       gr_gpus = map (\<lambda>i. new_gpu i per_gpu) [0..total_gpus - 1]\<rparr>
                      \<lparr>cr_memory_bytes = cpu_bytes, cr_available = cpu_bytes\<rparr>
                      (cl_min_time cl))))"

fun add_nodes :: "cluster \<Rightarrow> ray_node list \<Rightarrow> (cluster, unit) run" where
  "add_nodes cl [] = (cl, Inr ())"
| "add_nodes cl (r # rs) =
     (case ray_gpu r of
        None \<Rightarrow> add_nodes cl rs
      | Some gpu_count \<Rightarrow>
          if ray_state r \<noteq> ''ALIVE'' then add_nodes cl rs
          else if map_of (cl_nodes cl) (ray_node_id r) \<noteq> None then add_nodes cl rs
          else
            (case register_node cl r gpu_count of
               Inl e \<Rightarrow> (cl, Inl e)
             | Inr n \<Rightarrow> add_nodes (cl\<lparr>cl_nodes := dict_set (ray_node_id r) n (cl_nodes cl)\<rparr>) rs))"

text \<open>\<open>update_nodes\<close>, given what \<open>list_nodes\<close> returned; the operations are those of the purged
  nodes.\<close>

definition update_nodes :: "cluster \<Rightarrow> ray_node list \<Rightarrow> (cluster, actor_op list) run" where
  "update_nodes cl rays =
     bind_run (add_nodes cl rays)
       (\<lambda>cl' _.
          let current = map ray_node_id (filter managed rays);
              gone = filter (\<lambda>(i, _). i \<notin> set current) (cl_nodes cl')
          in (cl'\<lparr>cl_nodes := filter (\<lambda>(i, _). i \<in> set current) (cl_nodes cl')\<rparr>,
              Inr (concat (map (\<lambda>(_, n). nd_purge n) gone))))"

section \<open>Placing a batch\<close>

text \<open>The first loop of \<open>deploy\<close>: sizes, and an error for each model that has none.\<close>

fun evaluate_configs ::
  "hub \<Rightarrow> evaluator \<Rightarrow> (model_key, deployment_config) dict \<Rightarrow>
   evaluator \<times> (model_key, model_deploy_result) dict \<times> (model_key \<times> deployment_config \<times> int) list" where
  "evaluate_configs h ev [] = (ev, [], [])"
| "evaluate_configs h ev ((mk, cfg) # rest) =
     (case ev_call h ev mk (cfg_padding_factor cfg) (cfg_dtype cfg) (cfg_size_bytes cfg)
             (cfg_padding_bias cfg) of
        (ev1, r) \<Rightarrow>
          (case evaluate_configs h ev1 rest of
             (ev2, results, evaluated) \<Rightarrow>
               (case r of
                  Inl e \<Rightarrow>
                    (ev2, (mk, \<lparr>res_replicas = [], res_error = Some (EvaluationFailed e)\<rparr>) # results,
                     evaluated)
                | Inr sz \<Rightarrow> (ev2, results, (mk, cfg, sz) # evaluated))))"

text \<open>The loop over the nodes: the candidates of the best level seen.\<close>

fun best_candidates ::
  "(node \<Rightarrow> candidate res) \<Rightarrow> (node_id, node) dict \<Rightarrow> (node_id, candidate) dict \<Rightarrow>
   candidate_level option \<Rightarrow> (node_id, candidate) dict res" where
  "best_candidates evaluate [] candidates best = Inr candidates"
| "best_candidates evaluate ((_, n) # nodes) candidates best =
     (case evaluate n of
        Inl e \<Rightarrow> Inl e
      | Inr c \<Rightarrow>
          if (case best of None \<Rightarrow> True | Some b \<Rightarrow> cand_level c < b)
          then best_candidates evaluate nodes [(nd_id n, c)] (Some (cand_level c))
          else if Some (cand_level c) = best
          then best_candidates evaluate nodes (dict_set (nd_id n) c candidates) best
          else best_candidates evaluate nodes candidates best)"

text \<open>\<open>next((c.reason for c in candidates.values() if c.reason), None)\<close>, and the error it makes.\<close>

definition stated_reason :: "(node_id, candidate) dict \<Rightarrow> reason option" where
  "stated_reason candidates =
     (case List.map_filter (\<lambda>(_, c). cand_reason c) candidates of [] \<Rightarrow> None | r # _ \<Rightarrow> Some r)"

definition refusal :: "(node_id, candidate) dict \<Rightarrow> nat \<Rightarrow> int \<Rightarrow> deploy_error" where
  "refusal candidates done wanted =
     (case stated_reason candidates of Some r \<Rightarrow> Stated r | None \<Rightarrow> CantAccommodate done wanted)"

text \<open>\<open>config.actor_class or self.evaluator.actor_class(...)\<close>: an empty path is false.\<close>

definition chosen_class ::
  "hub \<Rightarrow> evaluator \<Rightarrow> string \<Rightarrow> model_key \<Rightarrow> deployment_config \<Rightarrow> nat \<Rightarrow> evaluator \<times> actor_class" where
  "chosen_class h ev dflt mk cfg gpus =
     (case cfg_actor_class cfg of
        Some c \<Rightarrow>
          if c = ClassPath [] then ev_actor_class h ev mk (int gpus) (ClassPath dflt) (cfg_dtype cfg) (cfg_max_tp cfg)
          else (ev, c)
      | None \<Rightarrow> ev_actor_class h ev mk (int gpus) (ClassPath dflt) (cfg_dtype cfg) (cfg_max_tp cfg))"

text \<open>One pass of the replica loop. \<open>Inr (Inl e)\<close>: the loop ends with the error \<open>e\<close>;
  \<open>Inr (Inr (rid, evictions))\<close>: a replica was placed.\<close>

definition place_replica ::
  "runtime \<Rightarrow> hub \<Rightarrow> model_key set \<Rightarrow> cluster \<Rightarrow> model_key \<Rightarrow> deployment_config \<Rightarrow> int \<Rightarrow> nat \<Rightarrow>
   (cluster, deploy_error + (replica_id \<times> replica_key list)) run" where
  "place_replica rt h ex cl mk cfg sz done =
     (case ev_max_tp h (cl_evaluator cl) mk (cfg_dtype cfg) (cfg_max_tp cfg) of
        (ev1, max_tp) \<Rightarrow>
          let t = cl_draws cl; cl1 = cl\<lparr>cl_evaluator := ev1, cl_draws := Suc t\<rparr> in
          (case best_candidates
                  (\<lambda>n. nd_evaluate rt n mk sz (cfg_pinned cfg) (Some ex) max_tp (cfg_gpus cfg) None)
                  (cl_nodes cl1) [] None of
             Inl e \<Rightarrow> (cl1, Inl e)
           | Inr [] \<Rightarrow> (cl1, Inr (Inl NoGpuNodes))
           | Inr (x # xs) \<Rightarrow>
               (case (x # xs) ! rt_choice rt t (length (x # xs)) of
                  (i, c) \<Rightarrow>
                    if cand_level c = CANT_ACCOMMODATE
                    then (cl1, Inr (Inl (refusal (x # xs) done (cfg_replicas cfg))))
                    else
                      (case map_of (cl_nodes cl1) i of
                         None \<Rightarrow> (cl1, Inl KeyError)
                       | Some n \<Rightarrow>
                           (case chosen_class h ev1 (cl_default_class cl1) mk cfg (length (cand_gpus c)) of
                              (ev2, cls) \<Rightarrow>
                                (case nd_deploy rt (rt_uuid rt t) n mk c sz (cfg_pinned cfg) (Some ex)
                                        (cfg_execution_timeout_seconds cfg) (Some cls) (cfg_dtype cfg) of
                                   (n', r) \<Rightarrow>
                                     (cl1\<lparr>cl_evaluator := ev2, cl_nodes := dict_set i n' (cl_nodes cl1)\<rparr>,
                                      case r of
                                        Inl e \<Rightarrow> Inl e
                                      | Inr rid \<Rightarrow> Inr (Inr (rid, cand_evictions c)))))))))"

text \<open>The replica loop. It carries the model's result and the evictions made for it.\<close>

fun place_replicas ::
  "runtime \<Rightarrow> hub \<Rightarrow> model_key set \<Rightarrow> model_key \<Rightarrow> deployment_config \<Rightarrow> int \<Rightarrow> nat \<Rightarrow> cluster \<Rightarrow>
   model_deploy_result \<Rightarrow> replica_key set \<Rightarrow> (cluster, model_deploy_result \<times> replica_key set) run" where
  "place_replicas rt h ex mk cfg sz 0 cl r evs = (cl, Inr (r, evs))"
| "place_replicas rt h ex mk cfg sz (Suc m) cl r evs =
     (case place_replica rt h ex cl mk cfg sz (length (res_replicas r)) of
        (cl', Inl e) \<Rightarrow> (cl', Inl e)
      | (cl', Inr (Inl e)) \<Rightarrow> (cl', Inr (r\<lparr>res_error := Some e\<rparr>, evs))
      | (cl', Inr (Inr (rid, ks))) \<Rightarrow>
          place_replicas rt h ex mk cfg sz m cl' (r\<lparr>res_replicas := res_replicas r @ [rid]\<rparr>)
            (evs \<union> set ks))"

text \<open>The contract at the end of a model's loop.\<close>

definition close_result :: "model_deploy_result \<Rightarrow> model_deploy_result" where
  "close_result r =
     (if res_replicas r = [] \<and> res_error r = None then r\<lparr>res_error := Some NothingPlaced\<rparr> else r)"

text \<open>The loop over the models, biggest first.\<close>

fun place_models ::
  "runtime \<Rightarrow> hub \<Rightarrow> model_key set \<Rightarrow> (model_key \<times> deployment_config \<times> int) list \<Rightarrow> cluster \<Rightarrow>
   deploy_response \<Rightarrow> (cluster, deploy_response) run" where
  "place_models rt h ex [] cl resp = (cl, Inr resp)"
| "place_models rt h ex ((mk, cfg, sz) # rest) cl resp =
     bind_run
       (place_replicas rt h ex mk cfg sz (nat (cfg_replicas cfg)) cl
          (dict_get (resp_results resp) mk empty_result) {})
       (\<lambda>cl' (r, evs).
          place_models rt h ex rest cl'
            (resp\<lparr>resp_results := dict_set mk (close_result r) (resp_results resp),
                  resp_evictions := resp_evictions resp \<union> evs,
                  resp_change := (resp_change resp \<or> res_replicas r \<noteq> [])\<rparr>))"

text \<open>\<open>Cluster.deploy\<close>\<close>

definition cl_deploy ::
  "runtime \<Rightarrow> hub \<Rightarrow> cluster \<Rightarrow> (model_key, deployment_config) dict \<Rightarrow> (cluster, deploy_response) run" where
  "cl_deploy rt h cl configs =
     (case evaluate_configs h (cl_evaluator cl) configs of
        (ev, results, evaluated) \<Rightarrow>
          place_models rt h (fst ` set configs) (sort_key (\<lambda>(_, _, sz). - sz) evaluated)
            (cl\<lparr>cl_evaluator := ev\<rparr>) (empty_response\<lparr>resp_results := results\<rparr>))"

section \<open>Evicting a model\<close>

text \<open>How often a replica can still be evicted from a node: a HOT one may first be parked.\<close>

definition weight :: "node \<Rightarrow> replica_key \<Rightarrow> nat" where
  "weight n k = (if nget (nd_deployments n) k \<noteq> None then 2 else 0) +
                (if nget (nd_cache n) k \<noteq> None then 1 else 0)"

lemma drop_cached_frame:
  "nd_deployments (fst (drop_cached n ds)) = nd_deployments n \<and>
   nd_id (fst (drop_cached n ds)) = nd_id n \<and> nd_gpu (fst (drop_cached n ds)) = nd_gpu n \<and>
   (nget (nd_cache n) k = None \<longrightarrow> nget (nd_cache (fst (drop_cached n ds))) k = None) \<and>
   (nget (nd_cache (fst (drop_cached n ds))) k = Some d \<longrightarrow> nget (nd_cache n) k = Some d)"
proof (induction ds arbitrary: n)
  case (Cons e ds)
  show ?case
    using Cons.IH[of "n\<lparr>nd_cache := ndel (dep_model_key e, dep_replica_id e) (nd_cache n),
                        nd_cpu := cr_release (nd_cpu n) (dep_size_bytes e)\<rparr>"]
    by (auto simp: Let_def nget_ndel split: if_splits)
qed simp

lemma nd_evict_weight:
  assumes "nd_evict rt n k ex = (n', Inr ())"
  shows "weight n' k < weight n k"
proof (cases "nget (nd_cache n) k")
  case (Some c)
  with assms show ?thesis by (auto simp: nd_evict_def weight_def nget_ndel)
next
  case None
  with assms obtain d gr where d: "nget (nd_deployments n) k = Some d"
    and gr: "gr_release (nd_gpu n) (dep_gpus d) = (gr, Inr ())"
    by (auto simp: nd_evict_def split: option.splits prod.splits sum.splits)
  have "nget (nd_deployments n') k = None"
  proof (cases "if cacheable (rt_import_class rt) d
                then find_cache_evictions (n\<lparr>nd_gpu := gr\<rparr>) (dep_size_bytes d) ex else None")
    case None': None
    with assms None d gr show ?thesis by (auto simp: nd_evict_def Let_def nget_ndel)
  next
    case (Some evs)
    with assms None d gr show ?thesis
      by (auto simp: nd_evict_def Let_def nget_ndel bind_run_eq_Inr)
  qed
  with None d show ?thesis by (auto simp: weight_def)
qed

text \<open>\<open>while rid in deployments or rid in cache: node.evict(...)\<close>\<close>

function drain :: "runtime \<Rightarrow> node \<Rightarrow> replica_key \<Rightarrow> (node, unit) run" where
  "drain rt n k =
     (if nget (nd_deployments n) k = None \<and> nget (nd_cache n) k = None then (n, Inr ())
      else (case nd_evict rt n k None of
              (n', Inl e) \<Rightarrow> (n', Inl e)
            | (n', Inr _) \<Rightarrow> drain rt n' k))"
  by pat_completeness auto

termination
  by (relation "measure (\<lambda>(rt, n, k). weight n k)") (auto dest!: sym[THEN nd_evict_weight])

declare drain.simps [simp del]

text \<open>\<open>node.deployments.get(model_key, {}).get(replica_id) or node.cache....\<close>\<close>

definition find_replica :: "node \<Rightarrow> replica_key \<Rightarrow> deployment option" where
  "find_replica n k =
     (case nget (nd_deployments n) k of Some d \<Rightarrow> Some d | None \<Rightarrow> nget (nd_cache n) k)"

fun drain_all ::
  "runtime \<Rightarrow> node \<Rightarrow> model_key \<Rightarrow> replica_id list \<Rightarrow> replica_state list \<Rightarrow> (node, replica_state list) run" where
  "drain_all rt n mk [] acc = (n, Inr acc)"
| "drain_all rt n mk (rid # rids) acc =
     (case find_replica n (mk, rid) of
        None \<Rightarrow> drain_all rt n mk rids acc
      | Some d \<Rightarrow>
          bind_run (drain rt n (mk, rid))
            (\<lambda>n' _. drain_all rt n' mk rids (acc @ [dep_get_state d])))"

definition replica_ids :: "node \<Rightarrow> model_key \<Rightarrow> replica_id list" where
  "replica_ids n mk =
     sort (remdups (map fst (dict_get (nd_deployments n) mk []) @ map fst (dict_get (nd_cache n) mk [])))"

text \<open>The loop over the nodes without and with a replica id.\<close>

fun evict_model ::
  "runtime \<Rightarrow> (node_id, node) dict \<Rightarrow> model_key \<Rightarrow> replica_state list \<Rightarrow>
   ((node_id, node) dict, replica_state list) run" where
  "evict_model rt [] mk acc = ([], Inr acc)"
| "evict_model rt ((i, n) # nodes) mk acc =
     (case drain_all rt n mk (replica_ids n mk) acc of
        (n', Inl e) \<Rightarrow> ((i, n') # nodes, Inl e)
      | (n', Inr acc') \<Rightarrow>
          (case evict_model rt nodes mk acc' of (nodes', r) \<Rightarrow> ((i, n') # nodes', r)))"

fun evict_replica ::
  "runtime \<Rightarrow> (node_id, node) dict \<Rightarrow> replica_key \<Rightarrow> ((node_id, node) dict, replica_state list) run" where
  "evict_replica rt [] k = ([], Inr [])"
| "evict_replica rt ((i, n) # nodes) k =
     (case find_replica n k of
        None \<Rightarrow> (case evict_replica rt nodes k of (nodes', r) \<Rightarrow> ((i, n) # nodes', r))
      | Some d \<Rightarrow>
          (case nd_evict rt n k None of
             (n', Inl e) \<Rightarrow> ((i, n') # nodes, Inl e)
           | (n', Inr _) \<Rightarrow> ((i, n') # nodes, Inr [dep_get_state d])))"

definition cl_evict ::
  "runtime \<Rightarrow> cluster \<Rightarrow> model_key \<Rightarrow> replica_id option \<Rightarrow> (cluster, replica_state list) run" where
  "cl_evict rt cl mk replica_id =
     (case (case replica_id of
              Some rid \<Rightarrow> evict_replica rt (cl_nodes cl) (mk, rid)
            | None \<Rightarrow> evict_model rt (cl_nodes cl) mk []) of
        (nodes, r) \<Rightarrow> (cl\<lparr>cl_nodes := nodes\<rparr>, r))"

end
