(* ===== verification/Cluster_Inv.thy ===== *)
theory Cluster_Inv
  imports Cluster
begin

text \<open>
  The invariant of a cluster: every node's books balance, every record carries the id of the
  node it is on, and no replica (so no actor name) is on two nodes. The lemmas say that placing
  and evicting keep it, also where they raise.
\<close>

section \<open>Where the records of a node come from\<close>

definition entry :: "node \<Rightarrow> replica_key \<Rightarrow> deployment \<Rightarrow> bool" where
  "entry n k d \<longleftrightarrow> nget (nd_deployments n) k = Some d \<or> nget (nd_cache n) k = Some d"

definition holds :: "node \<Rightarrow> replica_key \<Rightarrow> bool" where
  "holds n k \<longleftrightarrow> (\<exists>d. entry n k d)"

lemma not_holds: "\<not> holds n k \<longleftrightarrow> nget (nd_deployments n) k = None \<and> nget (nd_cache n) k = None"
  by (simp add: holds_def entry_def all_conj_distrib)

definition stamped :: "node \<Rightarrow> bool" where
  "stamped n \<longleftrightarrow> (\<forall>k d. entry n k d \<longrightarrow> dep_node_id d = Some (nd_id n))"

text \<open>Each record of \<open>n'\<close> is one of \<open>n\<close>, or was written by this node for a replica it held or
  for one in \<open>S\<close>.\<close>

definition came :: "replica_key set \<Rightarrow> node \<Rightarrow> node \<Rightarrow> bool" where
  "came S n n' \<longleftrightarrow>
     nd_id n' = nd_id n \<and>
     (\<forall>k d. entry n' k d \<longrightarrow>
        entry n k d \<or> dep_node_id d = Some (nd_id n) \<and> (holds n k \<or> k \<in> S))"

interpretation came: kept "came S"
proof
  show "came S n n" for n by (simp add: came_def)
  show "came S n n2" if "came S n n1" "came S n1 n2" for n n1 n2
    using that unfolding came_def holds_def by metis
qed

lemma came_mono: "came S n n' \<Longrightarrow> S \<subseteq> T \<Longrightarrow> came T n n'"
  unfolding came_def by blast

lemma came_same:
  "nd_id n' = nd_id n \<Longrightarrow> nd_deployments n' = nd_deployments n \<Longrightarrow> nd_cache n' = nd_cache n \<Longrightarrow> came S n n'"
  by (simp add: came_def entry_def)

lemma came_holds: "came S n n' \<Longrightarrow> holds n' k \<Longrightarrow> holds n k \<or> k \<in> S"
  unfolding came_def holds_def by blast

lemma came_stamped: "came S n n' \<Longrightarrow> stamped n \<Longrightarrow> stamped n'"
  unfolding came_def stamped_def by auto

lemma nd_evict_came: "came {} n (fst (nd_evict rt n k ex))"
proof (cases "nget (nd_cache n) k")
  case (Some c)
  then show ?thesis by (auto simp: nd_evict_def came_def entry_def nget_ndel split: if_splits)
next
  case None
  show ?thesis
  proof (cases "nget (nd_deployments n) k")
    case None': None
    with None show ?thesis by (simp add: nd_evict_def came_def)
  next
    case d: (Some d)
    obtain gr x where gr: "gr_release (nd_gpu n) (dep_gpus d) = (gr, x)" by fastforce
    let ?n1 = "n\<lparr>nd_gpu := gr\<rparr>"
    let ?ce = "if cacheable (rt_import_class rt) d
               then find_cache_evictions ?n1 (dep_size_bytes d) ex else None"
    show ?thesis
    proof (cases x)
      case (Inl e)
      with None d gr show ?thesis by (auto simp: nd_evict_def intro: came_same)
    next
      case (Inr u)
      show ?thesis
      proof (cases ?ce)
        case None': None
        with None d gr Inr show ?thesis
          by (auto simp: nd_evict_def came_def entry_def nget_ndel split: if_splits)
      next
        case (Some evs)
        obtain n2 y where n2: "drop_cached ?n1 evs = (n2, y)" by fastforce
        have fr: "nd_id n2 = nd_id n" "nd_deployments n2 = nd_deployments n"
          "\<And>k d. nget (nd_cache n2) k = Some d \<Longrightarrow> nget (nd_cache n) k = Some d"
          using drop_cached_frame[of ?n1 evs] n2 by auto
        have hk: "holds n k" using d by (auto simp: holds_def entry_def)
        show ?thesis
        proof (cases y)
          case (Inl e)
          with None d gr Inr Some n2 fr show ?thesis by (auto simp: nd_evict_def came_def entry_def)
        next
          case y: (Inr v)
          with None d gr Inr Some n2 fr hk show ?thesis
            by (auto simp: nd_evict_def came_def entry_def nget_ndel nget_nput demoted_def
                split: if_splits)
        qed
      qed
    qed
  qed
qed

lemma nd_evict_all_came: "came {} n (fst (nd_evict_all rt n ks ex))"
proof (induction ks arbitrary: n)
  case (Cons k ks)
  then show ?case by (simp add: came.kept_bind nd_evict_came)
qed (simp add: came.kept_refl)

lemma promote_came: "came S n (fst (promote n mk))"
  by (auto simp: promote_def came_def entry_def nget_ndel split: option.splits list.splits if_splits)

lemma promote_rid: "promote n mk = (n', Some r) \<Longrightarrow> holds n (mk, r)"
  by (auto simp: promote_def holds_def entry_def nget_def split: option.splits list.splits)

lemma nd_deploy_came:
  "came {(mk, fresh)} n (fst (nd_deploy rt fresh n mk c sz pinned ex timeout cls dtype))"
  unfolding nd_deploy_def
proof (rule came.kept_bind)
  show "came {(mk, fresh)} n (fst (nd_evict_all rt n (cand_evictions c) ex))"
    by (rule came_mono[OF nd_evict_all_came]) simp
next
  fix n1 :: node and u :: unit
  obtain gr x where gr: "gr_allocate (nd_gpu n1) (cand_gpus c) = (gr, x)" by fastforce
  obtain n2 reused where p: "promote (n1\<lparr>nd_gpu := gr\<rparr>) mk = (n2, reused)" by fastforce
  let ?rid = "case reused of Some r \<Rightarrow> r | None \<Rightarrow> fresh"
  have n2: "came {(mk, fresh)} n1 n2"
    using came.kept_trans[OF came_same[of "n1\<lparr>nd_gpu := gr\<rparr>" n1] promote_came[of _ _ mk]] p by simp
  have rid: "holds n1 (mk, ?rid) \<or> ?rid = fresh"
    using p promote_rid[of "n1\<lparr>nd_gpu := gr\<rparr>" mk n2]
    by (auto simp: holds_def entry_def split: option.splits)
  have "came {(mk, fresh)} n1 (n2\<lparr>nd_deployments := nput (mk, ?rid) d (nd_deployments n2)\<rparr>)"
    if "dep_node_id d = Some (nd_id n2)" for d
    using n2 rid that by (auto simp: came_def entry_def nget_nput split: if_splits)
  then show "came {(mk, fresh)} n1 (fst (case gr_allocate (nd_gpu n1) (cand_gpus c) of
        (gr, Inl e) \<Rightarrow> (n1\<lparr>nd_gpu := gr\<rparr>, Inl e)
      | (gr, Inr _) \<Rightarrow>
          (case promote (n1\<lparr>nd_gpu := gr\<rparr>) mk of
             (n2, reused) \<Rightarrow>
               let rid = (case reused of Some r \<Rightarrow> r | None \<Rightarrow> fresh);
                   dep =
                     \<lparr>dep_model_key = mk, dep_replica_id = rid, dep_level = HOT,
                      dep_gpus = cand_gpus c, dep_size_bytes = sz, dep_pinned = pinned,
                      dep_node_id = Some (nd_id n2), dep_execution_timeout_seconds = timeout,
                      dep_actor_class = cls, dep_dtype = dtype, dep_deployed = rt_now rt\<rparr>
               in (n2\<lparr>nd_deployments := nput (mk, rid) dep (nd_deployments n2)\<rparr>, Inr rid))))"
    using gr p by (cases x) (auto simp: Let_def intro: came_same)
qed

lemma nd_deploy_cache:
  assumes "nget (nd_cache (fst (nd_deploy rt fresh n mk c sz pinned ex timeout cls dtype))) k \<noteq> None"
  shows "holds n k"
proof -
  obtain n1 x where ev: "nd_evict_all rt n (cand_evictions c) ex = (n1, x)" by fastforce
  obtain gr y where gr: "gr_allocate (nd_gpu n1) (cand_gpus c) = (gr, y)" by fastforce
  obtain n2 reused where p: "promote (n1\<lparr>nd_gpu := gr\<rparr>) mk = (n2, reused)" by fastforce
  have "nget (nd_cache n2) k \<noteq> None \<Longrightarrow> nget (nd_cache n1) k \<noteq> None"
    using p by (auto simp: promote_def nget_ndel split: option.splits list.splits if_splits)
  then have "nget (nd_cache n1) k \<noteq> None"
    using assms ev gr p by (cases x; cases y) (auto simp: nd_deploy_def Let_def)
  then have "holds n1 k" by (auto simp: holds_def entry_def)
  then show ?thesis using came_holds[OF nd_evict_all_came[of n rt "cand_evictions c" ex]] ev by auto
qed

section \<open>The invariant\<close>

definition cluster_inv :: "cluster \<Rightarrow> bool" where
  "cluster_inv cl \<longleftrightarrow>
     dict_wf (cl_nodes cl) \<and>
     (\<forall>i n. map_of (cl_nodes cl) i = Some n \<longrightarrow> nd_id n = i \<and> node_inv n \<and> stamped n) \<and>
     (\<forall>i j m n k. map_of (cl_nodes cl) i = Some m \<longrightarrow> map_of (cl_nodes cl) j = Some n \<longrightarrow>
        holds m k \<longrightarrow> holds n k \<longrightarrow> i = j)"

lemma cluster_invD:
  assumes "cluster_inv cl" and "map_of (cl_nodes cl) i = Some n"
  shows "nd_id n = i" and "node_inv n" and "stamped n"
    and "\<And>j m k. map_of (cl_nodes cl) j = Some m \<Longrightarrow> holds m k \<Longrightarrow> holds n k \<Longrightarrow> j = i"
  using assms unfolding cluster_inv_def by blast+

text \<open>The next \<open>m\<close> ids drawn differ and name no replica of the cluster. (An id has five hex
  digits, so this can fail; the code does not check it.)\<close>

definition fresh_ids :: "runtime \<Rightarrow> cluster \<Rightarrow> nat \<Rightarrow> bool" where
  "fresh_ids rt cl m \<longleftrightarrow>
     inj_on (rt_uuid rt) {cl_draws cl ..< cl_draws cl + m} \<and>
     (\<forall>t i n mk. t \<in> {cl_draws cl ..< cl_draws cl + m} \<longrightarrow> map_of (cl_nodes cl) i = Some n \<longrightarrow>
        \<not> holds n (mk, rt_uuid rt t))"

lemma cluster_inv_update:
  assumes inv: "cluster_inv cl" and n: "map_of (cl_nodes cl) i = Some n"
    and came: "came S n n'" and n': "node_inv n'"
    and new: "\<And>k j m. k \<in> S \<Longrightarrow> map_of (cl_nodes cl) j = Some m \<Longrightarrow> \<not> holds m k"
  shows "cluster_inv (cl\<lparr>cl_nodes := dict_set i n' (cl_nodes cl)\<rparr>)"
proof -
  have id: "nd_id n' = i" "stamped n'"
    using came cluster_invD(1,3)[OF inv n] came_stamped[OF came] by (auto simp: came_def)
  have held: "holds n k" if "holds n' k" "holds m k" "map_of (cl_nodes cl) j = Some m" for k j m
    using came_holds[OF came that(1)] new that(2,3) by blast
  have "ii = jj"
    if "map_of (dict_set i n' (cl_nodes cl)) ii = Some m1" "map_of (dict_set i n' (cl_nodes cl)) jj = Some m2"
      "holds m1 k" "holds m2 k" for ii jj m1 m2 k
  proof -
    note at = that
    consider "ii = i" "jj = i" | "ii = i" "jj \<noteq> i" "m1 = n'" "map_of (cl_nodes cl) jj = Some m2"
      | "jj = i" "ii \<noteq> i" "m2 = n'" "map_of (cl_nodes cl) ii = Some m1"
      | "map_of (cl_nodes cl) ii = Some m1" "map_of (cl_nodes cl) jj = Some m2"
      using at(1,2) unfolding update_conv' fun_upd_apply by (metis option.inject)
    then show ?thesis
    proof cases
      case 2
      then show ?thesis using held that(3,4) cluster_invD(4)[OF inv n] by blast
    next
      case 3
      then show ?thesis using held that(3,4) cluster_invD(4)[OF inv n] by blast
    next
      case 4
      then show ?thesis using that(3,4) cluster_invD(4)[OF inv] by blast
    qed simp
  qed
  moreover have "dict_wf (dict_set i n' (cl_nodes cl))" using inv by (simp add: cluster_inv_def)
  moreover have "nd_id m = j \<and> node_inv m \<and> stamped m"
    if "map_of (dict_set i n' (cl_nodes cl)) j = Some m" for j m
    using that id n' cluster_invD(1-3)[OF inv, of j m]
    by (cases "j = i") (auto simp: update_conv')
  moreover have nodes: "cl_nodes (cl\<lparr>cl_nodes := dict_set i n' (cl_nodes cl)\<rparr>) = dict_set i n' (cl_nodes cl)"
    by simp
  ultimately show ?thesis
    unfolding cluster_inv_def nodes by blast
qed

lemma cluster_inv_frame:
  "cl_nodes cl' = cl_nodes cl \<Longrightarrow> cluster_inv cl' = cluster_inv cl"
  by (simp add: cluster_inv_def)

lemma fresh_ids_step:
  assumes f: "fresh_ids rt cl (Suc m)" and inv: "cluster_inv cl" and n: "map_of (cl_nodes cl) i = Some n"
    and came: "came {(mk, rt_uuid rt (cl_draws cl))} n n'"
    and cl': "cl_nodes cl' = dict_set i n' (cl_nodes cl)" "cl_draws cl' = Suc (cl_draws cl)"
  shows "fresh_ids rt cl' m"
proof -
  let ?t = "cl_draws cl"
  have "\<not> holds n' (mk', rt_uuid rt t)" if t: "t \<in> {Suc ?t ..< Suc ?t + m}" for t mk'
  proof
    assume "holds n' (mk', rt_uuid rt t)"
    then consider "holds n (mk', rt_uuid rt t)" | "rt_uuid rt t = rt_uuid rt ?t"
      using came_holds[OF came] by auto
    then show False
    proof cases
      case 1
      then show False using f t n by (auto simp: fresh_ids_def)
    next
      case 2
      moreover have "inj_on (rt_uuid rt) {?t ..< ?t + Suc m}" using f by (simp add: fresh_ids_def)
      ultimately have "t = ?t" using t by (auto dest: inj_onD)
      with t show False by simp
    qed
  qed
  moreover have "inj_on (rt_uuid rt) {Suc ?t ..< Suc ?t + m}"
    using f by (auto simp: fresh_ids_def intro: inj_on_subset)
  ultimately show ?thesis
    using f cl' by (auto simp: fresh_ids_def update_conv' split: if_splits)
qed

lemma fresh_ids_skip:
  assumes "fresh_ids rt cl (Suc m)" and "cl_nodes cl' = cl_nodes cl" and "cl_draws cl' = Suc (cl_draws cl)"
  shows "fresh_ids rt cl' m"
  using assms by (auto simp: fresh_ids_def intro: inj_on_subset)

end
