(* ===== verification/Node_Props.thy ===== *)
theory Node_Props
  imports Example
begin

text \<open>
  The properties of a node's operations: placing what was evaluated, evicting, the room
  \<open>find_evictions\<close> and \<open>find_cache_evictions\<close> find or rule out, and the errors
  \<open>evaluate\<close> raises.
\<close>

section \<open>Placing what was evaluated\<close>

text \<open>C14. The main safety property of placement: on a node whose books balance, a candidate that
  \<open>evaluate\<close> returned is carried out by \<open>deploy\<close> without raising, and afterwards the books
  balance again. No GPU and no CPU budget is over-committed, the new replica is HOT with the
  candidate's GPUs, the evicted ones are not, and every other HOT replica is untouched.\<close>

theorem evaluate_then_deploy:
  assumes "node_inv n" and "rt_ok rt" and "0 \<le> sz" and "\<And>g. gpus = Some g \<Longrightarrow> 0 \<le> g"
    and "nd_evaluate rt n mk sz pinned ex max_tp gpus None = Inr c"
    and "nget (nd_deployments n) (mk, fresh) = None" and "nget (nd_cache n) (mk, fresh) = None"
  shows "\<exists>n' rid. nd_deploy rt fresh n mk c sz pinned ex timeout cls dtype = (n', Inr rid) \<and>
    node_inv n' \<and> placed rt n mk c sz pinned rid n'"
  using nd_deploy_ok[OF assms(1) nd_evaluate_ok[OF assms(1,2,3,4) _ assms(5)] assms(3,6,7)] by blast

theorem evaluate_then_deploy_witness:
  "\<exists>c n' rid. nd_evaluate ex_rt ex_node ''d'' 7 False (Some {''d''}) None None None = Inr c \<and>
     cand_level c = FULL \<and>
     nd_deploy ex_rt ''u0'' ex_node ''d'' c 7 False (Some {''d''}) None None None = (n', Inr rid) \<and>
     node_inv n'"
proof -
  let ?c = "\<lparr>cand_level = FULL, cand_gpus = [(0, 7)], cand_evictions = [(''a'', ''r1'')], cand_reason = None\<rparr>"
  have ev: "nd_evaluate ex_rt ex_node ''d'' 7 False (Some {''d''}) None None None = Inr ?c"
    by code_simp
  have fresh: "nget (nd_deployments ex_node) (''d'', ''u0'') = None"
    "nget (nd_cache ex_node) (''d'', ''u0'') = None" by code_simp+
  from evaluate_then_deploy[OF ex_node_inv ex_rt_ok _ _ ev fresh, of None None None] obtain n' rid
    where "nd_deploy ex_rt ''u0'' ex_node ''d'' ?c 7 False (Some {''d''}) None None None = (n', Inr rid)"
      and "node_inv n'" by auto
  with ev show ?thesis by (intro exI[of _ ?c] exI[of _ n'] exI[of _ rid]) simp
qed

text \<open>C16. Pinned replicas, replicas of the models being deployed, and (for an unpinned model)
  replicas younger than the minimum deployment time are never chosen for eviction: whatever
  \<open>evaluate\<close> lists is a HOT replica of another model that is not pinned and old enough.\<close>

theorem evictions_spare_protected:
  assumes "node_inv n" and "rt_ok rt" and "0 \<le> sz" and "\<And>g. gpus = Some g \<Longrightarrow> 0 \<le> g"
    and "nd_evaluate rt n mk sz pinned (Some ex) max_tp gpus None = Inr c"
    and "k \<in> set (cand_evictions c)"
  shows "\<exists>d. nget (nd_deployments n) k = Some d \<and> \<not> dep_pinned d \<and> fst k \<notin> ex \<and>
    (\<not> pinned \<longrightarrow> (\<forall>t. nd_min_time n = Some t \<longrightarrow> t \<le> rt_now rt - dep_deployed d))"
proof -
  have "cand_ok rt n pinned (Some ex) c"
    by (rule nd_evaluate_ok[OF assms(1-4) _ assms(5)]) simp_all
  then obtain d where "nget (nd_deployments n) k = Some d" and e: "evictable rt n d pinned"
    and "\<not> excluded (Some ex) (fst k)"
    using assms(6) unfolding cand_ok_def by blast
  then show ?thesis
    using e by (auto simp: evictable_def excluded_def not_less split: if_splits option.splits)
qed

theorem evictions_spare_protected_witness:
  "\<exists>c. nd_evaluate ex_rt ex_node ''d'' 7 False (Some {''d''}) None None None = Inr c \<and>
     (''a'', ''r1'') \<in> set (cand_evictions c) \<and>
     (\<exists>d. nget (nd_deployments ex_node) (''a'', ''r1'') = Some d \<and> \<not> dep_pinned d \<and> ''a'' \<notin> {''d''})"
proof -
  let ?c = "\<lparr>cand_level = FULL, cand_gpus = [(0, 7)], cand_evictions = [(''a'', ''r1'')], cand_reason = None\<rparr>"
  have ev: "nd_evaluate ex_rt ex_node ''d'' 7 False (Some {''d''}) None None None = Inr ?c"
    by code_simp
  from evictions_spare_protected[OF ex_node_inv ex_rt_ok _ _ ev, of "(''a'', ''r1'')"] ev
  show ?thesis by auto
qed

section \<open>Evicting\<close>

text \<open>C15. Evicting a replica the node holds never raises and keeps the invariant. A HOT replica
  leaves the HOT side and each GPU gets back exactly what the replica held there; it is then
  either gone or parked WARM under the same id with its size, class and dtype. A WARM replica is
  dropped and its bytes go back to the CPU budget. Evicting a replica the node does not hold
  raises \<open>KeyError\<close> and changes nothing.\<close>

theorem evict_correct:
  assumes "node_inv n"
  shows "(\<forall>d. nget (nd_deployments n) k = Some d \<longrightarrow>
            (\<exists>n'. nd_evict rt n k ex = (n', Inr ()) \<and> node_inv n' \<and>
               nget (nd_deployments n') k = None \<and>
               gr_gpus (nd_gpu n') = shift (alloc_on d) (gr_gpus (nd_gpu n)) \<and>
               (nget (nd_cache n') k = None \<or>
                nget (nd_cache n') k = Some (demoted rt n (snd k) d)))) \<and>
         (\<forall>w. nget (nd_cache n) k = Some w \<longrightarrow>
            (\<exists>n'. nd_evict rt n k ex = (n', Inr ()) \<and> node_inv n' \<and>
               nget (nd_cache n') k = None \<and> nd_deployments n' = nd_deployments n \<and>
               cr_available (nd_cpu n') = cr_available (nd_cpu n) + of_int (dep_size_bytes w))) \<and>
         (nget (nd_deployments n) k = None \<and> nget (nd_cache n) k = None \<longrightarrow>
            nd_evict rt n k ex = (n, Inl KeyError))"
proof (intro conjI allI impI)
  fix d assume "nget (nd_deployments n) k = Some d"
  from nd_evict_hot[OF assms this] obtain n' where
    "nd_evict rt n k ex = (n', Inr ())" "node_inv n'" "hot_evicted rt n k d ex n'" by blast
  then show "\<exists>n'. nd_evict rt n k ex = (n', Inr ()) \<and> node_inv n' \<and>
       nget (nd_deployments n') k = None \<and>
       gr_gpus (nd_gpu n') = shift (alloc_on d) (gr_gpus (nd_gpu n)) \<and>
       (nget (nd_cache n') k = None \<or> nget (nd_cache n') k = Some (demoted rt n (snd k) d))"
    by (auto simp: hot_evicted_def nget_ndel)
next
  fix w assume "nget (nd_cache n) k = Some w"
  from nd_evict_warm[OF assms this] show "\<exists>n'. nd_evict rt n k ex = (n', Inr ()) \<and> node_inv n' \<and>
       nget (nd_cache n') k = None \<and> nd_deployments n' = nd_deployments n \<and>
       cr_available (nd_cpu n') = cr_available (nd_cpu n) + of_int (dep_size_bytes w)"
    by (auto simp: nget_ndel cr_release_def)
qed (simp add: nd_evict_missing)

theorem evict_correct_witness:
  "\<exists>n'. nd_evict ex_rt ex_node (''a'', ''r1'') None = (n', Inr ()) \<and> node_inv n' \<and>
     map gpu_available (gr_gpus (nd_gpu n')) = [10, 1]"
proof -
  have "nget (nd_deployments ex_node) (''a'', ''r1'') = Some (ex_dep ''a'' ''r1'' HOT [(0, 8)] 8 False)"
    by code_simp
  with evict_correct[OF ex_node_inv, of "(''a'', ''r1'')" ex_rt None] obtain n' where
    "nd_evict ex_rt ex_node (''a'', ''r1'') None = (n', Inr ())" "node_inv n'"
    "gr_gpus (nd_gpu n') = shift (alloc_on (ex_dep ''a'' ''r1'' HOT [(0, 8)] 8 False)) (gr_gpus (nd_gpu ex_node))"
    by blast
  moreover have "map gpu_available (shift (alloc_on (ex_dep ''a'' ''r1'' HOT [(0, 8)] 8 False)) (gr_gpus (nd_gpu ex_node))) = [10, 1]"
    by code_simp
  ultimately show ?thesis by auto
qed

section \<open>Making CPU room\<close>

definition spare :: "model_key set option \<Rightarrow> deployment list \<Rightarrow> deployment list" where
  "spare ex ds = filter (\<lambda>d. \<not> excluded ex (dep_model_key d)) ds"

lemma cache_evictions_loop_None:
  assumes "\<forall>d \<in> set ds. 0 \<le> dep_size_bytes d" and "0 < needed"
  shows "cache_evictions_loop ex needed evs ds = None \<longleftrightarrow>
    of_int (sum_list (map dep_size_bytes (spare ex ds))) < needed"
  using assms
proof (induction ex needed evs ds rule: cache_evictions_loop.induct)
  case (1 ex needed evs)
  then show ?case by (simp add: spare_def)
next
  case (2 ex needed evs d ds)
  show ?case
  proof (cases "excluded ex (dep_model_key d)")
    case True
    with "2.IH"(1)[OF True] "2.prems" show ?thesis by (simp add: spare_def)
  next
    case False
    have nonneg: "0 \<le> sum_list (map dep_size_bytes (spare ex ds))"
      using "2.prems"(1) by (intro sum_list_nonneg) (auto simp: spare_def)
    show ?thesis
    proof (cases "needed - of_int (dep_size_bytes d) \<le> 0")
      case True
      have "of_int (dep_size_bytes d) \<le> (of_int (sum_list (map dep_size_bytes (spare ex (d # ds)))) :: rat)"
        using nonneg False by (simp add: spare_def)
      with True False show ?thesis by (simp add: Let_def)
    next
      case more: False
      with "2.IH"(2)[OF False refl refl more] "2.prems" False show ?thesis
        by (simp add: Let_def spare_def) (auto simp: algebra_simps)
    qed
  qed
qed

lemma cache_evictions_loop_minimal:
  "cache_evictions_loop ex needed evs ds = Some r \<Longrightarrow> 0 < needed \<Longrightarrow>
   \<exists>sel. r = evs @ sel \<and> sel \<noteq> [] \<and> of_int (sum_list (map dep_size_bytes (butlast sel))) < needed"
proof (induction ex needed evs ds rule: cache_evictions_loop.induct)
  case (1 ex needed evs)
  then show ?case by simp
next
  case (2 ex needed evs d ds)
  show ?case
  proof (cases "excluded ex (dep_model_key d)")
    case True
    with "2.IH"(1)[OF True] "2.prems" show ?thesis by simp
  next
    case False
    show ?thesis
    proof (cases "needed - of_int (dep_size_bytes d) \<le> 0")
      case True
      with "2.prems" False show ?thesis by (intro exI[of _ "[d]"]) (simp add: Let_def)
    next
      case more: False
      with "2.prems"(1) False
      have "cache_evictions_loop ex (needed - of_int (dep_size_bytes d)) (evs @ [d]) ds = Some r"
        by (simp add: Let_def)
      from "2.IH"(2)[OF False refl refl more this] more obtain sel where
        "r = (evs @ [d]) @ sel" "sel \<noteq> []"
        "of_int (sum_list (map dep_size_bytes (butlast sel))) < needed - of_int (dep_size_bytes d)"
        by auto
      then show ?thesis by (intro exI[of _ "d # sel"]) simp
    qed
  qed
qed

lemma cached_sizes_nonneg:
  "warm_inv (nd_cpu n) (nd_cache n) \<Longrightarrow> d \<in> set (map snd (iter_cache n)) \<Longrightarrow> 0 \<le> dep_size_bytes d"
  using warm_invD(1,2)[of "nd_cpu n" "nd_cache n"]
  by (auto simp: iter_cache_def nitems_nget warm_ok_def)

lemma sum_spare_sort:
  "sum_list (map dep_size_bytes (spare ex (sort_key f ds))) = sum_list (map dep_size_bytes (spare ex ds))"
proof -
  have "mset (spare ex (sort_key f ds)) = mset (spare ex ds)" by (simp add: spare_def)
  then have "mset (map dep_size_bytes (spare ex (sort_key f ds))) = mset (map dep_size_bytes (spare ex ds))"
    by simp
  then show ?thesis by (metis sum_mset_sum_list)
qed

text \<open>\<open>find_cache_evictions\<close> gives up exactly when the room cannot be made: it answers
  \<open>None\<close> if and only if the free CPU bytes and all the cached replicas outside the excluded
  models together are too few. When it answers a list, that list frees enough, and does not
  without its last element.\<close>

theorem find_cache_evictions_exact:
  assumes "node_inv n"
  shows "(find_cache_evictions n sz ex = None \<longleftrightarrow>
           cr_available (nd_cpu n) + of_int (sum_list (map dep_size_bytes (spare ex (map snd (iter_cache n)))))
             < of_int sz) \<and>
         (\<forall>ds. find_cache_evictions n sz ex = Some ds \<longrightarrow>
           of_int sz \<le> cr_available (nd_cpu n) + of_int (sum_list (map dep_size_bytes ds)) \<and>
           (ds \<noteq> [] \<longrightarrow>
             cr_available (nd_cpu n) + of_int (sum_list (map dep_size_bytes (butlast ds))) < of_int sz))"
proof (cases "of_int sz - cr_available (nd_cpu n) \<le> 0")
  case True
  have warm: "warm_inv (nd_cpu n) (nd_cache n)" using assms by (simp add: node_inv_def)
  have "0 \<le> sum_list (map dep_size_bytes (spare ex (map snd (iter_cache n))))"
    using cached_sizes_nonneg[OF warm] by (intro sum_list_nonneg) (auto simp: spare_def)
  then have "(0::rat) \<le> of_int (sum_list (map dep_size_bytes (spare ex (map snd (iter_cache n)))))" by simp
  with True have "\<not> cr_available (nd_cpu n) + of_int (sum_list (map dep_size_bytes (spare ex (map snd (iter_cache n))))) < of_int sz"
    by linarith
  with True show ?thesis by (simp add: find_cache_evictions_def)
next
  case False
  have warm: "warm_inv (nd_cpu n) (nd_cache n)" using assms by (simp add: node_inv_def)
  let ?ds = "sort_key dep_size_bytes (map snd (iter_cache n))" and ?need = "of_int sz - cr_available (nd_cpu n)"
  have eq: "find_cache_evictions n sz ex = cache_evictions_loop ex ?need [] ?ds"
    using False by (simp add: find_cache_evictions_def)
  have "\<forall>d \<in> set ?ds. 0 \<le> dep_size_bytes d" using cached_sizes_nonneg[OF warm] by simp
  from cache_evictions_loop_None[OF this] False
  have none: "find_cache_evictions n sz ex = None \<longleftrightarrow>
      of_int (sum_list (map dep_size_bytes (spare ex (map snd (iter_cache n))))) < ?need"
    unfolding eq sum_spare_sort by simp
  have "of_int (sum_list (map dep_size_bytes (butlast ds))) < ?need"
    if "find_cache_evictions n sz ex = Some ds" for ds
    using cache_evictions_loop_minimal[of ex ?need "[]" ?ds ds] that False unfolding eq by auto
  then show ?thesis
    using none find_cache_evictions_Some(4)[OF warm] by (auto simp: algebra_simps)
qed

theorem find_cache_evictions_exact_witness:
  "node_inv ex_node \<and> find_cache_evictions ex_node 18 None = Some [ex_dep ''c'' ''r3'' WARM [] 5 False] \<and>
   find_cache_evictions ex_node 18 (Some {''c''}) = None \<and> find_cache_evictions ex_node 21 None = None"
proof -
  have "cr_available (nd_cpu ex_node) + of_int (sum_list (map dep_size_bytes (spare None (map snd (iter_cache ex_node)))))
      < of_int 21"
    and "cr_available (nd_cpu ex_node) + of_int (sum_list (map dep_size_bytes (spare (Some {''c''}) (map snd (iter_cache ex_node)))))
      < of_int 18" by code_simp+
  moreover have "find_cache_evictions ex_node 18 None = Some [ex_dep ''c'' ''r3'' WARM [] 5 False]" by code_simp
  ultimately show ?thesis
    using find_cache_evictions_exact[OF ex_node_inv, of 21 None]
      find_cache_evictions_exact[OF ex_node_inv, of 18 "Some {''c''}"] ex_node_inv by simp
qed

section \<open>Making GPU room\<close>

text \<open>What the evictable replicas hold of one GPU, all together.\<close>

definition reclaimable :: "runtime \<Rightarrow> node \<Rightarrow> bool \<Rightarrow> model_key set option \<Rightarrow> int \<Rightarrow> int" where
  "reclaimable rt n pinned ex i =
     sum_list (map (\<lambda>(k, d). alloc_on d i) (evictable_items rt n pinned ex))"

lemma free_loop_short:
  "free_loop needed freed ks occ = (freed', ks') \<Longrightarrow> freed' < needed \<Longrightarrow>
   freed' = freed + sum_list (map snd occ)"
proof (induction needed freed ks occ rule: free_loop.induct)
  case (2 needed freed ks k b occ)
  then have "\<not> needed \<le> freed + b" by (auto simp: Let_def split: if_splits)
  with 2 show ?case by (auto simp: Let_def)
qed simp

lemma sum_list_sort_key: "sum_list (map f (sort_key h xs)) = sum_list (map f xs)"
  for f :: "'a \<Rightarrow> 'b::comm_monoid_add"
  by (metis mset_map mset_sort sum_mset_sum_list)

lemma evictable_items_hot:
  assumes "node_inv n" and "(k, d) \<in> set (evictable_items rt n pinned ex)"
  shows "hot_ok (gr_gpus (nd_gpu n)) k d"
proof -
  have hot: "hot_inv (gr_gpus (nd_gpu n)) (nd_deployments n)" using assms(1) by (simp add: node_inv_def)
  show ?thesis using hot_invD(3)[OF hot evictable_itemsD(1)[OF hot_invD(1)[OF hot] assms(2)]] .
qed

lemma sum_occupants:
  assumes "node_inv n"
  shows "sum_list (map snd (occupants (evictable_items rt n pinned ex) i)) = reclaimable rt n pinned ex i"
proof -
  let ?items = "evictable_items rt n pinned ex"
  have wf: "dict_wf (dep_gpus d)" if "(k, d) \<in> set ?items" for k d
    using evictable_items_hot[OF assms that] by (simp add: hot_ok_def alloc_ok_def)
  have "sum_list (map snd (occupants ?items i)) =
      sum_list (map (\<lambda>(k, d). alloc_on d i) (filter (\<lambda>(k, d). map_of (dep_gpus d) i \<noteq> None) ?items))"
    by (simp add: occupants_eq[OF wf] comp_def case_prod_unfold)
  also have "\<dots> = sum_list (map (\<lambda>(k, d). alloc_on d i) ?items)"
    by (rule sum_list_map_filter) (auto simp: alloc_at_def)
  finally show ?thesis by (simp add: reclaimable_def)
qed

text \<open>A GPU has a plan exactly when evicting everything evictable would make the room there.\<close>

lemma gpu_plan_iff:
  assumes inv: "node_inv n"
  shows "gpu_plan (evictable_items rt n pinned ex) per g \<noteq> None \<longleftrightarrow>
    per \<le> gpu_available g + reclaimable rt n pinned ex (gpu_index g)"
proof
  let ?items = "evictable_items rt n pinned ex" and ?D = "nd_deployments n" and ?i = "gpu_index g"
  have hot: "hot_inv (gr_gpus (nd_gpu n)) ?D" using inv by (simp add: node_inv_def)
  assume "gpu_plan ?items per g \<noteq> None"
  then obtain i ks where p: "gpu_plan ?items per g = Some (i, ks)" by auto
  note fr = gpu_plan_frees[OF inv p]
  have dist: "distinct (map fst ?items)"
    using distinct_nitems[OF hot_invD(1)[OF hot]]
    by (simp add: evictable_items_def iter_deployments_def distinct_map_filter)
  have look: "the (nget ?D k) = d \<and> 0 \<le> alloc_on d ?i" if "(k, d) \<in> set ?items" for k d
    using evictable_itemsD(1)[OF hot_invD(1)[OF hot] that]
      hot_ok_nonneg[OF evictable_items_hot[OF inv that]] by simp
  have "(\<Sum>k \<in> set ks. alloc_on (the (nget ?D k)) ?i)
      \<le> (\<Sum>k \<in> set (map fst ?items). alloc_on (the (nget ?D k)) ?i)"
    using fr(2) look by (intro sum_mono2) force+
  also have "\<dots> = sum_list (map (\<lambda>k. alloc_on (the (nget ?D k)) ?i) (map fst ?items))"
    using dist by (rule sum_list_distinct_conv_sum_set[symmetric])
  also have "\<dots> = reclaimable rt n pinned ex ?i"
    unfolding reclaimable_def map_map using look
    by (intro arg_cong[where f = sum_list] map_cong) auto
  finally show "per \<le> gpu_available g + reclaimable rt n pinned ex ?i" using fr(1,3) by simp
next
  assume room: "per \<le> gpu_available g + reclaimable rt n pinned ex (gpu_index g)"
  let ?occ = "occupants (evictable_items rt n pinned ex) (gpu_index g)"
  obtain freed ks where fl: "free_loop (per - gpu_available g) 0 [] (sort_key snd ?occ) = (freed, ks)"
    by fastforce
  have "\<not> freed < per - gpu_available g"
  proof
    assume short: "freed < per - gpu_available g"
    then have "freed = reclaimable rt n pinned ex (gpu_index g)"
      using free_loop_short[OF fl] by (simp add: sum_list_sort_key sum_occupants[OF inv])
    with short room show False by simp
  qed
  then show "gpu_plan (evictable_items rt n pinned ex) per g \<noteq> None"
    using fl by (auto simp: gpu_plan_def Let_def)
qed

lemma length_map_filter: "length (List.map_filter f xs) = length (filter (\<lambda>x. f x \<noteq> None) xs)"
  by (induction xs) (auto simp: List.map_filter_simps split: option.splits)

lemma length_filter_card: "distinct xs \<Longrightarrow> length (filter P xs) = card {x \<in> set xs. P x}"
  using distinct_card[of "filter P xs"] by simp

text \<open>The GPUs on which the room can be made.\<close>

definition roomy :: "runtime \<Rightarrow> node \<Rightarrow> bool \<Rightarrow> model_key set option \<Rightarrow> int \<Rightarrow> gpu set" where
  "roomy rt n pinned ex per =
     {g \<in> set (gr_gpus (nd_gpu n)). per \<le> gpu_available g + reclaimable rt n pinned ex (gpu_index g)}"

lemma roomy_plans:
  assumes inv: "node_inv n"
  shows "length (List.map_filter (gpu_plan (evictable_items rt n pinned ex) per) (gr_gpus (nd_gpu n)))
    = card (roomy rt n pinned ex per)"
proof -
  have "distinct (gr_gpus (nd_gpu n))"
    using inv hot_invD(2) by (auto simp: node_inv_def distinct_map)
  then show ?thesis
    by (simp only: length_map_filter gpu_plan_iff[OF inv] length_filter_card roomy_def)
qed

lemma fitting_roomy:
  assumes inv: "node_inv n"
  shows "length (gr_fitting (nd_gpu n) per) \<le> card (roomy rt n pinned ex per)"
proof -
  have hot: "hot_inv (gr_gpus (nd_gpu n)) (nd_deployments n)" using inv by (simp add: node_inv_def)
  have dist: "distinct (gr_gpus (nd_gpu n))" using hot_invD(2)[OF hot] by (simp add: distinct_map)
  have "0 \<le> reclaimable rt n pinned ex i" for i
    unfolding reclaimable_def
    using hot_ok_nonneg[OF evictable_items_hot[OF inv]] by (intro sum_list_nonneg) auto
  then have "{g \<in> set (gr_gpus (nd_gpu n)). gpu_fits g per} \<subseteq> roomy rt n pinned ex per"
    unfolding roomy_def gpu_fits_def by (auto intro: add_increasing2)
  then show ?thesis
    unfolding gr_fitting_def length_sort length_filter_card[OF dist]
    by (intro card_mono) (auto simp: roomy_def)
qed

lemma find_evictions_gpus:
  assumes inv: "node_inv n" and needed: "0 < needed"
  shows "\<exists>evs a. find_evictions rt n needed per pinned ex = Inr (evs, a) \<and>
    (a = [] \<longleftrightarrow> int (card (roomy rt n pinned ex per)) < needed)"
proof -
  let ?items = "evictable_items rt n pinned ex" and ?gs = "gr_gpus (nd_gpu n)"
  let ?plans = "List.map_filter (gpu_plan ?items per) ?gs"
  have keys: "\<forall>(k, d) \<in> set ?items. fst ` set (dep_gpus d) \<subseteq> gpu_index ` set ?gs"
    using evictable_items_hot[OF inv] by (fastforce simp: hot_ok_def alloc_ok_def)
  have plans: "length ?plans = card (roomy rt n pinned ex per)" by (rule roomy_plans[OF inv])
  show ?thesis
  proof (cases "int (length ?plans) < needed")
    case True
    with keys plans show ?thesis by (simp add: find_evictions_def)
  next
    case False
    define chosen where "chosen = py_take needed (sort_key (\<lambda>p. length (snd p)) ?plans)"
    have "int (length chosen) = needed"
      unfolding chosen_def using False needed by (subst length_py_take) auto
    with needed have "chosen \<noteq> []" by auto
    then obtain p where p: "p \<in> set chosen" by (cases chosen) auto
    have "map_of (fold (\<lambda>p d. dict_set (fst p) per d) chosen []) (fst p) \<noteq> None"
      using p by (simp add: map_of_fold_dict_set)
    then have "fold (\<lambda>p d. dict_set (fst p) per d) chosen [] \<noteq> []" by auto
    with keys plans False show ?thesis
      by (simp add: find_evictions_def chosen_def case_prod_unfold Let_def)
  qed
qed

text \<open>C17. A node refuses a replica for want of room exactly when there is none to be made: with
  \<open>needed\<close> GPUs wanted and an even share on each, \<open>evaluate\<close> answers CANT_ACCOMMODATE if and
  only if, were every evictable replica evicted, fewer than \<open>needed\<close> GPUs would have the
  share free. In particular no replica is refused while a set of permitted evictions would fit
  it.\<close>

theorem evaluate_refuses_exactly:
  assumes "node_inv n" and "gpus_needed_for n sz max_tp gpus = Inr (Inr needed)" and "0 < needed"
  shows "nd_evaluate rt n mk sz pinned ex max_tp gpus None = Inr (cant_accommodate None) \<longleftrightarrow>
    int (card (roomy rt n pinned ex (ceil_div sz needed))) < needed"
proof -
  let ?per = "ceil_div sz needed" and ?R = "roomy rt n pinned ex (ceil_div sz needed)"
  have R: "int (card ?R) \<le> gr_total (nd_gpu n)"
    unfolding gr_total_def of_nat_le_iff
    by (rule order_trans[OF card_mono card_length[of "gr_gpus (nd_gpu n)"]]) (auto simp: roomy_def)
  have fit: "int (length (gr_fitting (nd_gpu n) ?per)) \<le> int (card ?R)"
    using fitting_roomy[OF assms(1), of ?per rt pinned ex] by simp
  from find_evictions_gpus[OF assms(1,3), of rt ?per pinned ex] obtain evs a where
    fe: "find_evictions rt n needed ?per pinned ex = Inr (evs, a)"
      "a = [] \<longleftrightarrow> int (card ?R) < needed" by blast
  show ?thesis
  proof (cases "needed > gr_total (nd_gpu n)")
    case True
    with R assms(2) show ?thesis by (simp add: nd_evaluate_def)
  next
    case False
    then show ?thesis
      using assms(2,3) fe fit
      by (auto simp: nd_evaluate_def Let_def cant_accommodate_def)
  qed
qed

theorem evaluate_refuses_exactly_witness:
  "node_inv ex_node \<and> gpus_needed_for ex_node 9 None None = Inr (Inr 1) \<and>
   nd_evaluate ex_rt ex_node ''d'' 9 False (Some {''a'', ''d''}) None None None = Inr (cant_accommodate None)"
proof -
  have need: "gpus_needed_for ex_node 9 None None = Inr (Inr 1)" by code_simp
  have "evictable_items ex_rt ex_node False (Some {''a'', ''d''}) = []" by code_simp
  then have "reclaimable ex_rt ex_node False (Some {''a'', ''d''}) i = 0" for i
    by (simp add: reclaimable_def)
  moreover have "gr_gpus (nd_gpu ex_node) = [\<lparr>gpu_index = 0, gpu_memory_bytes = 10, gpu_available = 2\<rparr>,
      \<lparr>gpu_index = 1, gpu_memory_bytes = 10, gpu_available = 1\<rparr>]" by (simp add: ex_node_def)
  ultimately have "roomy ex_rt ex_node False (Some {''a'', ''d''}) (ceil_div 9 1) = {}"
    by (auto simp: roomy_def ceil_div_def)
  with evaluate_refuses_exactly[OF ex_node_inv need, of ex_rt "''d''" False "Some {''a'', ''d''}"] need ex_node_inv
  show ?thesis by simp
qed

section \<open>The errors of evaluate\<close>

lemma evaluate_returns:
  assumes "node_inv n" and "rt_ok rt" and "0 \<le> sz"
    and "gpus_needed_for n sz max_tp gpus = Inr (Inr needed)" and "0 < needed"
  shows "\<exists>c. nd_evaluate rt n mk sz pinned ex max_tp gpus None = Inr c"
proof -
  from find_evictions_gpus[OF assms(1,5)] obtain evs a where
    "find_evictions rt n needed (ceil_div sz needed) pinned ex = Inr (evs, a)" by blast
  then show ?thesis using assms(4,5) by (auto simp: nd_evaluate_def Let_def)
qed

lemma evaluate_zero_cards:
  "gpus_needed_for n sz max_tp gpus = Inr (Inr 0) \<Longrightarrow>
   nd_evaluate rt n mk sz pinned ex max_tp gpus None = Inl ZeroDivisionError"
  by (simp add: nd_evaluate_def gr_total_def)

lemma gpus_needed_derived:
  assumes "node_inv n" and "0 \<le> sz" and "gr_memory_bytes (nd_gpu n) \<noteq> 0"
  shows "\<exists>needed \<ge> 0. gpus_needed_for n sz max_tp None = Inr (Inr needed) \<and> (needed = 0 \<longleftrightarrow> sz = 0)"
proof -
  let ?m = "gr_memory_bytes (nd_gpu n)"
  have m: "0 < ?m" using assms(3) gr_memory_nonneg[OF assms(1)] by simp
  have c: "0 \<le> ceil_div sz ?m" by (rule ceil_div_nonneg[OF assms(2) m])
  have z: "ceil_div sz ?m = 0 \<longleftrightarrow> sz = 0"
    using ceil_div_covers[OF m, of sz] assms(2) by (auto simp: ceil_div_def)
  show ?thesis
  proof (cases "tp_degree max_tp (ceil_div sz ?m)")
    case None
    then show ?thesis using assms(3) c z by (simp add: gpus_needed_for_def gr_required_def)
  next
    case (Some d)
    then have "2 \<le> ceil_div sz ?m" "ceil_div sz ?m \<le> d" by (auto elim: tp_degree_SomeD)
    with Some assms(3) c z show ?thesis by (auto simp: gpus_needed_for_def gr_required_def)
  qed
qed

text \<open>On a node whose books balance \<open>evaluate\<close> raises in two cases only: \<open>ValueError\<close> when
  the count is to be derived from the size and the node's GPUs report no memory, and
  \<open>ZeroDivisionError\<close> when the count is 0, whether asked for (\<open>gpus: 0\<close>) or derived from a
  size of 0. The second is not checked anywhere before.\<close>

theorem evaluate_raises_iff:
  assumes "node_inv n" and "rt_ok rt" and "0 \<le> sz" and "\<And>g. gpus = Some g \<Longrightarrow> 0 \<le> g"
  shows "nd_evaluate rt n mk sz pinned ex max_tp gpus None = Inl e \<longleftrightarrow>
    (gpus = None \<and> gr_memory_bytes (nd_gpu n) = 0 \<and> e = ValueError) \<or>
    (e = ZeroDivisionError \<and>
      (gpus = Some 0 \<or> gpus = None \<and> sz = 0 \<and> gr_memory_bytes (nd_gpu n) \<noteq> 0))"
proof (cases "\<exists>needed. gpus_needed_for n sz max_tp gpus = Inr (Inr needed)")
  case True
  then obtain needed where needed: "gpus_needed_for n sz max_tp gpus = Inr (Inr needed)" by blast
  have nn: "0 \<le> needed" by (rule gpus_needed_nonneg[OF assms(1,3,4) needed])
  have zero: "needed = 0 \<longleftrightarrow> gpus = Some 0 \<or> gpus = None \<and> sz = 0"
    and mem: "gpus = None \<Longrightarrow> gr_memory_bytes (nd_gpu n) \<noteq> 0"
    using needed gpus_needed_derived[OF assms(1,3), of max_tp]
    by (cases gpus; force simp: gpus_needed_for_def gr_required_def split: option.splits if_splits)+
  show ?thesis
  proof (cases "needed = 0")
    case z: True
    with needed have "nd_evaluate rt n mk sz pinned ex max_tp gpus None = Inl ZeroDivisionError"
      by (simp add: evaluate_zero_cards)
    then show ?thesis using z zero mem by auto
  next
    case False
    with nn obtain c where "nd_evaluate rt n mk sz pinned ex max_tp gpus None = Inr c"
      using evaluate_returns[OF assms(1-3) needed] by force
    then show ?thesis using False zero mem by auto
  qed
next
  case False
  then consider "gpus = None" "gr_memory_bytes (nd_gpu n) = 0"
    | g rsn where "gpus = Some g" "1 < g" "gpus_needed_for n sz max_tp gpus = Inr (Inl rsn)"
    using gpus_needed_derived[OF assms(1,3), of max_tp]
    by (cases gpus) (auto simp: gpus_needed_for_def split: option.splits if_splits)
  then show ?thesis
    by cases (auto simp: nd_evaluate_def gpus_needed_for_def gr_required_def)
qed

theorem evaluate_raises_iff_witness:
  "node_inv ex_node \<and>
   nd_evaluate ex_rt ex_node ''d'' 7 False None None (Some 0) None = Inl ZeroDivisionError"
  using evaluate_raises_iff[OF ex_node_inv ex_rt_ok, of 7 "Some 0" "''d''" False None None ZeroDivisionError]
    ex_node_inv by simp

end
