(* ===== verification/Cluster_Deploy.thy ===== *)
theory Cluster_Deploy
  imports Cluster_Inv Node_Props
begin

text \<open>
  What \<open>Cluster.deploy\<close> does to the cluster: which HOT replicas it adds and removes, that its
  response says so, and that it keeps the invariant.
\<close>

section \<open>Choosing the node\<close>

text \<open>The candidates kept are those of the best level among all nodes, each from its node.\<close>

definition best_of ::
  "(node \<Rightarrow> candidate res) \<Rightarrow> (node_id, node) dict \<Rightarrow> (node_id, candidate) dict \<Rightarrow>
   candidate_level option \<Rightarrow> (node_id, candidate) dict \<Rightarrow> bool" where
  "best_of evaluate nodes cands best r \<longleftrightarrow>
     (\<forall>i c. (i, c) \<in> set r \<longrightarrow>
        ((i, c) \<in> set cands \<or> (\<exists>n. (i, n) \<in> set nodes \<and> evaluate n = Inr c)) \<and>
        (\<forall>b. best = Some b \<longrightarrow> cand_level c \<le> b) \<and>
        (\<forall>j n c'. (j, n) \<in> set nodes \<longrightarrow> evaluate n = Inr c' \<longrightarrow> cand_level c \<le> cand_level c'))"

text \<open>One node more: what is kept for the rest of the nodes is right for all of them.\<close>

lemma best_of_step:
  assumes "best_of evaluate nodes cands' (Some b) r" and "evaluate n = Inr c"
    and "\<And>j d. (j, d) \<in> set cands' \<Longrightarrow> (j, d) \<in> set cands \<or> j = i \<and> d = c"
    and "b \<le> cand_level c" and "\<And>b'. best = Some b' \<Longrightarrow> b \<le> b'"
  shows "best_of evaluate ((i, n) # nodes) cands best r"
  unfolding best_of_def
proof (intro allI impI conjI)
  fix j d assume jd: "(j, d) \<in> set r"
  note r = assms(1)[unfolded best_of_def, rule_format, OF jd]
  show "(j, d) \<in> set cands \<or> (\<exists>m. (j, m) \<in> set ((i, n) # nodes) \<and> evaluate m = Inr d)"
    using r assms(2,3) by auto
  have le: "cand_level d \<le> b" using r by simp
  show "cand_level d \<le> b'" if "best = Some b'" for b'
    using le assms(5)[OF that] by (rule order_trans)
  show "cand_level d \<le> cand_level c'" if "(j', m) \<in> set ((i, n) # nodes)" "evaluate m = Inr c'" for j' m c'
    using that r le assms(2,4) by auto
qed

lemma best_candidates_best:
  assumes "best_candidates evaluate nodes cands best = Inr r"
    and "\<And>i n. (i, n) \<in> set nodes \<Longrightarrow> nd_id n = i"
    and "\<And>i c. (i, c) \<in> set cands \<Longrightarrow> Some (cand_level c) = best"
  shows "best_of evaluate nodes cands best r"
  using assms
proof (induction evaluate nodes cands best rule: best_candidates.induct)
  case (1 evaluate cands best)
  then show ?case by (force simp: best_of_def)
next
  case (2 evaluate i n nodes cands best)
  note prems = "2.prems" and IH = "2.IH"
  from prems(1) obtain c where c: "evaluate n = Inr c" by (cases "evaluate n") simp_all
  have id: "nd_id n = i" by (rule prems(2)) simp
  have ids: "\<And>i n. (i, n) \<in> set nodes \<Longrightarrow> nd_id n = i" by (rule prems(2)) simp
  consider (better) "case best of None \<Rightarrow> True | Some b \<Rightarrow> cand_level c < b"
    | (equal) "best = Some (cand_level c)"
    | (worse) b where "best = Some b" "b < cand_level c"
    using linorder_less_linear[of "cand_level c"] by (cases best) auto
  then show ?case
  proof cases
    case better
    with prems(1) c have "best_candidates evaluate nodes [(nd_id n, c)] (Some (cand_level c)) = Inr r" by simp
    from IH(1)[OF c better this ids] have "best_of evaluate nodes [(nd_id n, c)] (Some (cand_level c)) r"
      by auto
    then show ?thesis by (rule best_of_step[where evaluate = evaluate, OF _ c]) (use id better in auto)
  next
    case equal
    then have no: "\<not> (case best of None \<Rightarrow> True | Some b \<Rightarrow> cand_level c < b)" by simp
    from equal prems(1) c have "best_candidates evaluate nodes (dict_set (nd_id n) c cands) best = Inr r" by simp
    from IH(2)[OF c no equal[symmetric] this ids] prems(3) set_dict_set[of "nd_id n" c cands] equal
    have "best_of evaluate nodes (dict_set (nd_id n) c cands) (Some (cand_level c)) r" by force
    then show ?thesis
      by (rule best_of_step[where evaluate = evaluate, OF _ c]) (use set_dict_set[of "nd_id n" c cands] id equal in auto)
  next
    case worse
    then have no: "\<not> (case best of None \<Rightarrow> True | Some b \<Rightarrow> cand_level c < b)"
      "Some (cand_level c) \<noteq> best" by auto
    with prems(1) c have "best_candidates evaluate nodes cands best = Inr r" by simp
    from IH(3)[OF c no this ids prems(3)] worse(1) have "best_of evaluate nodes cands (Some b) r" by simp
    then show ?thesis by (rule best_of_step[where evaluate = evaluate, OF _ c]) (use worse in auto)
  qed
qed

lemma best_candidates_ok:
  assumes "best_candidates evaluate (cl_nodes cl) [] None = Inr r" and "cluster_inv cl" and "(i, c) \<in> set r"
  shows "\<exists>n. map_of (cl_nodes cl) i = Some n \<and> evaluate n = Inr c"
    and "\<And>j m c'. map_of (cl_nodes cl) j = Some m \<Longrightarrow> evaluate m = Inr c' \<Longrightarrow> cand_level c \<le> cand_level c'"
proof -
  have wf: "dict_wf (cl_nodes cl)" using assms(2) by (simp add: cluster_inv_def)
  then have "nd_id n = i" if "(i, n) \<in> set (cl_nodes cl)" for i n
    using that cluster_invD(1)[OF assms(2)] by (simp add: dict_wf_in)
  from best_candidates_best[OF assms(1) this]
  have "best_of evaluate (cl_nodes cl) [] None r" by simp
  from this[unfolded best_of_def, rule_format, OF assms(3)]
  have "(\<exists>n. (i, n) \<in> set (cl_nodes cl) \<and> evaluate n = Inr c) \<and>
    (\<forall>j m c'. (j, m) \<in> set (cl_nodes cl) \<longrightarrow> evaluate m = Inr c' \<longrightarrow> cand_level c \<le> cand_level c')"
    by simp
  then show "\<exists>n. map_of (cl_nodes cl) i = Some n \<and> evaluate n = Inr c"
    and "\<And>j m c'. map_of (cl_nodes cl) j = Some m \<Longrightarrow> evaluate m = Inr c' \<Longrightarrow> cand_level c \<le> cand_level c'"
    using wf by (auto simp: dict_wf_in)
qed

lemma best_candidates_raises:
  "best_candidates evaluate nodes cands best = Inl e \<Longrightarrow> \<exists>(i, n) \<in> set nodes. evaluate n = Inl e"
  by (induction evaluate nodes cands best rule: best_candidates.induct)
    (auto split: sum.splits if_splits)

section \<open>The HOT replicas of a cluster\<close>

definition hot :: "cluster \<Rightarrow> replica_key \<Rightarrow> deployment \<Rightarrow> bool" where
  "hot cl k d \<longleftrightarrow> (\<exists>i n. map_of (cl_nodes cl) i = Some n \<and> nget (nd_deployments n) k = Some d)"

text \<open>A replica that is on node \<open>i\<close>, WARM or of a model outside \<open>ex\<close>.\<close>

definition settled :: "model_key set \<Rightarrow> cluster \<Rightarrow> node_id \<Rightarrow> replica_key \<Rightarrow> bool" where
  "settled ex cl i k \<longleftrightarrow>
     (\<exists>n. map_of (cl_nodes cl) i = Some n \<and>
        (nget (nd_cache n) k \<noteq> None \<or> nget (nd_deployments n) k \<noteq> None \<and> fst k \<notin> ex))"

text \<open>From \<open>cl\<close> to \<open>cl'\<close>, outside the models \<open>ex\<close>, the HOT side lost exactly the replicas
  \<open>evs\<close>, none of them pinned, and gained none; the models \<open>ex\<close> lost none, and no new replica
  is WARM.\<close>

definition swept :: "model_key set \<Rightarrow> replica_key set \<Rightarrow> cluster \<Rightarrow> cluster \<Rightarrow> bool" where
  "swept ex evs cl cl' \<longleftrightarrow>
     (\<forall>k d. hot cl k d \<longrightarrow> k \<notin> evs \<longrightarrow> hot cl' k d) \<and>
     (\<forall>k d. hot cl' k d \<longrightarrow> hot cl k d \<and> k \<notin> evs \<or> fst k \<in> ex) \<and>
     (\<forall>k \<in> evs. fst k \<notin> ex \<and> (\<exists>d. hot cl k d \<and> \<not> dep_pinned d)) \<and>
     (\<forall>i k. settled ex cl' i k \<longrightarrow> settled ex cl i k) \<and>
     (\<forall>i. map_of (cl_nodes cl') i = None \<longleftrightarrow> map_of (cl_nodes cl) i = None)"

lemma swept_refl: "cl_nodes cl' = cl_nodes cl \<Longrightarrow> swept ex {} cl cl'"
  by (simp add: swept_def hot_def settled_def)

lemma sweptD:
  assumes "swept ex evs cl cl'"
  shows "\<And>k d. hot cl k d \<Longrightarrow> k \<notin> evs \<Longrightarrow> hot cl' k d"
    and "\<And>k d. hot cl' k d \<Longrightarrow> hot cl k d \<and> k \<notin> evs \<or> fst k \<in> ex"
    and "\<And>k. k \<in> evs \<Longrightarrow> fst k \<notin> ex"
    and "\<And>k. k \<in> evs \<Longrightarrow> \<exists>d. hot cl k d \<and> \<not> dep_pinned d"
    and "\<And>i k. settled ex cl' i k \<Longrightarrow> settled ex cl i k"
    and "\<And>i. map_of (cl_nodes cl') i = None \<longleftrightarrow> map_of (cl_nodes cl) i = None"
  using assms unfolding swept_def by blast+

lemma swept_trans:
  assumes a: "swept ex e1 a b" and b: "swept ex e2 b c"
  shows "swept ex (e1 \<union> e2) a c"
  unfolding swept_def
proof (intro conjI allI impI ballI)
  fix k d
  show "hot c k d" if "hot a k d" "k \<notin> e1 \<union> e2" using that sweptD(1)[OF a] sweptD(1)[OF b] by simp
  show "hot a k d \<and> k \<notin> e1 \<union> e2 \<or> fst k \<in> ex" if "hot c k d"
    using that sweptD(2)[OF a, of k d] sweptD(2)[OF b, of k d] by auto
  show "settled ex a i k" if "settled ex c i k" for i using that sweptD(5)[OF a] sweptD(5)[OF b] by simp
  show "map_of (cl_nodes c) i = None \<longleftrightarrow> map_of (cl_nodes a) i = None" for i
    using sweptD(6)[OF a] sweptD(6)[OF b] by simp
next
  fix k assume k: "k \<in> e1 \<union> e2"
  show "fst k \<notin> ex" using k sweptD(3)[OF a] sweptD(3)[OF b] by blast
  show "\<exists>d. hot a k d \<and> \<not> dep_pinned d"
  proof (cases "k \<in> e1")
    case True
    then show ?thesis by (rule sweptD(4)[OF a])
  next
    case False
    with k obtain d where d: "hot b k d" "\<not> dep_pinned d" using sweptD(4)[OF b, of k] by blast
    with sweptD(2)[OF a d(1)] \<open>fst k \<notin> ex\<close> show ?thesis by blast
  qed
qed

lemma hot_unique: "cluster_inv cl \<Longrightarrow> hot cl k d \<Longrightarrow> map_of (cl_nodes cl) i = Some n \<Longrightarrow> holds n k \<Longrightarrow>
  nget (nd_deployments n) k = Some d"
proof -
  assume inv: "cluster_inv cl" and n: "map_of (cl_nodes cl) i = Some n" and hk: "holds n k" and "hot cl k d"
  then obtain j m where m: "map_of (cl_nodes cl) j = Some m" "nget (nd_deployments m) k = Some d"
    by (auto simp: hot_def)
  then have "holds m k" by (auto simp: holds_def entry_def)
  with cluster_invD(4)[OF inv n m(1)] hk n m show ?thesis by simp
qed

lemma hot_update:
  assumes "map_of (cl_nodes cl) i = Some n" and "cl_nodes cl' = dict_set i n' (cl_nodes cl)"
  shows "hot cl' k d \<longleftrightarrow> nget (nd_deployments n') k = Some d \<or>
    (\<exists>j m. j \<noteq> i \<and> map_of (cl_nodes cl) j = Some m \<and> nget (nd_deployments m) k = Some d)"
  using assms by (auto simp: hot_def update_conv')

lemma hot_update_same:
  assumes "map_of (cl_nodes cl) i = Some n" and "cl_nodes cl' = dict_set i n' (cl_nodes cl)"
    and "nget (nd_deployments n') k = nget (nd_deployments n) k"
  shows "hot cl' k d \<longleftrightarrow> hot cl k d"
proof -
  have "hot cl k d \<longleftrightarrow> nget (nd_deployments n) k = Some d \<or>
    (\<exists>j m. j \<noteq> i \<and> map_of (cl_nodes cl) j = Some m \<and> nget (nd_deployments m) k = Some d)"
    unfolding hot_def using assms(1) by (metis option.inject)
  then show ?thesis unfolding hot_update[OF assms(1,2)] assms(3) by simp
qed

lemma placed_hot:
  assumes inv: "cluster_inv cl" and n: "map_of (cl_nodes cl) i = Some n"
    and cl': "cl_nodes cl' = dict_set i n' (cl_nodes cl)"
    and p: "placed rt n mk c sz pinned rid n'" and ok: "cand_ok rt n pinned (Some ex) c" and mk: "mk \<in> ex"
    and new: "nget (nd_deployments n) (mk, rid) = None"
    and n'i: "node_inv n'" and cache: "\<And>k. nget (nd_cache n') k \<noteq> None \<Longrightarrow> holds n k"
  shows "swept ex (set (cand_evictions c)) cl cl'"
    and "\<exists>d. hot cl' (mk, rid) d \<and> dep_size_bytes d = sz \<and> dep_pinned d = pinned \<and> dep_gpus d = cand_gpus c"
proof -
  let ?evs = "set (cand_evictions c)"
  have evs: "\<exists>d. nget (nd_deployments n) k = Some d \<and> \<not> dep_pinned d \<and> fst k \<notin> ex" if "k \<in> ?evs" for k
    using that ok by (auto simp: cand_ok_def evictable_def excluded_def split: if_splits)
  have n': "nget (nd_deployments n') k = (if k \<in> ?evs then None else nget (nd_deployments n) k)"
    if "k \<noteq> (mk, rid)" for k using that p by (simp add: placed_def)
  have only: "nget (nd_deployments m) k = None" if "k \<in> ?evs" "map_of (cl_nodes cl) j = Some m" "j \<noteq> i" for k j m
    using evs[OF that(1)] cluster_invD(4)[OF inv n that(2), of k] that(3)
    by (cases "nget (nd_deployments m) k") (auto simp: holds_def entry_def)
  note up = hot_update[OF n cl']
  have "hot cl' k d" if hk: "hot cl k d" "k \<notin> ?evs" for k d
  proof -
    from hk(1) obtain j m where m: "map_of (cl_nodes cl) j = Some m" "nget (nd_deployments m) k = Some d"
      by (auto simp: hot_def)
    show ?thesis
    proof (cases "j = i")
      case True
      with m n have kn: "nget (nd_deployments n) k = Some d" by simp
      with new have "k \<noteq> (mk, rid)" by auto
      then show ?thesis using n' kn hk(2) by (simp add: up)
    next
      case False
      with m show ?thesis unfolding up by blast
    qed
  qed
  moreover have "hot cl k d \<and> k \<notin> ?evs \<or> fst k \<in> ex" if "hot cl' k d" for k d
  proof (cases "k = (mk, rid)")
    case False
    from that[unfolded up] show ?thesis
    proof
      assume "nget (nd_deployments n') k = Some d"
      then show ?thesis using n'[OF False] n by (auto simp: hot_def split: if_splits)
    next
      assume "\<exists>j m. j \<noteq> i \<and> map_of (cl_nodes cl) j = Some m \<and> nget (nd_deployments m) k = Some d"
      then obtain j m where m: "j \<noteq> i" "map_of (cl_nodes cl) j = Some m" "nget (nd_deployments m) k = Some d"
        by blast
      have "k \<notin> ?evs" using only[of k j m] m by auto
      with m show ?thesis by (auto simp: hot_def)
    qed
  qed (simp add: mk)
  moreover have "fst k \<notin> ex \<and> (\<exists>d. hot cl k d \<and> \<not> dep_pinned d)" if "k \<in> ?evs" for k
    using evs[OF that] n by (auto simp: hot_def)
  moreover have "settled ex cl j k" if "settled ex cl' j k" for j k
  proof (cases "j = i")
    case False
    then show ?thesis using that cl' by (simp add: settled_def update_conv')
  next
    case True
    have "nget (nd_cache n) k \<noteq> None \<or> nget (nd_deployments n) k \<noteq> None \<and> fst k \<notin> ex"
    proof (cases "nget (nd_cache n') k")
      case None
      with that True cl' have "nget (nd_deployments n') k \<noteq> None" "fst k \<notin> ex"
        by (simp_all add: settled_def update_conv')
      moreover have "k \<noteq> (mk, rid)" using calculation(2) mk by auto
      ultimately show ?thesis using n'[of k] by (auto split: if_splits)
    next
      case (Some d)
      then have "nget (nd_deployments n') k = None" using n'i by (metis node_inv_def option.distinct(1))
      moreover have "holds n k" using cache[of k] Some by simp
      moreover have "k \<noteq> (mk, rid)" using calculation(1) p by (auto simp: placed_def)
      ultimately show ?thesis using n'[of k] evs[of k] by (auto simp: holds_def entry_def split: if_splits)
    qed
    with True n show ?thesis by (simp add: settled_def)
  qed
  moreover have "map_of (cl_nodes cl') j = None \<longleftrightarrow> map_of (cl_nodes cl) j = None" for j
    using n by (simp add: cl' update_conv')
  ultimately show "swept ex ?evs cl cl'" unfolding swept_def by (intro conjI allI impI ballI) blast+
  show "\<exists>d. hot cl' (mk, rid) d \<and> dep_size_bytes d = sz \<and> dep_pinned d = pinned \<and> dep_gpus d = cand_gpus c"
    using p by (auto simp: up placed_def)
qed

section \<open>One replica\<close>

definition mem_ok :: "cluster \<Rightarrow> bool" where
  "mem_ok cl \<longleftrightarrow> (\<forall>i n. map_of (cl_nodes cl) i = Some n \<longrightarrow> gr_memory_bytes (nd_gpu n) \<noteq> 0)"

lemma gr_memory_map:
  "map gpu_memory_bytes (gr_gpus r) = map gpu_memory_bytes (gr_gpus r') \<Longrightarrow> gr_memory_bytes r = gr_memory_bytes r'"
  by (cases "gr_gpus r"; cases "gr_gpus r'") (simp_all add: gr_memory_bytes_def)

lemma fresh_ids_mono: "fresh_ids rt cl m \<Longrightarrow> m' \<le> m \<Longrightarrow> fresh_ids rt cl m'"
  unfolding fresh_ids_def by (auto intro: inj_on_subset)

text \<open>What one pass of the replica loop leaves, by its outcome.\<close>

definition placed_one ::
  "model_key set \<Rightarrow> model_key \<Rightarrow> deployment_config \<Rightarrow> int \<Rightarrow> cluster \<Rightarrow> cluster \<Rightarrow>
   (deploy_error + (replica_id \<times> replica_key list)) res \<Rightarrow> bool" where
  "placed_one ex mk cfg sz cl cl' r =
     (case r of
        Inl e \<Rightarrow> cl_nodes cl' = cl_nodes cl \<and> \<not> mem_ok cl
      | Inr (Inl e) \<Rightarrow> cl_nodes cl' = cl_nodes cl
      | Inr (Inr (rid, ks)) \<Rightarrow>
          swept ex (set ks) cl cl' \<and> (mem_ok cl \<longrightarrow> mem_ok cl') \<and>
          (\<exists>d. hot cl' (mk, rid) d \<and> dep_size_bytes d = sz \<and> dep_pinned d = cfg_pinned cfg) \<and>
          \<not> (\<exists>d. hot cl (mk, rid) d))"

lemma place_on_node:
  assumes inv: "cluster_inv cl" and rt: "rt_ok rt" and sz: "0 < sz" and g: "\<And>g. gpus = Some g \<Longrightarrow> 0 < g"
    and fresh: "fresh_ids rt cl (Suc m)" and mk: "mk \<in> ex" and n: "map_of (cl_nodes cl) i = Some n"
    and ev: "nd_evaluate rt n mk sz (cfg_pinned cfg) (Some ex) max_tp gpus None = Inr c"
    and dp: "nd_deploy rt (rt_uuid rt (cl_draws cl)) n mk c sz (cfg_pinned cfg) (Some ex) timeout cls dtype = (n', r)"
    and cl': "cl_nodes cl' = dict_set i n' (cl_nodes cl)" "cl_draws cl' = Suc (cl_draws cl)"
  shows "\<exists>rid. r = Inr rid \<and> cluster_inv cl' \<and> fresh_ids rt cl' m \<and>
    placed_one ex mk cfg sz cl cl' (Inr (Inr (rid, cand_evictions c)))"
proof -
  let ?f = "rt_uuid rt (cl_draws cl)"
  note ni = cluster_invD(2)[OF inv n]
  have nofresh: "\<not> holds m' (mk', ?f)" if "map_of (cl_nodes cl) j = Some m'" for j m' mk'
    using fresh that by (auto simp: fresh_ids_def)
  have f: "nget (nd_deployments n) (mk, ?f) = None" "nget (nd_cache n) (mk, ?f) = None"
    using nofresh[OF n, of mk] by (simp_all add: not_holds)
  have ok: "cand_ok rt n (cfg_pinned cfg) (Some ex) c"
    using nd_evaluate_ok[OF ni rt _ _ _ ev] sz g by force
  from nd_deploy_ok[OF ni ok _ f, of sz "cfg_pinned cfg" timeout cls dtype] dp sz mk obtain rid
    where r: "r = Inr rid" and n': "node_inv n'" and p: "placed rt n mk c sz (cfg_pinned cfg) rid n'"
      and new: "nget (nd_deployments n) (mk, rid) = None" by (auto simp: excluded_def)
  have came: "came {(mk, ?f)} n n'" using nd_deploy_came[of mk ?f n rt c sz "cfg_pinned cfg" "Some ex" timeout cls dtype] dp
    by simp
  have "cluster_inv (cl\<lparr>cl_nodes := dict_set i n' (cl_nodes cl)\<rparr>)"
    using nofresh by (intro cluster_inv_update[OF inv n came n']) auto
  then have inv': "cluster_inv cl'" using cl'(1) by (simp add: cluster_inv_def)
  have "\<not> hot cl (mk, rid) d" for d
  proof
    assume h: "hot cl (mk, rid) d"
    have "holds n' (mk, rid)" using p by (auto simp: placed_def holds_def entry_def)
    then consider "holds n (mk, rid)" | "rid = ?f" using came_holds[OF came] by auto
    then show False
    proof cases
      case 1
      then show False using hot_unique[OF inv h n] new by simp
    next
      case 2
      then show False using h nofresh[of _ _ mk] by (fastforce simp: hot_def holds_def entry_def)
    qed
  qed
  moreover have "mem_ok cl'" if "mem_ok cl"
    using that gr_memory_map[of "nd_gpu n'" "nd_gpu n"] p n cl'(1)
    by (auto simp: mem_ok_def placed_def update_conv')
  moreover have "holds n k" if "nget (nd_cache n') k \<noteq> None" for k
    using nd_deploy_cache[of rt ?f n mk c sz "cfg_pinned cfg" "Some ex" timeout cls dtype k] dp that by simp
  ultimately show ?thesis
    using r inv' placed_hot[OF inv n cl'(1) p ok mk new n'] fresh_ids_step[OF fresh inv n came cl']
    by (auto simp: placed_one_def)
qed

definition cfg_ok :: "deployment_config \<Rightarrow> bool" where
  "cfg_ok cfg \<longleftrightarrow>
     (\<forall>s. cfg_size_bytes cfg = Some s \<longrightarrow> 0 < s) \<and> (\<forall>p. cfg_padding_factor cfg = Some p \<longrightarrow> 0 \<le> p) \<and>
     (\<forall>b. cfg_padding_bias cfg = Some b \<longrightarrow> 0 \<le> b) \<and> (\<forall>g. cfg_gpus cfg = Some g \<longrightarrow> 0 < g)"

lemma evaluate_raises_mem:
  assumes "node_inv n" and "rt_ok rt" and "0 < sz" and "cfg_ok cfg"
    and "nd_evaluate rt n mk sz pinned ex max_tp (cfg_gpus cfg) None = Inl e"
  shows "gr_memory_bytes (nd_gpu n) = 0"
proof (rule ccontr)
  assume mem: "gr_memory_bytes (nd_gpu n) \<noteq> 0"
  have "(\<exists>needed > 0. gpus_needed_for n sz max_tp (cfg_gpus cfg) = Inr (Inr needed))
      \<or> (\<exists>x. gpus_needed_for n sz max_tp (cfg_gpus cfg) = Inr (Inl x))"
  proof (cases "cfg_gpus cfg")
    case None
    from gpus_needed_derived[OF assms(1) less_imp_le[OF assms(3)] mem, of max_tp] assms(3)
    show ?thesis using None by (metis less_le)
  next
    case (Some g)
    then show ?thesis using assms(4) by (auto simp: gpus_needed_for_def cfg_ok_def split: option.splits)
  qed
  then show False
  proof (elim disjE exE conjE)
    fix needed :: int assume "0 < needed" "gpus_needed_for n sz max_tp (cfg_gpus cfg) = Inr (Inr needed)"
    from evaluate_returns[OF assms(1,2) less_imp_le[OF assms(3)] this(2,1), of mk pinned ex] assms(5)
    show False by simp
  next
    fix x assume "gpus_needed_for n sz max_tp (cfg_gpus cfg) = Inr (Inl x)"
    with assms(5) show False by (simp add: nd_evaluate_def)
  qed
qed

text \<open>The three ways a pass of the replica loop ends.\<close>

lemma place_replica_cases:
  assumes inv: "cluster_inv cl" and rt: "rt_ok rt" and pr: "place_replica rt h ex cl mk cfg sz k = (cl', r)"
  obtains (raised) e i n max_tp where "r = Inl e" "cl_nodes cl' = cl_nodes cl" "cl_draws cl' = Suc (cl_draws cl)"
      "map_of (cl_nodes cl) i = Some n"
      "nd_evaluate rt n mk sz (cfg_pinned cfg) (Some ex) max_tp (cfg_gpus cfg) None = Inl e"
  | (stopped) e where "r = Inr (Inl e)" "cl_nodes cl' = cl_nodes cl" "cl_draws cl' = Suc (cl_draws cl)"
  | (tried) i n max_tp c cls n' x where "map_of (cl_nodes cl) i = Some n"
      "nd_evaluate rt n mk sz (cfg_pinned cfg) (Some ex) max_tp (cfg_gpus cfg) None = Inr c"
      "nd_deploy rt (rt_uuid rt (cl_draws cl)) n mk c sz (cfg_pinned cfg) (Some ex)
         (cfg_execution_timeout_seconds cfg) (Some cls) (cfg_dtype cfg) = (n', x)"
      "cl_nodes cl' = dict_set i n' (cl_nodes cl)" "cl_draws cl' = Suc (cl_draws cl)"
      "r = (case x of Inl e \<Rightarrow> Inl e | Inr rid \<Rightarrow> Inr (Inr (rid, cand_evictions c)))"
proof -
  obtain ev1 max_tp where e1: "ev_max_tp h (cl_evaluator cl) mk (cfg_dtype cfg) (cfg_max_tp cfg) = (ev1, max_tp)"
    by fastforce
  let ?ev = "\<lambda>n. nd_evaluate rt n mk sz (cfg_pinned cfg) (Some ex) max_tp (cfg_gpus cfg) None"
  note pr' = pr[unfolded place_replica_def Let_def, simplified e1, simplified]
  show thesis
  proof (cases "best_candidates ?ev (cl_nodes cl) [] None")
    case (Inl e)
    from best_candidates_raises[OF Inl] obtain i n where "(i, n) \<in> set (cl_nodes cl)" and e: "?ev n = Inl e"
      by auto
    then have n: "map_of (cl_nodes cl) i = Some n" using inv by (simp add: cluster_inv_def dict_wf_in)
    show thesis by (rule raised[OF _ _ _ n e]) (use pr' Inl in auto)
  next
    case (Inr cs)
    show thesis
    proof (cases cs)
      case Nil
      show thesis by (rule stopped) (use pr' Inr Nil in auto)
    next
      case (Cons y ys)
      obtain i c where ic: "cs ! rt_choice rt (cl_draws cl) (length cs) = (i, c)" by fastforce
      have "rt_choice rt (cl_draws cl) (length cs) < length cs" using rt Cons by (simp add: rt_ok_def)
      then have "(i, c) \<in> set cs" using ic by (metis nth_mem)
      from best_candidates_ok(1)[OF Inr inv this] obtain n
        where n: "map_of (cl_nodes cl) i = Some n" and ev: "?ev n = Inr c" by blast
      show thesis
      proof (cases "cand_level c = CANT_ACCOMMODATE")
        case True
        show thesis by (rule stopped) (use pr' Inr Cons ic True in auto)
      next
        case False
        obtain ev2 cls where e2: "chosen_class h ev1 (cl_default_class cl) mk cfg (length (cand_gpus c)) = (ev2, cls)"
          by fastforce
        obtain n' x' where dp: "nd_deploy rt (rt_uuid rt (cl_draws cl)) n mk c sz (cfg_pinned cfg) (Some ex)
            (cfg_execution_timeout_seconds cfg) (Some cls) (cfg_dtype cfg) = (n', x')" by fastforce
        show thesis by (rule tried[OF n ev dp]) (use pr' Inr Cons ic False n e2 dp in auto)
      qed
    qed
  qed
qed

lemma place_replica_ok:
  assumes inv: "cluster_inv cl" and rt: "rt_ok rt" and sz: "0 < sz" and cfg: "cfg_ok cfg"
    and fresh: "fresh_ids rt cl (Suc m)" and mk: "mk \<in> ex"
    and pr: "place_replica rt h ex cl mk cfg sz k = (cl', r)"
  shows "cluster_inv cl' \<and> fresh_ids rt cl' m \<and> placed_one ex mk cfg sz cl cl' r"
  using inv rt pr
proof (cases rule: place_replica_cases)
  case (raised e i n max_tp)
  from evaluate_raises_mem[OF cluster_invD(2)[OF inv raised(4)] rt sz cfg raised(5)] raised(4)
  have "\<not> mem_ok cl" by (auto simp: mem_ok_def)
  then show ?thesis
    using raised cluster_inv_frame[OF raised(2)] inv fresh_ids_skip[OF fresh raised(2,3)]
    by (simp add: placed_one_def)
next
  case (stopped e)
  then show ?thesis
    using cluster_inv_frame[OF stopped(2)] inv fresh_ids_skip[OF fresh stopped(2,3)]
    by (simp add: placed_one_def)
next
  case (tried i n max_tp c cls n' x)
  from place_on_node[OF inv rt sz _ fresh mk tried(1-5)] cfg tried(6) show ?thesis
    by (auto simp: cfg_ok_def)
qed

section \<open>The replicas of one model\<close>

text \<open>What the replica loop leaves: \<open>new\<close> are the replicas it added, \<open>ks\<close> those it evicted,
  and it stops short only with an error.\<close>

definition grown ::
  "model_key set \<Rightarrow> model_key \<Rightarrow> nat \<Rightarrow> cluster \<Rightarrow> cluster \<Rightarrow> model_deploy_result \<Rightarrow>
   model_deploy_result \<Rightarrow> replica_id list \<Rightarrow> replica_key set \<Rightarrow> bool" where
  "grown ex mk m cl cl' r r' new ks \<longleftrightarrow>
     swept ex ks cl cl' \<and> res_replicas r' = res_replicas r @ new \<and> distinct new \<and>
     (\<forall>rid \<in> set new. (\<exists>d. hot cl' (mk, rid) d) \<and> \<not> (\<exists>d. hot cl (mk, rid) d)) \<and>
     (res_error r' = res_error r \<and> length new = m \<or> res_error r' \<noteq> None \<and> length new < m) \<and>
     (new = [] \<longrightarrow> cl_nodes cl' = cl_nodes cl)"

lemma swept_keeps: "swept ex ks cl cl' \<Longrightarrow> hot cl (mk, rid) d \<Longrightarrow> mk \<in> ex \<Longrightarrow> hot cl' (mk, rid) d"
  using sweptD(1,3)[of ex ks cl cl' "(mk, rid)"] by auto

lemma grown_Suc:
  assumes one: "placed_one ex mk cfg sz cl cl1 (Inr (Inr (rid, ks)))" and mk: "mk \<in> ex"
    and rest: "grown ex mk m cl1 cl' (r\<lparr>res_replicas := res_replicas r @ [rid]\<rparr>) r' new ks'"
  shows "grown ex mk (Suc m) cl cl' r r' (rid # new) (set ks \<union> ks')"
proof -
  have s: "swept ex (set ks) cl cl1" "swept ex ks' cl1 cl'"
    using one rest by (auto simp: placed_one_def grown_def)
  obtain d where d: "hot cl1 (mk, rid) d" "\<not> (\<exists>d. hot cl (mk, rid) d)"
    using one by (auto simp: placed_one_def)
  have new: "(\<exists>d. hot cl' (mk, x) d) \<and> \<not> (\<exists>d. hot cl1 (mk, x) d)" if "x \<in> set new" for x
    using rest that by (simp add: grown_def)
  then have "\<not> (\<exists>d. hot cl (mk, x) d)" if "x \<in> set new" for x
    using swept_keeps[OF s(1) _ mk] that by blast
  moreover have "rid \<notin> set new" using new d by blast
  moreover have "hot cl' (mk, rid) d" by (rule swept_keeps[OF s(2) d(1) mk])
  ultimately show ?thesis
    using rest d(2) new swept_trans[OF s] by (auto simp: grown_def)
qed

lemma place_replicas_ok:
  assumes "cluster_inv cl" and "rt_ok rt" and "0 < sz" and "cfg_ok cfg"
    and "fresh_ids rt cl (m + m')" and "mk \<in> ex"
    and "place_replicas rt h ex mk cfg sz m cl r evs = (cl', x)"
  shows "cluster_inv cl' \<and>
    (case x of
       Inl e \<Rightarrow> \<not> mem_ok cl
     | Inr (r', evs') \<Rightarrow>
         fresh_ids rt cl' m' \<and> (mem_ok cl \<longrightarrow> mem_ok cl') \<and>
         (\<exists>new ks. evs' = evs \<union> ks \<and> grown ex mk m cl cl' r r' new ks))"
  using assms(1,5,7)
proof (induction m arbitrary: cl r evs)
  case 0
  then show ?case by (auto simp: grown_def swept_refl intro!: exI[of _ "{}"])
next
  case (Suc m)
  obtain cl1 y where one: "place_replica rt h ex cl mk cfg sz (length (res_replicas r)) = (cl1, y)"
    by fastforce
  have fr: "fresh_ids rt cl (Suc (m + m'))" using Suc.prems(2) by simp
  note step = place_replica_ok[OF Suc.prems(1) assms(2-4) fr assms(6) one]
  consider (raised) e where "y = Inl e" | (stopped) e where "y = Inr (Inl e)"
    | (placed) rid ks where "y = Inr (Inr (rid, ks))"
    by (metis obj_sumE surj_pair)
  then show ?case
  proof cases
    case raised
    then show ?thesis using Suc.prems(3) one step by (auto simp: placed_one_def)
  next
    case stopped
    then have nodes: "cl_nodes cl1 = cl_nodes cl" and "cl' = cl1" and x: "x = Inr (r\<lparr>res_error := Some e\<rparr>, evs)"
      using Suc.prems(3) one step by (auto simp: placed_one_def)
    moreover have "grown ex mk (Suc m) cl cl1 r (r\<lparr>res_error := Some e\<rparr>) [] {}"
      using nodes by (simp add: grown_def swept_refl)
    moreover have "fresh_ids rt cl1 m'" using step by (auto intro: fresh_ids_mono)
    ultimately show ?thesis using step by (auto simp: mem_ok_def)
  next
    case placed
    let ?r1 = "r\<lparr>res_replicas := res_replicas r @ [rid]\<rparr>"
    have rest: "place_replicas rt h ex mk cfg sz m cl1 ?r1 (evs \<union> set ks) = (cl', x)"
      using Suc.prems(3) one placed by simp
    have mem: "mem_ok cl \<longrightarrow> mem_ok cl1" using step placed by (simp add: placed_one_def)
    note IH = Suc.IH[OF _ _ rest] step
    show ?thesis
    proof (cases x)
      case (Inl e)
      then show ?thesis using IH mem by auto
    next
      case (Inr p)
      obtain r' evs' where p: "p = (r', evs')" by fastforce
      from IH Inr p obtain new ks' where g: "evs' = (evs \<union> set ks) \<union> ks'" "grown ex mk m cl1 cl' ?r1 r' new ks'"
        by auto
      have "grown ex mk (Suc m) cl cl' r r' (rid # new) (set ks \<union> ks')"
        using step placed grown_Suc[OF _ assms(6) g(2)] by blast
      moreover have "evs' = evs \<union> (set ks \<union> ks')" using g(1) by blast
      ultimately show ?thesis using IH Inr p mem by auto
    qed
  qed
qed

section \<open>The whole batch\<close>

text \<open>The result of one model, measured against the cluster before and after the batch.\<close>

definition good_result ::
  "cluster \<Rightarrow> cluster \<Rightarrow> model_key \<Rightarrow> deployment_config \<Rightarrow> model_deploy_result \<Rightarrow> bool" where
  "good_result cl cl' mk cfg r \<longleftrightarrow>
     (res_replicas r \<noteq> [] \<or> res_error r \<noteq> None) \<and> distinct (res_replicas r) \<and>
     (if res_error r = None then length (res_replicas r) = nat (cfg_replicas cfg)
      else length (res_replicas r) < nat (cfg_replicas cfg) \<or> res_replicas r = []) \<and>
     (\<forall>rid \<in> set (res_replicas r). (\<exists>d. hot cl' (mk, rid) d) \<and> \<not> (\<exists>d. hot cl (mk, rid) d))"

lemma good_result_frame:
  assumes "good_result cl1 cl2 mk cfg r" and "swept ex k1 cl cl1" and "swept ex k2 cl2 cl'" and "mk \<in> ex"
  shows "good_result cl cl' mk cfg r"
  using assms(1) swept_keeps[OF assms(2) _ assms(4)] swept_keeps[OF assms(3) _ assms(4)]
  unfolding good_result_def by meson

lemma close_result_good:
  assumes "grown ex mk (nat (cfg_replicas cfg)) cl cl' empty_result r new ks"
  shows "good_result cl cl' mk cfg (close_result r)"
  using assms by (auto simp: grown_def good_result_def close_result_def empty_result_def)

text \<open>What the loop over the models leaves.\<close>

type_synonym sized = "model_key \<times> deployment_config \<times> int"

definition wanted :: "sized list \<Rightarrow> nat" where
  "wanted xs = sum_list (map (\<lambda>(_, cfg, _). nat (cfg_replicas cfg)) xs)"

definition batch ::
  "model_key set \<Rightarrow> sized list \<Rightarrow> cluster \<Rightarrow> cluster \<Rightarrow> deploy_response \<Rightarrow> deploy_response \<Rightarrow>
   replica_key set \<Rightarrow> bool" where
  "batch ex xs cl cl' resp resp' ks \<longleftrightarrow>
     swept ex ks cl cl' \<and> resp_evictions resp' = resp_evictions resp \<union> ks \<and>
     (\<forall>mk. mk \<notin> fst ` set xs \<longrightarrow> map_of (resp_results resp') mk = map_of (resp_results resp) mk) \<and>
     (\<forall>mk cfg sz. (mk, cfg, sz) \<in> set xs \<longrightarrow>
        (\<exists>r. map_of (resp_results resp') mk = Some r \<and> good_result cl cl' mk cfg r)) \<and>
     (resp_change resp' \<longleftrightarrow> resp_change resp \<or>
        (\<exists>mk r. mk \<in> fst ` set xs \<and> map_of (resp_results resp') mk = Some r \<and> res_replicas r \<noteq> [])) \<and>
     (\<not> resp_change resp' \<longrightarrow> cl_nodes cl' = cl_nodes cl)"

lemma batch_Cons:
  assumes g: "grown ex mk (nat (cfg_replicas cfg)) cl cl1 empty_result r new ks" and mk: "mk \<in> ex"
    and resp1: "resp1 = resp\<lparr>resp_results := dict_set mk (close_result r) (resp_results resp),
      resp_evictions := resp_evictions resp \<union> ks,
      resp_change := (resp_change resp \<or> res_replicas r \<noteq> [])\<rparr>"
    and rest: "batch ex xs cl1 cl' resp1 resp' ks'" and xs: "mk \<notin> fst ` set xs"
    and ex: "\<And>mk' cfg' sz'. (mk', cfg', sz') \<in> set xs \<Longrightarrow> mk' \<in> ex"
  shows "batch ex ((mk, cfg, sz) # xs) cl cl' resp resp' (ks \<union> ks')"
proof -
  have s: "swept ex ks cl cl1" "swept ex ks' cl1 cl'" using g rest by (simp_all add: grown_def batch_def)
  have at: "map_of (resp_results resp') mk = Some (close_result r)"
    using rest xs resp1 by (simp add: batch_def update_conv')
  have same: "res_replicas (close_result r) = res_replicas r" by (simp add: close_result_def)
  have "good_result cl cl' mk cfg (close_result r)"
    by (rule good_result_frame[OF close_result_good[OF g] swept_refl s(2) mk]) simp
  then have "\<exists>r. map_of (resp_results resp') mk' = Some r \<and> good_result cl cl' mk' cfg' r"
    if "(mk', cfg', sz') \<in> set ((mk, cfg, sz) # xs)" for mk' cfg' sz'
  proof (cases "(mk', cfg', sz') = (mk, cfg, sz)")
    case True
    then show ?thesis using at \<open>good_result cl cl' mk cfg (close_result r)\<close> by simp
  next
    case False
    with that have x: "(mk', cfg', sz') \<in> set xs" by auto
    then obtain r' where r': "map_of (resp_results resp') mk' = Some r'" "good_result cl1 cl' mk' cfg' r'"
      using rest unfolding batch_def by blast
    from good_result_frame[OF r'(2) s(1) swept_refl ex[OF x]] r'(1) show ?thesis by simp
  qed
  moreover have "resp_change resp' \<longleftrightarrow> resp_change resp1 \<or>
      (\<exists>mk r. mk \<in> fst ` set xs \<and> map_of (resp_results resp') mk = Some r \<and> res_replicas r \<noteq> [])"
    using rest by (simp add: batch_def)
  then have "resp_change resp' \<longleftrightarrow> resp_change resp \<or>
      (\<exists>mk' r'. mk' \<in> fst ` set ((mk, cfg, sz) # xs) \<and> map_of (resp_results resp') mk' = Some r' \<and> res_replicas r' \<noteq> [])"
    using at same resp1 by auto
  moreover have "map_of (resp_results resp') mk' = map_of (resp_results resp) mk'"
    if "mk' \<notin> fst ` set ((mk, cfg, sz) # xs)" for mk'
    using rest that resp1 by (simp add: batch_def update_conv')
  moreover have "resp_evictions resp' = resp_evictions resp \<union> (ks \<union> ks')"
    using rest resp1 by (auto simp: batch_def)
  moreover have "cl_nodes cl' = cl_nodes cl" if "\<not> resp_change resp'"
  proof -
    have "cl_nodes cl' = cl_nodes cl1" "\<not> resp_change resp1" using rest that by (auto simp: batch_def)
    then have "res_replicas r = []" using resp1 by simp
    then have "new = []" using g by (simp add: grown_def empty_result_def)
    with g \<open>cl_nodes cl' = cl_nodes cl1\<close> show ?thesis by (simp add: grown_def)
  qed
  ultimately show ?thesis using swept_trans[OF s] unfolding batch_def by blast
qed

lemma place_models_ok:
  assumes "cluster_inv cl" and "rt_ok rt" and "distinct (map fst xs)"
    and "\<And>mk cfg sz. (mk, cfg, sz) \<in> set xs \<Longrightarrow> 0 < sz \<and> cfg_ok cfg \<and> mk \<in> ex"
    and "\<And>mk. mk \<in> fst ` set xs \<Longrightarrow> map_of (resp_results resp) mk = None"
    and "fresh_ids rt cl (wanted xs)" and "place_models rt h ex xs cl resp = (cl', x)"
  shows "cluster_inv cl' \<and>
    (case x of
       Inl e \<Rightarrow> \<not> mem_ok cl
     | Inr resp' \<Rightarrow> (mem_ok cl \<longrightarrow> mem_ok cl') \<and> (\<exists>ks. batch ex xs cl cl' resp resp' ks))"
  using assms(1,3-)
proof (induction xs arbitrary: cl resp)
  case Nil
  then show ?case by (auto simp: batch_def swept_refl intro!: exI[of _ "{}"])
next
  case (Cons y xs)
  obtain mk cfg sz where y: "y = (mk, cfg, sz)" by (cases y)
  note prems = Cons.prems[unfolded y]
  have this1: "0 < sz" "cfg_ok cfg" "mk \<in> ex" using prems(3) by auto
  have "map_of (resp_results resp) mk = None" using prems(4) by simp
  then have start: "dict_get (resp_results resp) mk empty_result = empty_result" by (simp add: dict_get_def)
  have fr: "fresh_ids rt cl (nat (cfg_replicas cfg) + wanted xs)" using prems(5) by (simp add: wanted_def)
  obtain cl1 z where one: "place_replicas rt h ex mk cfg sz (nat (cfg_replicas cfg)) cl empty_result {} = (cl1, z)"
    by fastforce
  note step = place_replicas_ok[OF prems(1) assms(2) this1(1,2) fr this1(3) one]
  show ?case
  proof (cases z)
    case (Inl e)
    with prems(6) one start step show ?thesis by auto
  next
    case (Inr p)
    obtain r evs where p: "p = (r, evs)" by fastforce
    let ?resp1 = "resp\<lparr>resp_results := dict_set mk (close_result r) (resp_results resp),
      resp_evictions := resp_evictions resp \<union> evs, resp_change := (resp_change resp \<or> res_replicas r \<noteq> [])\<rparr>"
    from step Inr p obtain new where g: "grown ex mk (nat (cfg_replicas cfg)) cl cl1 empty_result r new evs"
      by auto
    have rest: "place_models rt h ex xs cl1 ?resp1 = (cl', x)" using prems(6) one start Inr p by simp
    have mk: "mk \<notin> fst ` set xs" using prems(2) by simp
    have none: "map_of (resp_results ?resp1) mk' = None" if "mk' \<in> fst ` set xs" for mk'
      using that mk prems(4)[of mk'] by (auto simp: update_conv')
    have IH: "cluster_inv cl' \<and> (case x of Inl e \<Rightarrow> \<not> mem_ok cl1
      | Inr resp' \<Rightarrow> (mem_ok cl1 \<longrightarrow> mem_ok cl') \<and> (\<exists>ks. batch ex xs cl1 cl' ?resp1 resp' ks))"
      by (rule Cons.IH[OF _ _ _ none _ rest]) (use step Inr p prems(2,3) in auto)
    show ?thesis
    proof (cases x)
      case Inl': (Inl e)
      then show ?thesis using IH step Inr p by auto
    next
      case Inr': (Inr resp')
      then obtain ks where b: "batch ex xs cl1 cl' ?resp1 resp' ks" using IH by auto
      have "batch ex (y # xs) cl cl' resp resp' (evs \<union> ks)"
        unfolding y by (rule batch_Cons[OF g this1(3) refl b mk]) (use prems(3) in auto)
      then show ?thesis using IH Inr' step Inr p by auto
    qed
  qed
qed

section \<open>Sizes\<close>

definition hub_ok :: "hub \<Rightarrow> bool" where
  "hub_ok h \<longleftrightarrow> (\<forall>mk dt d. describe_checkpoint h mk dt = Inr d \<longrightarrow> 0 < desc_size_bytes d)"

definition ev_ok :: "evaluator \<Rightarrow> bool" where
  "ev_ok ev \<longleftrightarrow> 0 \<le> ev_padding_factor ev \<and> 0 \<le> ev_padding_bias ev \<and>
     (\<forall>mk c. map_of (ev_cache ev) mk = Some c \<longrightarrow> 0 < ce_base_size_in_bytes c)"

lemma ev_entry_ok:
  assumes "hub_ok h" and "ev_ok ev"
  shows "ev_ok (fst (ev_entry h ev mk dtype))"
    and "snd (ev_entry h ev mk dtype) = Inr c \<Longrightarrow> 0 < ce_base_size_in_bytes c"
  using assms
  by (auto simp: ev_entry_def ev_ok_def hub_ok_def Let_def update_conv' split: option.splits sum.splits if_splits)

lemma padded_pos: "0 < base \<Longrightarrow> 0 \<le> p \<Longrightarrow> 0 \<le> b \<Longrightarrow> 0 < padded base p b"
  by (simp add: padded_def add_pos_nonneg)

lemma ev_call_ok:
  assumes "hub_ok h" and "ev_ok ev" and "cfg_ok cfg"
    and "ev_call h ev mk (cfg_padding_factor cfg) dt (cfg_size_bytes cfg) (cfg_padding_bias cfg) = (ev', r)"
  shows "ev_ok ev'" and "r = Inr sz \<Longrightarrow> 0 < sz"
proof -
  obtain e1 x where e: "ev_entry h ev mk dt = (e1, x)" by fastforce
  have ok: "ev_ok e1" "\<And>c. x = Inr c \<Longrightarrow> 0 < ce_base_size_in_bytes c"
    using ev_entry_ok[OF assms(1,2), of mk dt] e by auto
  have pad: "0 \<le> (case cfg_padding_factor cfg of Some p \<Rightarrow> p | None \<Rightarrow> ev_padding_factor ev)"
    "0 \<le> (case cfg_padding_bias cfg of Some b \<Rightarrow> b | None \<Rightarrow> ev_padding_bias ev)"
    using assms(2,3) by (auto simp: ev_ok_def cfg_ok_def split: option.splits)
  show "ev_ok ev'" using assms(4) e ok(1)
    by (cases x) (auto simp: ev_call_def Let_def split: option.splits)
  show "0 < sz" if "r = Inr sz"
  proof (cases "cfg_size_bytes cfg")
    case None
    with that assms(4) e obtain c where "x = Inr c"
      "sz = padded (ce_base_size_in_bytes c) (case cfg_padding_factor cfg of Some p \<Rightarrow> p | None \<Rightarrow> ev_padding_factor ev)
        (case cfg_padding_bias cfg of Some b \<Rightarrow> b | None \<Rightarrow> ev_padding_bias ev)"
      by (cases x) (auto simp: ev_call_def Let_def)
    then show ?thesis using ok(2) pad by (simp add: padded_pos)
  next
    case (Some base)
    with that assms(4) have "sz = padded base (case cfg_padding_factor cfg of Some p \<Rightarrow> p | None \<Rightarrow> ev_padding_factor ev)
        (case cfg_padding_bias cfg of Some b \<Rightarrow> b | None \<Rightarrow> ev_padding_bias ev)"
      by (auto simp: ev_call_def Let_def)
    then show ?thesis using assms(3) Some pad by (simp add: padded_pos cfg_ok_def)
  qed
qed

definition asked :: "(model_key, deployment_config) dict \<Rightarrow> nat" where
  "asked configs = sum_list (map (\<lambda>(_, cfg). nat (cfg_replicas cfg)) configs)"

text \<open>The first loop of \<open>deploy\<close>: each model has either a positive size or an error.\<close>

definition sorted_out ::
  "(model_key, deployment_config) dict \<Rightarrow> (model_key, model_deploy_result) dict \<Rightarrow> sized list \<Rightarrow> bool" where
  "sorted_out configs results evaluated \<longleftrightarrow>
     distinct (map fst evaluated) \<and> wanted evaluated \<le> asked configs \<and>
     (\<forall>mk cfg sz. (mk, cfg, sz) \<in> set evaluated \<longrightarrow> (mk, cfg) \<in> set configs \<and> 0 < sz) \<and>
     (\<forall>mk cfg. (mk, cfg) \<in> set configs \<longrightarrow>
        (\<exists>sz. (mk, cfg, sz) \<in> set evaluated) \<and> map_of results mk = None \<or>
        mk \<notin> fst ` set evaluated \<and>
        (\<exists>r. map_of results mk = Some r \<and> res_replicas r = [] \<and> res_error r \<noteq> None)) \<and>
     fst ` set results \<subseteq> fst ` set configs"

lemma sorted_outD:
  assumes "sorted_out configs results evaluated"
  shows "(mk, cfg, sz) \<in> set evaluated \<Longrightarrow> (mk, cfg) \<in> set configs \<and> 0 < sz"
    and "(mk, cfg) \<in> set configs \<Longrightarrow> \<not> (\<exists>sz. (mk, cfg, sz) \<in> set evaluated) \<Longrightarrow>
      mk \<notin> fst ` set evaluated \<and>
      (\<exists>r. map_of results mk = Some r \<and> res_replicas r = [] \<and> res_error r \<noteq> None)"
    and "(mk, cfg) \<in> set configs \<Longrightarrow> mk \<notin> fst ` set evaluated \<Longrightarrow>
      \<exists>r. map_of results mk = Some r \<and> res_replicas r = []"
proof -
  show "(mk, cfg, sz) \<in> set evaluated \<Longrightarrow> (mk, cfg) \<in> set configs \<and> 0 < sz"
    using assms by (simp add: sorted_out_def)
  have d: "(mk, cfg) \<in> set configs \<Longrightarrow> (\<exists>sz. (mk, cfg, sz) \<in> set evaluated) \<and> map_of results mk = None \<or>
      mk \<notin> fst ` set evaluated \<and>
      (\<exists>r. map_of results mk = Some r \<and> res_replicas r = [] \<and> res_error r \<noteq> None)"
    using assms by (simp add: sorted_out_def)
  then show "(mk, cfg) \<in> set configs \<Longrightarrow> \<not> (\<exists>sz. (mk, cfg, sz) \<in> set evaluated) \<Longrightarrow>
      mk \<notin> fst ` set evaluated \<and>
      (\<exists>r. map_of results mk = Some r \<and> res_replicas r = [] \<and> res_error r \<noteq> None)" by blast
  show "(mk, cfg) \<in> set configs \<Longrightarrow> mk \<notin> fst ` set evaluated \<Longrightarrow>
      \<exists>r. map_of results mk = Some r \<and> res_replicas r = []"
    using d by (metis fst_conv image_eqI)
qed

lemma sorted_out_size:
  assumes "sorted_out configs results evaluated" and "mk \<notin> fst ` set configs" and "mk \<notin> fst ` set evaluated"
    and "map_of results mk = None" and "0 < sz"
  shows "sorted_out ((mk, cfg) # configs) results ((mk, cfg, sz) # evaluated)"
proof -
  have "(\<exists>sz'. (mk', cfg', sz') \<in> set ((mk, cfg, sz) # evaluated)) \<and> map_of results mk' = None \<or>
      mk' \<notin> fst ` set ((mk, cfg, sz) # evaluated) \<and>
      (\<exists>r. map_of results mk' = Some r \<and> res_replicas r = [] \<and> res_error r \<noteq> None)"
    if k: "(mk', cfg') \<in> set ((mk, cfg) # configs)" for mk' cfg'
  proof (cases "mk' = mk")
    case True
    then have "cfg' = cfg" using k assms(2) by force
    with True assms(4) show ?thesis by auto
  next
    case False
    then have "(mk', cfg') \<in> set configs" using k by simp
    with False assms(1) show ?thesis by (simp add: sorted_out_def)
  qed
  with assms show ?thesis
    unfolding sorted_out_def asked_def wanted_def by (simp add: subset_insertI2)
qed

lemma evaluate_configs_ok:
  assumes "hub_ok h" and "ev_ok ev" and "dict_wf configs" and "\<forall>cfg \<in> snd ` set configs. cfg_ok cfg"
    and "evaluate_configs h ev configs = (ev', results, evaluated)"
  shows "sorted_out configs results evaluated"
  using assms(2-)
proof (induction configs arbitrary: ev ev' results evaluated)
  case Nil
  then show ?case by (simp add: sorted_out_def wanted_def asked_def)
next
  case (Cons x configs)
  obtain mk cfg where x: "x = (mk, cfg)" by (cases x)
  note prems = Cons.prems[unfolded x]
  obtain ev1 r where c: "ev_call h ev mk (cfg_padding_factor cfg) (cfg_dtype cfg) (cfg_size_bytes cfg) (cfg_padding_bias cfg) = (ev1, r)"
    by fastforce
  obtain ev2 rs es where e: "evaluate_configs h ev1 configs = (ev2, rs, es)" by (metis prod_cases3)
  have cfg: "cfg_ok cfg" using prems(3) by simp
  note call = ev_call_ok[OF assms(1) prems(1) cfg c]
  have wf: "dict_wf configs" and mk: "mk \<notin> fst ` set configs" using prems(2) by (auto simp: dict_wf_def)
  have IH: "sorted_out configs rs es" by (rule Cons.IH[OF call(1) wf _ e]) (use prems(3) in simp)
  have es: "mk \<notin> fst ` set es"
  proof
    assume "mk \<in> fst ` set es"
    then obtain cfg' sz' where "(mk, cfg', sz') \<in> set es" by auto
    then have "(mk, cfg') \<in> set configs" using IH unfolding sorted_out_def by blast
    with mk show False by force
  qed
  have rs: "map_of rs mk = None" using IH mk by (auto simp: sorted_out_def map_of_eq_None_iff)
  show ?case
  proof (cases r)
    case (Inl err)
    have "results = (mk, \<lparr>res_replicas = [], res_error = Some (EvaluationFailed err)\<rparr>) # rs" "evaluated = es"
      using prems(4) c e Inl by auto
    then show ?thesis using IH es mk unfolding x sorted_out_def by (auto simp: asked_def)
  next
    case (Inr sz)
    have "results = rs" "evaluated = (mk, cfg, sz) # es" "0 < sz"
      using prems(4) c e Inr call(2) by auto
    then show ?thesis using sorted_out_size[OF IH mk es rs] x by simp
  qed
qed

lemma wanted_sort: "wanted (sort_key f xs) = wanted xs"
  unfolding wanted_def by (rule sum_list_sort_key)

lemma cl_deploy_ok:
  assumes "cluster_inv cl" and "rt_ok rt" and "hub_ok h" and "ev_ok (cl_evaluator cl)"
    and "dict_wf configs" and "\<forall>cfg \<in> snd ` set configs. cfg_ok cfg"
    and "fresh_ids rt cl (asked configs)" and "cl_deploy rt h cl configs = (cl', x)"
  shows "cluster_inv cl' \<and>
    (case x of
       Inl e \<Rightarrow> \<not> mem_ok cl
     | Inr resp \<Rightarrow>
         swept (fst ` set configs) (resp_evictions resp) cl cl' \<and>
         (\<forall>mk cfg. (mk, cfg) \<in> set configs \<longrightarrow>
            (\<exists>r. map_of (resp_results resp) mk = Some r \<and> good_result cl cl' mk cfg r)) \<and>
         (resp_change resp \<longleftrightarrow>
            (\<exists>mk r. map_of (resp_results resp) mk = Some r \<and> mk \<in> fst ` set configs \<and> res_replicas r \<noteq> [])) \<and>
         (\<not> resp_change resp \<longrightarrow> cl_nodes cl' = cl_nodes cl))"
proof -
  let ?ex = "fst ` set configs"
  obtain ev rs es where e: "evaluate_configs h (cl_evaluator cl) configs = (ev, rs, es)" by (metis prod_cases3)
  note so = evaluate_configs_ok[OF assms(3-6) e]
  let ?xs = "sort_key (\<lambda>(_, _, sz). - sz) es" and ?cl = "cl\<lparr>cl_evaluator := ev\<rparr>"
  let ?resp = "empty_response\<lparr>resp_results := rs\<rparr>"
  have xs: "distinct (map fst ?xs)"
    using so by (simp add: sorted_out_def distinct_map)
  have inv: "cluster_inv ?cl" using cluster_inv_frame[of ?cl cl] assms(1) by simp
  have each: "0 < sz \<and> cfg_ok cfg \<and> mk \<in> ?ex" if "(mk, cfg, sz) \<in> set ?xs" for mk cfg sz
  proof -
    from that so have "(mk, cfg) \<in> set configs" "0 < sz" by (simp_all add: sorted_out_def)
    with assms(6) show ?thesis by force
  qed
  have none: "map_of (resp_results ?resp) mk = None" if "mk \<in> fst ` set ?xs" for mk
    using that so by (force simp: sorted_out_def)
  have fr: "fresh_ids rt ?cl (wanted ?xs)"
    using fresh_ids_mono[OF assms(7), of "wanted es"] so
    by (simp add: sorted_out_def wanted_sort fresh_ids_def)
  have run: "place_models rt h ?ex ?xs ?cl ?resp = (cl', x)" using assms(8) e by (simp add: cl_deploy_def)
  note ok = place_models_ok[OF inv assms(2) xs each none fr run]
  have eqs: "mem_ok ?cl = mem_ok cl" "hot ?cl = hot cl" "settled e ?cl = settled e cl" for e
    by (auto simp: mem_ok_def hot_def settled_def fun_eq_iff)
  then have sw: "swept e k ?cl c = swept e k cl c" "good_result ?cl c m f r = good_result cl c m f r" for e k c m f r
    by (simp_all add: swept_def good_result_def)
  show ?thesis
  proof (cases x)
    case (Inl err)
    then show ?thesis using ok eqs by simp
  next
    case (Inr resp)
    then obtain ks where b: "batch ?ex ?xs ?cl cl' ?resp resp ks" using ok by auto
    have ks: "resp_evictions resp = ks" using b by (simp add: batch_def empty_response_def)
    have res: "\<exists>r. map_of (resp_results resp) mk = Some r \<and> good_result cl cl' mk cfg r"
      if at: "(mk, cfg) \<in> set configs" for mk cfg
    proof (cases "\<exists>sz. (mk, cfg, sz) \<in> set es")
      case True
      then show ?thesis using b unfolding batch_def sw set_sort by blast
    next
      case False
      then obtain r where r: "mk \<notin> fst ` set es" "map_of rs mk = Some r" "res_replicas r = []" "res_error r \<noteq> None"
        using sorted_outD(2)[OF so at] by blast
      then have "map_of (resp_results resp) mk = Some r" using b by (simp add: batch_def)
      moreover have "good_result cl cl' mk cfg r" using r by (auto simp: good_result_def)
      ultimately show ?thesis by blast
    qed
    have "mk \<in> fst ` set es" if mr: "map_of (resp_results resp) mk = Some r" "mk \<in> ?ex" "res_replicas r \<noteq> []" for mk r
    proof (rule ccontr)
      assume n: "mk \<notin> fst ` set es"
      then have "map_of rs mk = Some r" using b mr(1) by (simp add: batch_def)
      moreover obtain cfg where "(mk, cfg) \<in> set configs" using mr(2) by auto
      ultimately show False using sorted_outD(3)[OF so _ n] mr(3) by auto
    qed
    moreover have "resp_change resp \<longleftrightarrow>
        (\<exists>mk r. mk \<in> fst ` set es \<and> map_of (resp_results resp) mk = Some r \<and> res_replicas r \<noteq> [])"
      using b by (simp add: batch_def empty_response_def)
    moreover have "mk \<in> ?ex" if "mk \<in> fst ` set es" for mk
    proof -
      from that obtain cfg sz where "(mk, cfg, sz) \<in> set es" by auto
      from sorted_outD(1)[OF so this] show ?thesis by (metis fst_conv image_eqI)
    qed
    ultimately have "resp_change resp \<longleftrightarrow>
        (\<exists>mk r. map_of (resp_results resp) mk = Some r \<and> mk \<in> ?ex \<and> res_replicas r \<noteq> [])" by metis
    moreover have "cl_nodes cl' = cl_nodes cl" if "\<not> resp_change resp" using b that by (simp add: batch_def)
    moreover have "swept ?ex (resp_evictions resp) cl cl'" using b ks by (simp add: batch_def sw)
    ultimately show ?thesis using ok Inr res by simp
  qed
qed

end
