(* ===== verification/Cluster_Evict.thy ===== *)
theory Cluster_Evict
  imports Cluster_Deploy
begin

text \<open>
  What \<open>Cluster.evict\<close> does to the cluster: draining a replica ends, evicting a model leaves no
  replica of it on any node, and no other model loses a HOT replica by it.
\<close>

section \<open>Draining\<close>

text \<open>\<open>n'\<close> is \<open>n\<close> with the HOT replicas \<open>ks\<close> gone, and nothing new on it: a record of a
  replica outside \<open>ks\<close> is as it was.\<close>

definition cleared :: "replica_key set \<Rightarrow> node \<Rightarrow> node \<Rightarrow> bool" where
  "cleared ks n n' \<longleftrightarrow>
     node_inv n' \<and> came {} n n' \<and> (\<forall>k d. entry n' k d \<longrightarrow> k \<notin> ks \<longrightarrow> entry n k d) \<and>
     (\<forall>k. nget (nd_deployments n') k = (if k \<in> ks then None else nget (nd_deployments n) k))"

lemma cleared_trans: "cleared A n n1 \<Longrightarrow> cleared B n1 n2 \<Longrightarrow> cleared (A \<union> B) n n2"
  using came.kept_trans[of "{}" n n1 n2] by (auto simp: cleared_def)

lemma cleared_refl: "node_inv n \<Longrightarrow> cleared {} n n"
  by (simp add: cleared_def came.kept_refl)

lemma cleared_not_holds: "cleared A n n' \<Longrightarrow> \<not> holds n k \<Longrightarrow> \<not> holds n' k"
  using came_holds unfolding cleared_def by blast

lemma drain_warm:
  assumes inv: "node_inv n" and c: "nget (nd_cache n) k = Some c"
  shows "\<exists>n'. drain rt n k = (n', Inr ()) \<and> cleared {k} n n' \<and> \<not> holds n' k"
proof -
  let ?n = "n\<lparr>nd_cache := ndel k (nd_cache n), nd_cpu := cr_release (nd_cpu n) (dep_size_bytes c)\<rparr>"
  have d: "nget (nd_deployments n) k = None" using inv c by (metis node_inv_def option.distinct(1))
  have e: "nd_evict rt n k None = (?n, Inr ())" and i: "node_inv ?n"
    using nd_evict_warm[OF inv c] by auto
  have gone: "\<not> holds ?n k" using d by (simp add: not_holds nget_ndel)
  then have "drain rt ?n k = (?n, Inr ())" by (subst drain.simps) (simp add: not_holds)
  then have "drain rt n k = (?n, Inr ())" using c e by (subst drain.simps) simp
  moreover have "cleared {k} n ?n"
    using i d nd_evict_came[of n rt k None] e by (auto simp: cleared_def entry_def nget_ndel)
  ultimately show ?thesis using gone by blast
qed

lemma drain_ok:
  assumes inv: "node_inv n" and h: "holds n k"
  shows "\<exists>n'. drain rt n k = (n', Inr ()) \<and> cleared {k} n n' \<and> \<not> holds n' k"
proof (cases "nget (nd_cache n) k")
  case (Some c)
  then show ?thesis by (rule drain_warm[OF inv])
next
  case None
  with h obtain d where d: "nget (nd_deployments n) k = Some d" by (auto simp: holds_def entry_def)
  from nd_evict_hot[OF inv d, of rt None] obtain n1 where e: "nd_evict rt n k None = (n1, Inr ())"
    and i: "node_inv n1" and hv: "hot_evicted rt n k d None n1" by blast
  have unfold: "drain rt n k = drain rt n1 k" using d e by (subst drain.simps) simp
  have cl: "cleared {k} n n1"
    using i hv nd_evict_came[of n rt k None] e
    by (auto simp: cleared_def hot_evicted_def nget_ndel entry_def)
  show ?thesis
  proof (cases "nget (nd_cache n1) k")
    case None
    with hv have "\<not> holds n1 k" by (simp add: not_holds hot_evicted_def nget_ndel)
    then have "drain rt n1 k = (n1, Inr ())" by (subst drain.simps) (simp add: not_holds)
    with unfold cl \<open>\<not> holds n1 k\<close> show ?thesis by auto
  next
    case (Some c)
    from drain_warm[OF i Some, of rt] obtain n2 where "drain rt n1 k = (n2, Inr ())"
      "cleared {k} n1 n2" "\<not> holds n2 k" by blast
    with unfold cleared_trans[OF cl, of "{k}" n2] show ?thesis by simp
  qed
qed

text \<open>Draining the replicas \<open>rids\<close> of a model: each is gone, each that was HOT is reported as it
  was, and what is reported was there.\<close>

definition drained :: "node \<Rightarrow> model_key \<Rightarrow> replica_id set \<Rightarrow> node \<Rightarrow> replica_state set \<Rightarrow> bool" where
  "drained n mk R n' S \<longleftrightarrow>
     cleared ({mk} \<times> R) n n' \<and> (\<forall>rid \<in> R. \<not> holds n' (mk, rid)) \<and>
     (\<forall>rid \<in> R. \<forall>d. nget (nd_deployments n) (mk, rid) = Some d \<longrightarrow> dep_get_state d \<in> S) \<and>
     (\<forall>s \<in> S. \<exists>rid d. entry n (mk, rid) d \<and> s = dep_get_state d)"

lemma drained_skip:
  assumes "drained n mk R n' S" and nh: "\<not> holds n (mk, rid)"
  shows "drained n mk (insert rid R) n' S"
proof -
  have "cleared ({mk} \<times> insert rid R) n n'"
    using assms unfolding drained_def cleared_def not_holds by (auto simp: entry_def)
  moreover have "\<not> holds n' (mk, rid)" using assms cleared_not_holds unfolding drained_def by blast
  ultimately show ?thesis using assms by (simp add: drained_def not_holds)
qed

lemma drained_step:
  assumes one: "cleared {(mk, rid)} n n1" "\<not> holds n1 (mk, rid)" and d: "find_replica n (mk, rid) = Some d"
    and rest: "drained n1 mk R n' S" and rid: "rid \<notin> R"
  shows "drained n mk (insert rid R) n' (insert (dep_get_state d) S)"
proof -
  have "{(mk, rid)} \<union> {mk} \<times> R = {mk} \<times> insert rid R" by auto
  then have "cleared ({mk} \<times> insert rid R) n n'"
    using cleared_trans[OF one(1), of "{mk} \<times> R" n'] rest by (simp add: drained_def)
  moreover have "\<not> holds n' (mk, rid)" using rest one(2) cleared_not_holds unfolding drained_def by blast
  moreover have "dep_get_state e \<in> insert (dep_get_state d) S"
    if "r \<in> insert rid R" "nget (nd_deployments n) (mk, r) = Some e" for r e
  proof (cases "r = rid")
    case True
    then show ?thesis using that d by (simp add: find_replica_def)
  next
    case False
    with that one(1) have "nget (nd_deployments n1) (mk, r) = Some e" by (simp add: cleared_def)
    with that False rest show ?thesis by (simp add: drained_def)
  qed
  moreover have "\<exists>r e. entry n (mk, r) e \<and> s = dep_get_state e" if s: "s \<in> insert (dep_get_state d) S" for s
  proof (cases "s = dep_get_state d")
    case True
    then show ?thesis using d by (auto simp: find_replica_def entry_def split: option.splits)
  next
    case False
    with s rest obtain r e where r: "entry n1 (mk, r) e" "s = dep_get_state e" by (auto simp: drained_def)
    then have "r \<noteq> rid" using one(2) by (auto simp: holds_def)
    with r one(1) have "entry n (mk, r) e" unfolding cleared_def by blast
    with r show ?thesis by blast
  qed
  ultimately show ?thesis using rest unfolding drained_def by blast
qed

lemma drain_all_ok:
  assumes "node_inv n" and "distinct rids"
  shows "\<exists>n' states. drain_all rt n mk rids acc = (n', Inr (acc @ states)) \<and>
    drained n mk (set rids) n' (set states)"
  using assms
proof (induction rids arbitrary: n acc)
  case Nil
  then show ?case by (simp add: drained_def cleared_refl)
next
  case (Cons rid rids)
  show ?case
  proof (cases "find_replica n (mk, rid)")
    case None
    then have nh: "\<not> holds n (mk, rid)" by (auto simp: find_replica_def not_holds split: option.splits)
    from Cons.IH[OF Cons.prems(1), of acc] Cons.prems(2) obtain n' states where
      "drain_all rt n mk rids acc = (n', Inr (acc @ states))" "drained n mk (set rids) n' (set states)" by auto
    with None drained_skip[OF _ nh] show ?thesis by auto
  next
    case (Some d)
    then have h: "holds n (mk, rid)"
      by (auto simp: find_replica_def holds_def entry_def split: option.splits)
    from drain_ok[OF Cons.prems(1) h, of rt] obtain n1 where n1: "drain rt n (mk, rid) = (n1, Inr ())"
      "cleared {(mk, rid)} n n1" "\<not> holds n1 (mk, rid)" by blast
    have i1: "node_inv n1" using n1(2) by (simp add: cleared_def)
    from Cons.IH[OF i1, of "acc @ [dep_get_state d]"] Cons.prems(2) obtain n' states where
      n': "drain_all rt n1 mk rids (acc @ [dep_get_state d]) = (n', Inr ((acc @ [dep_get_state d]) @ states))"
      "drained n1 mk (set rids) n' (set states)" by auto
    from drained_step[OF n1(2,3) Some n'(2)] Cons.prems(2)
    have "drained n mk (set (rid # rids)) n' (set (dep_get_state d # states))" by simp
    with Some n1(1) n'(1) show ?thesis
      by (intro exI[of _ n'] exI[of _ "dep_get_state d # states"]) simp
  qed
qed

section \<open>Evicting a model from every node\<close>

lemma replica_ids_all: "holds n (mk, rid) \<Longrightarrow> rid \<in> set (replica_ids n mk)"
  by (force simp: holds_def entry_def replica_ids_def nget_def dict_get_def dest: map_of_SomeD split: option.splits)

lemma distinct_replica_ids: "distinct (replica_ids n mk)"
  by (simp add: replica_ids_def)

text \<open>One node of the cluster, before and after.\<close>

definition emptied :: "model_key \<Rightarrow> replica_state set \<Rightarrow> node \<Rightarrow> node \<Rightarrow> bool" where
  "emptied mk S n n' \<longleftrightarrow>
     node_inv n' \<and> came {} n n' \<and> (\<forall>rid. \<not> holds n' (mk, rid)) \<and>
     (\<forall>k. fst k \<noteq> mk \<longrightarrow> nget (nd_deployments n') k = nget (nd_deployments n) k) \<and>
     (\<forall>rid d. nget (nd_deployments n) (mk, rid) = Some d \<longrightarrow> dep_get_state d \<in> S)"

lemma drain_all_empties:
  assumes "node_inv n"
  shows "\<exists>n' states. drain_all rt n mk (replica_ids n mk) acc = (n', Inr (acc @ states)) \<and>
    emptied mk (set states) n n' \<and> (\<forall>s \<in> set states. \<exists>rid d. entry n (mk, rid) d \<and> s = dep_get_state d)"
proof -
  from drain_all_ok[OF assms distinct_replica_ids, of rt mk n mk acc] obtain n' states where
    run: "drain_all rt n mk (replica_ids n mk) acc = (n', Inr (acc @ states))"
    and dr: "drained n mk (set (replica_ids n mk)) n' (set states)" by blast
  have "\<not> holds n' (mk, rid)" for rid
  proof (cases "holds n (mk, rid)")
    case True
    then show ?thesis using dr replica_ids_all by (auto simp: drained_def)
  next
    case False
    then show ?thesis using dr cleared_not_holds unfolding drained_def by blast
  qed
  moreover have "dep_get_state d \<in> set states" if "nget (nd_deployments n) (mk, rid) = Some d" for rid d
    using that dr replica_ids_all[of n mk rid] by (auto simp: drained_def holds_def entry_def)
  moreover have "nget (nd_deployments n') k = nget (nd_deployments n) k" if "fst k \<noteq> mk" for k
    using that dr by (auto simp: drained_def cleared_def)
  ultimately have "emptied mk (set states) n n'" using dr by (simp add: emptied_def drained_def cleared_def)
  then show ?thesis using run dr by (auto simp: drained_def)
qed

text \<open>Every node of a dictionary, before and after.\<close>

definition each_node :: "(node \<Rightarrow> node \<Rightarrow> bool) \<Rightarrow> (node_id, node) dict \<Rightarrow> (node_id, node) dict \<Rightarrow> bool" where
  "each_node R = list_all2 (\<lambda>(i, n) (j, n'). i = j \<and> R n n')"

lemma each_node_map_of:
  "each_node R ns ns' \<Longrightarrow> rel_option R (map_of ns i) (map_of ns' i)"
  unfolding each_node_def by (induction ns ns' rule: list_all2_induct) auto

lemma each_node_keys: "each_node R ns ns' \<Longrightarrow> map fst ns' = map fst ns"
  unfolding each_node_def by (induction ns ns' rule: list_all2_induct) auto

lemma each_node_mono: "each_node R ns ns' \<Longrightarrow> (\<And>n n'. R n n' \<Longrightarrow> Q n n') \<Longrightarrow> each_node Q ns ns'"
  unfolding each_node_def by (erule list_all2_mono) auto

lemma each_node_Cons [simp]:
  "each_node R ((i, n) # ns) ((j, n') # ns') \<longleftrightarrow> i = j \<and> R n n' \<and> each_node R ns ns'"
  by (simp add: each_node_def)

lemma each_node_Nil [simp]: "each_node R [] []"
  by (simp add: each_node_def)

lemma emptied_mono: "emptied mk S n n' \<Longrightarrow> S \<subseteq> T \<Longrightarrow> emptied mk T n n'"
  unfolding emptied_def by blast

lemma evict_model_ok:
  assumes "\<forall>n \<in> snd ` set ns. node_inv n"
  shows "\<exists>ns' states. evict_model rt ns mk acc = (ns', Inr (acc @ states)) \<and>
    each_node (emptied mk (set states)) ns ns' \<and>
    (\<forall>s \<in> set states. \<exists>n \<in> snd ` set ns. \<exists>rid d. entry n (mk, rid) d \<and> s = dep_get_state d)"
  using assms
proof (induction ns arbitrary: acc)
  case (Cons x ns)
  obtain i n where x: "x = (i, n)" by (cases x)
  from Cons.prems have "node_inv n" and ns: "\<forall>n \<in> snd ` set ns. node_inv n" by (auto simp: x)
  from drain_all_empties[OF this(1), of rt mk acc] obtain n' s1 where
    n': "drain_all rt n mk (replica_ids n mk) acc = (n', Inr (acc @ s1))" "emptied mk (set s1) n n'"
    "\<forall>s \<in> set s1. \<exists>rid d. entry n (mk, rid) d \<and> s = dep_get_state d" by blast
  from Cons.IH[OF ns, of "acc @ s1"] obtain ns' s2 where
    ns': "evict_model rt ns mk (acc @ s1) = (ns', Inr ((acc @ s1) @ s2))" "each_node (emptied mk (set s2)) ns ns'"
    "\<forall>s \<in> set s2. \<exists>n \<in> snd ` set ns. \<exists>rid d. entry n (mk, rid) d \<and> s = dep_get_state d" by blast
  have "each_node (emptied mk (set (s1 @ s2))) ns ns'" using ns'(2) by (rule each_node_mono) (simp add: emptied_mono)
  moreover have "emptied mk (set (s1 @ s2)) n n'" using n'(2) by (rule emptied_mono) simp
  ultimately show ?case using n' ns'(1,3) x
    by (intro exI[of _ "(i, n') # ns'"] exI[of _ "s1 @ s2"]) auto
qed simp

lemma cluster_inv_each:
  assumes inv: "cluster_inv cl" and ns: "each_node (\<lambda>n n'. node_inv n' \<and> came {} n n') (cl_nodes cl) (cl_nodes cl')"
  shows "cluster_inv cl'"
proof -
  have bk: "\<exists>n. map_of (cl_nodes cl) i = Some n \<and> node_inv n' \<and> came {} n n'"
    if "map_of (cl_nodes cl') i = Some n'" for i n'
    using each_node_map_of[OF ns, of i] that by (auto simp: option_rel_Some2)
  have "dict_wf (cl_nodes cl')" using inv each_node_keys[OF ns] by (simp add: cluster_inv_def dict_wf_def)
  moreover have "nd_id n' = i \<and> node_inv n' \<and> stamped n'" if "map_of (cl_nodes cl') i = Some n'" for i n'
    using bk[OF that] cluster_invD(1,3)[OF inv, of i] came_stamped by (fastforce simp: came_def)
  moreover have "i = j" if at: "map_of (cl_nodes cl') i = Some m'" "map_of (cl_nodes cl') j = Some n'"
    and h: "holds m' k" "holds n' k" for i j m' n' k
  proof -
    from bk[OF at(1)] bk[OF at(2)] obtain m n where "map_of (cl_nodes cl) i = Some m" "came {} m m'"
      "map_of (cl_nodes cl) j = Some n" "came {} n n'" by blast
    then show ?thesis using came_holds h cluster_invD(4)[OF inv] by (metis empty_iff)
  qed
  ultimately show ?thesis unfolding cluster_inv_def by blast
qed

end
