(* ===== verification/Cluster_Props.thy ===== *)
theory Cluster_Props
  imports Cluster_Evict
begin

text \<open>
  The properties of the cluster: deploying a batch, evicting a model or a replica, and syncing
  the nodes with Ray. Each is applied at a concrete cluster of one node.
\<close>

section \<open>A concrete cluster\<close>

definition ex_hub :: hub where
  "ex_hub = \<lparr>describe_checkpoint =
               (\<lambda>mk dt. if mk = ''x'' then Inl CheckpointUnreachable
                        else Inr \<lparr>desc_size_bytes = 6, desc_n_params = Some 3, desc_config = None, desc_revision = None\<rparr>),
             max_tp_size = (\<lambda>mk. Inr None), bytes_per_element = (\<lambda>dt. 2)\<rparr>"

definition ex_cluster :: cluster where
  "ex_cluster = (new_cluster (Some 60) (1/2) 0 1 None ''pkg.Actor'')\<lparr>cl_nodes := [(''n1'', ex_node)]\<rparr>"

definition ex_configs :: "(model_key, deployment_config) dict" where
  "ex_configs = [(''x'', default_config), (''d'', default_config)]"

lemma ex_hub_ok: "hub_ok ex_hub"
  by (simp add: hub_ok_def ex_hub_def)

lemma ex_ev_ok: "ev_ok (cl_evaluator ex_cluster)"
  by (simp add: ev_ok_def ex_cluster_def new_cluster_def new_evaluator_def)

lemma ex_cfg_ok: "\<forall>cfg \<in> snd ` set ex_configs. cfg_ok cfg"
  by (simp add: ex_configs_def cfg_ok_def default_config_def)

text \<open>The invariant over the entries of a single node, which a concrete cluster evaluates.\<close>

definition stamped_check :: "node \<Rightarrow> bool" where
  "stamped_check n \<longleftrightarrow>
     list_all (\<lambda>(k, d). dep_node_id d = Some (nd_id n)) (nitems (nd_deployments n) @ nitems (nd_cache n))"

lemma stamped_check: "node_inv n \<Longrightarrow> stamped_check n \<Longrightarrow> stamped n"
  unfolding stamped_check_def stamped_def entry_def node_inv_def
  by (auto simp: list_all_iff dest!: hot_invD(1) warm_invD(1)) (auto simp: nitems_nget[symmetric])

lemma single_node_inv:
  "cl_nodes cl = [(i, n)] \<Longrightarrow> nd_id n = i \<Longrightarrow> node_inv n \<Longrightarrow> stamped n \<Longrightarrow> cluster_inv cl"
  by (simp add: cluster_inv_def)

lemma ex_cluster_inv: "cluster_inv ex_cluster"
proof (rule single_node_inv[OF _ _ ex_node_inv])
  show "cl_nodes ex_cluster = [(''n1'', ex_node)]" by (simp add: ex_cluster_def)
  show "nd_id ex_node = ''n1''" by (simp add: ex_node_def)
  have "stamped_check ex_node" by code_simp
  with ex_node_inv show "stamped ex_node" by (rule stamped_check)
qed

lemma ex_mem_ok: "mem_ok ex_cluster"
  by (simp add: mem_ok_def ex_cluster_def ex_node_def gr_memory_bytes_def)

lemma ex_holds: "holds ex_node k \<Longrightarrow> snd k \<in> {''r1'', ''r2'', ''r3''}"
  by (auto simp: holds_def entry_def ex_node_def nget_def split: if_splits option.splits)

lemma ex_fresh: "fresh_ids ex_rt ex_cluster 2"
proof -
  have two: "{cl_draws ex_cluster ..< cl_draws ex_cluster + 2} = {0, 1}"
    by (auto simp: ex_cluster_def new_cluster_def)
  have "\<not> holds ex_node (mk, ''u0'')" "\<not> holds ex_node (mk, ''u1'')" for mk
    using ex_holds[of "(mk, ''u0'')"] ex_holds[of "(mk, ''u1'')"] by auto
  then show ?thesis unfolding fresh_ids_def two
    by (auto simp: inj_on_def ex_rt_def ex_cluster_def split: if_splits)
qed

section \<open>Deploying\<close>



text \<open>Whatever the batch, the node a replica goes to is one of those with the best candidate:
  no node of the cluster offers a strictly better level than the candidates the choice is made
  from, and each of them is what its own node proposed.\<close>

theorem best_level_minimal:
  assumes "cluster_inv cl" and "best_candidates evaluate (cl_nodes cl) [] None = Inr cands"
    and "(i, c) \<in> set cands"
  shows "(\<exists>n. map_of (cl_nodes cl) i = Some n \<and> evaluate n = Inr c) \<and>
    (\<forall>j m c'. map_of (cl_nodes cl) j = Some m \<longrightarrow> evaluate m = Inr c' \<longrightarrow> cand_level c \<le> cand_level c')"
  using best_candidates_ok[OF assms(2,1,3)] by blast

definition ex_fill :: "node \<Rightarrow> candidate res" where
  "ex_fill n = nd_evaluate ex_rt n ''d'' 7 False (Some {''d''}) None None None"

theorem best_level_minimal_witness:
  "\<exists>c. best_candidates ex_fill (cl_nodes ex_cluster) [] None = Inr [(''n1'', c)] \<and> ex_fill ex_node = Inr c"
proof -
  let ?c = "\<lparr>cand_level = FULL, cand_gpus = [(0, 7)], cand_evictions = [(''a'', ''r1'')], cand_reason = None\<rparr>"
  have "best_candidates ex_fill (cl_nodes ex_cluster) [] None = Inr [(''n1'', ?c)]" by code_simp
  with best_level_minimal[OF ex_cluster_inv this, of "''n1''" ?c] show ?thesis
    by (auto simp: ex_cluster_def)
qed

section \<open>Evicting\<close>

lemma hot_each:
  assumes "each_node R (cl_nodes cl) (cl_nodes cl')"
    and "\<And>n n'. R n n' \<Longrightarrow> nget (nd_deployments n') k = nget (nd_deployments n) k"
  shows "hot cl' k d \<longleftrightarrow> hot cl k d"
proof -
  have rel: "rel_option R (map_of (cl_nodes cl) i) (map_of (cl_nodes cl') i)" for i
    by (rule each_node_map_of[OF assms(1)])
  show ?thesis
  proof
    assume "hot cl' k d"
    then obtain i n' where n': "map_of (cl_nodes cl') i = Some n'" "nget (nd_deployments n') k = Some d"
      by (auto simp: hot_def)
    with rel[of i] obtain n where "map_of (cl_nodes cl) i = Some n" "R n n'" by (auto simp: option_rel_Some2)
    with n' assms(2)[of n n'] show "hot cl k d" by (auto simp: hot_def)
  next
    assume "hot cl k d"
    then obtain i n where n: "map_of (cl_nodes cl) i = Some n" "nget (nd_deployments n) k = Some d"
      by (auto simp: hot_def)
    with rel[of i] obtain n' where "map_of (cl_nodes cl') i = Some n'" "R n n'" by (auto simp: option_rel_Some1)
    with n assms(2)[of n n'] show "hot cl' k d" by (auto simp: hot_def)
  qed
qed

lemma cl_evict_model:
  assumes "cluster_inv cl"
  shows "\<exists>cl' states. cl_evict rt cl mk None = (cl', Inr states) \<and> cluster_inv cl' \<and>
    (\<forall>i n rid. map_of (cl_nodes cl') i = Some n \<longrightarrow> \<not> holds n (mk, rid)) \<and>
    (\<forall>k d. fst k \<noteq> mk \<longrightarrow> (hot cl' k d \<longleftrightarrow> hot cl k d)) \<and>
    (\<forall>rid d. hot cl (mk, rid) d \<longrightarrow> dep_get_state d \<in> set states) \<and>
    (\<forall>s \<in> set states. \<exists>i n rid d. map_of (cl_nodes cl) i = Some n \<and> entry n (mk, rid) d \<and> s = dep_get_state d)"
proof -
  have wf: "dict_wf (cl_nodes cl)" using assms by (simp add: cluster_inv_def)
  have "\<forall>n \<in> snd ` set (cl_nodes cl). node_inv n" using assms wf by (auto simp: cluster_inv_def dict_wf_in)
  from evict_model_ok[OF this, of rt mk "[]"] obtain ns' states where
    run: "evict_model rt (cl_nodes cl) mk [] = (ns', Inr states)" and each: "each_node (emptied mk (set states)) (cl_nodes cl) ns'"
    and st: "\<forall>s \<in> set states. \<exists>n \<in> snd ` set (cl_nodes cl). \<exists>rid d. entry n (mk, rid) d \<and> s = dep_get_state d"
    by auto
  let ?cl = "cl\<lparr>cl_nodes := ns'\<rparr>"
  have "each_node (\<lambda>n n'. node_inv n' \<and> came {} n n') (cl_nodes cl) (cl_nodes ?cl)"
    using each by (auto intro: each_node_mono simp: emptied_def)
  note inv = cluster_inv_each[OF assms this]
  have rel: "rel_option (emptied mk (set states)) (map_of (cl_nodes cl) i) (map_of ns' i)" for i
    by (rule each_node_map_of[OF each])
  have "\<not> holds n (mk, rid)" if "map_of ns' i = Some n" for i n rid
    using rel[of i] that by (auto simp: option_rel_Some2 emptied_def)
  moreover have "hot ?cl k d \<longleftrightarrow> hot cl k d" if "fst k \<noteq> mk" for k d
    by (rule hot_each[of "emptied mk (set states)"]) (use each that in \<open>simp_all add: emptied_def\<close>)
  moreover have "dep_get_state d \<in> set states" if "hot cl (mk, rid) d" for rid d
  proof -
    from that obtain i n where "map_of (cl_nodes cl) i = Some n" "nget (nd_deployments n) (mk, rid) = Some d"
      by (auto simp: hot_def)
    with rel[of i] show ?thesis by (auto simp: option_rel_Some1 emptied_def)
  qed
  moreover have "\<exists>i n rid d. map_of (cl_nodes cl) i = Some n \<and> entry n (mk, rid) d \<and> s = dep_get_state d"
    if "s \<in> set states" for s
  proof -
    from st that obtain i n rid d where "(i, n) \<in> set (cl_nodes cl)" "entry n (mk, rid) d" "s = dep_get_state d"
      by fastforce
    then show ?thesis using wf by (auto simp: dict_wf_in)
  qed
  moreover have "cl_evict rt cl mk None = (?cl, Inr states)" using run by (simp add: cl_evict_def)
  ultimately show ?thesis using inv by auto
qed

text \<open>C13. Evicting a model always ends, never raises, and leaves no replica of it, HOT or WARM, on
  any node. The invariant is kept, no HOT replica of another model is touched, and the response
  has the state before of every replica of the model that was HOT, and nothing that was not
  there.\<close>

theorem evict_model_clears:
  assumes "cluster_inv cl"
  shows "\<exists>cl' states. cl_evict rt cl mk None = (cl', Inr states) \<and> cluster_inv cl' \<and>
    (\<forall>i n rid. map_of (cl_nodes cl') i = Some n \<longrightarrow> \<not> holds n (mk, rid)) \<and>
    (\<forall>k d. fst k \<noteq> mk \<longrightarrow> (hot cl' k d \<longleftrightarrow> hot cl k d)) \<and>
    (\<forall>rid d. hot cl (mk, rid) d \<longrightarrow> dep_get_state d \<in> set states) \<and>
    (\<forall>s \<in> set states. \<exists>i n rid d. map_of (cl_nodes cl) i = Some n \<and> entry n (mk, rid) d \<and> s = dep_get_state d)"
  by (rule cl_evict_model[OF assms])

theorem evict_model_clears_witness:
  "\<exists>cl' states. cl_evict ex_rt ex_cluster ''b'' None = (cl', Inr states) \<and> cluster_inv cl' \<and>
     length states = 1 \<and> (\<forall>d. \<not> hot cl' (''b'', ''r2'') d)"
proof -
  have len: "map_sum id length (snd (cl_evict ex_rt ex_cluster ''b'' None)) = Inr 1" by code_simp
  from evict_model_clears[OF ex_cluster_inv, of ex_rt "''b''"] obtain cl' states where
    c: "cl_evict ex_rt ex_cluster ''b'' None = (cl', Inr states)" "cluster_inv cl'"
    "\<forall>i n rid. map_of (cl_nodes cl') i = Some n \<longrightarrow> \<not> holds n (''b'', rid)" by blast
  then have "\<not> hot cl' (''b'', ''r2'') d" for d by (auto simp: hot_def not_holds)
  with c len show ?thesis by auto
qed

lemma nd_evict_held:
  assumes inv: "node_inv n" and h: "holds n k"
  shows "\<exists>n' d. find_replica n k = Some d \<and> entry n k d \<and> nd_evict rt n k None = (n', Inr ()) \<and> node_inv n' \<and>
    nget (nd_deployments n') k = None \<and>
    (\<forall>k'. k' \<noteq> k \<longrightarrow> nget (nd_deployments n') k' = nget (nd_deployments n) k')"
proof (cases "nget (nd_cache n) k")
  case (Some c)
  then have "nget (nd_deployments n) k = None" using inv by (metis node_inv_def option.distinct(1))
  with nd_evict_warm[OF inv Some] Some show ?thesis by (simp add: find_replica_def entry_def)
next
  case None
  with h obtain c where c: "nget (nd_deployments n) k = Some c" by (auto simp: holds_def entry_def)
  with nd_evict_hot[OF inv c, of rt None] show ?thesis
    by (auto simp: hot_evicted_def nget_ndel find_replica_def entry_def)
qed

lemma evict_replica_none:
  "\<forall>n \<in> snd ` set ns. \<not> holds n k \<Longrightarrow> evict_replica rt ns k = (ns, Inr [])"
  by (induction ns) (auto simp: find_replica_def not_holds)

lemma evict_replica_at:
  assumes "map_of ns i = Some n" and "\<And>j m. (j, m) \<in> set ns \<Longrightarrow> holds m k \<Longrightarrow> j = i"
    and "find_replica n k = Some d" and "nd_evict rt n k None = (n', Inr ())"
  shows "evict_replica rt ns k = (dict_set i n' ns, Inr [dep_get_state d])"
  using assms(1,2)
proof (induction ns)
  case (Cons x ns)
  obtain j m where x: "x = (j, m)" by (cases x)
  show ?case
  proof (cases "j = i")
    case True
    with Cons.prems(1) x assms(3,4) show ?thesis by simp
  next
    case False
    then have "\<not> holds m k" using Cons.prems(2)[of j m] x by auto
    then have "find_replica m k = None" by (simp add: find_replica_def not_holds)
    moreover have "evict_replica rt ns k = (dict_set i n' ns, Inr [dep_get_state d])"
      using Cons.prems x False by (intro Cons.IH) auto
    ultimately show ?thesis using x False by simp
  qed
qed simp

lemma cl_evict_replica:
  assumes "cluster_inv cl"
  shows "((\<forall>i n. map_of (cl_nodes cl) i = Some n \<longrightarrow> \<not> holds n (mk, rid)) \<longrightarrow>
            cl_evict rt cl mk (Some rid) = (cl, Inr [])) \<and>
    (\<forall>i n. map_of (cl_nodes cl) i = Some n \<longrightarrow> holds n (mk, rid) \<longrightarrow>
       (\<exists>cl' d. cl_evict rt cl mk (Some rid) = (cl', Inr [dep_get_state d]) \<and> entry n (mk, rid) d \<and>
          cluster_inv cl' \<and> (\<forall>e. \<not> hot cl' (mk, rid) e) \<and>
          (\<forall>k e. k \<noteq> (mk, rid) \<longrightarrow> (hot cl' k e \<longleftrightarrow> hot cl k e))))"
proof (intro conjI impI allI)
  let ?k = "(mk, rid)"
  have wf: "dict_wf (cl_nodes cl)" using assms by (simp add: cluster_inv_def)
  show "cl_evict rt cl mk (Some rid) = (cl, Inr [])"
    if "\<forall>i n. map_of (cl_nodes cl) i = Some n \<longrightarrow> \<not> holds n ?k"
  proof -
    have "\<forall>n \<in> snd ` set (cl_nodes cl). \<not> holds n ?k" using that wf by (auto simp: dict_wf_in)
    from evict_replica_none[OF this] show ?thesis by (simp add: cl_evict_def)
  qed
  fix i n assume n: "map_of (cl_nodes cl) i = Some n" and h: "holds n ?k"
  from nd_evict_held[OF cluster_invD(2)[OF assms n] h, of rt] obtain n' d
    where d: "find_replica n ?k = Some d" "entry n ?k d" and e: "nd_evict rt n ?k None = (n', Inr ())"
      and n': "node_inv n'" and hn: "nget (nd_deployments n') ?k = None"
      and oth: "\<And>k. k \<noteq> ?k \<Longrightarrow> nget (nd_deployments n') k = nget (nd_deployments n) k" by blast
  have came: "came {} n n'" using nd_evict_came[of n rt ?k None] e by simp
  have uniq: "j = i" if "map_of (cl_nodes cl) j = Some m" "holds m ?k" for j m
    using cluster_invD(4)[OF assms n that h] .
  let ?cl = "cl\<lparr>cl_nodes := dict_set i n' (cl_nodes cl)\<rparr>"
  have up: "hot ?cl k e \<longleftrightarrow> nget (nd_deployments n') k = Some e \<or>
      (\<exists>j m. j \<noteq> i \<and> map_of (cl_nodes cl) j = Some m \<and> nget (nd_deployments m) k = Some e)" for k e
    by (rule hot_update[OF n]) simp
  have "cluster_inv ?cl" by (rule cluster_inv_update[OF assms n came n']) simp
  moreover have "\<not> hot ?cl ?k e" for e
    using hn uniq unfolding up by (auto simp: holds_def entry_def)
  moreover have "hot ?cl k e \<longleftrightarrow> hot cl k e" if "k \<noteq> ?k" for k e
    by (rule hot_update_same[OF n _ oth[OF that]]) simp
  moreover have "evict_replica rt (cl_nodes cl) ?k = (dict_set i n' (cl_nodes cl), Inr [dep_get_state d])"
    using uniq wf by (intro evict_replica_at[OF n _ d(1) e]) (simp add: dict_wf_in)
  then have "cl_evict rt cl mk (Some rid) = (?cl, Inr [dep_get_state d])" by (simp add: cl_evict_def)
  ultimately show "\<exists>cl' d. cl_evict rt cl mk (Some rid) = (cl', Inr [dep_get_state d]) \<and> entry n ?k d \<and>
      cluster_inv cl' \<and> (\<forall>e. \<not> hot cl' ?k e) \<and> (\<forall>k e. k \<noteq> ?k \<longrightarrow> (hot cl' k e \<longleftrightarrow> hot cl k e))"
    using d(2) by blast
qed

text \<open>Evicting one replica: when no node has it the cluster does not change and nothing is
  reported; otherwise the state before of that one replica is reported, the invariant is kept,
  it is HOT nowhere, and every other HOT replica of the cluster is untouched.\<close>

theorem evict_replica_correct:
  assumes "cluster_inv cl"
  shows "((\<forall>i n. map_of (cl_nodes cl) i = Some n \<longrightarrow> \<not> holds n (mk, rid)) \<longrightarrow>
            cl_evict rt cl mk (Some rid) = (cl, Inr [])) \<and>
    (\<forall>i n. map_of (cl_nodes cl) i = Some n \<longrightarrow> holds n (mk, rid) \<longrightarrow>
       (\<exists>cl' d. cl_evict rt cl mk (Some rid) = (cl', Inr [dep_get_state d]) \<and> entry n (mk, rid) d \<and>
          cluster_inv cl' \<and> (\<forall>e. \<not> hot cl' (mk, rid) e) \<and>
          (\<forall>k e. k \<noteq> (mk, rid) \<longrightarrow> (hot cl' k e \<longleftrightarrow> hot cl k e))))"
  by (rule cl_evict_replica[OF assms])

theorem evict_replica_correct_witness:
  "cl_evict ex_rt ex_cluster ''b'' (Some ''r9'') = (ex_cluster, Inr [])"
proof -
  have "\<not> holds ex_node (''b'', ''r9'')" using ex_holds[of "(''b'', ''r9'')"] by auto
  then show ?thesis
    using evict_replica_correct[OF ex_cluster_inv, of "''b''" "''r9''" ex_rt]
    by (simp add: ex_cluster_def split: if_splits)
qed

section \<open>Syncing with Ray\<close>

text \<open>What Ray reports of a node's resources is not negative.\<close>

definition ray_ok :: "ray_node \<Rightarrow> bool" where
  "ray_ok r \<longleftrightarrow> (\<forall>x. ray_gpu r = Some x \<longrightarrow> 0 \<le> x) \<and> (\<forall>x. ray_cuda_memory_bytes r = Some x \<longrightarrow> 0 \<le> x) \<and>
     (\<forall>x. ray_cpu_memory_bytes r = Some x \<longrightarrow> 0 \<le> x)"

lemma register_node_new:
  assumes "register_node cl r g = Inr n" and "ray_ok r" and "0 \<le> cl_cache_percentage cl" and "0 \<le> g"
  shows "nd_id n = ray_node_id r \<and> node_inv n \<and> nd_deployments n = [] \<and> nd_cache n = []"
proof -
  from assms(1) obtain cuda cpu where c: "ray_cuda_memory_bytes r = Some cuda" "ray_cpu_memory_bytes r = Some cpu"
    "py_int g \<noteq> 0"
    and n: "n = new_node (ray_node_id r) (ray_node_name r)
        \<lparr>gr_gpu_type = (case ray_accelerator_type r of Some t \<Rightarrow> t | None \<Rightarrow> ''unknown''),
         gr_gpus = map (\<lambda>i. new_gpu i (py_int cuda div py_int g)) [0..py_int g - 1]\<rparr>
        \<lparr>cr_memory_bytes = cpu * cl_cache_percentage cl, cr_available = cpu * cl_cache_percentage cl\<rparr> (cl_min_time cl)"
    by (auto simp: register_node_def Let_def split: option.splits if_splits)
  have "0 \<le> py_int cuda" "0 \<le> py_int g" "0 \<le> cpu"
    using assms(2,4) c by (auto simp: ray_ok_def py_int_def)
  then have mem: "0 \<le> py_int cuda div py_int g" using c(3) by (simp add: pos_imp_zdiv_nonneg_iff)
  have "distinct (map gpu_index (map (\<lambda>i. new_gpu i (py_int cuda div py_int g)) [0..py_int g - 1]))"
    by (simp add: comp_def new_gpu_def)
  then have "node_inv n" unfolding n using mem \<open>0 \<le> cpu\<close> assms(3)
    by (intro new_node_inv) (auto simp: new_gpu_def)
  then show ?thesis by (simp add: n new_node_def)
qed

definition empty_node :: "node_id \<Rightarrow> node \<Rightarrow> bool" where
  "empty_node i n \<longleftrightarrow> nd_id n = i \<and> node_inv n \<and> nd_deployments n = [] \<and> nd_cache n = []"

text \<open>The nodes there were stay as they are; a node added is empty.\<close>

definition extends :: "cluster \<Rightarrow> cluster \<Rightarrow> bool" where
  "extends cl cl' \<longleftrightarrow>
     (dict_wf (cl_nodes cl) \<longrightarrow> dict_wf (cl_nodes cl')) \<and>
     map_of (cl_nodes cl) \<subseteq>\<^sub>m map_of (cl_nodes cl') \<and>
     (\<forall>i n. map_of (cl_nodes cl') i = Some n \<longrightarrow> map_of (cl_nodes cl) i = None \<longrightarrow> empty_node i n)"

interpretation extends: kept extends
proof
  show "extends c c" for c by (simp add: extends_def)
  show "extends a c" if "extends a b" "extends b c" for a b c
  proof -
    have "empty_node i n" if c: "map_of (cl_nodes c) i = Some n" and a: "map_of (cl_nodes a) i = None" for i n
    proof (cases "map_of (cl_nodes b) i")
      case None
      with c \<open>extends b c\<close> show ?thesis by (simp add: extends_def)
    next
      case (Some m)
      then have "map_of (cl_nodes c) i = Some m"
        using \<open>extends b c\<close> unfolding extends_def map_le_def by (metis domI)
      with c Some a \<open>extends a b\<close> show ?thesis by (simp add: extends_def)
    qed
    then show ?thesis using that map_le_trans unfolding extends_def by blast
  qed
qed

lemma add_nodes_ok:
  assumes "add_nodes cl rays = (cl', x)" and "\<forall>r \<in> set rays. ray_ok r" and "0 \<le> cl_cache_percentage cl"
  shows "extends cl cl' \<and>
    (x = Inr () \<longrightarrow> (\<forall>r \<in> set rays. managed r \<longrightarrow> map_of (cl_nodes cl') (ray_node_id r) \<noteq> None))"
  using assms
proof (induction cl rays rule: add_nodes.induct)
  case (1 cl)
  then show ?case by (simp add: extends.kept_refl)
next
  case (2 cl r rs)
  note IH = "2.IH" and prems = "2.prems"
  have rs: "\<forall>r \<in> set rs. ray_ok r" using prems(2) by simp
  consider (skip) "\<not> managed r" | (known) g where "ray_gpu r = Some g" "ray_state r = ''ALIVE''" "map_of (cl_nodes cl) (ray_node_id r) \<noteq> None"
    | (new) g where "ray_gpu r = Some g" "ray_state r = ''ALIVE''" "map_of (cl_nodes cl) (ray_node_id r) = None"
    by (cases "ray_gpu r"; cases "map_of (cl_nodes cl) (ray_node_id r)") (auto simp: managed_def)
  then show ?case
  proof cases
    case skip
    then have run: "add_nodes cl rs = (cl', x)" using prems(1) by (auto simp: managed_def split: option.splits)
    have "extends cl cl' \<and> (x = Inr () \<longrightarrow> (\<forall>r \<in> set rs. managed r \<longrightarrow> map_of (cl_nodes cl') (ray_node_id r) \<noteq> None))"
      using skip IH(1,2) run rs prems(3) by (cases "ray_gpu r") (simp_all add: managed_def)
    with skip show ?thesis by simp
  next
    case known
    then have run: "add_nodes cl rs = (cl', x)" using prems(1) by simp
    have ih: "extends cl cl' \<and> (x = Inr () \<longrightarrow> (\<forall>r \<in> set rs. managed r \<longrightarrow> map_of (cl_nodes cl') (ray_node_id r) \<noteq> None))"
      using IH(3)[OF known(1) _ known(3) run rs prems(3)] known(2) by simp
    then have "map_of (cl_nodes cl') (ray_node_id r) \<noteq> None"
      using known(3) unfolding extends_def map_le_def by (metis domIff)
    with ih show ?thesis by simp
  next
    case new
    show ?thesis
    proof (cases "register_node cl r g")
      case (Inl e)
      with new prems(1) show ?thesis by (auto simp: extends.kept_refl)
    next
      case (Inr n)
      let ?cl = "cl\<lparr>cl_nodes := dict_set (ray_node_id r) n (cl_nodes cl)\<rparr>"
      have n: "empty_node (ray_node_id r) n"
        using register_node_new[OF Inr] prems(2,3) new(1) by (simp add: ray_ok_def empty_node_def)
      have look: "map_of (cl_nodes ?cl) = (map_of (cl_nodes cl))(ray_node_id r \<mapsto> n)" by (simp add: update_conv')
      have ext: "extends cl ?cl"
        unfolding extends_def look using n new(3) by (auto simp: map_le_def split: if_splits)
      have run: "add_nodes ?cl rs = (cl', x)" using prems(1) new Inr by simp
      have ih: "extends ?cl cl' \<and> (x = Inr () \<longrightarrow> (\<forall>r \<in> set rs. managed r \<longrightarrow> map_of (cl_nodes cl') (ray_node_id r) \<noteq> None))"
        using IH(4)[OF new(1) _ _ Inr run rs] new(2,3) prems(3) by simp
      have "map_of (cl_nodes ?cl) (ray_node_id r) = Some n" using look by simp
      then have "map_of (cl_nodes cl') (ray_node_id r) \<noteq> None"
        using ih unfolding extends_def map_le_def by (metis domIff option.distinct(1))
      with ih extends.kept_trans[OF ext] show ?thesis by simp
    qed
  qed
qed

lemma cluster_inv_sub:
  assumes "cluster_inv cl" and "dict_wf (cl_nodes cl')"
    and "\<And>i n. map_of (cl_nodes cl') i = Some n \<Longrightarrow> map_of (cl_nodes cl) i = Some n \<or> empty_node i n"
  shows "cluster_inv cl'"
proof -
  have "nd_id n = i \<and> node_inv n \<and> stamped n" if "map_of (cl_nodes cl') i = Some n" for i n
    using assms(3)[OF that]
  proof
    assume "map_of (cl_nodes cl) i = Some n"
    then show ?thesis using cluster_invD(1-3)[OF assms(1)] by blast
  qed (simp add: empty_node_def stamped_def entry_def)
  moreover have keep: "map_of (cl_nodes cl) i = Some n" if "map_of (cl_nodes cl') i = Some n" "holds n k" for i n k
    using assms(3)[OF that(1)] that(2) by (auto simp: holds_def entry_def empty_node_def)
  have "i = j" if "map_of (cl_nodes cl') i = Some m" "map_of (cl_nodes cl') j = Some n" "holds m k" "holds n k" for i j m n k
    using cluster_invD(4)[OF assms(1) keep[OF that(2,4)] keep[OF that(1,3)] that(3,4)] .
  ultimately show ?thesis
    using assms(2) unfolding cluster_inv_def by blast
qed

lemma map_of_filter_key: "map_of (filter (\<lambda>(i, _). P i) d) i = (if P i then map_of d i else None)"
  by (induction d) auto

lemma nd_purge_kills:
  assumes "node_inv n"
  shows "op \<in> set (nd_purge n) \<longleftrightarrow> (\<exists>k d. entry n k d \<and> op = Kill (dep_name d))"
proof -
  have "nwf (nd_deployments n)" "nwf (nd_cache n)"
    using assms by (auto simp: node_inv_def dest: hot_invD(1) warm_invD(1))
  then have ent: "(k, d) \<in> set (iter_deployments n @ iter_cache n) \<longleftrightarrow> entry n k d" for k d
    by (simp add: entry_def iter_deployments_def iter_cache_def nitems_nget)
  have "op \<in> set (nd_purge n) \<longleftrightarrow>
      (\<exists>k d. (k, d) \<in> set (iter_deployments n @ iter_cache n) \<and> op = Kill (dep_name d))"
    unfolding nd_purge_def dep_delete_def set_map image_iff by (metis case_prod_conv surj_pair)
  then show ?thesis unfolding ent .
qed

text \<open>C18. Syncing with Ray makes the node table the managed nodes Ray reports (alive, with GPUs):
  a node that was there and still is keeps its books and its replicas, a node added starts
  empty with balanced books, a node no longer reported is dropped and every replica on it, HOT or
  WARM, is killed, and no other actor is. The invariant is kept, also when a record Ray returned is
  incomplete and the call raises.\<close>

theorem update_nodes_syncs:
  assumes "cluster_inv cl" and "\<forall>r \<in> set rays. ray_ok r" and "0 \<le> cl_cache_percentage cl"
    and "update_nodes cl rays = (cl', x)"
  shows "cluster_inv cl' \<and>
    (\<forall>ops. x = Inr ops \<longrightarrow>
       dom (map_of (cl_nodes cl')) = ray_node_id ` {r \<in> set rays. managed r} \<and>
       (\<forall>i n. map_of (cl_nodes cl) i = Some n \<longrightarrow> i \<in> ray_node_id ` {r \<in> set rays. managed r} \<longrightarrow>
          map_of (cl_nodes cl') i = Some n) \<and>
       (\<forall>i n. map_of (cl_nodes cl') i = Some n \<longrightarrow> map_of (cl_nodes cl) i = None \<longrightarrow> empty_node i n) \<and>
       (\<forall>op. op \<in> set ops \<longleftrightarrow>
          (\<exists>i n k d. map_of (cl_nodes cl) i = Some n \<and> map_of (cl_nodes cl') i = None \<and> entry n k d \<and>
             op = Kill (dep_name d))))"
proof -
  let ?ids = "ray_node_id ` {r \<in> set rays. managed r}"
  obtain cl1 y where add: "add_nodes cl rays = (cl1, y)" by fastforce
  note ok = add_nodes_ok[OF add assms(2,3)]
  have wf1: "dict_wf (cl_nodes cl1)" and sub: "map_of (cl_nodes cl) \<subseteq>\<^sub>m map_of (cl_nodes cl1)"
    using ok assms(1) by (simp_all add: extends_def cluster_inv_def)
  have old: "map_of (cl_nodes cl1) i = Some n" if "map_of (cl_nodes cl) i = Some n" for i n
    using sub that by (metis domI map_le_def)
  have new: "map_of (cl_nodes cl) i = Some n \<or> empty_node i n" if "map_of (cl_nodes cl1) i = Some n" for i n
    using ok that old by (cases "map_of (cl_nodes cl) i") (auto simp: extends_def)
  have inv1: "cluster_inv cl1" by (rule cluster_inv_sub[OF assms(1) wf1 new])
  show ?thesis
  proof (cases y)
    case (Inl e)
    then have "cl' = cl1" "x = Inl e" using assms(4) add by (auto simp: update_nodes_def)
    with inv1 show ?thesis by simp
  next
    case (Inr u)
    let ?keep = "filter (\<lambda>(i, _). i \<in> ?ids) (cl_nodes cl1)"
      and ?gone = "filter (\<lambda>(i, _). i \<notin> ?ids) (cl_nodes cl1)"
    have cl': "cl_nodes cl' = ?keep" and x: "x = Inr (concat (map (\<lambda>(_, n). nd_purge n) ?gone))"
      using assms(4) add Inr by (auto simp: update_nodes_def Let_def case_prod_unfold)
    have look: "map_of (cl_nodes cl') i = (if i \<in> ?ids then map_of (cl_nodes cl1) i else None)" for i
      unfolding cl' by (rule map_of_filter_key)
    have "dict_wf (cl_nodes cl')" unfolding cl' using wf1 by (simp add: dict_wf_def distinct_map_filter)
    then have inv': "cluster_inv cl'"
      by (rule cluster_inv_sub[OF inv1]) (simp add: look split: if_splits)
    have "map_of (cl_nodes cl1) i \<noteq> None" if "i \<in> ?ids" for i using that ok Inr by auto
    then have dom: "dom (map_of (cl_nodes cl')) = ?ids" by (auto simp: look dom_def split: if_splits)
    have kill: "op \<in> set (concat (map (\<lambda>(_, n). nd_purge n) ?gone)) \<longleftrightarrow>
        (\<exists>i n. map_of (cl_nodes cl1) i = Some n \<and> i \<notin> ?ids \<and> (\<exists>k d. entry n k d \<and> op = Kill (dep_name d)))" for op
    proof -
      have "op \<in> set (concat (map (\<lambda>(_, n). nd_purge n) ?gone)) \<longleftrightarrow>
          (\<exists>i n. (i, n) \<in> set (cl_nodes cl1) \<and> i \<notin> ?ids \<and> op \<in> set (nd_purge n))" by auto
      also have "\<dots> \<longleftrightarrow> (\<exists>i n. map_of (cl_nodes cl1) i = Some n \<and> i \<notin> ?ids \<and> op \<in> set (nd_purge n))"
        unfolding dict_wf_in[OF wf1] ..
      finally show ?thesis using nd_purge_kills[OF cluster_invD(2)[OF inv1]] by (simp cong: conj_cong)
    qed
    have ops: "op \<in> set ops \<longleftrightarrow> (\<exists>i n k d. map_of (cl_nodes cl) i = Some n \<and> map_of (cl_nodes cl') i = None \<and>
        entry n k d \<and> op = Kill (dep_name d))" if "x = Inr ops" for op ops
    proof -
      have no: "map_of (cl_nodes cl) i = Some n" if "map_of (cl_nodes cl1) i = Some n" "entry n k d" for i n k d
        using new[OF that(1)] that(2) by (auto simp: empty_node_def entry_def)
      have gone: "map_of (cl_nodes cl') i = None \<longleftrightarrow> i \<notin> ?ids" for i using dom by blast
      show ?thesis using that x kill no old unfolding gone by blast
    qed
    have kept: "map_of (cl_nodes cl') i = Some n" if "map_of (cl_nodes cl) i = Some n" "i \<in> ?ids" for i n
      using that(2) old[OF that(1)] by (simp add: look)
    have "empty_node i n" if "map_of (cl_nodes cl') i = Some n" "map_of (cl_nodes cl) i = None" for i n
      using new[of i n] that by (simp add: look split: if_splits)
    then show ?thesis using inv' dom ops kept by blast
  qed
qed

definition ex_ray :: ray_node where
  "ex_ray = \<lparr>ray_state = ''ALIVE'', ray_node_id = ''n2'', ray_node_name = ''node2'', ray_gpu = Some 2,
     ray_cuda_memory_bytes = Some 20, ray_cpu_memory_bytes = Some 40, ray_accelerator_type = None\<rparr>"

theorem update_nodes_syncs_witness:
  "\<exists>cl' ops. update_nodes ex_cluster [ex_ray] = (cl', Inr ops) \<and> cluster_inv cl' \<and>
     dom (map_of (cl_nodes cl')) = {''n2''} \<and> length ops = 3"
proof -
  have len: "map_sum id length (snd (update_nodes ex_cluster [ex_ray])) = Inr 3" by code_simp
  then obtain cl' ops where run: "update_nodes ex_cluster [ex_ray] = (cl', Inr ops)"
    by (cases "update_nodes ex_cluster [ex_ray]"; cases "snd (update_nodes ex_cluster [ex_ray])") auto
  have ray: "\<forall>r \<in> set [ex_ray]. ray_ok r" by (simp add: ray_ok_def ex_ray_def)
  have pc: "0 \<le> cl_cache_percentage ex_cluster" by (simp add: ex_cluster_def new_cluster_def)
  note u = update_nodes_syncs[OF ex_cluster_inv ray pc run]
  have "cluster_inv cl'" using u by (rule conjunct1)
  moreover have "dom (map_of (cl_nodes cl')) = ray_node_id ` {r \<in> set [ex_ray]. managed r}"
    using u[THEN conjunct2, rule_format, OF refl] by (rule conjunct1)
  moreover have "{r \<in> set [ex_ray]. managed r} = {ex_ray}" by (auto simp: managed_def ex_ray_def)
  moreover have "ray_node_id ex_ray = ''n2''" by (simp add: ex_ray_def)
  ultimately show ?thesis using run len by simp
qed

end
