(* ===== verification/Controller.thy ===== *)
theory Controller
  imports Cluster_Props
begin

text \<open>
  \<open>controller/controller.py\<close>: the controller actor. Its \<open>state\<close> is what was last applied to
  Ray; \<open>build\<close> is the difference between the cluster and it, \<open>apply\<close> carries the difference
  out. The calls made on Ray are the \<open>actor_op\<close>s returned, in order; what Ray answers to
  them is the argument \<open>ray_answers\<close>.
\<close>

section \<open>State\<close>

type_synonym state_key = "node_id \<times> model_key \<times> replica_id"

record controller =
  ct_cluster :: cluster
  ct_state :: "(state_key, deployment) dict"
  ct_default_execution_timeout :: "rat option"
  ct_default_dtype :: string

record deployment_delta =
  to_cache :: "deployment list"
  from_cache :: "deployment list"
  to_create :: "(string \<times> deployment) list"
  to_delete :: "deployment list"

definition empty_delta :: deployment_delta where
  "empty_delta = \<lparr>to_cache = [], from_cache = [], to_create = [], to_delete = []\<rparr>"

section \<open>The difference\<close>

text \<open>The WARM replicas of a node: each is taken out of the old state, where it has to be.\<close>

fun build_cache ::
  "node_id \<Rightarrow> (replica_key \<times> deployment) list \<Rightarrow> (state_key, deployment) dict \<Rightarrow> (state_key, deployment) dict \<Rightarrow>
   deployment_delta \<Rightarrow> ((state_key, deployment) dict, (state_key, deployment) dict \<times> deployment_delta) run" where
  "build_cache i [] old new delta = (old, Inr (new, delta))"
| "build_cache i ((k, cached) # rest) old new delta =
     (case map_of old (i, k) of
        None \<Rightarrow> (old, Inl KeyError)
      | Some existing \<Rightarrow>
          build_cache i rest (dict_del (i, k) old) (dict_set (i, k) cached new)
            (if dep_level existing = HOT then delta\<lparr>to_cache := to_cache delta @ [cached]\<rparr> else delta))"

text \<open>The HOT replicas of a node.\<close>

fun build_hot ::
  "node_id \<Rightarrow> string \<Rightarrow> (replica_key \<times> deployment) list \<Rightarrow> (state_key, deployment) dict \<Rightarrow>
   (state_key, deployment) dict \<Rightarrow> deployment_delta \<Rightarrow>
   (state_key, deployment) dict \<times> (state_key, deployment) dict \<times> deployment_delta" where
  "build_hot i name [] old new delta = (old, new, delta)"
| "build_hot i name ((k, dep) # rest) old new delta =
     build_hot i name rest (dict_del (i, k) old) (dict_set (i, k) dep new)
       (case map_of old (i, k) of
          None \<Rightarrow> delta\<lparr>to_create := to_create delta @ [(name, dep)]\<rparr>
        | Some existing \<Rightarrow>
            if dep_level existing = WARM then delta\<lparr>from_cache := from_cache delta @ [dep]\<rparr> else delta)"

fun build_nodes ::
  "(node_id, node) dict \<Rightarrow> (state_key, deployment) dict \<Rightarrow> (state_key, deployment) dict \<Rightarrow> deployment_delta \<Rightarrow>
   ((state_key, deployment) dict, (state_key, deployment) dict \<times> deployment_delta) run" where
  "build_nodes [] old new delta = (old, Inr (new, delta))"
| "build_nodes ((i, n) # nodes) old new delta =
     bind_run (build_cache i (iter_cache n) old new delta)
       (\<lambda>old1 (new1, delta1).
          case build_hot i (nd_name n) (iter_deployments n) old1 new1 delta1 of
            (old2, new2, delta2) \<Rightarrow> build_nodes nodes old2 new2 delta2)"

text \<open>\<open>build\<close>. An exception leaves the old state with the replicas seen so far taken out.\<close>

definition build :: "controller \<Rightarrow> (controller, deployment_delta) run" where
  "build ct =
     (case build_nodes (cl_nodes (ct_cluster ct)) (ct_state ct) [] empty_delta of
        (old, Inl e) \<Rightarrow> (ct\<lparr>ct_state := old\<rparr>, Inl e)
      | (old, Inr (new, delta)) \<Rightarrow>
          (ct\<lparr>ct_state := new\<rparr>, Inr (delta\<lparr>to_delete := map snd old\<rparr>)))"

section \<open>Failed operations\<close>

text \<open>\<open>_remove_deployment_from_state\<close>: the resources given back are those of the record passed.\<close>

definition remove_on_node :: "node \<Rightarrow> deployment \<Rightarrow> (node, unit) run" where
  "remove_on_node n dep =
     (let k = (dep_model_key dep, dep_replica_id dep) in
      bind_run
        (if nget (nd_deployments n) k \<noteq> None
         then (case gr_release (nd_gpu n) (dep_gpus dep) of
                 (gr, Inl e) \<Rightarrow> (n\<lparr>nd_gpu := gr\<rparr>, Inl e)
               | (gr, Inr _) \<Rightarrow>
                   (n\<lparr>nd_gpu := gr, nd_deployments := ndel k (nd_deployments n)\<rparr>, Inr ()))
         else (n, Inr ()))
        (\<lambda>n1 _.
           if nget (nd_cache n1) k \<noteq> None
           then (n1\<lparr>nd_cpu := cr_release (nd_cpu n1) (dep_size_bytes dep),
                    nd_cache := ndel k (nd_cache n1)\<rparr>, Inr ())
           else (n1, Inr ())))"

definition remove_deployment :: "controller \<Rightarrow> deployment \<Rightarrow> (controller, unit) run" where
  "remove_deployment ct dep =
     (case dep_node_id dep of
        None \<Rightarrow> (ct, Inr ())
      | Some i \<Rightarrow>
          let ct1 = ct\<lparr>ct_state := dict_del (i, dep_model_key dep, dep_replica_id dep) (ct_state ct)\<rparr> in
          if i = [] then (ct1, Inr ())
          else
            (case map_of (cl_nodes (ct_cluster ct1)) i of
               None \<Rightarrow> (ct1, Inr ())
             | Some n \<Rightarrow>
                 (case remove_on_node n dep of
                    (n', r) \<Rightarrow>
                      (ct1\<lparr>ct_cluster := (ct_cluster ct1)\<lparr>cl_nodes := dict_set i n' (cl_nodes (ct_cluster ct1))\<rparr>\<rparr>, r))))"

section \<open>Carrying the difference out\<close>

text \<open>What Ray answers for a replica: whether the cache and from_cache calls could be sent, whether
  the offload succeeded, and whether the new actor can be looked up.\<close>

record ray_answers =
  ra_cache_sent :: "deployment \<Rightarrow> bool"
  ra_cache_done :: "deployment \<Rightarrow> bool"
  ra_from_cache_sent :: "deployment \<Rightarrow> bool"
  ra_actor_found :: "deployment \<Rightarrow> bool"

text \<open>\<open>delete\<close> then \<open>_remove_deployment_from_state\<close>, the clean-up after every failure.\<close>

definition give_up :: "controller \<Rightarrow> deployment \<Rightarrow> (controller, actor_op list) run" where
  "give_up ct dep = bind_run (remove_deployment ct dep) (\<lambda>ct' _. (ct', Inr [dep_delete dep]))"

text \<open>The four loops of \<open>apply\<close> have the same shape: each replica's operations, and the clean-up of
  those that failed.\<close>

fun each_dep ::
  "(controller \<Rightarrow> 'a \<Rightarrow> (controller, actor_op list) run) \<Rightarrow> 'a list \<Rightarrow> controller \<Rightarrow>
   (controller, actor_op list) run" where
  "each_dep f [] ct = (ct, Inr [])"
| "each_dep f (x # xs) ct =
     bind_run (f ct x) (\<lambda>ct' ops. bind_run (each_dep f xs ct') (\<lambda>ct'' ops'. (ct'', Inr (ops @ ops'))))"

definition start_cache :: "ray_answers \<Rightarrow> controller \<Rightarrow> deployment \<Rightarrow> (controller, actor_op list) run" where
  "start_cache ra ct dep =
     (if ra_cache_sent ra dep then (ct, Inr [dep_cache dep])
      else bind_run (give_up ct dep) (\<lambda>ct' ops. (ct', Inr (dep_cache dep # ops))))"

definition await_cache :: "ray_answers \<Rightarrow> controller \<Rightarrow> deployment \<Rightarrow> (controller, actor_op list) run" where
  "await_cache ra ct dep =
     (if ra_cache_done ra dep then (ct, Inr [AwaitCache (dep_name dep)])
      else bind_run (give_up ct dep) (\<lambda>ct' ops. (ct', Inr (AwaitCache (dep_name dep) # ops))))"

definition start_from_cache :: "ray_answers \<Rightarrow> controller \<Rightarrow> deployment \<Rightarrow> (controller, actor_op list) run" where
  "start_from_cache ra ct dep =
     (if ra_from_cache_sent ra dep
      then (ct, Inr [dep_from_cache dep, Monitor (dep_name dep) ''from_cache''])
      else bind_run (give_up ct dep) (\<lambda>ct' ops. (ct', Inr (dep_from_cache dep # ops))))"

definition creation_args :: "controller \<Rightarrow> deployment \<Rightarrow> deployment_args" where
  "creation_args ct dep =
     \<lparr>arg_model_key = dep_model_key dep,
      arg_execution_timeout =
        (case dep_execution_timeout_seconds dep of
           Some t \<Rightarrow> Some t | None \<Rightarrow> ct_default_execution_timeout ct),
      arg_dtype =
        Some (case dep_dtype dep of None \<Rightarrow> ct_default_dtype ct
                                  | Some t \<Rightarrow> if t = [] then ct_default_dtype ct else t),
      arg_gpu_mem_bytes_by_id = []\<rparr>"

definition start_create ::
  "runtime \<Rightarrow> (string, string) dict \<Rightarrow> ray_answers \<Rightarrow> controller \<Rightarrow> string \<times> deployment \<Rightarrow>
   (controller, actor_op list) run" where
  "start_create rt env ra ct nd =
     (case nd of
        (name, dep) \<Rightarrow>
          let created = dep_create (rt_import_class rt) env dep name (creation_args ct dep) in
          if ra_actor_found ra dep
          then (ct, Inr (created @ [Monitor (dep_name dep) ''create'']))
          else bind_run (give_up ct dep) (\<lambda>ct' ops. (ct', Inr (created @ ops))))"

definition apply_delta ::
  "runtime \<Rightarrow> (string, string) dict \<Rightarrow> ray_answers \<Rightarrow> controller \<Rightarrow> deployment_delta \<Rightarrow>
   (controller, actor_op list) run" where
  "apply_delta rt env ra ct delta =
     bind_run (each_dep (start_cache ra) (to_cache delta) ct) (\<lambda>ct1 ops1.
     bind_run (each_dep (await_cache ra) (filter (ra_cache_sent ra) (to_cache delta)) ct1) (\<lambda>ct2 ops2.
     bind_run (each_dep (start_from_cache ra) (from_cache delta) ct2) (\<lambda>ct3 ops3.
     bind_run (each_dep (start_create rt env ra) (to_create delta) ct3) (\<lambda>ct4 ops4.
       (ct4, Inr (map dep_delete (to_delete delta) @ ops1 @ ops2 @ ops3 @ ops4))))))"

definition apply_changes ::
  "runtime \<Rightarrow> (string, string) dict \<Rightarrow> ray_answers \<Rightarrow> controller \<Rightarrow> (controller, actor_op list) run" where
  "apply_changes rt env ra ct = bind_run (build ct) (apply_delta rt env ra)"

text \<open>\<open>_monitor_deployment\<close>, when the future it awaits is over.\<close>

definition monitor_deployment ::
  "controller \<Rightarrow> deployment \<Rightarrow> bool \<Rightarrow> (controller, actor_op list) run" where
  "monitor_deployment ct dep succeeded = (if succeeded then (ct, Inr []) else give_up ct dep)"

section \<open>The interface\<close>

definition fill_dtype ::
  "string \<Rightarrow> (model_key, deployment_config) dict \<Rightarrow> (model_key, deployment_config) dict" where
  "fill_dtype dflt configs =
     map (\<lambda>(mk, cfg). (mk, if cfg_dtype cfg = None then cfg\<lparr>cfg_dtype := Some dflt\<rparr> else cfg)) configs"

text \<open>\<open>_deploy\<close>; an exception out of the placement leaves what it placed without applying it.\<close>

definition ct_deploy ::
  "runtime \<Rightarrow> (string, string) dict \<Rightarrow> ray_answers \<Rightarrow> hub \<Rightarrow> controller \<Rightarrow> deploy_arg \<Rightarrow>
   (controller, deploy_response \<times> actor_op list) run" where
  "ct_deploy rt env ra h ct arg =
     (case cl_deploy rt h (ct_cluster ct) (fill_dtype (ct_default_dtype ct) (normalize arg)) of
        (cl, Inl e) \<Rightarrow> (ct\<lparr>ct_cluster := cl\<rparr>, Inl e)
      | (cl, Inr resp) \<Rightarrow>
          let ct1 = ct\<lparr>ct_cluster := cl\<rparr> in
          if resp_change resp
          then bind_run (apply_changes rt env ra ct1) (\<lambda>ct2 ops. (ct2, Inr (resp, ops)))
          else (ct1, Inr (resp, [])))"

definition live :: "controller \<Rightarrow> model_key \<Rightarrow> deployment list" where
  "live ct mk =
     concat (map (\<lambda>(_, n). map snd (dict_get (nd_deployments n) mk [])) (cl_nodes (ct_cluster ct)))"

text \<open>\<open>agrees\<close>: a replica that has every value the caller set.\<close>

definition agrees :: "deployment_config \<Rightarrow> deployment \<Rightarrow> bool" where
  "agrees cfg dep \<longleftrightarrow>
     \<not> (cfg_actor_class cfg \<noteq> None \<and> dep_actor_class dep \<noteq> cfg_actor_class cfg) \<and>
     \<not> (cfg_dtype cfg \<noteq> None \<and> dep_dtype dep \<noteq> cfg_dtype cfg) \<and>
     (case cfg_gpus cfg of None \<Rightarrow> True | Some g \<Rightarrow> int (length (dep_gpus dep)) = g)"

definition like_existing :: "controller \<Rightarrow> model_key \<Rightarrow> deployment_config \<Rightarrow> deployment_config" where
  "like_existing ct mk cfg =
     (case live ct mk of
        [] \<Rightarrow> cfg
      | first # rest \<Rightarrow>
          let model = (case find (agrees cfg) (first # rest) of Some d \<Rightarrow> d | None \<Rightarrow> first) in
          cfg\<lparr>cfg_actor_class := (if cfg_actor_class cfg = None then dep_actor_class model else cfg_actor_class cfg),
              cfg_dtype := (if cfg_dtype cfg = None then dep_dtype model else cfg_dtype cfg),
              cfg_gpus := (if cfg_gpus cfg = None then Some (int (length (dep_gpus model))) else cfg_gpus cfg),
              cfg_execution_timeout_seconds :=
                (if cfg_execution_timeout_seconds cfg = None then dep_execution_timeout_seconds model
                 else cfg_execution_timeout_seconds cfg)\<rparr>)"

definition scale ::
  "runtime \<Rightarrow> (string, string) dict \<Rightarrow> ray_answers \<Rightarrow> hub \<Rightarrow> controller \<Rightarrow> model_key \<Rightarrow> int \<Rightarrow>
   deployment_config option \<Rightarrow> (controller, deploy_response \<times> actor_op list) run" where
  "scale rt env ra h ct mk n config =
     (let cfg = (case config of Some c \<Rightarrow> c | None \<Rightarrow> default_config)\<lparr>cfg_replicas := n\<rparr> in
      ct_deploy rt env ra h ct (Configs [(mk, like_existing ct mk cfg)]))"

text \<open>\<open>_describe\<close>: the evaluator's entries for these models, fetched ahead.\<close>

definition describe :: "hub \<Rightarrow> controller \<Rightarrow> deploy_arg \<Rightarrow> controller" where
  "describe h ct arg =
     fold
       (\<lambda>(mk, cfg) ct.
          ct\<lparr>ct_cluster := (ct_cluster ct)\<lparr>cl_evaluator :=
               prefetch h (cl_evaluator (ct_cluster ct)) mk
                 (Some (case cfg_dtype cfg of
                          None \<Rightarrow> ct_default_dtype ct
                        | Some t \<Rightarrow> if t = [] then ct_default_dtype ct else t))\<rparr>\<rparr>)
       (normalize arg) ct"

definition deploy_rpc ::
  "runtime \<Rightarrow> (string, string) dict \<Rightarrow> ray_answers \<Rightarrow> hub \<Rightarrow> controller \<Rightarrow> deploy_arg \<Rightarrow>
   (controller, deploy_response \<times> actor_op list) run" where
  "deploy_rpc rt env ra h ct arg = ct_deploy rt env ra h (describe h ct arg) arg"

definition ct_evict ::
  "runtime \<Rightarrow> (string, string) dict \<Rightarrow> ray_answers \<Rightarrow> controller \<Rightarrow> model_key \<Rightarrow> replica_id option \<Rightarrow>
   (controller, replica_state list \<times> actor_op list) run" where
  "ct_evict rt env ra ct mk replica_id =
     (case cl_evict rt (ct_cluster ct) mk replica_id of
        (cl, Inl e) \<Rightarrow> (ct\<lparr>ct_cluster := cl\<rparr>, Inl e)
      | (cl, Inr states) \<Rightarrow>
          let ct1 = ct\<lparr>ct_cluster := cl\<rparr> in
          if states \<noteq> []
          then bind_run (apply_changes rt env ra ct1) (\<lambda>ct2 ops. (ct2, Inr (states, ops)))
          else (ct1, Inr (states, [])))"

definition get_deployment :: "controller \<Rightarrow> model_key \<Rightarrow> replica_id option \<Rightarrow> replica_state list" where
  "get_deployment ct mk replica_id =
     concat (map (\<lambda>(_, n).
       let replicas = dict_get (nd_deployments n) mk [] in
       case replica_id of
         Some rid \<Rightarrow> (case map_of replicas rid of Some d \<Rightarrow> [dep_get_state d] | None \<Rightarrow> [])
       | None \<Rightarrow> map (\<lambda>(_, d). dep_get_state d) replicas) (cl_nodes (ct_cluster ct)))"

text \<open>One pass of \<open>check_nodes\<close>; \<open>listed\<close> is what \<open>list_nodes\<close> returned or raised. An exception
  is logged and the loop goes on.\<close>

definition check_nodes_tick :: "controller \<Rightarrow> ray_node list res \<Rightarrow> controller \<times> actor_op list" where
  "check_nodes_tick ct listed =
     (case listed of
        Inl _ \<Rightarrow> (ct, [])
      | Inr rays \<Rightarrow>
          (case update_nodes (ct_cluster ct) rays of
             (cl, Inl _) \<Rightarrow> (ct\<lparr>ct_cluster := cl\<rparr>, [])
           | (cl, Inr ops) \<Rightarrow> (ct\<lparr>ct_cluster := cl\<rparr>, ops)))"

text \<open>\<open>__init__\<close>: an empty cluster, the nodes there are, and the models to serve from the start.\<close>

definition new_controller ::
  "runtime \<Rightarrow> (string, string) dict \<Rightarrow> ray_answers \<Rightarrow> hub \<Rightarrow> ray_node list res \<Rightarrow> model_key list \<Rightarrow> cluster \<Rightarrow>
   rat option \<Rightarrow> string \<Rightarrow> (controller, actor_op list) run" where
  "new_controller rt env ra h listed deployments cl timeout dtype =
     (let ct0 = \<lparr>ct_cluster = cl, ct_state = [], ct_default_execution_timeout = timeout, ct_default_dtype = dtype\<rparr> in
      case check_nodes_tick ct0 listed of
        (ct1, ops) \<Rightarrow>
          if deployments \<noteq> [] \<and> deployments \<noteq> [[]]
          then bind_run
                 (ct_deploy rt env ra h ct1
                    (Configs (fold (\<lambda>mk d. dict_set mk (default_config\<lparr>cfg_pinned := True\<rparr>) d) deployments [])))
                 (\<lambda>ct2 (_, ops2). (ct2, Inr (ops @ ops2)))
          else (ct1, Inr ops))"

end
