(* ===== verification/Controller_Inv.thy ===== *)
theory Controller_Inv
  imports Controller
begin

text \<open>
  The controller's invariant: what it believes was applied (\<open>state\<close>) is exactly what the cluster
  holds. The lemmas: \<open>build\<close> computes the difference and does not raise as long as every WARM
  replica is tracked, and every clean-up keeps the invariant.
\<close>

section \<open>Invariants\<close>

definition live_at :: "cluster \<Rightarrow> node_id \<Rightarrow> replica_key \<Rightarrow> deployment \<Rightarrow> bool" where
  "live_at cl i k d \<longleftrightarrow> (\<exists>n. map_of (cl_nodes cl) i = Some n \<and> entry n k d)"

definition matches :: "controller \<Rightarrow> bool" where
  "matches ct \<longleftrightarrow>
     dict_wf (ct_state ct) \<and>
     (\<forall>i k d. map_of (ct_state ct) (i, k) = Some d \<longleftrightarrow> live_at (ct_cluster ct) i k d)"

text \<open>Between two applications the state may still list replicas of a node that left, so the
  invariant of the controller is the one direction. No node of Ray has an empty id.\<close>

definition ctl_inv :: "controller \<Rightarrow> bool" where
  "ctl_inv ct \<longleftrightarrow>
     cluster_inv (ct_cluster ct) \<and> map_of (cl_nodes (ct_cluster ct)) [] = None \<and> dict_wf (ct_state ct) \<and>
     (\<forall>i k d. live_at (ct_cluster ct) i k d \<longrightarrow> map_of (ct_state ct) (i, k) = Some d)"

text \<open>Every WARM replica is in the state, as \<open>build\<close> relies on.\<close>

definition covers :: "controller \<Rightarrow> bool" where
  "covers ct \<longleftrightarrow>
     dict_wf (ct_state ct) \<and>
     (\<forall>i n k. map_of (cl_nodes (ct_cluster ct)) i = Some n \<longrightarrow> nget (nd_cache n) k \<noteq> None \<longrightarrow>
        map_of (ct_state ct) (i, k) \<noteq> None)"

lemma live_at_iff:
  "cluster_inv cl \<Longrightarrow> live_at cl i k d \<longleftrightarrow> (\<exists>n. map_of (cl_nodes cl) i = Some n \<and> find_replica n k = Some d)"
proof -
  assume inv: "cluster_inv cl"
  have "entry n k d \<longleftrightarrow> find_replica n k = Some d" if "map_of (cl_nodes cl) i = Some n" for n
  proof -
    have "nget (nd_deployments n) k = None \<or> nget (nd_cache n) k = None"
      using cluster_invD(2)[OF inv that] by (simp add: node_inv_def)
    then show ?thesis by (auto simp: entry_def find_replica_def split: option.splits)
  qed
  then show ?thesis unfolding live_at_def by auto
qed

section \<open>The difference, computed\<close>

lemma build_cache_ok:
  assumes "distinct (map fst items)" and "\<forall>k \<in> fst ` set items. map_of old (i, k) \<noteq> None"
  shows "\<exists>old' new'. build_cache i items old new delta =
      (old', Inr (new', delta\<lparr>to_cache := to_cache delta @
         map snd (filter (\<lambda>(k, d). dep_level (the (map_of old (i, k))) = HOT) items)\<rparr>)) \<and>
    (dict_wf old \<longrightarrow> dict_wf old') \<and> (dict_wf new \<longrightarrow> dict_wf new') \<and>
    (\<forall>j k. map_of old' (j, k) = (if j = i \<and> k \<in> fst ` set items then None else map_of old (j, k))) \<and>
    (\<forall>j k. map_of new' (j, k) = (if j = i \<and> k \<in> fst ` set items then map_of items k else map_of new (j, k)))"
  using assms
proof (induction items arbitrary: old new delta)
  case (Cons x items)
  obtain k c where x: "x = (k, c)" by (cases x)
  from Cons.prems obtain e where e: "map_of old (i, k) = Some e" by (auto simp: x)
  let ?old = "dict_del (i, k) old" and ?new = "dict_set (i, k) c new"
  let ?delta = "if dep_level e = HOT then delta\<lparr>to_cache := to_cache delta @ [c]\<rparr> else delta"
  have k: "k \<notin> fst ` set items" using Cons.prems(1) by (simp add: x)
  have same: "map_of ?old (i, k') = map_of old (i, k')" if "k' \<in> fst ` set items" for k'
    using that k by (auto simp: delete_conv')
  have "\<forall>k \<in> fst ` set items. map_of ?old (i, k) \<noteq> None" using Cons.prems(2) same by (simp add: x)
  from Cons.IH[OF _ this, of ?new ?delta] Cons.prems(1) obtain old' new' where
    run: "build_cache i items ?old ?new ?delta =
      (old', Inr (new', ?delta\<lparr>to_cache := to_cache ?delta @
         map snd (filter (\<lambda>(k, d). dep_level (the (map_of ?old (i, k))) = HOT) items)\<rparr>))"
    and wf: "dict_wf ?old \<longrightarrow> dict_wf old'" "dict_wf ?new \<longrightarrow> dict_wf new'"
    and old': "\<forall>j k. map_of old' (j, k) = (if j = i \<and> k \<in> fst ` set items then None else map_of ?old (j, k))"
    and new': "\<forall>j k. map_of new' (j, k) = (if j = i \<and> k \<in> fst ` set items then map_of items k else map_of ?new (j, k))"
    by auto
  have f: "filter (\<lambda>(k, d). dep_level (the (map_of ?old (i, k))) = HOT) items =
      filter (\<lambda>(k, d). dep_level (the (map_of old (i, k))) = HOT) items"
    using same by (intro filter_cong) (auto simp: case_prod_unfold)
  show ?case
  proof (rule exI[of _ old'], rule exI[of _ new'], intro conjI)
    show "build_cache i (x # items) old new delta =
      (old', Inr (new', delta\<lparr>to_cache := to_cache delta @
         map snd (filter (\<lambda>(k, d). dep_level (the (map_of old (i, k))) = HOT) (x # items))\<rparr>))"
      using run e by (simp add: x f)
    show "dict_wf old \<longrightarrow> dict_wf old'" "dict_wf new \<longrightarrow> dict_wf new'" using wf by simp_all
    show "\<forall>j k. map_of old' (j, k) = (if j = i \<and> k \<in> fst ` set (x # items) then None else map_of old (j, k))"
      using old' by (auto simp: x delete_conv')
    show "\<forall>j k. map_of new' (j, k) = (if j = i \<and> k \<in> fst ` set (x # items) then map_of (x # items) k else map_of new (j, k))"
      using new' k by (auto simp: x update_conv')
  qed
qed auto

lemma build_hot_ok:
  assumes "distinct (map fst items)"
  shows "\<exists>old' new'. build_hot i name items old new delta =
      (old', new', delta\<lparr>from_cache := from_cache delta @
           map snd (filter (\<lambda>(k, d). \<exists>e. map_of old (i, k) = Some e \<and> dep_level e = WARM) items),
         to_create := to_create delta @
           map (\<lambda>(k, d). (name, d)) (filter (\<lambda>(k, d). map_of old (i, k) = None) items)\<rparr>) \<and>
    (dict_wf old \<longrightarrow> dict_wf old') \<and> (dict_wf new \<longrightarrow> dict_wf new') \<and>
    (\<forall>j k. map_of old' (j, k) = (if j = i \<and> k \<in> fst ` set items then None else map_of old (j, k))) \<and>
    (\<forall>j k. map_of new' (j, k) = (if j = i \<and> k \<in> fst ` set items then map_of items k else map_of new (j, k)))"
  using assms
proof (induction items arbitrary: old new delta)
  case (Cons x items)
  obtain k c where x: "x = (k, c)" by (cases x)
  let ?old = "dict_del (i, k) old" and ?new = "dict_set (i, k) c new"
  let ?delta = "case map_of old (i, k) of
          None \<Rightarrow> delta\<lparr>to_create := to_create delta @ [(name, c)]\<rparr>
        | Some e \<Rightarrow> if dep_level e = WARM then delta\<lparr>from_cache := from_cache delta @ [c]\<rparr> else delta"
  have k: "k \<notin> fst ` set items" using Cons.prems(1) by (simp add: x)
  have same: "map_of ?old (i, k') = map_of old (i, k')" if "k' \<in> fst ` set items" for k'
    using that k by (auto simp: delete_conv')
  from Cons.IH[of ?old ?new ?delta] Cons.prems(1) obtain old' new' where
    run: "build_hot i name items ?old ?new ?delta =
      (old', new', ?delta\<lparr>from_cache := from_cache ?delta @
           map snd (filter (\<lambda>(k, d). \<exists>e. map_of ?old (i, k) = Some e \<and> dep_level e = WARM) items),
         to_create := to_create ?delta @
           map (\<lambda>(k, d). (name, d)) (filter (\<lambda>(k, d). map_of ?old (i, k) = None) items)\<rparr>)"
    and wf: "dict_wf ?old \<longrightarrow> dict_wf old'" "dict_wf ?new \<longrightarrow> dict_wf new'"
    and old': "\<forall>j k. map_of old' (j, k) = (if j = i \<and> k \<in> fst ` set items then None else map_of ?old (j, k))"
    and new': "\<forall>j k. map_of new' (j, k) = (if j = i \<and> k \<in> fst ` set items then map_of items k else map_of ?new (j, k))"
    by auto
  have f: "filter (\<lambda>(k, d). \<exists>e. map_of ?old (i, k) = Some e \<and> dep_level e = WARM) items =
      filter (\<lambda>(k, d). \<exists>e. map_of old (i, k) = Some e \<and> dep_level e = WARM) items"
    "filter (\<lambda>(k, d). map_of ?old (i, k) = None) items = filter (\<lambda>(k, d). map_of old (i, k) = None) items"
    using same by (intro filter_cong; auto simp: case_prod_unfold)+
  show ?case
  proof (rule exI[of _ old'], rule exI[of _ new'], intro conjI)
    show "build_hot i name (x # items) old new delta =
      (old', new', delta\<lparr>from_cache := from_cache delta @
           map snd (filter (\<lambda>(k, d). \<exists>e. map_of old (i, k) = Some e \<and> dep_level e = WARM) (x # items)),
         to_create := to_create delta @
           map (\<lambda>(k, d). (name, d)) (filter (\<lambda>(k, d). map_of old (i, k) = None) (x # items))\<rparr>)"
      using run by (cases "map_of old (i, k)") (simp_all add: x f)
    show "dict_wf old \<longrightarrow> dict_wf old'" "dict_wf new \<longrightarrow> dict_wf new'" using wf by simp_all
    show "\<forall>j k. map_of old' (j, k) = (if j = i \<and> k \<in> fst ` set (x # items) then None else map_of old (j, k))"
      using old' by (auto simp: x delete_conv')
    show "\<forall>j k. map_of new' (j, k) = (if j = i \<and> k \<in> fst ` set (x # items) then map_of (x # items) k else map_of new (j, k))"
      using new' k by (auto simp: x update_conv')
  qed
qed auto

text \<open>What each list of the difference has, over the nodes \<open>ns\<close> and the old state.\<close>

definition wants_cache :: "(node_id, node) dict \<Rightarrow> (state_key, deployment) dict \<Rightarrow> deployment \<Rightarrow> bool" where
  "wants_cache ns old d \<longleftrightarrow>
     (\<exists>i n k e. map_of ns i = Some n \<and> nget (nd_cache n) k = Some d \<and> map_of old (i, k) = Some e \<and> dep_level e = HOT)"

definition wants_restore :: "(node_id, node) dict \<Rightarrow> (state_key, deployment) dict \<Rightarrow> deployment \<Rightarrow> bool" where
  "wants_restore ns old d \<longleftrightarrow>
     (\<exists>i n k e. map_of ns i = Some n \<and> nget (nd_deployments n) k = Some d \<and> map_of old (i, k) = Some e \<and> dep_level e = WARM)"

definition wants_create :: "(node_id, node) dict \<Rightarrow> (state_key, deployment) dict \<Rightarrow> string \<Rightarrow> deployment \<Rightarrow> bool" where
  "wants_create ns old name d \<longleftrightarrow>
     (\<exists>i n k. map_of ns i = Some n \<and> nd_name n = name \<and> nget (nd_deployments n) k = Some d \<and> map_of old (i, k) = None)"

definition diff ::
  "(node_id, node) dict \<Rightarrow> (state_key, deployment) dict \<Rightarrow> deployment_delta \<Rightarrow> deployment_delta \<Rightarrow> bool" where
  "diff ns old delta delta' \<longleftrightarrow>
     (\<forall>d. d \<in> set (to_cache delta') \<longleftrightarrow> d \<in> set (to_cache delta) \<or> wants_cache ns old d) \<and>
     (\<forall>d. d \<in> set (from_cache delta') \<longleftrightarrow> d \<in> set (from_cache delta) \<or> wants_restore ns old d) \<and>
     (\<forall>name d. (name, d) \<in> set (to_create delta') \<longleftrightarrow> (name, d) \<in> set (to_create delta) \<or> wants_create ns old name d)"

definition taken :: "(node_id, node) dict \<Rightarrow> (state_key, deployment) dict \<Rightarrow> (state_key, deployment) dict \<Rightarrow> bool" where
  "taken ns old old' \<longleftrightarrow>
     (\<forall>i k. map_of old' (i, k) = (if \<exists>n. map_of ns i = Some n \<and> holds n k then None else map_of old (i, k)))"

definition recorded :: "(node_id, node) dict \<Rightarrow> (state_key, deployment) dict \<Rightarrow> (state_key, deployment) dict \<Rightarrow> bool" where
  "recorded ns new new' \<longleftrightarrow>
     (\<forall>i k. map_of new' (i, k) =
        (case map_of ns i of
           None \<Rightarrow> map_of new (i, k)
         | Some n \<Rightarrow> (case find_replica n k of Some d \<Rightarrow> Some d | None \<Rightarrow> map_of new (i, k))))"

lemma keys_nitems: "nwf t \<Longrightarrow> k \<in> fst ` set (nitems t) \<longleftrightarrow> nget t k \<noteq> None"
  using reps.lookup_None_iff[of t k] by simp

text \<open>One node: first its cache, then its deployments.\<close>

lemma build_node_ok:
  assumes inv: "node_inv n" and cov: "\<And>k. nget (nd_cache n) k \<noteq> None \<Longrightarrow> map_of old (i, k) \<noteq> None"
  shows "\<exists>old1 new1 delta1 old2 new2 delta2.
    build_cache i (iter_cache n) old new delta = (old1, Inr (new1, delta1)) \<and>
    build_hot i (nd_name n) (iter_deployments n) old1 new1 delta1 = (old2, new2, delta2) \<and>
    (dict_wf old \<longrightarrow> dict_wf old2) \<and> (dict_wf new \<longrightarrow> dict_wf new2) \<and>
    taken [(i, n)] old old2 \<and> recorded [(i, n)] new new2 \<and> diff [(i, n)] old delta delta2"
proof -
  have wf: "nwf (nd_deployments n)" "nwf (nd_cache n)"
    using inv by (auto simp: node_inv_def dest: hot_invD(1) warm_invD(1))
  have sides: "nget (nd_deployments n) k = None \<or> nget (nd_cache n) k = None" for k
    using inv by (simp add: node_inv_def)
  note it = iter_cache_def iter_deployments_def
  have "\<forall>k \<in> fst ` set (iter_cache n). map_of old (i, k) \<noteq> None"
    using cov by (simp add: it keys_nitems[OF wf(2)])
  from build_cache_ok[OF _ this, of new delta] distinct_nitems[OF wf(2)] obtain old1 new1 where
    c: "build_cache i (iter_cache n) old new delta = (old1, Inr (new1, delta\<lparr>to_cache := to_cache delta @
         map snd (filter (\<lambda>(k, d). dep_level (the (map_of old (i, k))) = HOT) (iter_cache n))\<rparr>))"
    "dict_wf old \<longrightarrow> dict_wf old1" "dict_wf new \<longrightarrow> dict_wf new1"
    and old1: "\<And>j k. map_of old1 (j, k) = (if j = i \<and> nget (nd_cache n) k \<noteq> None then None else map_of old (j, k))"
    and new1: "\<And>j k. map_of new1 (j, k) = (if j = i \<and> nget (nd_cache n) k \<noteq> None then nget (nd_cache n) k else map_of new (j, k))"
    unfolding it keys_nitems[OF wf(2)] map_of_nitems[OF wf(2)] by auto
  let ?d1 = "delta\<lparr>to_cache := to_cache delta @
         map snd (filter (\<lambda>(k, d). dep_level (the (map_of old (i, k))) = HOT) (iter_cache n))\<rparr>"
  from build_hot_ok[of "iter_deployments n" i "nd_name n" old1 new1 ?d1] distinct_nitems[OF wf(1)]
  obtain old2 new2 where
    h: "build_hot i (nd_name n) (iter_deployments n) old1 new1 ?d1 = (old2, new2, ?d1\<lparr>from_cache := from_cache ?d1 @
           map snd (filter (\<lambda>(k, d). \<exists>e. map_of old1 (i, k) = Some e \<and> dep_level e = WARM) (iter_deployments n)),
         to_create := to_create ?d1 @
           map (\<lambda>(k, d). (nd_name n, d)) (filter (\<lambda>(k, d). map_of old1 (i, k) = None) (iter_deployments n))\<rparr>)"
    "dict_wf old1 \<longrightarrow> dict_wf old2" "dict_wf new1 \<longrightarrow> dict_wf new2"
    and old2: "\<And>j k. map_of old2 (j, k) = (if j = i \<and> nget (nd_deployments n) k \<noteq> None then None else map_of old1 (j, k))"
    and new2: "\<And>j k. map_of new2 (j, k) = (if j = i \<and> nget (nd_deployments n) k \<noteq> None then nget (nd_deployments n) k else map_of new1 (j, k))"
    unfolding it keys_nitems[OF wf(1)] map_of_nitems[OF wf(1)] by auto
  let ?d2 = "?d1\<lparr>from_cache := from_cache ?d1 @
           map snd (filter (\<lambda>(k, d). \<exists>e. map_of old1 (i, k) = Some e \<and> dep_level e = WARM) (iter_deployments n)),
         to_create := to_create ?d1 @
           map (\<lambda>(k, d). (nd_name n, d)) (filter (\<lambda>(k, d). map_of old1 (i, k) = None) (iter_deployments n))\<rparr>"
  have "taken [(i, n)] old old2"
    unfolding taken_def by (auto simp: old2 old1 holds_def entry_def)
  moreover have "recorded [(i, n)] new new2"
    unfolding recorded_def by (auto simp: new2 new1 find_replica_def split: option.splits)
  moreover have same: "map_of old1 (i, k) = map_of old (i, k)" if "nget (nd_deployments n) k = Some d" for k d
    using sides[of k] that by (auto simp: old1)
  have "d \<in> set (to_cache ?d2) \<longleftrightarrow> d \<in> set (to_cache delta) \<or> wants_cache [(i, n)] old d" for d
  proof -
    have "d \<in> set (map snd (filter (\<lambda>(k, d). dep_level (the (map_of old (i, k))) = HOT) (iter_cache n))) \<longleftrightarrow>
        (\<exists>k. nget (nd_cache n) k = Some d \<and> dep_level (the (map_of old (i, k))) = HOT)"
      by (force simp: it nitems_nget[OF wf(2), symmetric])
    also have "\<dots> \<longleftrightarrow> wants_cache [(i, n)] old d"
      unfolding wants_cache_def using cov by (auto, metis option.sel option.distinct(1) option.exhaust)
    finally show ?thesis by simp
  qed
  moreover have "d \<in> set (from_cache ?d2) \<longleftrightarrow> d \<in> set (from_cache delta) \<or> wants_restore [(i, n)] old d" for d
  proof -
    have "d \<in> set (map snd (filter (\<lambda>(k, d). \<exists>e. map_of old1 (i, k) = Some e \<and> dep_level e = WARM) (iter_deployments n))) \<longleftrightarrow>
        (\<exists>k. nget (nd_deployments n) k = Some d \<and> (\<exists>e. map_of old1 (i, k) = Some e \<and> dep_level e = WARM))"
      by (force simp: it nitems_nget[OF wf(1), symmetric])
    then show ?thesis using same by (auto simp: wants_restore_def)
  qed
  moreover have "(name, d) \<in> set (to_create ?d2) \<longleftrightarrow> (name, d) \<in> set (to_create delta) \<or> wants_create [(i, n)] old name d" for name d
  proof -
    have "(name, d) \<in> set (map (\<lambda>(k, d). (nd_name n, d)) (filter (\<lambda>(k, d). map_of old1 (i, k) = None) (iter_deployments n))) \<longleftrightarrow>
        name = nd_name n \<and> (\<exists>k. nget (nd_deployments n) k = Some d \<and> map_of old1 (i, k) = None)"
      by (force simp: it nitems_nget[OF wf(1), symmetric])
    then show ?thesis using same by (auto simp: wants_create_def)
  qed
  ultimately have "diff [(i, n)] old delta ?d2" "taken [(i, n)] old old2" "recorded [(i, n)] new new2"
    unfolding diff_def by blast+
  then show ?thesis using c h by blast
qed

lemma taken_Cons:
  assumes "taken [(i, n)] old old1" and "taken ns old1 old2" and "map_of ns i = None"
  shows "taken ((i, n) # ns) old old2"
  unfolding taken_def
proof (intro allI)
  fix j k
  show "map_of old2 (j, k) = (if \<exists>m. map_of ((i, n) # ns) j = Some m \<and> holds m k then None else map_of old (j, k))"
    using assms by (cases "j = i") (auto simp: taken_def)
qed

lemma recorded_Cons:
  assumes "recorded [(i, n)] new new1" and "recorded ns new1 new2" and "map_of ns i = None"
  shows "recorded ((i, n) # ns) new new2"
  unfolding recorded_def
proof (intro allI)
  fix j k
  show "map_of new2 (j, k) = (case map_of ((i, n) # ns) j of None \<Rightarrow> map_of new (j, k)
      | Some n \<Rightarrow> (case find_replica n k of Some d \<Rightarrow> Some d | None \<Rightarrow> map_of new (j, k)))"
    using assms by (cases "j = i") (auto simp: recorded_def split: option.splits)
qed

text \<open>What a list wants of the rest of the nodes does not depend on the entries of the first.\<close>

lemma wants_Cons:
  assumes "taken [(i, n)] old old1" and "map_of ns i = None"
  shows "wants_cache ((i, n) # ns) old d \<longleftrightarrow> wants_cache [(i, n)] old d \<or> wants_cache ns old1 d"
    and "wants_restore ((i, n) # ns) old d \<longleftrightarrow> wants_restore [(i, n)] old d \<or> wants_restore ns old1 d"
    and "wants_create ((i, n) # ns) old name d \<longleftrightarrow> wants_create [(i, n)] old name d \<or> wants_create ns old1 name d"
proof -
  have same: "map_of old1 (j, k) = map_of old (j, k)" if "map_of ns j = Some m" for j m k
    using assms that by (auto simp: taken_def)
  have split: "map_of ((i, n) # ns) j = Some m \<longleftrightarrow> map_of [(i, n)] j = Some m \<or> map_of ns j = Some m" for j m
    using assms(2) by auto
  show "wants_cache ((i, n) # ns) old d \<longleftrightarrow> wants_cache [(i, n)] old d \<or> wants_cache ns old1 d"
    unfolding wants_cache_def split
    by (simp only: conj_disj_distribR ex_disj_distrib same cong: conj_cong)
  show "wants_restore ((i, n) # ns) old d \<longleftrightarrow> wants_restore [(i, n)] old d \<or> wants_restore ns old1 d"
    unfolding wants_restore_def split
    by (simp only: conj_disj_distribR ex_disj_distrib same cong: conj_cong)
  show "wants_create ((i, n) # ns) old name d \<longleftrightarrow> wants_create [(i, n)] old name d \<or> wants_create ns old1 name d"
    unfolding wants_create_def split
    by (simp only: conj_disj_distribR ex_disj_distrib same cong: conj_cong)
qed

lemma build_nodes_ok:
  assumes "dict_wf ns" and "\<forall>n \<in> snd ` set ns. node_inv n"
    and "\<forall>i n k. map_of ns i = Some n \<longrightarrow> nget (nd_cache n) k \<noteq> None \<longrightarrow> map_of old (i, k) \<noteq> None"
  shows "\<exists>old' new' delta'. build_nodes ns old new delta = (old', Inr (new', delta')) \<and>
    (dict_wf old \<longrightarrow> dict_wf old') \<and> (dict_wf new \<longrightarrow> dict_wf new') \<and>
    taken ns old old' \<and> recorded ns new new' \<and> diff ns old delta delta'"
  using assms
proof (induction ns arbitrary: old new delta)
  case Nil
  then show ?case
    by (simp add: taken_def recorded_def diff_def wants_cache_def wants_restore_def wants_create_def)
next
  case (Cons x ns)
  obtain i n where x: "x = (i, n)" by (cases x)
  note prems = Cons.prems[unfolded x]
  have i: "map_of ns i = None" using prems(1) by (simp add: dict_wf_def map_of_eq_None_iff)
  have "nget (nd_cache n) k \<noteq> None \<Longrightarrow> map_of old (i, k) \<noteq> None" for k using prems(3) by simp
  from build_node_ok[of n, OF _ this, of new delta] prems(2) obtain old1 new1 delta1 old2 new2 delta2 where
    one: "build_cache i (iter_cache n) old new delta = (old1, Inr (new1, delta1))"
      "build_hot i (nd_name n) (iter_deployments n) old1 new1 delta1 = (old2, new2, delta2)"
    and wf: "dict_wf old \<longrightarrow> dict_wf old2" "dict_wf new \<longrightarrow> dict_wf new2"
    and t: "taken [(i, n)] old old2" and r: "recorded [(i, n)] new new2" and d: "diff [(i, n)] old delta delta2"
    by auto
  have cov: "\<forall>j m k. map_of ns j = Some m \<longrightarrow> nget (nd_cache m) k \<noteq> None \<longrightarrow> map_of old2 (j, k) \<noteq> None"
  proof (intro allI impI)
    fix j m k assume at: "map_of ns j = Some m" "nget (nd_cache m) k \<noteq> None"
    have "j \<noteq> i" using at(1) i by auto
    then show "map_of old2 (j, k) \<noteq> None" using prems(3)[rule_format, of j m k] at t by (auto simp: taken_def)
  qed
  have ns: "dict_wf ns" "\<forall>n \<in> snd ` set ns. node_inv n" using prems(1,2) by (simp_all add: dict_wf_def)
  from Cons.IH[OF ns cov, of new2 delta2] obtain old' new' delta' where
    rest: "build_nodes ns old2 new2 delta2 = (old', Inr (new', delta'))"
    and wf': "dict_wf old2 \<longrightarrow> dict_wf old'" "dict_wf new2 \<longrightarrow> dict_wf new'"
    and t': "taken ns old2 old'" and r': "recorded ns new2 new'" and d': "diff ns old2 delta2 delta'"
    by blast
  have "diff ((i, n) # ns) old delta delta'"
    using d d' unfolding diff_def wants_Cons[OF t i] by blast
  then show ?case
    using x one rest wf wf' taken_Cons[OF t t' i] recorded_Cons[OF r r' i] by simp
qed

text \<open>\<open>build\<close> returns, the state is then what the cluster holds, and the lists of the difference
  are what their names say.\<close>

lemma build_ok:
  assumes inv: "cluster_inv (ct_cluster ct)" and cov: "covers ct"
  shows "\<exists>st delta. build ct = (ct\<lparr>ct_state := st\<rparr>, Inr delta) \<and> matches (ct\<lparr>ct_state := st\<rparr>) \<and>
    diff (cl_nodes (ct_cluster ct)) (ct_state ct) empty_delta delta \<and>
    (\<forall>d. d \<in> set (to_delete delta) \<longleftrightarrow>
       (\<exists>i k. map_of (ct_state ct) (i, k) = Some d \<and> \<not> (\<exists>n. map_of (cl_nodes (ct_cluster ct)) i = Some n \<and> holds n k)))"
proof -
  let ?ns = "cl_nodes (ct_cluster ct)" and ?old = "ct_state ct"
  have wf: "dict_wf ?ns" "dict_wf ?old" using inv cov by (simp_all add: cluster_inv_def covers_def)
  have "\<forall>n \<in> snd ` set ?ns. node_inv n" using inv wf(1) by (auto simp: cluster_inv_def dict_wf_in)
  from build_nodes_ok[OF wf(1) this cov[unfolded covers_def, THEN conjunct2], of "[]" empty_delta] wf(2) obtain old' new' delta' where
    run: "build_nodes ?ns ?old [] empty_delta = (old', Inr (new', delta'))"
    and wf': "dict_wf old'" "dict_wf new'"
    and t: "taken ?ns ?old old'" and r: "recorded ?ns [] new'" and d: "diff ?ns ?old empty_delta delta'"
    using dict_wf_Nil by blast
  have "map_of new' (i, k) = Some e \<longleftrightarrow> live_at (ct_cluster ct) i k e" for i k e
    unfolding live_at_iff[OF inv] using r by (auto simp: recorded_def split: option.splits)
  then have "matches (ct\<lparr>ct_state := new'\<rparr>)" using wf'(2) by (simp add: matches_def)
  moreover have "build ct = (ct\<lparr>ct_state := new'\<rparr>, Inr (delta'\<lparr>to_delete := map snd old'\<rparr>))"
    using run by (simp add: build_def)
  moreover have "diff ?ns ?old empty_delta (delta'\<lparr>to_delete := map snd old'\<rparr>)" using d by (simp add: diff_def)
  moreover have "e \<in> set (map snd old') \<longleftrightarrow>
      (\<exists>i k. map_of ?old (i, k) = Some e \<and> \<not> (\<exists>n. map_of ?ns i = Some n \<and> holds n k))" for e
  proof -
    have "e \<in> set (map snd old') \<longleftrightarrow> (\<exists>i k. ((i, k), e) \<in> set old')" by force
    also have "\<dots> \<longleftrightarrow> (\<exists>i k. map_of old' (i, k) = Some e)" unfolding dict_wf_in[OF wf'(1)] ..
    also have "\<dots> \<longleftrightarrow> (\<exists>i k. map_of ?old (i, k) = Some e \<and> \<not> (\<exists>n. map_of ?ns i = Some n \<and> holds n k))"
      using t unfolding taken_def by (metis option.distinct(1))
    finally show ?thesis .
  qed
  ultimately show ?thesis by (intro exI[of _ new'] exI[of _ "delta'\<lparr>to_delete := map snd old'\<rparr>"]) simp
qed

section \<open>Clean-up after a failure\<close>

text \<open>\<open>ct'\<close> is \<open>ct\<close> without the replicas \<open>F\<close>, in the state and in the cluster.\<close>

definition without :: "deployment set \<Rightarrow> controller \<Rightarrow> controller \<Rightarrow> bool" where
  "without F ct ct' \<longleftrightarrow>
     cluster_inv (ct_cluster ct') \<and> map_of (cl_nodes (ct_cluster ct')) [] = None \<and> matches ct' \<and>
     creation_args ct' = creation_args ct \<and>
     (\<forall>i k d. live_at (ct_cluster ct') i k d \<longleftrightarrow> live_at (ct_cluster ct) i k d \<and> d \<notin> F)"

text \<open>A record under a replica's key on its node is that record.\<close>

definition known :: "controller \<Rightarrow> deployment \<Rightarrow> bool" where
  "known ct dep \<longleftrightarrow>
     (\<forall>i d. dep_node_id dep = Some i \<longrightarrow> live_at (ct_cluster ct) i (dep_key dep) d \<longrightarrow> d = dep)"

lemma without_trans: "without F a b \<Longrightarrow> without G b c \<Longrightarrow> without (F \<union> G) a c"
  unfolding without_def by simp

lemma without_known: "without F ct ct' \<Longrightarrow> known ct dep \<Longrightarrow> known ct' dep"
  unfolding without_def known_def by blast

lemma live_at_key:
  assumes "cluster_inv cl" and "live_at cl i k d"
  shows "dep_node_id d = Some i" and "dep_key d = k"
proof -
  from assms(2) obtain n where n: "map_of (cl_nodes cl) i = Some n" "entry n k d" by (auto simp: live_at_def)
  note inv = cluster_invD(1-3)[OF assms(1) n(1)]
  show "dep_node_id d = Some i" using inv n(2) by (simp add: stamped_def)
  show "dep_key d = k"
    using inv(2) n(2) by (auto simp: node_inv_def entry_def hot_ok_def warm_ok_def dest: hot_invD(3) warm_invD(2))
qed

lemma remove_on_node_ok:
  assumes inv: "node_inv n" and dep: "\<And>d. entry n (dep_key dep) d \<Longrightarrow> d = dep"
  shows "\<exists>n'. remove_on_node n dep = (n', Inr ()) \<and> node_inv n' \<and> nd_id n' = nd_id n \<and>
    (\<forall>k d. entry n' k d \<longleftrightarrow> entry n k d \<and> k \<noteq> dep_key dep)"
proof -
  let ?k = "dep_key dep" and ?gs = "gr_gpus (nd_gpu n)"
  have hot: "hot_inv ?gs (nd_deployments n)" and warm: "warm_inv (nd_cpu n) (nd_cache n)"
    and sides: "\<And>k. nget (nd_deployments n) k = None \<or> nget (nd_cache n) k = None"
    using inv by (auto simp: node_inv_def)
  note def = remove_on_node_def[of n dep, folded dep_key_def, unfolded Let_def]
  consider (none) "nget (nd_deployments n) ?k = None" "nget (nd_cache n) ?k = None"
    | (hot) "nget (nd_deployments n) ?k = Some dep" "nget (nd_cache n) ?k = None"
    | (warm) "nget (nd_deployments n) ?k = None" "nget (nd_cache n) ?k = Some dep"
    using sides[of ?k] dep unfolding entry_def by (metis option.exhaust)
  then show ?thesis
  proof cases
    case none
    then show ?thesis using inv by (auto simp: def entry_def)
  next
    case hot': hot
    let ?n = "n\<lparr>nd_gpu := (nd_gpu n)\<lparr>gr_gpus := shift (alloc_on dep) ?gs\<rparr>, nd_deployments := ndel ?k (nd_deployments n)\<rparr>"
    have "remove_on_node n dep = (?n, Inr ())"
      using hot' hot_release(1)[OF hot hot'(1)] by (simp add: def gr_release_def)
    moreover have "node_inv ?n"
      using hot_release(2)[OF hot hot'(1)] warm sides by (auto simp: node_inv_def nget_ndel)
    ultimately show ?thesis using hot'(2) by (auto simp: entry_def nget_ndel)
  next
    case warm': warm
    let ?n = "n\<lparr>nd_cpu := cr_release (nd_cpu n) (dep_size_bytes dep), nd_cache := ndel ?k (nd_cache n)\<rparr>"
    have "remove_on_node n dep = (?n, Inr ())" using warm' by (simp add: def)
    moreover have "node_inv ?n"
      using warm_drop[OF warm warm'(2)] hot sides by (auto simp: node_inv_def nget_ndel)
    ultimately show ?thesis using warm'(1) by (auto simp: entry_def nget_ndel)
  qed
qed

text \<open>The guard every step starts from: the state is what the cluster holds.\<close>

definition synced :: "controller \<Rightarrow> bool" where
  "synced ct \<longleftrightarrow>
     cluster_inv (ct_cluster ct) \<and> map_of (cl_nodes (ct_cluster ct)) [] = None \<and> matches ct"

lemma without_synced: "without F ct ct' \<Longrightarrow> synced ct'"
  by (simp add: without_def synced_def)

lemma without_refl: "synced ct \<Longrightarrow> without {} ct ct"
  by (simp add: without_def synced_def)

lemma synced_inv: "synced ct \<Longrightarrow> ctl_inv ct"
  by (simp add: synced_def ctl_inv_def matches_def)

lemma without_gone:
  assumes "synced ct" and "\<And>i k. \<not> live_at (ct_cluster ct) i k dep"
  shows "without {dep} ct ct"
  using assms by (auto simp: without_def synced_def)

lemma remove_deployment_ok:
  assumes s: "synced ct" and known: "known ct dep"
  shows "\<exists>ct'. remove_deployment ct dep = (ct', Inr ()) \<and> without {dep} ct ct'"
proof -
  let ?cl = "ct_cluster ct"
  have inv: "cluster_inv ?cl" and nil: "map_of (cl_nodes ?cl) [] = None"
    and m: "dict_wf (ct_state ct)" "\<And>i k d. map_of (ct_state ct) (i, k) = Some d \<longleftrightarrow> live_at ?cl i k d"
    using s by (simp_all add: synced_def matches_def)
  show ?thesis
  proof (cases "dep_node_id dep")
    case None
    then have "\<not> live_at ?cl i k dep" for i k using live_at_key(1)[OF inv, of i k dep] by auto
    then show ?thesis using without_gone[OF s] None by (simp add: remove_deployment_def)
  next
    case (Some i)
    show ?thesis
    proof (cases "map_of (cl_nodes ?cl) i")
      case None
      then have no: "\<not> live_at ?cl i k d" for k d by (simp add: live_at_def)
      then have "map_of (ct_state ct) (i, dep_key dep) = None"
        using m(2)[of i "dep_key dep"] by (cases "map_of (ct_state ct) (i, dep_key dep)") auto
      then have "dict_del (i, dep_key dep) (ct_state ct) = ct_state ct"
        by (simp add: delete_idem dom_map_of_conv_image_fst[symmetric] domIff)
      then have "remove_deployment ct dep = (ct, Inr ())"
        using None Some by (simp add: remove_deployment_def dep_key_def Let_def)
      moreover have "\<not> live_at ?cl j k dep" for j k
        using live_at_key(1)[OF inv, of j k dep] no[of k dep] Some by auto
      ultimately show ?thesis using without_gone[OF s] by blast
    next
      case n: (Some n)
      have i: "i \<noteq> []" using n nil by auto
      have "d = dep" if "entry n (dep_key dep) d" for d
        using that known Some n by (auto simp: known_def live_at_def)
      from remove_on_node_ok[OF cluster_invD(2)[OF inv n] this] obtain n' where
        run: "remove_on_node n dep = (n', Inr ())" and n': "node_inv n'" "nd_id n' = nd_id n"
        and ent: "\<And>k d. entry n' k d \<longleftrightarrow> entry n k d \<and> k \<noteq> dep_key dep" by blast
      let ?cl' = "?cl\<lparr>cl_nodes := dict_set i n' (cl_nodes ?cl)\<rparr>"
      let ?ct = "ct\<lparr>ct_state := dict_del (i, dep_key dep) (ct_state ct), ct_cluster := ?cl'\<rparr>"
      have "came {} n n'" using ent n'(2) by (simp add: came_def)
      from cluster_inv_update[OF inv n this n'(1)] have inv': "cluster_inv ?cl'" by simp
      have live: "live_at ?cl' j k d \<longleftrightarrow> live_at ?cl j k d \<and> \<not> (j = i \<and> k = dep_key dep)" for j k d
        using n ent by (auto simp: live_at_def update_conv')
      have only: "(j = i \<and> k = dep_key dep) \<longleftrightarrow> d = dep" if "live_at ?cl j k d" for j k d
        using that known Some live_at_key[OF inv that] by (auto simp: known_def)
      have "map_of (dict_del (i, dep_key dep) (ct_state ct)) (j, k) = Some d \<longleftrightarrow> live_at ?cl' j k d" for j k d
        using m(2)[of j k d] by (auto simp: live delete_conv')
      then have "matches ?ct" using m(1) by (simp add: matches_def)
      moreover have "map_of (cl_nodes ?cl') [] = None" using nil i by (simp add: update_conv')
      moreover have "creation_args ?ct = creation_args ct" by (rule ext) (simp add: creation_args_def split: option.split)
      moreover have "live_at ?cl' j k d \<longleftrightarrow> live_at ?cl j k d \<and> d \<notin> {dep}" for j k d
        unfolding live using only[of j k d] by blast
      ultimately have "without {dep} ct ?ct" using inv' by (simp add: without_def)
      moreover have "remove_deployment ct dep = (?ct, Inr ())"
        using Some n i run by (simp add: remove_deployment_def dep_key_def Let_def)
      ultimately show ?thesis by blast
    qed
  qed
qed

lemma give_up_ok:
  assumes "synced ct" and "known ct dep"
  shows "\<exists>ct'. give_up ct dep = (ct', Inr [dep_delete dep]) \<and> without {dep} ct ct'"
  using remove_deployment_ok[OF assms] by (auto simp: give_up_def)

section \<open>Applying a difference\<close>

text \<open>One of the loops of \<open>apply\<close>: on each replica it either leaves the controller as it is, or
  gives the replica up.\<close>

lemma each_dep_ok:
  assumes "synced ct" and "\<forall>x \<in> set xs. known ct (dep x)"
    and step: "\<And>ct' x. x \<in> set xs \<Longrightarrow> synced ct' \<Longrightarrow> known ct' (dep x) \<Longrightarrow> creation_args ct' = creation_args ct \<Longrightarrow>
      \<exists>ct''. f ct' x = (ct'', Inr (ops x)) \<and> without (if ok x then {} else {dep x}) ct' ct''"
  shows "\<exists>ct'. each_dep f xs ct = (ct', Inr (concat (map ops xs))) \<and>
    without (dep ` {x \<in> set xs. \<not> ok x}) ct ct'"
  using assms
proof (induction xs arbitrary: ct)
  case Nil
  then show ?case by (simp add: without_refl)
next
  case (Cons x xs)
  from Cons.prems(3)[of x ct] Cons.prems(1,2) obtain ct1 where
    one: "f ct x = (ct1, Inr (ops x))" "without (if ok x then {} else {dep x}) ct ct1" by auto
  have "\<forall>x \<in> set xs. known ct1 (dep x)" using Cons.prems(2) without_known[OF one(2)] by simp
  moreover have "creation_args ct1 = creation_args ct" using one(2) by (simp add: without_def)
  ultimately obtain ct' where
    rest: "each_dep f xs ct1 = (ct', Inr (concat (map ops xs)))"
      "without (dep ` {x \<in> set xs. \<not> ok x}) ct1 ct'"
    using Cons.IH[OF without_synced[OF one(2)]] Cons.prems(3) by auto
  have "dep ` {y \<in> set (x # xs). \<not> ok y} = (if ok x then {} else {dep x}) \<union> dep ` {x \<in> set xs. \<not> ok x}"
    by auto
  with without_trans[OF one(2) rest(2)] one(1) rest(1) show ?case by simp
qed

text \<open>The replicas whose Ray call failed.\<close>

definition lost :: "ray_answers \<Rightarrow> deployment_delta \<Rightarrow> deployment set" where
  "lost ra delta =
     {d \<in> set (to_cache delta). \<not> (ra_cache_sent ra d \<and> ra_cache_done ra d)} \<union>
     {d \<in> set (from_cache delta). \<not> ra_from_cache_sent ra d} \<union>
     {d \<in> snd ` set (to_create delta). \<not> ra_actor_found ra d}"

text \<open>The calls on Ray, in order.\<close>

definition cache_ops :: "ray_answers \<Rightarrow> deployment \<Rightarrow> actor_op list" where
  "cache_ops ra d = dep_cache d # (if ra_cache_sent ra d then [] else [dep_delete d])"

definition await_ops :: "ray_answers \<Rightarrow> deployment \<Rightarrow> actor_op list" where
  "await_ops ra d = AwaitCache (dep_name d) # (if ra_cache_done ra d then [] else [dep_delete d])"

definition restore_ops :: "ray_answers \<Rightarrow> deployment \<Rightarrow> actor_op list" where
  "restore_ops ra d =
     [dep_from_cache d, if ra_from_cache_sent ra d then Monitor (dep_name d) ''from_cache'' else dep_delete d]"

definition create_ops ::
  "runtime \<Rightarrow> (string, string) dict \<Rightarrow> ray_answers \<Rightarrow> (deployment \<Rightarrow> deployment_args) \<Rightarrow>
   string \<times> deployment \<Rightarrow> actor_op list" where
  "create_ops rt env ra args nd =
     dep_create (rt_import_class rt) env (snd nd) (fst nd) (args (snd nd)) @
     [if ra_actor_found ra (snd nd) then Monitor (dep_name (snd nd)) ''create'' else dep_delete (snd nd)]"

lemma apply_delta_ok:
  assumes s: "synced ct"
    and k: "\<forall>d \<in> set (to_cache delta) \<union> set (from_cache delta) \<union> snd ` set (to_create delta). known ct d"
  shows "\<exists>ct'. apply_delta rt env ra ct delta =
      (ct', Inr (map dep_delete (to_delete delta) @
         concat (map (cache_ops ra) (to_cache delta)) @
         concat (map (await_ops ra) (filter (ra_cache_sent ra) (to_cache delta))) @
         concat (map (restore_ops ra) (from_cache delta)) @
         concat (map (create_ops rt env ra (creation_args ct)) (to_create delta)))) \<and>
    without (lost ra delta) ct ct'"
proof -
  let ?sent = "filter (ra_cache_sent ra) (to_cache delta)"
  have "\<exists>ct1. each_dep (start_cache ra) (to_cache delta) ct = (ct1, Inr (concat (map (cache_ops ra) (to_cache delta)))) \<and>
      without (id ` {d \<in> set (to_cache delta). \<not> ra_cache_sent ra d}) ct ct1"
    by (rule each_dep_ok[OF s]) (use k give_up_ok in \<open>fastforce simp: start_cache_def cache_ops_def without_refl\<close>)+
  then obtain ct1 where c1: "each_dep (start_cache ra) (to_cache delta) ct =
      (ct1, Inr (concat (map (cache_ops ra) (to_cache delta))))"
    and w1: "without {d \<in> set (to_cache delta). \<not> ra_cache_sent ra d} ct ct1" by auto
  have "\<exists>ct2. each_dep (await_cache ra) ?sent ct1 = (ct2, Inr (concat (map (await_ops ra) ?sent))) \<and>
      without (id ` {d \<in> set ?sent. \<not> ra_cache_done ra d}) ct1 ct2"
    by (rule each_dep_ok[OF without_synced[OF w1]])
      (use k give_up_ok without_known[OF w1] in \<open>fastforce simp: await_cache_def await_ops_def without_refl\<close>)+
  then obtain ct2 where c2: "each_dep (await_cache ra) ?sent ct1 = (ct2, Inr (concat (map (await_ops ra) ?sent)))"
    and w2: "without {d \<in> set ?sent. \<not> ra_cache_done ra d} ct1 ct2" by auto
  note w12 = without_trans[OF w1 w2]
  have "\<exists>ct3. each_dep (start_from_cache ra) (from_cache delta) ct2 =
        (ct3, Inr (concat (map (restore_ops ra) (from_cache delta)))) \<and>
      without (id ` {d \<in> set (from_cache delta). \<not> ra_from_cache_sent ra d}) ct2 ct3"
    by (rule each_dep_ok[OF without_synced[OF w12]])
      (use k give_up_ok without_known[OF w12] in \<open>fastforce simp: start_from_cache_def restore_ops_def without_refl\<close>)+
  then obtain ct3 where c3: "each_dep (start_from_cache ra) (from_cache delta) ct2 =
      (ct3, Inr (concat (map (restore_ops ra) (from_cache delta))))"
    and w3: "without {d \<in> set (from_cache delta). \<not> ra_from_cache_sent ra d} ct2 ct3" by auto
  note w123 = without_trans[OF w12 w3]
  have args: "creation_args ct3 = creation_args ct" using w123 by (simp add: without_def)
  have "\<exists>ct4. each_dep (start_create rt env ra) (to_create delta) ct3 =
        (ct4, Inr (concat (map (create_ops rt env ra (creation_args ct)) (to_create delta)))) \<and>
      without (snd ` {nd \<in> set (to_create delta). \<not> ra_actor_found ra (snd nd)}) ct3 ct4"
    by (rule each_dep_ok[OF without_synced[OF w123]])
      (use k give_up_ok without_known[OF w123] args in
        \<open>fastforce simp: start_create_def create_ops_def without_refl Let_def case_prod_unfold\<close>)+
  then obtain ct4 where c4: "each_dep (start_create rt env ra) (to_create delta) ct3 =
      (ct4, Inr (concat (map (create_ops rt env ra (creation_args ct)) (to_create delta))))"
    and w4: "without (snd ` {nd \<in> set (to_create delta). \<not> ra_actor_found ra (snd nd)}) ct3 ct4" by auto
  have "{d \<in> set (to_cache delta). \<not> ra_cache_sent ra d} \<union> {d \<in> set ?sent. \<not> ra_cache_done ra d} \<union>
      {d \<in> set (from_cache delta). \<not> ra_from_cache_sent ra d} \<union>
      snd ` {nd \<in> set (to_create delta). \<not> ra_actor_found ra (snd nd)} = lost ra delta"
    by (auto simp: lost_def)
  with without_trans[OF w123 w4] c1 c2 c3 c4 show ?thesis by (simp add: apply_delta_def)
qed

end
