(* ===== verification/Controller_Props.thy ===== *)
theory Controller_Props
  imports Controller_Inv
begin

text \<open>
  The properties of the controller: the difference it computes is exact and can always be
  applied, applying it forgets exactly the replicas whose Ray call failed, and every entry point
  keeps what the controller records in step with what the cluster holds.
\<close>

section \<open>Building and applying\<close>

lemma live_at_unique: "cluster_inv cl \<Longrightarrow> live_at cl i k d \<Longrightarrow> live_at cl i k e \<Longrightarrow> d = e"
  by (auto simp: live_at_iff)

lemma live_known:
  assumes "cluster_inv (ct_cluster ct)" and "live_at (ct_cluster ct) i k d"
  shows "known ct d"
  using live_at_key[OF assms] live_at_unique[OF assms(1) _ assms(2)] by (auto simp: known_def)

lemma diff_known:
  assumes "cluster_inv (ct_cluster ct)" and "diff (cl_nodes (ct_cluster ct)) old empty_delta delta"
  shows "\<forall>d \<in> set (to_cache delta) \<union> set (from_cache delta) \<union> snd ` set (to_create delta). known ct d"
proof
  fix d assume "d \<in> set (to_cache delta) \<union> set (from_cache delta) \<union> snd ` set (to_create delta)"
  then obtain i n k where "map_of (cl_nodes (ct_cluster ct)) i = Some n" "entry n k d"
    using assms(2) unfolding diff_def empty_delta_def wants_cache_def wants_restore_def wants_create_def entry_def
    by fastforce
  then show "known ct d" by (intro live_known[OF assms(1)]) (auto simp: live_at_def)
qed

lemma apply_changes_ok:
  assumes inv: "cluster_inv (ct_cluster ct)" and nil: "map_of (cl_nodes (ct_cluster ct)) [] = None" and cov: "covers ct"
  shows "\<exists>ct' st delta. build ct = (ct\<lparr>ct_state := st\<rparr>, Inr delta) \<and>
    apply_changes rt env ra ct =
      (ct', Inr (map dep_delete (to_delete delta) @
         concat (map (cache_ops ra) (to_cache delta)) @
         concat (map (await_ops ra) (filter (ra_cache_sent ra) (to_cache delta))) @
         concat (map (restore_ops ra) (from_cache delta)) @
         concat (map (create_ops rt env ra (creation_args ct)) (to_create delta)))) \<and>
    without (lost ra delta) ct ct'"
proof -
  from build_ok[OF inv cov] obtain st delta where b: "build ct = (ct\<lparr>ct_state := st\<rparr>, Inr delta)"
    and m: "matches (ct\<lparr>ct_state := st\<rparr>)" and d: "diff (cl_nodes (ct_cluster ct)) (ct_state ct) empty_delta delta"
    by blast
  let ?ct = "ct\<lparr>ct_state := st\<rparr>"
  have s: "synced ?ct" using inv nil m by (simp add: synced_def)
  have k: "\<forall>d \<in> set (to_cache delta) \<union> set (from_cache delta) \<union> snd ` set (to_create delta). known ?ct d"
    using diff_known[of ?ct "ct_state ct" delta] inv d by simp
  have args: "creation_args ?ct = creation_args ct"
    by (rule ext) (simp add: creation_args_def split: option.split)
  have wo: "without F ?ct c = without F ct c" for F c using args by (simp add: without_def)
  from apply_delta_ok[OF s k, of rt env ra] b show ?thesis
    unfolding wo args by (auto simp: apply_changes_def)
qed

lemma ctl_inv_covers: "ctl_inv ct \<Longrightarrow> covers ct"
  unfolding ctl_inv_def covers_def live_at_def entry_def
  by (intro conjI allI impI) (simp, metis option.exhaust)

lemma each_node_nil: "each_node R ns ns' \<Longrightarrow> map_of ns' i = None \<longleftrightarrow> map_of ns i = None"
  using each_node_map_of[of R ns ns' i] by auto

text \<open>The state still covers a cluster whose replicas were all there before.\<close>

lemma covers_after:
  assumes inv: "ctl_inv ct"
    and ev: "\<And>i n' k. map_of (cl_nodes cl') i = Some n' \<Longrightarrow> nget (nd_cache n') k \<noteq> None \<Longrightarrow>
      \<exists>d. live_at (ct_cluster ct) i k d"
  shows "covers (ct\<lparr>ct_cluster := cl'\<rparr>)"
  using inv ev unfolding covers_def ctl_inv_def by (simp add: not_None_eq) blast

section \<open>A concrete controller\<close>

definition ex_ct :: controller where
  "ex_ct = \<lparr>ct_cluster = ex_cluster,
     ct_state = map (\<lambda>(k, d). ((''n1'', k), d)) (nitems (nd_deployments ex_node) @ nitems (nd_cache ex_node)),
     ct_default_execution_timeout = None, ct_default_dtype = ''bfloat16''\<rparr>"

definition ra_all :: "bool \<Rightarrow> ray_answers" where
  "ra_all b = \<lparr>ra_cache_sent = (\<lambda>d. b), ra_cache_done = (\<lambda>d. b), ra_from_cache_sent = (\<lambda>d. b), ra_actor_found = (\<lambda>d. b)\<rparr>"

lemma map_of_tagged: "map_of (map (\<lambda>(k, d). ((i, k), d)) xs) (j, k) = (if j = i then map_of xs k else None)"
  by (induction xs) auto

lemma ex_ct_inv: "ctl_inv ex_ct"
proof -
  have inv: "node_inv ex_node" by (rule ex_node_inv)
  then have wf: "nwf (nd_deployments ex_node)" "nwf (nd_cache ex_node)"
    and sides: "\<And>k. nget (nd_deployments ex_node) k = None \<or> nget (nd_cache ex_node) k = None"
    by (auto simp: node_inv_def dest: hot_invD(1) warm_invD(1))
  have nodes: "cl_nodes ex_cluster = [(''n1'', ex_node)]" by (simp add: ex_cluster_def)
  have "map_of (ct_state ex_ct) (i, k) = Some d" if "live_at ex_cluster i k d" for i k d
  proof -
    from that have "i = ''n1''" "entry ex_node k d" by (auto simp: live_at_def nodes split: if_splits)
    then show ?thesis
      using sides[of k]
      by (auto simp: ex_ct_def map_of_tagged map_of_nitems wf entry_def map_add_def simp del: map_append split: option.splits)
  qed
  moreover have "dict_wf (ct_state ex_ct)" by code_simp
  ultimately show ?thesis
    using ex_cluster_inv by (simp add: ctl_inv_def nodes) (simp add: ex_ct_def nodes)
qed

section \<open>Properties\<close>

text \<open>C4. The difference \<open>build\<close> computes. As long as every WARM replica of the cluster is in the
  controller's state, the call does not raise; afterwards the state is exactly what the nodes hold;
  a replica is to be offloaded iff it is WARM now and was HOT, restored iff it is HOT now and was
  WARM, created iff it is HOT and was not there, and an actor is deleted iff its replica was there
  and no node holds it any more.\<close>

theorem build_exact:
  assumes "cluster_inv (ct_cluster ct)" and "covers ct"
  shows "\<exists>st delta. build ct = (ct\<lparr>ct_state := st\<rparr>, Inr delta) \<and> matches (ct\<lparr>ct_state := st\<rparr>) \<and>
    (\<forall>d. d \<in> set (to_cache delta) \<longleftrightarrow> wants_cache (cl_nodes (ct_cluster ct)) (ct_state ct) d) \<and>
    (\<forall>d. d \<in> set (from_cache delta) \<longleftrightarrow> wants_restore (cl_nodes (ct_cluster ct)) (ct_state ct) d) \<and>
    (\<forall>name d. (name, d) \<in> set (to_create delta) \<longleftrightarrow> wants_create (cl_nodes (ct_cluster ct)) (ct_state ct) name d) \<and>
    (\<forall>d. d \<in> set (to_delete delta) \<longleftrightarrow>
       (\<exists>i k. map_of (ct_state ct) (i, k) = Some d \<and>
          \<not> (\<exists>n. map_of (cl_nodes (ct_cluster ct)) i = Some n \<and> holds n k)))"
  using build_ok[OF assms] by (simp add: diff_def empty_delta_def)

theorem build_exact_witness:
  "\<exists>st delta. build (ex_ct\<lparr>ct_cluster := fst (cl_evict ex_rt ex_cluster ''a'' (Some ''r1''))\<rparr>) =
       (ex_ct\<lparr>ct_cluster := fst (cl_evict ex_rt ex_cluster ''a'' (Some ''r1'')), ct_state := st\<rparr>, Inr delta) \<and>
     map dep_model_key (to_cache delta) = [''a''] \<and> from_cache delta = [] \<and> to_create delta = [] \<and> to_delete delta = []"
proof -
  let ?cl = "fst (cl_evict ex_rt ex_cluster ''a'' (Some ''r1''))" and ?ct = "ex_ct\<lparr>ct_cluster := fst (cl_evict ex_rt ex_cluster ''a'' (Some ''r1''))\<rparr>"
  have nodes: "cl_nodes ?cl = [(''n1'', snd (hd (cl_nodes ?cl)))]" by code_simp
  have chk: "nd_id (snd (hd (cl_nodes ?cl))) = ''n1''" "node_check (snd (hd (cl_nodes ?cl)))"
    "stamped_check (snd (hd (cl_nodes ?cl)))" by code_simp+
  have inv: "cluster_inv ?cl"
    by (rule single_node_inv[OF nodes chk(1)]) (use chk node_check_inv stamped_check in blast)+
  have wf: "nwf (nd_cache (snd (hd (cl_nodes ?cl))))" by code_simp
  have st: "dict_wf (ct_state ex_ct)" "list_all (\<lambda>(k, d). map_of (ct_state ex_ct) (''n1'', k) \<noteq> None)
      (nitems (nd_cache (snd (hd (cl_nodes ?cl)))))" by code_simp+
  have "map_of (ct_state ex_ct) (''n1'', k) \<noteq> None" if "nget (nd_cache (snd (hd (cl_nodes ?cl)))) k = Some d" for k d
    using st(2) that unfolding nitems_nget[OF wf, symmetric] list_all_iff by blast
  then have "covers ?ct"
    unfolding covers_def using st(1) nodes by (simp split: if_splits) (metis map_of_Cons_code(2) map_of.simps(1) option.distinct(1) option.inject)
  from build_exact[of ?ct, OF _ this] inv obtain st delta where b: "build ?ct = (?ct\<lparr>ct_state := st\<rparr>, Inr delta)"
    by auto
  have "map_sum id (\<lambda>delta. (map dep_model_key (to_cache delta), from_cache delta, to_create delta, to_delete delta)) (snd (build ?ct)) =
      Inr ([''a''], [], [], [])" by code_simp
  with b show ?thesis by auto
qed

text \<open>Which calls put weights on GPUs, and which take them off.\<close>

fun loads :: "actor_op \<Rightarrow> bool" where
  "loads (FromCache _ _) = True"
| "loads (CreateActor _ _ _ _ _) = True"
| "loads _ = False"

fun offloads :: "actor_op \<Rightarrow> bool" where
  "offloads (ToCache _) = True"
| "offloads (AwaitCache _) = True"
| "offloads _ = False"

lemma dep_create_loads: "op \<in> set (dep_create imp env dep name args) \<Longrightarrow> \<not> offloads op"
  by (auto simp: dep_create_def split: sum.splits)

text \<open>C3. Applying the difference. Whatever Ray answers to each call, the controller does not raise
  and ends with its state equal to what the cluster holds, in its invariant; of the replicas the
  cluster held it has forgotten exactly those whose own call failed (an offload not sent or
  failed, a restore not sent, an actor that cannot be found), giving their GPU and CPU memory back.
  Among the calls, every offload is started and awaited before the first restore or creation, so
  that the memory is free when it is needed, and each offload sent is awaited.\<close>

theorem apply_forgets_failures:
  assumes "cluster_inv (ct_cluster ct)" and "map_of (cl_nodes (ct_cluster ct)) [] = None" and "covers ct"
  shows "\<exists>ct' st delta before after. build ct = (ct\<lparr>ct_state := st\<rparr>, Inr delta) \<and>
    apply_changes rt env ra ct = (ct', Inr (before @ after)) \<and> synced ct' \<and>
    (\<forall>i k d. live_at (ct_cluster ct') i k d \<longleftrightarrow> live_at (ct_cluster ct) i k d \<and> d \<notin> lost ra delta) \<and>
    (\<forall>op \<in> set before. \<not> loads op) \<and> (\<forall>op \<in> set after. \<not> offloads op) \<and>
    (\<forall>d \<in> set (to_delete delta). Kill (dep_name d) \<in> set before) \<and>
    (\<forall>d \<in> set (to_cache delta). ra_cache_sent ra d \<longrightarrow> AwaitCache (dep_name d) \<in> set before) \<and>
    (\<forall>d \<in> lost ra delta. Kill (dep_name d) \<in> set (before @ after))"
proof -
  from apply_changes_ok[OF assms, of rt env ra] obtain ct' st delta where
    b: "build ct = (ct\<lparr>ct_state := st\<rparr>, Inr delta)" and w: "without (lost ra delta) ct ct'"
    and a: "apply_changes rt env ra ct =
      (ct', Inr (map dep_delete (to_delete delta) @
         concat (map (cache_ops ra) (to_cache delta)) @
         concat (map (await_ops ra) (filter (ra_cache_sent ra) (to_cache delta))) @
         concat (map (restore_ops ra) (from_cache delta)) @
         concat (map (create_ops rt env ra (creation_args ct)) (to_create delta))))" by blast
  let ?before = "map dep_delete (to_delete delta) @ concat (map (cache_ops ra) (to_cache delta)) @
    concat (map (await_ops ra) (filter (ra_cache_sent ra) (to_cache delta)))"
  let ?after = "concat (map (restore_ops ra) (from_cache delta)) @
    concat (map (create_ops rt env ra (creation_args ct)) (to_create delta))"
  note defs = dep_delete_def cache_ops_def await_ops_def restore_ops_def create_ops_def dep_cache_def dep_from_cache_def
  have "\<forall>op \<in> set ?before. \<not> loads op" by (auto simp: defs split: if_splits)
  moreover have "\<forall>op \<in> set ?after. \<not> offloads op"
    by (auto simp: defs split: if_splits dest: dep_create_loads)
  moreover have "\<forall>d \<in> set (to_delete delta). Kill (dep_name d) \<in> set ?before" by (simp add: defs)
  moreover have "\<forall>d \<in> set (to_cache delta). ra_cache_sent ra d \<longrightarrow> AwaitCache (dep_name d) \<in> set ?before"
    by (auto simp: defs)
  moreover have "\<forall>d \<in> lost ra delta. Kill (dep_name d) \<in> set (?before @ ?after)"
    by (force simp: lost_def defs)
  moreover have "apply_changes rt env ra ct = (ct', Inr (?before @ ?after))" using a by simp
  moreover have "\<forall>i k d. live_at (ct_cluster ct') i k d \<longleftrightarrow> live_at (ct_cluster ct) i k d \<and> d \<notin> lost ra delta"
    using w by (simp add: without_def)
  ultimately show ?thesis using b without_synced[OF w] by blast
qed

theorem apply_forgets_failures_witness:
  "\<exists>ct' ops. apply_changes ex_rt [] (ra_all False) ex_ct = (ct', Inr ops) \<and> synced ct'"
proof -
  have "cluster_inv (ct_cluster ex_ct)" "map_of (cl_nodes (ct_cluster ex_ct)) [] = None"
    using ex_ct_inv by (simp_all add: ctl_inv_def)
  from apply_forgets_failures[OF this ctl_inv_covers[OF ex_ct_inv], of ex_rt "[]" "ra_all False"]
  show ?thesis by blast
qed

section \<open>Deploying\<close>

lemma fill_dtype_keys [simp]: "map fst (fill_dtype dt configs) = map fst configs"
  by (simp add: fill_dtype_def case_prod_unfold comp_def)

lemma fill_dtype_cfg_ok: "\<forall>cfg \<in> snd ` set configs. cfg_ok cfg \<Longrightarrow> \<forall>cfg \<in> snd ` set (fill_dtype dt configs). cfg_ok cfg"
  unfolding fill_dtype_def by (auto simp: cfg_ok_def split: if_splits dest!: bspec)

lemma fill_dtype_asked: "asked (fill_dtype dt configs) = asked configs"
  unfolding asked_def fill_dtype_def by (induction configs) (auto simp: case_prod_unfold)

lemma covers_swept:
  assumes inv: "ctl_inv ct" and sw: "swept ex evs (ct_cluster ct) cl'"
  shows "covers (ct\<lparr>ct_cluster := cl'\<rparr>)" and "map_of (cl_nodes cl') [] = None"
proof -
  show "covers (ct\<lparr>ct_cluster := cl'\<rparr>)"
  proof (rule covers_after[OF inv])
    fix i n' k assume "map_of (cl_nodes cl') i = Some n'" "nget (nd_cache n') k \<noteq> None"
    then have "settled ex cl' i k" by (simp add: settled_def)
    then have "settled ex (ct_cluster ct) i k" by (rule sweptD(5)[OF sw])
    then show "\<exists>d. live_at (ct_cluster ct) i k d" by (auto simp: settled_def live_at_def entry_def)
  qed
  show "map_of (cl_nodes cl') [] = None" using sweptD(6)[OF sw] inv by (simp add: ctl_inv_def)
qed

lemma ctl_inv_frame:
  assumes "ctl_inv ct" and "cl_nodes cl' = cl_nodes (ct_cluster ct)"
  shows "ctl_inv (ct\<lparr>ct_cluster := cl'\<rparr>)"
  using assms cluster_inv_frame[OF assms(2)] by (simp add: ctl_inv_def live_at_def)

lemma live_hot:
  assumes cl: "cluster_inv cl" and c: "cluster_inv c"
    and same: "\<And>i k d. live_at c i k d \<longleftrightarrow> live_at cl i k d" and h: "hot cl k d"
  shows "hot c k d"
proof -
  from h obtain i n where n: "map_of (cl_nodes cl) i = Some n" "nget (nd_deployments n) k = Some d" by (auto simp: hot_def)
  then have "dep_level d = HOT" using cluster_invD(2)[OF cl n(1)] by (auto simp: node_inv_def hot_ok_def dest: hot_invD(3))
  moreover have "live_at c i k d" using same n by (auto simp: live_at_def entry_def)
  then obtain m where m: "map_of (cl_nodes c) i = Some m" "entry m k d" by (auto simp: live_at_def)
  ultimately have "nget (nd_deployments m) k = Some d"
    using cluster_invD(2)[OF c m(1)] by (auto simp: node_inv_def warm_ok_def entry_def dest: warm_invD(2))
  then show ?thesis using m by (auto simp: hot_def)
qed



section \<open>Evicting\<close>

text \<open>When nothing is reported, nothing was done.\<close>

lemma drain_all_silent: "drain_all rt n mk rids acc = (n', Inr acc') \<Longrightarrow> \<exists>s. acc' = acc @ s \<and> (s = [] \<longrightarrow> n' = n)"
  by (induction rids arbitrary: n acc) (fastforce simp: bind_run_eq_Inr split: option.splits)+

lemma evict_model_silent: "evict_model rt ns mk acc = (ns', Inr acc') \<Longrightarrow> \<exists>s. acc' = acc @ s \<and> (s = [] \<longrightarrow> ns' = ns)"
proof (induction ns arbitrary: ns' acc)
  case (Cons x ns)
  obtain i n where x: "x = (i, n)" by (cases x)
  from Cons.prems obtain n1 acc1 ns1 where d: "drain_all rt n mk (replica_ids n mk) acc = (n1, Inr acc1)"
    and e: "evict_model rt ns mk acc1 = (ns1, Inr acc')" and ns': "ns' = (i, n1) # ns1"
    by (auto simp: x split: prod.splits sum.splits)
  from drain_all_silent[OF d] Cons.IH[OF e] ns' x show ?case by auto
qed simp

lemma each_node_refl: "(\<And>m. m \<in> snd ` set ns \<Longrightarrow> R m m) \<Longrightarrow> each_node R ns ns"
  unfolding each_node_def by (induction ns) auto

lemma each_node_set:
  assumes "map_of ns i = Some n" and "dict_wf ns" and "R n n'" and "\<And>m. m \<in> snd ` set ns \<Longrightarrow> R m m"
  shows "each_node R ns (dict_set i n' ns)"
  using assms
proof (induction ns)
  case (Cons x ns)
  obtain j m where x: "x = (j, m)" by (cases x)
  have same: "each_node R ns ns" using Cons.prems(4) by (intro each_node_refl) simp
  show ?case
  proof (cases "j = i")
    case True
    then show ?thesis using Cons.prems same x by simp
  next
    case False
    then have "each_node R ns (dict_set i n' ns)"
      using Cons.prems x by (intro Cons.IH) (auto simp: dict_wf_def)
    then show ?thesis using False Cons.prems(4) x by simp
  qed
qed simp

text \<open>Both forms of \<open>evict\<close> return, and leave on each node replicas it had.\<close>

lemma cl_evict_ok:
  assumes inv: "cluster_inv cl"
  shows "\<exists>cl' states. cl_evict rt cl mk r = (cl', Inr states) \<and>
    each_node (\<lambda>n n'. node_inv n' \<and> came {} n n') (cl_nodes cl) (cl_nodes cl') \<and>
    (states = [] \<longrightarrow> cl_nodes cl' = cl_nodes cl)"
proof (cases r)
  case None
  have wf: "dict_wf (cl_nodes cl)" using inv by (simp add: cluster_inv_def)
  have "\<forall>n \<in> snd ` set (cl_nodes cl). node_inv n" using inv wf by (auto simp: cluster_inv_def dict_wf_in)
  from evict_model_ok[OF this, of rt mk "[]"] obtain ns' states where
    run: "evict_model rt (cl_nodes cl) mk [] = (ns', Inr states)"
    and each: "each_node (emptied mk (set states)) (cl_nodes cl) ns'" by auto
  have "each_node (\<lambda>n n'. node_inv n' \<and> came {} n n') (cl_nodes cl) ns'"
    using each by (auto intro: each_node_mono simp: emptied_def)
  moreover have "states = [] \<longrightarrow> ns' = cl_nodes cl" using evict_model_silent[OF run] by auto
  ultimately show ?thesis using None run by (simp add: cl_evict_def)
next
  case (Some rid)
  let ?k = "(mk, rid)" and ?R = "\<lambda>n n'. node_inv n' \<and> came {} n n'"
  have wf: "dict_wf (cl_nodes cl)" using inv by (simp add: cluster_inv_def)
  have refl: "?R n n" if "n \<in> snd ` set (cl_nodes cl)" for n
    using that wf inv by (auto simp: cluster_inv_def dict_wf_in came.kept_refl)
  show ?thesis
  proof (cases "\<exists>n \<in> snd ` set (cl_nodes cl). holds n ?k")
    case False
    then have "evict_replica rt (cl_nodes cl) ?k = (cl_nodes cl, Inr [])" by (intro evict_replica_none) blast
    moreover have "each_node ?R (cl_nodes cl) (cl_nodes cl)"
      by (rule each_node_refl) (rule refl)
    ultimately show ?thesis using Some by (simp add: cl_evict_def)
  next
    case True
    then obtain i n where n: "map_of (cl_nodes cl) i = Some n" and h: "holds n ?k" using wf by (auto simp: dict_wf_in)
    from nd_evict_held[OF cluster_invD(2)[OF inv n] h, of rt] obtain n' d
      where d: "find_replica n ?k = Some d" and e: "nd_evict rt n ?k None = (n', Inr ())" and n': "node_inv n'" by blast
    have "evict_replica rt (cl_nodes cl) ?k = (dict_set i n' (cl_nodes cl), Inr [dep_get_state d])"
      using cluster_invD(4)[OF inv n _ _ h] wf by (intro evict_replica_at[OF n _ d e]) (simp add: dict_wf_in)
    moreover have "each_node ?R (cl_nodes cl) (dict_set i n' (cl_nodes cl))"
      using nd_evict_came[of n rt ?k None] e n' refl by (intro each_node_set[OF n wf]) auto
    ultimately show ?thesis using Some by (simp add: cl_evict_def)
  qed
qed

text \<open>\<open>evict\<close> on the controller returns, whatever Ray answers and whether or not the model or
  replica exists, and keeps what the controller records in step with the cluster; after it the
  cluster holds only replicas it held before, those the eviction left when every Ray call succeeds.
  When nothing is evicted nothing changes.\<close>

lemma ct_evict_ok:
  assumes "ctl_inv ct"
  shows "\<exists>ct' cl' states ops. ct_evict rt env ra ct mk r = (ct', Inr (states, ops)) \<and> ctl_inv ct' \<and>
    cl_evict rt (ct_cluster ct) mk r = (cl', Inr states) \<and> cluster_inv cl' \<and>
    (ra = ra_all True \<longrightarrow> (\<forall>i k d. live_at (ct_cluster ct') i k d \<longleftrightarrow> live_at cl' i k d)) \<and>
    (\<forall>i k d. live_at (ct_cluster ct') i k d \<longrightarrow> (\<exists>e. live_at (ct_cluster ct) i k e)) \<and>
    (states = [] \<longrightarrow> ops = [] \<and> cl_nodes (ct_cluster ct') = cl_nodes (ct_cluster ct))"
proof -
  have inv: "cluster_inv (ct_cluster ct)" using assms by (simp add: ctl_inv_def)
  from cl_evict_ok[OF inv, of rt mk r] obtain cl' states where run: "cl_evict rt (ct_cluster ct) mk r = (cl', Inr states)"
    and each: "each_node (\<lambda>n n'. node_inv n' \<and> came {} n n') (cl_nodes (ct_cluster ct)) (cl_nodes cl')"
    and silent: "states = [] \<longrightarrow> cl_nodes cl' = cl_nodes (ct_cluster ct)" by blast
  let ?ct = "ct\<lparr>ct_cluster := cl'\<rparr>"
  have inv': "cluster_inv cl'" by (rule cluster_inv_each[OF inv each])
  have from_old: "\<exists>e. live_at (ct_cluster ct) i k e" if at: "live_at cl' i k d" for i k d
  proof -
    from at obtain n' where n': "map_of (cl_nodes cl') i = Some n'" "holds n' k" by (auto simp: live_at_def holds_def)
    with each_node_map_of[OF each, of i] obtain n where n: "map_of (cl_nodes (ct_cluster ct)) i = Some n" "came {} n n'"
      by (auto simp: option_rel_Some2)
    with came_holds[OF n(2) n'(2)] show ?thesis by (auto simp: live_at_def holds_def)
  qed
  show ?thesis
  proof (cases "states = []")
    case True
    then have "ct_evict rt env ra ct mk r = (?ct, Inr ([], []))" using run by (simp add: ct_evict_def)
    moreover have "ctl_inv ?ct" using ctl_inv_frame[OF assms] silent True by blast
    ultimately show ?thesis using silent True from_old run inv' by auto
  next
    case False
    have "covers ?ct" 
    proof (rule covers_after[OF assms])
      fix i n' k assume "map_of (cl_nodes cl') i = Some n'" "nget (nd_cache n') k \<noteq> None"
      then have "\<exists>d. live_at cl' i k d" by (auto simp: live_at_def entry_def)
      then show "\<exists>d. live_at (ct_cluster ct) i k d" using from_old by blast
    qed
    moreover have "map_of (cl_nodes cl') [] = None" using each_node_nil[OF each] assms by (simp add: ctl_inv_def)
    ultimately obtain ct' delta ops where a: "apply_changes rt env ra ?ct = (ct', Inr ops)"
      and w: "without (lost ra delta) ?ct ct'" using apply_changes_ok[of ?ct rt env ra] inv' by auto
    have "ct_evict rt env ra ct mk r = (ct', Inr (states, ops))" using run False a by (simp add: ct_evict_def)
    moreover have "\<exists>e. live_at (ct_cluster ct) i k e" if "live_at (ct_cluster ct') i k d" for i k d
      using w that from_old[of i k d] by (simp add: without_def)
    moreover have "lost (ra_all True) delta = {}" by (simp add: lost_def ra_all_def)
    then have "ra = ra_all True \<longrightarrow> (\<forall>i k d. live_at (ct_cluster ct') i k d \<longleftrightarrow> live_at cl' i k d)"
      using w by (auto simp: without_def)
    ultimately show ?thesis using False synced_inv[OF without_synced[OF w]] run inv' by blast
  qed
qed

section \<open>Following Ray's nodes\<close>

lemma add_nodes_ids:
  "map_of (cl_nodes cl) i = None \<Longrightarrow> i \<notin> ray_node_id ` set rays \<Longrightarrow> map_of (cl_nodes (fst (add_nodes cl rays))) i = None"
  by (induction cl rays rule: add_nodes.induct) (auto simp: update_conv' split: option.split sum.split)

lemma update_nodes_from:
  assumes run: "update_nodes cl rays = (cl', x)" and ray: "\<forall>r \<in> set rays. ray_ok r" "0 \<le> cl_cache_percentage cl"
    and wf: "dict_wf (cl_nodes cl)"
  shows "dict_wf (cl_nodes cl')" 
    and "map_of (cl_nodes cl) i = None \<Longrightarrow> i \<notin> ray_node_id ` set rays \<Longrightarrow> map_of (cl_nodes cl') i = None"
    and "map_of (cl_nodes cl') i = Some n \<Longrightarrow> map_of (cl_nodes cl) i = Some n \<or> empty_node i n"
proof -
  obtain cl1 y where add: "add_nodes cl rays = (cl1, y)" by fastforce
  note ok = add_nodes_ok[OF add ray]
  obtain P where nodes: "cl_nodes cl' = filter (\<lambda>(i, _). P i) (cl_nodes cl1)"
  proof (cases y)
    case (Inl e)
    then show thesis using run add by (intro that[of "\<lambda>_. True"]) (auto simp: update_nodes_def)
  next
    case (Inr u)
    then show thesis using run add
      by (intro that[of "\<lambda>i. i \<in> set (map ray_node_id (filter managed rays))"]) (auto simp: update_nodes_def Let_def)
  qed
  show "dict_wf (cl_nodes cl')" using ok wf by (simp add: nodes extends_def dict_wf_def distinct_map_filter)
  show "map_of (cl_nodes cl) i = None \<Longrightarrow> i \<notin> ray_node_id ` set rays \<Longrightarrow> map_of (cl_nodes cl') i = None"
    using add_nodes_ids[of cl i rays] add by (simp add: nodes map_of_filter_key)
  show "map_of (cl_nodes cl') i = Some n \<Longrightarrow> map_of (cl_nodes cl) i = Some n \<or> empty_node i n"
  proof -
    assume "map_of (cl_nodes cl') i = Some n"
    then have n: "map_of (cl_nodes cl1) i = Some n" by (simp add: nodes map_of_filter_key split: if_splits)
    show ?thesis
    proof (cases "map_of (cl_nodes cl) i")
      case None
      then show ?thesis using ok n by (simp add: extends_def)
    next
      case (Some m)
      then have "map_of (cl_nodes cl1) i = Some m" using ok unfolding extends_def map_le_def by (metis domI)
      with n Some show ?thesis by simp
    qed
  qed
qed

text \<open>One pass of the node check keeps the controller's invariant, whether \<open>list_nodes\<close> answered,
  raised, or returned a record the controller cannot read: what is live is in the state with the
  record the cluster has, also after nodes left and came back empty. A pass that fails to list the
  nodes changes nothing.\<close>

theorem check_nodes_keeps:
  assumes "ctl_inv ct" and "0 \<le> cl_cache_percentage (ct_cluster ct)"
    and "\<forall>rays. listed = Inr rays \<longrightarrow> (\<forall>r \<in> set rays. ray_ok r \<and> ray_node_id r \<noteq> [])"
  shows "ctl_inv (fst (check_nodes_tick ct listed)) \<and>
    (\<forall>e. listed = Inl e \<longrightarrow> check_nodes_tick ct listed = (ct, []))"
proof (cases listed)
  case (Inl e)
  then show ?thesis using assms(1) by (simp add: check_nodes_tick_def)
next
  case (Inr rays)
  let ?cl = "ct_cluster ct"
  obtain cl' x where run: "update_nodes ?cl rays = (cl', x)" by fastforce
  have inv: "cluster_inv ?cl" "dict_wf (cl_nodes ?cl)" using assms(1) by (simp_all add: ctl_inv_def cluster_inv_def)
  have ray: "\<forall>r \<in> set rays. ray_ok r" "[] \<notin> ray_node_id ` set rays" using assms(3) Inr by auto
  note from_old = update_nodes_from[OF run ray(1) assms(2) inv(2)]
  have "cluster_inv cl'" by (rule cluster_inv_sub[OF inv(1) from_old(1)]) (rule from_old(3))
  moreover have "map_of (cl_nodes cl') [] = None"
    using from_old(2) ray(2) assms(1) by (simp add: ctl_inv_def)
  moreover have "live_at ?cl i k d" if at: "live_at cl' i k d" for i k d
    using at from_old(3) by (fastforce simp: live_at_def empty_node_def entry_def)
  ultimately have "ctl_inv (ct\<lparr>ct_cluster := cl'\<rparr>)" using assms(1) by (simp add: ctl_inv_def)
  then show ?thesis using Inr run by (cases x) (simp_all add: check_nodes_tick_def)
qed

theorem check_nodes_keeps_witness:
  "ctl_inv (fst (check_nodes_tick ex_ct (Inr [ex_ray]))) \<and> length (snd (check_nodes_tick ex_ct (Inr [ex_ray]))) = 3"
proof -
  have "length (snd (check_nodes_tick ex_ct (Inr [ex_ray]))) = 3" by code_simp
  moreover have "0 \<le> cl_cache_percentage (ct_cluster ex_ct)" by (simp add: ex_ct_def ex_cluster_def new_cluster_def)
  ultimately show ?thesis
    using check_nodes_keeps[OF ex_ct_inv, of "Inr [ex_ray]"] by (simp add: ray_ok_def ex_ray_def)
qed

section \<open>A placement that raises\<close>

text \<open>Two models, the second asking for no GPU: the first, the bigger, is placed, the evaluation of
  the second divides by zero, and the exception leaves the placement unapplied.\<close>

definition ex_bad_configs :: "(model_key, deployment_config) dict" where
  "ex_bad_configs = [(''d'', default_config\<lparr>cfg_size_bytes := Some 7\<rparr>),
                     (''e'', default_config\<lparr>cfg_size_bytes := Some 2, cfg_gpus := Some 0\<rparr>)]"

definition stranded :: controller where
  "stranded = fst (ct_deploy ex_rt [] (ra_all True) ex_hub ex_ct (Configs ex_bad_configs))"

text \<open>An exception in the middle of a batch leaves the controller out of its invariant: the replica
  placed before it stays in the cluster, HOT, with GPU memory taken, and no actor is created for
  it; evicting it afterwards raises \<open>KeyError\<close> out of \<open>build\<close>, since the parked replica is not
  in the state.\<close>

theorem failed_batch_strands_replica:
  "case_sum Some (\<lambda>_. None) (snd (ct_deploy ex_rt [] (ra_all True) ex_hub ex_ct (Configs ex_bad_configs))) = Some ZeroDivisionError \<and>
   map rs_replica_id (get_deployment stranded ''d'' None) = [''u0''] \<and> \<not> ctl_inv stranded \<and>
   case_sum Some (\<lambda>_. None) (snd (ct_evict ex_rt [] (ra_all True) stranded ''d'' (Some ''u0''))) = Some KeyError"
proof (intro conjI)
  show "case_sum Some (\<lambda>_. None) (snd (ct_deploy ex_rt [] (ra_all True) ex_hub ex_ct (Configs ex_bad_configs))) = Some ZeroDivisionError"
    "map rs_replica_id (get_deployment stranded ''d'' None) = [''u0'']"
    "case_sum Some (\<lambda>_. None) (snd (ct_evict ex_rt [] (ra_all True) stranded ''d'' (Some ''u0''))) = Some KeyError"
    by code_simp+
  let ?k = "(''d'', ''u0'')"
  have st: "map_of (ct_state stranded) (''n1'', ?k) = None" by code_simp
  have "(case map_of (cl_nodes (ct_cluster stranded)) ''n1'' of None \<Rightarrow> False | Some n \<Rightarrow> nget (nd_deployments n) ?k \<noteq> None)"
    by code_simp
  then have "\<exists>d. live_at (ct_cluster stranded) ''n1'' ?k d" by (auto simp: live_at_def entry_def split: option.splits)
  then show "\<not> ctl_inv stranded" using st by (auto simp: ctl_inv_def)
qed

end
