(* ===== verification/Status.thy ===== *)
theory Status
  imports Controller_Props "HOL-Library.Sublist"
begin

text \<open>
  \<open>controller.status\<close> and \<open>controller.env\<close>: the view of the cluster the dashboard and the
  command line read. The actors Ray lists, the downloaded models and the fields of a checkpoint's
  configuration come from outside and are arguments.
\<close>

section \<open>Rows\<close>

text \<open>One entry of \<open>status\<close>: a key the source does not set is \<open>None\<close>.\<close>

record app_status =
  as_application_state :: "string option"
  as_deployment_level :: "string option"
  as_pinned :: "bool option"
  as_dtype :: "string option"
  as_execution_timeout_seconds :: "rat option"
  as_model_key :: "model_key option"
  as_replica_id :: "replica_id option"
  as_repo_id :: "string option"
  as_task :: "json option"
  as_trust_remote_code :: "bool option"
  as_revision :: "string option"
  as_config :: "string option"
  as_n_params :: "int option"
  as_size_bytes :: "int option"
  as_actor_class :: "string option"
  as_gpus :: "nat option"
  as_end_time :: "rat option"

definition no_status :: app_status where
  "no_status =
     \<lparr>as_application_state = None, as_deployment_level = None, as_pinned = None, as_dtype = None,
      as_execution_timeout_seconds = None, as_model_key = None, as_replica_id = None, as_repo_id = None,
      as_task = None, as_trust_remote_code = None, as_revision = None, as_config = None,
      as_n_params = None, as_size_bytes = None, as_actor_class = None, as_gpus = None, as_end_time = None\<rparr>"

text \<open>What the code reads of a checkpoint's configuration, and \<open>json.loads\<close>.\<close>

record config_reader =
  name_or_path :: "string \<Rightarrow> string option"
  to_json_string :: "string \<Rightarrow> string"
  json_loads :: "string \<Rightarrow> json option"

definition repo_id :: "config_reader \<Rightarrow> cache_entry \<Rightarrow> string option" where
  "repo_id cr e = (case ce_config e of None \<Rightarrow> None | Some c \<Rightarrow> name_or_path cr c)"

definition is_model_actor :: "string \<Rightarrow> bool" where
  "is_model_actor name \<longleftrightarrow> sublist '':ModelActor:'' name \<or> prefix ''ModelActor:'' name"

definition level_name :: "deployment_level \<Rightarrow> string" where
  "level_name l = (case l of HOT \<Rightarrow> ''HOT'' | WARM \<Rightarrow> ''WARM'' | COLD \<Rightarrow> ''COLD'')"

section \<open>The loops\<close>

text \<open>The live actors first.\<close>

definition actor_rows :: "(string \<times> string) list \<Rightarrow> (string, app_status) dict" where
  "actor_rows actors =
     fold (\<lambda>(name, state) st.
             if \<not> is_model_actor name then st
             else dict_set name (no_status\<lparr>as_application_state :=
                    Some (if state = ''ALIVE'' then ''RUNNING'' else ''DEPLOYING'')\<rparr>) st)
       actors []"

text \<open>The row of a HOT replica, on top of what the actors left under its name.\<close>

definition hot_row ::
  "config_reader \<Rightarrow> rat option \<Rightarrow> cache_entry \<Rightarrow> deployment \<Rightarrow> app_status option \<Rightarrow> app_status" where
  "hot_row cr min_time e dep row =
     (let r = (case row of Some r \<Rightarrow> r | None \<Rightarrow> no_status\<lparr>as_application_state := Some ''UNHEALTHY''\<rparr>) in
      r\<lparr>as_deployment_level := Some (level_name (dep_level dep)), as_pinned := Some (dep_pinned dep),
        as_dtype := dep_dtype dep, as_execution_timeout_seconds := dep_execution_timeout_seconds dep,
        as_model_key := Some (dep_model_key dep), as_replica_id := Some (dep_replica_id dep),
        as_repo_id := repo_id cr e, as_task := key_field (json_loads cr) (dep_model_key dep) ''task'',
        as_trust_remote_code := Some (truthy (key_field (json_loads cr) (dep_model_key dep) ''trust_remote_code'')),
        as_revision := ce_revision e, as_config := map_option (to_json_string cr) (ce_config e),
        as_n_params := Some (ce_n_params e), as_size_bytes := Some (dep_size_bytes dep),
        as_actor_class := actor_class_repr (dep_actor_class dep),
        as_gpus := (if dep_gpus dep = [] then None else Some (length (dep_gpus dep))),
        as_end_time :=
          (case min_time of
             None \<Rightarrow> as_end_time r
           | Some t \<Rightarrow> if dep_pinned dep then as_end_time r else Some (end_time dep t))\<rparr>)"

definition warm_row :: "config_reader \<Rightarrow> cache_entry \<Rightarrow> deployment \<Rightarrow> app_status" where
  "warm_row cr e dep =
     no_status
       \<lparr>as_deployment_level := Some (level_name WARM), as_model_key := Some (dep_model_key dep),
        as_replica_id := Some (dep_replica_id dep), as_repo_id := repo_id cr e,
        as_task := key_field (json_loads cr) (dep_model_key dep) ''task'',
        as_trust_remote_code := Some (truthy (key_field (json_loads cr) (dep_model_key dep) ''trust_remote_code'')),
        as_revision := ce_revision e, as_config := map_option (to_json_string cr) (ce_config e),
        as_n_params := Some (ce_n_params e)\<rparr>"

text \<open>A row to write: the name, and the row from what is there.\<close>

type_synonym row_update = "string \<times> (app_status option \<Rightarrow> app_status)"

definition put_row :: "row_update \<Rightarrow> (string, app_status) dict \<Rightarrow> (string, app_status) dict" where
  "put_row u st = dict_set (fst u) (snd u (map_of st (fst u))) st"

text \<open>The rows of a node, and the repositories they are of; a model the evaluator does not know is
  skipped.\<close>

definition node_rows :: "config_reader \<Rightarrow> cluster \<Rightarrow> node \<Rightarrow> row_update list" where
  "node_rows cr cl n =
     List.map_filter
       (\<lambda>(_, dep). map_option (\<lambda>e. (dep_name dep, hot_row cr (cl_min_time cl) e dep))
                     (map_of (ev_cache (cl_evaluator cl)) (dep_model_key dep)))
       (iter_deployments n) @
     List.map_filter
       (\<lambda>(_, dep). map_option (\<lambda>e. (dep_name dep, \<lambda>_. warm_row cr e dep))
                     (map_of (ev_cache (cl_evaluator cl)) (dep_model_key dep)))
       (iter_cache n)"

definition node_repos :: "config_reader \<Rightarrow> cluster \<Rightarrow> node \<Rightarrow> string option list" where
  "node_repos cr cl n =
     List.map_filter
       (\<lambda>(_, dep). map_option (repo_id cr) (map_of (ev_cache (cl_evaluator cl)) (dep_model_key dep)))
       (iter_deployments n @ iter_cache n)"

definition cold_rows :: "string option list \<Rightarrow> string list \<Rightarrow> row_update list" where
  "cold_rows existing downloaded =
     map (\<lambda>r. (r, \<lambda>_. no_status\<lparr>as_deployment_level := Some (level_name COLD), as_repo_id := Some r\<rparr>))
       (filter (\<lambda>r. Some r \<notin> set existing) downloaded)"

record node_view =
  nv_gpu_details :: "gpu list"
  nv_deployments :: "(model_key, (replica_id, (int, int) dict) dict) dict"

definition view_node :: "node \<Rightarrow> node_view" where
  "view_node n =
     \<lparr>nv_gpu_details = gr_gpus (nd_gpu n),
      nv_deployments = map (\<lambda>(mk, reps). (mk, map (\<lambda>(rid, dep). (rid, dep_gpus dep)) reps)) (nd_deployments n)\<rparr>"

definition status ::
  "config_reader \<Rightarrow> (string \<times> string) list \<Rightarrow> string list \<Rightarrow> controller \<Rightarrow>
   (string, app_status) dict \<times> (node_id, node_view) dict" where
  "status cr actors downloaded ct =
     (let cl = ct_cluster ct; nodes = map snd (cl_nodes cl) in
      (fold put_row
         (concat (map (node_rows cr cl) nodes) @
          cold_rows (concat (map (node_repos cr cl) nodes)) downloaded)
         (actor_rows actors),
       map (\<lambda>(i, n). (i, view_node n)) (cl_nodes cl)))"

section \<open>The environment\<close>

text \<open>\<open>pd_map\<close> is \<open>packages_distributions()\<close> and \<open>dists\<close> the name and version of each distribution.\<close>

definition dist_imports :: "(string, string list) dict \<Rightarrow> (string, string list) dict" where
  "dist_imports pd_map =
     fold (\<lambda>(import_name, dist_names) acc.
             fold (\<lambda>d acc. dict_set d (dict_get acc d [] @ [import_name]) acc) dist_names acc)
       pd_map []"

definition env_packages :: "(string, string list) dict \<Rightarrow> (string \<times> string) list \<Rightarrow> (string, string) dict" where
  "env_packages pd_map dists =
     fold (\<lambda>(dist_name, version) packages.
             case dict_get (dist_imports pd_map) dist_name [] of
               [] \<Rightarrow> dict_set dist_name version packages
             | names \<Rightarrow> fold (\<lambda>imp. dict_set imp version) names packages)
       dists []"

section \<open>What the status says of a replica\<close>

lemma map_of_put_row:
  "map_of (put_row u st) nm = (if nm = fst u then Some (snd u (map_of st nm)) else map_of st nm)"
  by (simp add: put_row_def update_conv')

lemma fold_put_row_other: "nm \<notin> fst ` set us \<Longrightarrow> map_of (fold put_row us st) nm = map_of st nm"
  by (induction us arbitrary: st) (auto simp: map_of_put_row)

text \<open>A row that the updates write in one way only, and for which once is enough.\<close>

lemma fold_put_row_once:
  assumes only: "\<And>g. (nm, g) \<in> set us \<Longrightarrow> g = f" and idem: "\<And>x. f (Some (f x)) = f x"
  shows "map_of (fold put_row us st) nm = (if nm \<in> fst ` set us then Some (f (map_of st nm)) else map_of st nm)"
  using only
proof (induction us arbitrary: st)
  case (Cons u us)
  have IH: "map_of (fold put_row us (put_row u st)) nm =
      (if nm \<in> fst ` set us then Some (f (map_of (put_row u st) nm)) else map_of (put_row u st) nm)"
    by (rule Cons.IH) (use Cons.prems in auto)
  have "snd u = f" if "fst u = nm" using Cons.prems[of "snd u"] that by (cases u) auto
  then show ?case using IH idem by (auto simp: map_of_put_row)
qed simp

lemma actor_rows_lookup:
  assumes "distinct (map fst actors)"
  shows "map_of (actor_rows actors) nm =
    (if is_model_actor nm
     then map_option (\<lambda>s. no_status\<lparr>as_application_state := Some (if s = ''ALIVE'' then ''RUNNING'' else ''DEPLOYING'')\<rparr>)
            (map_of actors nm)
     else None)"
proof -
  let ?row = "\<lambda>s. no_status\<lparr>as_application_state := Some (if s = ''ALIVE'' then ''RUNNING'' else ''DEPLOYING'')\<rparr>"
  let ?f = "\<lambda>(name, state) st. if \<not> is_model_actor name then st else dict_set name (?row state) st"
  have "map_of (fold ?f as st) nm =
      (if is_model_actor nm \<and> map_of as nm \<noteq> None then map_option ?row (map_of as nm) else map_of st nm)"
    if "distinct (map fst as)" for as st
    using that
  proof (induction as arbitrary: st)
    case (Cons a as)
    obtain name state where a: "a = (name, state)" by (cases a)
    have "map_of as name = None" using Cons.prems a by (simp add: map_of_eq_None_iff)
    then show ?case using Cons a by (auto simp: update_conv')
  qed simp
  from this[OF assms, of "[]"] show ?thesis by (auto simp: actor_rows_def)
qed

lemma hot_row_idem: "hot_row cr t e d (Some (hot_row cr t e d x)) = hot_row cr t e d x"
  by (simp add: hot_row_def Let_def split: option.split)

text \<open>A row of a node is the row of one of its replicas.\<close>

lemma node_rowsE:
  assumes "(nm, g) \<in> set (node_rows cr cl n)" and "node_inv n"
  obtains k d e where "nget (nd_deployments n) k = Some d" "nm = dep_name d"
      "map_of (ev_cache (cl_evaluator cl)) (dep_model_key d) = Some e" "g = hot_row cr (cl_min_time cl) e d"
  | k d where "nget (nd_cache n) k = Some d" "nm = dep_name d"
proof -
  have wf: "nwf (nd_deployments n)" "nwf (nd_cache n)"
    using assms(2) by (auto simp: node_inv_def dest: hot_invD(1) warm_invD(1))
  from assms(1) consider k d where "(k, d) \<in> set (iter_deployments n)" "nm = dep_name d"
      "\<exists>e. map_of (ev_cache (cl_evaluator cl)) (dep_model_key d) = Some e \<and> g = hot_row cr (cl_min_time cl) e d"
    | k d where "(k, d) \<in> set (iter_cache n)" "nm = dep_name d"
    unfolding node_rows_def by (force simp: map_filter_Some)
  then show thesis
    using that wf by cases (auto simp: iter_deployments_def iter_cache_def nitems_nget)
qed

lemma dep_name_model_actor: "is_model_actor (dep_name d)"
  unfolding is_model_actor_def dep_name_def sublist_def by blast

text \<open>The name of a live replica tells which record it is of.\<close>

lemma live_name_inj:
  assumes inv: "cluster_inv cl" and col: "\<And>i k d. live_at cl i k d \<Longrightarrow> CHR '':'' \<notin> set (dep_replica_id d)"
    and d: "live_at cl i k d" and e: "live_at cl j l e" and nm: "dep_name d = dep_name e"
  shows "j = i" and "e = d"
proof -
  have "k = l" using dep_name_inj[OF nm col[OF d] col[OF e]] live_at_key(2)[OF inv d] live_at_key(2)[OF inv e]
    by (simp add: dep_key_def)
  moreover show ij: "j = i"
  proof -
    from d e obtain n m where "map_of (cl_nodes cl) i = Some n" "map_of (cl_nodes cl) j = Some m" "holds n k" "holds m l"
      by (auto simp: live_at_def holds_def)
    with cluster_invD(4)[OF inv, of i n j m l] \<open>k = l\<close> show "j = i" by simp
  qed
  ultimately show "e = d" using live_at_unique[OF inv d, of e] e by simp
qed

lemma node_rows_only:
  assumes inv: "cluster_inv cl" and col: "\<And>i k d. live_at cl i k d \<Longrightarrow> CHR '':'' \<notin> set (dep_replica_id d)"
    and n: "map_of (cl_nodes cl) i = Some n" and d: "nget (nd_deployments n) k = Some d"
    and e: "map_of (ev_cache (cl_evaluator cl)) (dep_model_key d) = Some e"
    and m: "(j, m) \<in> set (cl_nodes cl)" and row: "(dep_name d, g) \<in> set (node_rows cr cl m)"
  shows "g = hot_row cr (cl_min_time cl) e d"
proof -
  have live: "live_at cl i k d" using n d by (auto simp: live_at_def entry_def)
  have m': "map_of (cl_nodes cl) j = Some m" using m inv by (simp add: cluster_inv_def dict_wf_in)
  note mi = cluster_invD(2)[OF inv m']
  from row mi show ?thesis
  proof (cases rule: node_rowsE)
    case (1 l d' e')
    then have "live_at cl j l d'" using m' by (auto simp: live_at_def entry_def)
    with live_name_inj(2)[OF inv col live this] 1(2) have "d' = d" by simp
    with 1 e show ?thesis by simp
  next
    case (2 l d')
    then have "live_at cl j l d'" using m' by (auto simp: live_at_def entry_def)
    with live_name_inj(2)[OF inv col live this] 2(2) have "d' = d" by simp
    then have "dep_level d = WARM" using mi 2(1) by (auto simp: node_inv_def warm_ok_def dest: warm_invD(2))
    moreover have "dep_level d = HOT"
      using cluster_invD(2)[OF inv n] d by (auto simp: node_inv_def hot_ok_def dest: hot_invD(3))
    ultimately show ?thesis by simp
  qed
qed

lemma status_hot_row:
  assumes inv: "cluster_inv (ct_cluster ct)"
    and col: "\<forall>i k d. live_at (ct_cluster ct) i k d \<longrightarrow> CHR '':'' \<notin> set (dep_replica_id d)"
    and act: "distinct (map fst actors)" and down: "dep_name d \<notin> set downloaded"
    and n: "map_of (cl_nodes (ct_cluster ct)) i = Some n" and d: "nget (nd_deployments n) k = Some d"
    and e: "map_of (ev_cache (cl_evaluator (ct_cluster ct))) (dep_model_key d) = Some e"
  shows "\<exists>row. map_of (fst (status cr actors downloaded ct)) (dep_name d) = Some row \<and>
    as_deployment_level row = Some ''HOT'' \<and> as_model_key row = Some (fst k) \<and> as_replica_id row = Some (snd k) \<and>
    as_application_state row =
      Some (case map_of actors (dep_name d) of
              None \<Rightarrow> ''UNHEALTHY'' | Some s \<Rightarrow> if s = ''ALIVE'' then ''RUNNING'' else ''DEPLOYING'')"
proof -
  let ?cl = "ct_cluster ct" and ?nm = "dep_name d"
  let ?f = "hot_row cr (cl_min_time ?cl) e d"
  let ?nodes = "map snd (cl_nodes ?cl)"
  let ?us = "concat (map (node_rows cr ?cl) ?nodes) @ cold_rows (concat (map (node_repos cr ?cl) ?nodes)) downloaded"
  have wf: "dict_wf (cl_nodes ?cl)" using inv by (simp add: cluster_inv_def)
  have ni: "node_inv n" by (rule cluster_invD(2)[OF inv n])
  have live: "live_at ?cl i k d" using n d by (auto simp: live_at_def entry_def)
  have level: "dep_level d = HOT" "dep_key d = k"
    using ni d by (auto simp: node_inv_def hot_ok_def dest: hot_invD(3))
  have "g = ?f" if "(?nm, g) \<in> set ?us" for g
    using that down node_rows_only[OF inv _ n d e] col by (auto simp: cold_rows_def)
  moreover have "(?nm, ?f) \<in> set ?us"
  proof -
    have "(k, d) \<in> set (iter_deployments n)"
      using ni d by (auto simp: iter_deployments_def nitems_nget node_inv_def dest: hot_invD(1))
    then have "(?nm, ?f) \<in> set (node_rows cr ?cl n)" using e by (force simp: node_rows_def map_filter_Some)
    moreover have "n \<in> set ?nodes" using n by (force dest: map_of_SomeD)
    ultimately show ?thesis by auto
  qed
  then have "?nm \<in> fst ` set ?us" by force
  ultimately have "map_of (fold put_row ?us (actor_rows actors)) ?nm = Some (?f (map_of (actor_rows actors) ?nm))"
    using fold_put_row_once[of ?nm ?us ?f "actor_rows actors"] hot_row_idem by simp
  moreover have "map_of (actor_rows actors) ?nm =
      map_option (\<lambda>s. no_status\<lparr>as_application_state := Some (if s = ''ALIVE'' then ''RUNNING'' else ''DEPLOYING'')\<rparr>)
        (map_of actors ?nm)"
    using actor_rows_lookup[OF act, of ?nm] by (simp add: dep_name_model_actor)
  ultimately show ?thesis
    using level by (auto simp: status_def Let_def hot_row_def level_name_def dep_key_def split: option.split)
qed

text \<open>What \<open>status\<close> says of a HOT replica of a model the evaluator knows. Its row is there under
  its actor's name and says HOT; the health is that of the actor Ray lists under the name (running
  when alive, deploying in any other state) and UNHEALTHY when there is none, so that a replica the
  controller tracks with no live actor is not shown as healthy; neither another replica, nor the
  cache, nor a downloaded model overwrites it.\<close>

theorem status_of_replica:
  assumes inv: "cluster_inv (ct_cluster ct)"
    and col: "\<forall>i k d. live_at (ct_cluster ct) i k d \<longrightarrow> CHR '':'' \<notin> set (dep_replica_id d)"
    and act: "distinct (map fst actors)" and down: "dep_name d \<notin> set downloaded"
    and n: "map_of (cl_nodes (ct_cluster ct)) i = Some n" and d: "nget (nd_deployments n) k = Some d"
    and e: "map_of (ev_cache (cl_evaluator (ct_cluster ct))) (dep_model_key d) = Some e"
  shows "\<exists>row. map_of (fst (status cr actors downloaded ct)) (dep_name d) = Some row \<and>
    as_deployment_level row = Some ''HOT'' \<and> as_model_key row = Some (fst k) \<and> as_replica_id row = Some (snd k) \<and>
    as_application_state row =
      Some (case map_of actors (dep_name d) of
              None \<Rightarrow> ''UNHEALTHY'' | Some s \<Rightarrow> if s = ''ALIVE'' then ''RUNNING'' else ''DEPLOYING'')"
  by (rule status_hot_row[OF assms])

definition ex_cr :: config_reader where
  "ex_cr = \<lparr>name_or_path = (\<lambda>c. Some c), to_json_string = (\<lambda>c. c), json_loads = (\<lambda>s. None)\<rparr>"

definition ex_known :: controller where
  "ex_known = ex_ct\<lparr>ct_cluster := (fst (cl_deploy ex_rt ex_hub ex_cluster ex_configs))
     \<lparr>cl_nodes := [(''n1'', ex_node)], cl_evaluator := (cl_evaluator ex_cluster)\<lparr>ev_cache :=
        [(''a'', \<lparr>ce_base_size_in_bytes = 6, ce_n_params = 3, ce_config = Some ''org/a'', ce_revision = None,
           ce_dtype = ''bfloat16'', ce_max_tp = None\<rparr>)]\<rparr>\<rparr>\<rparr>"

theorem status_of_replica_witness:
  "\<exists>row. map_of (fst (status ex_cr [(''r1:ModelActor:a'', ''RESTARTING'')] [''org/a'', ''org/z''] ex_known)) ''r1:ModelActor:a'' = Some row \<and>
     as_application_state row = Some ''DEPLOYING''"
proof -
  let ?cl = "ct_cluster ex_known" and ?d = "ex_dep ''a'' ''r1'' HOT [(0, 8)] 8 False"
  have nodes: "cl_nodes ?cl = cl_nodes ex_cluster" by (simp add: ex_known_def ex_cluster_def)
  have inv: "cluster_inv ?cl" using ex_cluster_inv cluster_inv_frame[OF nodes] by simp
  have col: "\<forall>i k d. live_at ?cl i k d \<longrightarrow> CHR '':'' \<notin> set (dep_replica_id d)"
  proof (intro allI impI)
    fix i k d assume at: "live_at ?cl i k d"
    have "dep_key d = k" by (rule live_at_key(2)[OF inv at])
    moreover have "holds ex_node k" using at by (auto simp: live_at_def nodes ex_cluster_def holds_def split: if_splits)
    ultimately show "CHR '':'' \<notin> set (dep_replica_id d)" using ex_holds[of k] by (auto simp: dep_key_def)
  qed
  have name: "dep_name ?d = ''r1:ModelActor:a''" by (simp add: dep_name_def ex_dep_def)
  have n: "map_of (cl_nodes ?cl) ''n1'' = Some ex_node" by (simp add: nodes ex_cluster_def)
  have d: "nget (nd_deployments ex_node) (''a'', ''r1'') = Some ?d" by (simp add: ex_node_def nget_def)
  have "\<exists>e. map_of (ev_cache (cl_evaluator ?cl)) (dep_model_key ?d) = Some e" by (simp add: ex_known_def ex_dep_def)
  then obtain e where e: "map_of (ev_cache (cl_evaluator ?cl)) (dep_model_key ?d) = Some e" ..
  show ?thesis
    using status_of_replica[OF inv col _ _ n d e, of "[(''r1:ModelActor:a'', ''RESTARTING'')]" "[''org/a'', ''org/z'']" ex_cr]
    by (auto simp: name)
qed

end
