(* ===== verification/Request.thy ===== *)
theory Request
  imports Schema
begin

text \<open>
  \<open>common/schema/request.py\<close>: a request on the server, the tags that decide how it is treated, the
  lifecycle whose phases are metered, and where a response to it goes. The two timing fields of
  \<open>BackendRequestModel\<close> are the record \<open>lifecycle\<close>, apart from the fields the queue reads.
\<close>

section \<open>Requests\<close>

datatype req_status =
  RECEIVED | QUEUED | PROVISIONING | DEPLOYING | DISPATCHED | RUNNING | COMPLETED | LOG | ERROR

record request =
  rq_id :: string
  rq_model_key :: model_key
  rq_session_id :: "string option"
  rq_api_key :: "string option"
  rq_email :: "string option"
  rq_tags :: "string list"
  rq_enqueued_at :: "rat option"

definition trusted :: "request \<Rightarrow> bool" where
  "trusted r \<longleftrightarrow> ''trusted'' \<in> set (rq_tags r)"

definition trust_remote_code :: "request \<Rightarrow> bool" where
  "trust_remote_code r \<longleftrightarrow> ''trust_remote_code'' \<in> set (rq_tags r) \<or> trusted r"

definition priority :: "request \<Rightarrow> bool" where
  "priority r \<longleftrightarrow> ''priority'' \<in> set (rq_tags r)"

section \<open>The lifecycle\<close>

record lifecycle =
  lc_last_status :: "req_status option"
  lc_last_status_time :: "rat option"

text \<open>\<open>round(x, 2)\<close>: to the nearest hundredth, ties to the even one.\<close>

definition round2 :: "rat \<Rightarrow> rat" where
  "round2 x =
     (let n = \<lfloor>100 * x\<rfloor>; r = 100 * x - of_int n in
      of_int (if r < 1/2 \<or> r = 1/2 \<and> even n then n else n + 1) / 100)"

text \<open>A point of \<open>RequestStatusTimeMetric\<close>: the phase left, and how long it took, in milliseconds.\<close>

record status_time =
  sm_status :: req_status
  sm_duration_ms :: rat

text \<open>\<open>_advance_status\<close>, at time \<open>now\<close>.\<close>

definition advance_status :: "rat \<Rightarrow> lifecycle \<Rightarrow> req_status \<Rightarrow> lifecycle \<times> status_time option" where
  "advance_status now lc st =
     (if st = LOG \<or> Some st = lc_last_status lc then (lc, None)
      else
        (\<lparr>lc_last_status = Some st, lc_last_status_time = Some now\<rparr>,
         (case (lc_last_status lc, lc_last_status_time lc) of
            (Some prev, Some t) \<Rightarrow> Some \<lparr>sm_status = prev, sm_duration_ms = round2 ((now - t) * 1000)\<rparr>
          | _ \<Rightarrow> None)))"

section \<open>Responding\<close>

record response =
  rsp_id :: string
  rsp_status :: req_status
  rsp_description :: string
  rsp_data :: "string option"
  rsp_meta :: "string option"

definition response_for ::
  "request \<Rightarrow> req_status \<Rightarrow> string \<Rightarrow> string option \<Rightarrow> string option \<Rightarrow> response" where
  "response_for r st description data meta =
     \<lparr>rsp_id = rq_id r, rsp_status = st, rsp_description = description, rsp_data = data, rsp_meta = meta\<rparr>"

text \<open>What a response does outside: a message on the client's channel, a key set or deleted in
  Redis, an object written to the object store.\<close>

datatype delivery =
    Publish string response
  | SetResult string response \<comment> \<open>the pickled response under its own key, with a time to live\<close>
  | Notice string string \<comment> \<open>channel, key\<close>
  | DeleteResult string
  | PutObject string response

definition result_key :: "string \<Rightarrow> string" where
  "result_key request_id = ''result:'' @ request_id"

definition response_key :: "string \<Rightarrow> string" where
  "response_key request_id = ''responses/'' @ request_id @ ''.json''"

text \<open>\<open>respond\<close> and \<open>arespond\<close>; \<open>subscribers\<close> is what PUBLISH returned.\<close>

definition respond ::
  "nat \<Rightarrow> request \<Rightarrow> req_status \<Rightarrow> string \<Rightarrow> string option \<Rightarrow> bool \<Rightarrow> string option \<Rightarrow> delivery list" where
  "respond subscribers r st description data pickled meta =
     (let rsp = response_for r st description data meta;
          session = (case rq_session_id r of None \<Rightarrow> [] | Some s \<Rightarrow> s)
      in
      if session \<noteq> [] \<and> pickled
      then [SetResult (result_key (rq_id r)) rsp, Notice session (result_key (rq_id r))] @
           (if subscribers = 0 then [DeleteResult (result_key (rq_id r))] else [])
      else if session \<noteq> [] then [Publish session rsp]
      else if st \<noteq> LOG then [PutObject (response_key (rq_id r)) rsp]
      else [])"

section \<open>Durations\<close>

lemma abs_sum:
  fixes A :: rat
  assumes "\<bar>A - 1000 * (t' - now)\<bar> \<le> n / 200" and "\<bar>r - (now - t) * 1000\<bar> \<le> 1 / 200"
  shows "\<bar>(r + A) - 1000 * (t' - t)\<bar> \<le> n / 200 + 1 / 200"
proof -
  have "(r + A) - 1000 * (t' - t) = (A - 1000 * (t' - now)) + (r - (now - t) * 1000)"
    by (simp add: algebra_simps)
  also have "\<bar>\<dots>\<bar> \<le> \<bar>A - 1000 * (t' - now)\<bar> + \<bar>r - (now - t) * 1000\<bar>" by (rule abs_triangle_ineq)
  also have "\<dots> \<le> n / 200 + 1 / 200" using assms by (rule add_mono)
  finally show ?thesis .
qed

lemma round2_bound: "\<bar>round2 x - x\<bar> \<le> 1 / 200"
proof -
  define n where "n = \<lfloor>100 * x\<rfloor>"
  define r where "r = 100 * x - of_int n"
  have x: "x = (of_int n + r) / 100" by (simp add: r_def)
  have r: "0 \<le> r" "r < 1" unfolding r_def n_def by linarith+
  show ?thesis
  proof (cases "r < 1/2 \<or> r = 1/2 \<and> even n")
    case True
    then have "round2 x = of_int n / 100" by (simp add: round2_def Let_def n_def r_def)
    then have "round2 x - x = - (r / 100)" by (simp add: x add_divide_distrib)
    moreover have "r \<le> 1/2" using True by linarith
    ultimately show ?thesis using r by simp
  next
    case False
    then have "round2 x = (of_int n + 1) / 100" by (simp add: round2_def Let_def n_def r_def)
    then have "round2 x - x = (1 - r) / 100" by (simp add: x diff_divide_distrib add_divide_distrib)
    moreover have "1/2 \<le> r" using False by linarith
    ultimately show ?thesis using r by simp
  qed
qed

text \<open>The calls of \<open>_advance_status\<close> over a request's life, each at its time, and the points they
  record.\<close>

fun advance_all :: "lifecycle \<Rightarrow> (rat \<times> req_status) list \<Rightarrow> lifecycle \<times> status_time list" where
  "advance_all lc [] = (lc, [])"
| "advance_all lc ((now, st) # calls) =
     (case advance_status now lc st of
        (lc1, m) \<Rightarrow>
          (case advance_all lc1 calls of (lc2, ms) \<Rightarrow> (lc2, (case m of None \<Rightarrow> ms | Some x \<Rightarrow> x # ms))))"

text \<open>C12. The phases metered cover the request's life: whatever statuses are reported and in whatever
  order, the durations recorded add up to the time from the status it started in to its last
  change of status, to within the rounding, half a hundredth of a millisecond per point.\<close>

theorem phase_durations_add_up:
  assumes "lc_last_status lc = Some s" and "lc_last_status_time lc = Some t"
    and "advance_all lc calls = (lc', points)"
  shows "\<exists>s' t'. lc_last_status lc' = Some s' \<and> lc_last_status_time lc' = Some t' \<and>
    \<bar>sum_list (map sm_duration_ms points) - 1000 * (t' - t)\<bar> \<le> of_nat (length points) / 200"
  using assms
proof (induction calls arbitrary: lc s t points)
  case (Cons c calls)
  obtain now st where c: "c = (now, st)" by (cases c)
  obtain lc1 m where one: "advance_status now lc st = (lc1, m)" by fastforce
  obtain ms where rest: "advance_all lc1 calls = (lc', ms)" and p: "points = (case m of None \<Rightarrow> ms | Some x \<Rightarrow> x # ms)"
    using Cons.prems(3) by (auto simp: c one split: prod.splits)
  show ?case
  proof (cases "st = LOG \<or> Some st = lc_last_status lc")
    case True
    then have "lc1 = lc" "m = None" using one by (auto simp: advance_status_def)
    then show ?thesis using Cons.IH[OF Cons.prems(1,2)] rest p by simp
  next
    case False
    then have lc1: "lc_last_status lc1 = Some st" "lc_last_status_time lc1 = Some now"
      and m: "m = Some \<lparr>sm_status = s, sm_duration_ms = round2 ((now - t) * 1000)\<rparr>"
      using one Cons.prems(1,2) by (auto simp: advance_status_def)
    from Cons.IH[OF lc1 rest] obtain s' t' where ih: "lc_last_status lc' = Some s'" "lc_last_status_time lc' = Some t'"
      "\<bar>sum_list (map sm_duration_ms ms) - 1000 * (t' - now)\<bar> \<le> of_nat (length ms) / 200" by blast
    have "\<bar>round2 ((now - t) * 1000) - (now - t) * 1000\<bar> \<le> 1 / 200" by (rule round2_bound)
    with ih(3) have "\<bar>(round2 ((now - t) * 1000) + sum_list (map sm_duration_ms ms)) - 1000 * (t' - t)\<bar>
        \<le> of_nat (length ms) / 200 + 1 / 200" by (rule abs_sum)
    then show ?thesis using ih(1,2) p m by (simp add: add_divide_distrib add.commute)
  qed
qed simp

theorem phase_durations_add_up_witness:
  "\<exists>lc' points. advance_all \<lparr>lc_last_status = Some RECEIVED, lc_last_status_time = Some 0\<rparr>
       [(1, QUEUED), (2, LOG), (4, RUNNING), (5, COMPLETED)] = (lc', points) \<and> length points = 3 \<and>
     \<bar>sum_list (map sm_duration_ms points) - 1000 * 5\<bar> \<le> 3 / 200"
proof -
  let ?lc = "\<lparr>lc_last_status = Some RECEIVED, lc_last_status_time = Some 0\<rparr>"
  let ?calls = "[(1, QUEUED), (2, LOG), (4, RUNNING), (5, COMPLETED)]"
  obtain lc' points where a: "advance_all ?lc ?calls = (lc', points)" by fastforce
  have "length points = 3" "lc_last_status_time lc' = Some 5"
    using a by (auto simp: advance_status_def)
  with phase_durations_add_up[OF _ _ a, of RECEIVED 0] a show ?thesis by fastforce
qed

end
