(* ===== verification/Heapq.thy ===== *)
theory Heapq
  imports Prelude "HOL-Library.Product_Lexorder"
begin

text \<open>
  Python's \<open>heapq\<close> (what \<open>asyncio.PriorityQueue\<close> keeps its items with, and what
  \<open>RequestQueue.remove\<close> calls): the list is a binary heap, an item moves up by
  \<open>siftdown\<close> and a hole moves to a leaf by \<open>siftup\<close>, as in the library's code. Items are
  compared by a key. The interface the queue relies on is the locale \<open>min_queue\<close>.
\<close>

section \<open>The algorithms\<close>

abbreviation parent :: "nat \<Rightarrow> nat" where
  "parent i \<equiv> (i - 1) div 2"

text \<open>\<open>_siftdown(heap, startpos, pos)\<close> with \<open>newitem = x\<close>.\<close>

fun siftdown :: "('a \<Rightarrow> 'k::linorder) \<Rightarrow> 'a list \<Rightarrow> nat \<Rightarrow> nat \<Rightarrow> 'a \<Rightarrow> 'a list" where
  "siftdown f h start pos x =
     (if start < pos \<and> f x < f (h ! parent pos)
      then siftdown f (h[pos := h ! parent pos]) start (parent pos) x
      else h[pos := x])"

declare siftdown.simps [simp del]

lemma siftdown_go:
  "start < pos \<and> f x < f (h ! parent pos) \<Longrightarrow>
   siftdown f h start pos x = siftdown f (h[pos := h ! parent pos]) start (parent pos) x"
  by (simp add: siftdown.simps[of f h])

lemma siftdown_stop: "\<not> (start < pos \<and> f x < f (h ! parent pos)) \<Longrightarrow> siftdown f h start pos x = h[pos := x]"
  by (subst siftdown.simps) (simp only: if_False)

text \<open>The child of \<open>pos\<close> that \<open>_siftup\<close> moves up.\<close>

definition small_child :: "('a \<Rightarrow> 'k::linorder) \<Rightarrow> 'a list \<Rightarrow> nat \<Rightarrow> nat" where
  "small_child f h pos =
     (let c = 2 * pos + 1 in
      if c + 1 < length h \<and> \<not> f (h ! c) < f (h ! (c + 1)) then c + 1 else c)"

lemma small_child_bounds:
  "2 * pos + 1 < length h \<Longrightarrow> pos < small_child f h pos \<and> small_child f h pos < length h \<and>
   parent (small_child f h pos) = pos"
  by (auto simp: small_child_def Let_def)

function siftup :: "('a \<Rightarrow> 'k::linorder) \<Rightarrow> 'a list \<Rightarrow> nat \<Rightarrow> nat \<Rightarrow> 'a \<Rightarrow> 'a list" where
  "siftup f h start pos x =
     (if 2 * pos + 1 < length h
      then siftup f (h[pos := h ! small_child f h pos]) start (small_child f h pos) x
      else siftdown f (h[pos := x]) start pos x)"
  by pat_completeness auto
termination
proof (relation "measure (\<lambda>(f, h, start, pos, x). length h - pos)")
  fix f :: "'a \<Rightarrow> 'k::linorder" and h :: "'a list" and start pos :: nat and x :: 'a
  assume c: "2 * pos + 1 < length h"
  show "((f, h[pos := h ! small_child f h pos], start, small_child f h pos, x), f, h, start, pos, x)
      \<in> measure (\<lambda>(f, h, start, pos, x). length h - pos)"
    using small_child_bounds[OF c, of f] c diff_less_mono2[of pos "small_child f h pos" "length h"] by auto
qed simp

declare siftup.simps [simp del]

definition heappush :: "('a \<Rightarrow> 'k::linorder) \<Rightarrow> 'a list \<Rightarrow> 'a \<Rightarrow> 'a list" where
  "heappush f h x = siftdown f (h @ [x]) 0 (length h) x"

definition heappop :: "('a \<Rightarrow> 'k::linorder) \<Rightarrow> 'a list \<Rightarrow> ('a \<times> 'a list) option" where
  "heappop f h =
     (if h = [] then None
      else if butlast h = [] then Some (last h, [])
      else Some (hd h, siftup f ((butlast h)[0 := last h]) 0 0 (last h)))"

definition heapify :: "('a \<Rightarrow> 'k::linorder) \<Rightarrow> 'a list \<Rightarrow> 'a list" where
  "heapify f h = fold (\<lambda>i h. siftup f h i i (h ! i)) (rev [0 ..< length h div 2]) h"

section \<open>The heap order\<close>

text \<open>Every item whose parent is at or after \<open>s\<close> is not below its parent.\<close>

definition heap_on :: "('a \<Rightarrow> 'k::linorder) \<Rightarrow> nat \<Rightarrow> 'a list \<Rightarrow> bool" where
  "heap_on f s h \<longleftrightarrow> (\<forall>i. 0 < i \<longrightarrow> i < length h \<longrightarrow> s \<le> parent i \<longrightarrow> f (h ! parent i) \<le> f (h ! i))"

abbreviation is_heap :: "('a \<Rightarrow> 'k::linorder) \<Rightarrow> 'a list \<Rightarrow> bool" where
  "is_heap f h \<equiv> heap_on f 0 h"

text \<open>The places below \<open>s\<close>.\<close>

inductive under :: "nat \<Rightarrow> nat \<Rightarrow> bool" for s where
  under_refl: "under s s"
| under_child: "under s (parent p) \<Longrightarrow> s < p \<Longrightarrow> under s p"

inductive_cases underE: "under s p"

lemma under_parent: "under s p \<Longrightarrow> s < p \<Longrightarrow> under s (parent p)"
  by (erule underE) simp_all

lemma under_le: "under s p \<Longrightarrow> s \<le> p"
  by (induction rule: under.induct) simp_all

lemma under_0: "under 0 p"
proof (induction p rule: less_induct)
  case (less p)
  show ?case
  proof (cases p)
    case (Suc q)
    have "under 0 (parent p)" by (rule less) (simp add: Suc)
    then show ?thesis by (rule under_child) (simp add: Suc)
  qed (simp add: under_refl)
qed

text \<open>The heap order with one item out of place at \<open>pos\<close>, too small for its parent at most.\<close>

definition rising :: "('a \<Rightarrow> 'k::linorder) \<Rightarrow> nat \<Rightarrow> nat \<Rightarrow> 'a list \<Rightarrow> bool" where
  "rising f s pos h \<longleftrightarrow>
     (\<forall>i. 0 < i \<longrightarrow> i < length h \<longrightarrow> s \<le> parent i \<longrightarrow> i \<noteq> pos \<longrightarrow> f (h ! parent i) \<le> f (h ! i)) \<and>
     (s < pos \<longrightarrow> (\<forall>i. 0 < i \<longrightarrow> i < length h \<longrightarrow> parent i = pos \<longrightarrow> f (h ! parent pos) \<le> f (h ! i)))"

lemma mset_move:
  assumes "i < length h" and "j < length h" and "i \<noteq> j"
  shows "mset ((h[i := h ! j])[j := x]) = mset (h[i := x])"
  using assms by (simp add: mset_update)

lemma length_siftdown [simp]: "length (siftdown f h s pos x) = length h"
  by (induction f h s pos x rule: siftdown.induct) (simp add: siftdown.simps)

lemma mset_siftdown: "pos < length h \<Longrightarrow> mset (siftdown f h s pos x) = mset (h[pos := x])"
proof (induction f h s pos x rule: siftdown.induct)
  case (1 f h start pos x)
  show ?case
  proof (cases "start < pos \<and> f x < f (h ! parent pos)")
    case True
    have pp: "parent pos < pos" using True by auto
    with 1 True mset_move[of pos h "parent pos" x] show ?thesis unfolding siftdown_go[OF True] by simp
  next
    case False
    show ?thesis unfolding siftdown_stop[OF False] ..
  qed
qed

text \<open>Moving up an item that is too small makes a heap.\<close>

lemma siftdown_heap:
  "under s pos \<Longrightarrow> pos < length h \<Longrightarrow> rising f s pos (h[pos := x]) \<Longrightarrow> heap_on f s (siftdown f h s pos x)"
proof (induction f h s pos x rule: siftdown.induct)
  case (1 f h s pos x)
  show ?case
  proof (cases "s < pos \<and> f x < f (h ! parent pos)")
    case False
    have "heap_on f s (h[pos := x])"
      unfolding heap_on_def
    proof (intro allI impI)
      fix i assume i: "0 < i" "i < length (h[pos := x])" "s \<le> parent i"
      show "f (h[pos := x] ! parent i) \<le> f (h[pos := x] ! i)"
      proof (cases "i = pos")
        case True
        have "parent pos < pos" using i True by auto
        then have "f (h ! parent pos) \<le> f x" using i True False by (auto simp: not_less)
        with True \<open>parent pos < pos\<close> "1.prems"(2) show ?thesis by simp
      next
        case ne: False
        with i "1.prems"(3) show ?thesis by (simp add: rising_def)
      qed
    qed
    then show ?thesis unfolding siftdown_stop[OF False] .
  next
    case True
    let ?q = "parent pos" and ?h = "h[pos := h ! parent pos]"
    have q: "?q < pos" "?q < length h" using True "1.prems"(2) by auto
    have r1: "f (h[pos := x] ! parent i) \<le> f (h[pos := x] ! i)" if "0 < i" "i < length h" "s \<le> parent i" "i \<noteq> pos" for i
      using "1.prems"(3) that by (simp add: rising_def)
    have r2: "f (h ! ?q) \<le> f (h ! i)" if "0 < i" "i < length h" "parent i = pos" for i
    proof -
      have "i \<noteq> pos" "?q \<noteq> pos" using that True by auto
      then show ?thesis using "1.prems"(3) that True by (simp add: rising_def)
    qed
    have "rising f s ?q (?h[?q := x])"
      unfolding rising_def
    proof (intro conjI allI impI)
      fix i assume i: "0 < i" "i < length (?h[?q := x])" "s \<le> parent i" "i \<noteq> ?q"
      show "f (?h[?q := x] ! parent i) \<le> f (?h[?q := x] ! i)"
      proof (cases "i = pos")
        case True': True
        then show ?thesis using q True "1.prems"(2) by (simp add: less_imp_le)
      next
        case ne: False
        consider "parent i = pos" | "parent i = ?q" | "parent i \<noteq> pos" "parent i \<noteq> ?q" by blast
        then show ?thesis
        proof cases
          case 1
          then show ?thesis using r2[of i] i ne q by simp
        next
          case 2
          then have "f (h ! ?q) \<le> f (h ! i)" using r1[of i] i ne q by simp
          then have "f x \<le> f (h ! i)" using True by (meson less_imp_le less_le_trans)
          then show ?thesis using 2 i ne q by simp
        next
          case 3
          then show ?thesis using r1[of i] i ne by simp
        qed
      qed
    next
      fix i assume s: "s < ?q" and i: "0 < i" "i < length (?h[?q := x])" "parent i = ?q"
      have "under s ?q" using "1.prems"(1) True by (intro under_parent) auto
      then have up: "under s (parent ?q)" using s by (rule under_parent)
      have "parent ?q < ?q" using s by auto
      have ge: "f (h ! parent ?q) \<le> f (h ! ?q)"
        using r1[of ?q] q s under_le[OF up] \<open>parent ?q < ?q\<close> by simp
      have at_q: "?h[?q := x] ! parent ?q = h ! parent ?q" using \<open>parent ?q < ?q\<close> q by simp
      show "f (?h[?q := x] ! parent ?q) \<le> f (?h[?q := x] ! i)"
      proof (cases "i = pos")
        case True
        then have "?h[?q := x] ! i = h ! ?q" using q "1.prems"(2) by simp
        then show ?thesis unfolding at_q using ge by simp
      next
        case False
        then have "f (h ! ?q) \<le> f (h ! i)" using r1[of i] i q s by simp
        moreover have "i \<noteq> ?q" using i(1,3) by auto
        then have "?h[?q := x] ! i = h ! i" using False by simp
        ultimately show ?thesis unfolding at_q using ge by simp
      qed
    qed
    moreover have "under s ?q" using "1.prems"(1) True by (intro under_parent) auto
    ultimately have "heap_on f s (siftdown f ?h s ?q x)" using "1.IH"[OF True] q by simp
    then show ?thesis unfolding siftdown_go[OF True] .
  qed
qed

text \<open>The heap order around a hole at \<open>pos\<close>.\<close>

definition holed :: "('a \<Rightarrow> 'k::linorder) \<Rightarrow> nat \<Rightarrow> nat \<Rightarrow> 'a list \<Rightarrow> bool" where
  "holed f s pos h \<longleftrightarrow>
     (\<forall>i. 0 < i \<longrightarrow> i < length h \<longrightarrow> s \<le> parent i \<longrightarrow> i \<noteq> pos \<longrightarrow> parent i \<noteq> pos \<longrightarrow> f (h ! parent i) \<le> f (h ! i)) \<and>
     (s < pos \<longrightarrow> (\<forall>i. 0 < i \<longrightarrow> i < length h \<longrightarrow> parent i = pos \<longrightarrow> f (h ! parent pos) \<le> f (h ! i)))"

lemma siftup_go:
  "2 * pos + 1 < length h \<Longrightarrow>
   siftup f h start pos x = siftup f (h[pos := h ! small_child f h pos]) start (small_child f h pos) x"
  by (simp add: siftup.simps[of f h])

lemma siftup_stop: "\<not> 2 * pos + 1 < length h \<Longrightarrow> siftup f h start pos x = siftdown f (h[pos := x]) start pos x"
  by (subst siftup.simps) (simp only: if_False)

lemma mset_siftup: "pos < length h \<Longrightarrow> mset (siftup f h s pos x) = mset (h[pos := x])"
proof (induction f h s pos x rule: siftup.induct)
  case (1 f h s pos x)
  show ?case
  proof (cases "2 * pos + 1 < length h")
    case True
    note c = small_child_bounds[OF True, of f]
    with "1.IH"[OF True] "1.prems" mset_move[of pos h "small_child f h pos" x] show ?thesis
      unfolding siftup_go[OF True] by simp
  next
    case False
    with "1.prems" show ?thesis unfolding siftup_stop[OF False] by (simp add: mset_siftdown)
  qed
qed

lemma small_child_least:
  assumes "2 * pos + 1 < length h" and "0 < i" and "i < length h" and "parent i = pos"
  shows "f (h ! small_child f h pos) \<le> f (h ! i)"
proof -
  have "i = 2 * pos + 1 \<or> i = 2 * pos + 2" using assms(2,4) by auto
  then show ?thesis using assms(1,3) by (auto simp: small_child_def Let_def not_less)
qed

text \<open>The hole goes down to a leaf; there the item is at most too small.\<close>

lemma siftup_heap:
  "under s pos \<Longrightarrow> pos < length h \<Longrightarrow> holed f s pos h \<Longrightarrow> heap_on f s (siftup f h s pos x)"
proof (induction f h s pos x rule: siftup.induct)
  case (1 f h s pos x)
  note un = "1.prems"(1) and len = "1.prems"(2) and hole = "1.prems"(3)
  show ?case
  proof (cases "2 * pos + 1 < length h")
    case False
    have "rising f s pos ((h[pos := x])[pos := x])"
      unfolding rising_def
    proof (intro conjI allI impI)
      fix i assume i: "0 < i" "i < length ((h[pos := x])[pos := x])" "s \<le> parent i" "i \<noteq> pos"
      then have "parent i \<noteq> pos" using False by auto
      then show "f ((h[pos := x])[pos := x] ! parent i) \<le> f ((h[pos := x])[pos := x] ! i)"
        using hole i by (simp add: holed_def)
    next
      fix i assume "0 < i" "i < length ((h[pos := x])[pos := x])" "parent i = pos"
      then show "f ((h[pos := x])[pos := x] ! parent pos) \<le> f ((h[pos := x])[pos := x] ! i)" using False by auto
    qed
    then show ?thesis unfolding siftup_stop[OF False] using un len by (intro siftdown_heap) simp_all
  next
    case True
    let ?c = "small_child f h pos" and ?h = "h[pos := h ! small_child f h pos]"
    have c: "pos < ?c" "?c < length h" "parent ?c = pos" using small_child_bounds[OF True, of f] by simp_all
    have s: "s \<le> pos" by (rule under_le[OF un])
    have "holed f s ?c ?h"
      unfolding holed_def
    proof (intro conjI allI impI)
      fix i assume i: "0 < i" "i < length ?h" "s \<le> parent i" "i \<noteq> ?c" "parent i \<noteq> ?c"
      consider "parent i = pos" | "i = pos" | "i \<noteq> pos" "parent i \<noteq> pos" by blast
      then show "f (?h ! parent i) \<le> f (?h ! i)"
      proof cases
        case 1
        then have "i \<noteq> pos" using i(1) by auto
        with 1 show ?thesis using small_child_least[OF True i(1), of f] i len by simp
      next
        case 2
        then have "s < pos" using i(1,3) by auto
        moreover have "parent pos \<noteq> pos" using i(1) 2 by auto
        ultimately show ?thesis using hole c 2 len by (simp add: holed_def)
      next
        case 3
        then show ?thesis using hole i by (simp add: holed_def)
      qed
    next
      fix i assume i: "0 < i" "i < length ?h" "parent i = ?c"
      have "s \<le> parent i" "parent i \<noteq> pos" unfolding i(3) using c(1) s by simp_all
      moreover have "i \<noteq> pos"
      proof
        assume "i = pos"
        then have "parent i \<le> pos" by auto
        then show False unfolding i(3) using c(1) by simp
      qed
      moreover have "f (h ! parent i) \<le> f (h ! i)"
        using hole[unfolded holed_def, THEN conjunct1, rule_format, of i] i(1,2) calculation by simp
      ultimately have "f (h ! parent i) \<le> f (h ! i)" "i \<noteq> pos" by blast+
      from this(1) have le: "f (h ! ?c) \<le> f (h ! i)" unfolding i(3) .
      have "?h ! pos = h ! ?c" "?h ! i = h ! i" using len \<open>i \<noteq> pos\<close> by simp_all
      then show "f (?h ! parent ?c) \<le> f (?h ! i)" unfolding c(3) using le by simp
    qed
    moreover have "under s (parent ?c)" "s < ?c" unfolding c(3) using un s c(1) by simp_all
    then have "under s ?c" by (rule under_child)
    ultimately have "heap_on f s (siftup f ?h s ?c x)" using "1.IH"[OF True] c(2) by simp
    then show ?thesis unfolding siftup_go[OF True] .
  qed
qed

section \<open>Pushing, popping and heapifying\<close>

lemma heap_least:
  assumes h: "is_heap f h" and i: "i < length h"
  shows "f (h ! 0) \<le> f (h ! i)"
  using i
proof (induction i rule: less_induct)
  case (less i)
  show ?case
  proof (cases i)
    case (Suc j)
    then have "f (h ! 0) \<le> f (h ! parent i)" using less by (intro less.IH) auto
    also have "\<dots> \<le> f (h ! i)" using h[unfolded heap_on_def, rule_format, of i] less.prems Suc by simp
    finally show ?thesis .
  qed simp
qed

lemma heap_on_none: "length h div 2 \<le> s \<Longrightarrow> heap_on f s h"
  by (auto simp: heap_on_def)

lemma heap_on_holed: "heap_on f (Suc s) h \<Longrightarrow> holed f s s h"
  by (auto simp: heap_on_def holed_def)

lemma heappush_ok:
  assumes "is_heap f h"
  shows "is_heap f (heappush f h x)" and "mset (heappush f h x) = add_mset x (mset h)"
proof -
  have "rising f 0 (length h) (h @ [x])"
    unfolding rising_def
  proof (intro conjI allI impI)
    fix i assume i: "0 < i" "i < length (h @ [x])" "i \<noteq> length h"
    then have "i < length h" "parent i < length h" by auto
    then show "f ((h @ [x]) ! parent i) \<le> f ((h @ [x]) ! i)"
      using assms i(1) by (simp add: heap_on_def nth_append)
  next
    fix i assume "0 < i" "i < length (h @ [x])" "parent i = length h"
    then show "f ((h @ [x]) ! parent (length h)) \<le> f ((h @ [x]) ! i)" by auto
  qed
  then show "is_heap f (heappush f h x)"
    unfolding heappush_def by (intro siftdown_heap under_0) simp_all
  show "mset (heappush f h x) = add_mset x (mset h)" by (simp add: heappush_def mset_siftdown)
qed

lemma heappop_ok:
  assumes h: "is_heap f h" and p: "heappop f h = Some (x, h')"
  shows "is_heap f h'" and "mset h = add_mset x (mset h')" and "\<And>y. y \<in> set h \<Longrightarrow> f x \<le> f y"
proof -
  have ne: "h \<noteq> []" using p by (auto simp: heappop_def)
  then obtain b l where hb: "h = b @ [l]" by (metis append_butlast_last_id)
  show "is_heap f h'"
  proof (cases b)
    case (Cons c cs)
    have "heap_on f (Suc 0) (b[0 := l])"
      unfolding heap_on_def
    proof (intro allI impI)
      fix i assume i: "0 < i" "i < length (b[0 := l])" "Suc 0 \<le> parent i"
      have same: "b[0 := l] ! j = h ! j" if "0 < j" "j < length b" for j
        using that hb by (simp add: nth_append)
      have "parent i < length b" using i by auto
      with i same[of i] same[of "parent i"] h[unfolded heap_on_def, rule_format, of i] hb
      show "f (b[0 := l] ! parent i) \<le> f (b[0 := l] ! i)" by simp
    qed
    from siftup_heap[OF under_0 _ heap_on_holed[OF this], of l] show ?thesis
      using p hb Cons by (simp add: heappop_def)
  qed (use p hb in \<open>simp add: heappop_def heap_on_def\<close>)
  show "mset h = add_mset x (mset h')"
    using p hb by (cases b) (auto simp: heappop_def mset_siftup mset_update)
  have "x = h ! 0" using p hb by (cases b) (auto simp: heappop_def)
  then show "f x \<le> f y" if "y \<in> set h" for y
    using heap_least[OF h] that by (auto simp: in_set_conv_nth)
qed

lemma heappop_None: "heappop f h = None \<longleftrightarrow> h = []"
  by (simp add: heappop_def)

lemma length_siftup [simp]: "length (siftup f h s pos x) = length h"
  by (induction f h s pos x rule: siftup.induct) (simp add: siftup.simps)

lemma heapify_ok: "is_heap f (heapify f h) \<and> mset (heapify f h) = mset h"
proof -
  have "n \<le> length g \<Longrightarrow> heap_on f n g \<Longrightarrow>
      is_heap f (fold (\<lambda>i h. siftup f h i i (h ! i)) (rev [0 ..< n]) g) \<and>
      mset (fold (\<lambda>i h. siftup f h i i (h ! i)) (rev [0 ..< n]) g) = mset g" for n g
  proof (induction n arbitrary: g)
    case (Suc n)
    let ?g = "siftup f g n n (g ! n)"
    have n: "n < length g" using Suc.prems by simp
    have "heap_on f n ?g" by (rule siftup_heap[OF under_refl n heap_on_holed[OF Suc.prems(2)]])
    moreover have "mset ?g = mset g" using n by (simp add: mset_siftup)
    ultimately show ?case using Suc.IH[of ?g] n by simp
  qed simp
  from this[of "length h div 2" h] show ?thesis by (simp add: heapify_def heap_on_none)
qed

section \<open>The interface\<close>

text \<open>Where the keys differ, there is one sorted order.\<close>

lemma sort_key_unique:
  assumes "sorted (map f ys)" and m: "mset ys = mset xs" and inj: "inj_on f (set xs)"
  shows "sort_key f xs = ys"
proof (rule properties_for_sort_key[OF m _ assms(1)])
  fix k assume "k \<in> set ys"
  then have k: "k \<in> set xs" using m by (metis set_mset_mset)
  have sub: "filter (\<lambda>a. f k = f a) zs = filter (\<lambda>a. a = k) zs" if "set zs \<subseteq> set xs" for zs
    using that inj k by (intro filter_cong) (auto simp: inj_on_def)
  have rep: "filter (\<lambda>a. a = k) zs = replicate (count (mset zs) k) k" for zs by (induction zs) auto
  have "set ys = set xs" using m by (metis set_mset_mset)
  then show "filter (\<lambda>a. f k = f a) ys = filter (\<lambda>a. f k = f a) xs" using sub rep m by simp
qed

lemma sorted_insert_at:
  assumes "sorted (map f S)"
  shows "sorted (map f (filter (\<lambda>y. f y < f x) S @ [x] @ filter (\<lambda>y. \<not> f y < f x) S))"
proof -
  have "sorted (map f (filter P S))" for P using assms by (rule sorted_filter)
  moreover have "f a \<le> f b" if "f a < f x" "\<not> f b < f x" for a b
    using that by (meson less_imp_le not_less order_trans)
  ultimately show ?thesis by (auto simp: sorted_append not_less less_imp_le)
qed

lemma length_filter_sort: "length (filter P (sort_key f xs)) = length (filter P xs)"
proof -
  have "mset (filter P (sort_key f xs)) = mset (filter P xs)" by (simp add: mset_filter)
  then show ?thesis by (metis size_mset)
qed

text \<open>The items below one of them come before it.\<close>

lemma filter_below:
  assumes "sorted (map f S)" and d: "distinct (map f S)" and j: "j < length S"
  shows "filter (\<lambda>x. f x < f (S ! j)) S = take j S"
proof -
  have lt: "f (S ! a) < f (S ! b)" if "a < b" "b < length S" for a b
  proof -
    have "map f S ! a \<le> map f S ! b" using that assms(1) by (intro sorted_nth_mono) auto
    moreover have "map f S ! a \<noteq> map f S ! b" using that nth_eq_iff_index_eq[OF d, of a b] by simp
    ultimately show ?thesis using that by simp
  qed
  have "filter (\<lambda>x. f x < f (S ! j)) (take j S) = take j S"
    using lt[of _ j] j by (auto simp: filter_id_conv in_set_conv_nth)
  moreover have "\<not> f x < f (S ! j)" if "x \<in> set (drop j S)" for x
  proof -
    from that obtain i where "i < length (drop j S)" "x = drop j S ! i" by (metis in_set_conv_nth)
    then have "x = S ! (j + i)" "j + i < length S" by auto
    then show ?thesis using lt[of j "j + i"] by (cases i) (auto dest: less_imp_le)
  qed
  then have "filter (\<lambda>x. f x < f (S ! j)) (drop j S) = []" by (simp add: filter_empty_conv)
  ultimately show ?thesis by (metis append_take_drop_id filter_append self_append_conv)
qed

text \<open>What comes out of a queue, one item after the other.\<close>

fun pops :: "('q \<Rightarrow> ('a \<times> 'q) option) \<Rightarrow> nat \<Rightarrow> 'q \<Rightarrow> 'a list" where
  "pops pop 0 q = []"
| "pops pop (Suc n) q = (case pop q of None \<Rightarrow> [] | Some (x, q') \<Rightarrow> x # pops pop n q')"

locale min_queue =
  fixes key :: "'a \<Rightarrow> 'k::linorder"
    and inv :: "'q \<Rightarrow> bool"
    and items :: "'q \<Rightarrow> 'a multiset"
    and push :: "'q \<Rightarrow> 'a \<Rightarrow> 'q"
    and pop :: "'q \<Rightarrow> ('a \<times> 'q) option"
  assumes inv_push: "inv q \<Longrightarrow> inv (push q x)"
    and items_push: "inv q \<Longrightarrow> items (push q x) = add_mset x (items q)"
    and pop_None: "inv q \<Longrightarrow> pop q = None \<longleftrightarrow> items q = {#}"
    and inv_pop: "inv q \<Longrightarrow> pop q = Some (x, q') \<Longrightarrow> inv q'"
    and items_pop: "inv q \<Longrightarrow> pop q = Some (x, q') \<Longrightarrow> items q = add_mset x (items q')"
    and pop_least: "inv q \<Longrightarrow> pop q = Some (x, q') \<Longrightarrow> y \<in># items q \<Longrightarrow> key x \<le> key y"
begin

text \<open>Where the keys differ, the items come out in the order of their keys, whatever the queue
  does inside.\<close>

lemma pops_sorted:
  assumes "inv q" and "mset xs = items q" and "inj_on key (set xs)"
  shows "pops pop (length xs) q = sort_key key xs"
  using assms
proof (induction "length xs" arbitrary: xs q)
  case (Suc n)
  then have "items q \<noteq> {#}" by auto
  then obtain x q' where p: "pop q = Some (x, q')" using pop_None[OF Suc.prems(1)] by fastforce
  have x: "x \<in> set xs" using items_pop[OF Suc.prems(1) p] Suc.prems(2) by (metis set_mset_mset union_single_eq_member)
  let ?ys = "remove1 x xs"
  have m: "mset ?ys = items q'" using items_pop[OF Suc.prems(1) p] Suc.prems(2) by simp
  have n: "n = length ?ys" using Suc.hyps(2) x by (simp add: length_remove1)
  have inj: "inj_on key (set ?ys)" using Suc.prems(3) set_remove1_subset by (rule inj_on_subset)
  have "pops pop n q' = sort_key key ?ys"
    using Suc.hyps(1)[OF n inv_pop[OF Suc.prems(1) p] m inj] n by simp
  moreover have "sort_key key xs = x # sort_key key ?ys"
  proof (rule sort_key_unique[OF _ _ Suc.prems(3)])
    have "key x \<le> key y" if "y \<in> set xs" for y
      using pop_least[OF Suc.prems(1) p, of y] that Suc.prems(2) by (metis set_mset_mset)
    then show "sorted (map key (x # sort_key key ?ys))" using set_remove1_subset[of x xs] by auto
    show "mset (x # sort_key key ?ys) = mset xs" using x by simp
  qed
  ultimately show ?case using Suc.hyps(2) p by (metis pops.simps(2) option.simps(5) case_prod_conv)
qed simp

end

interpretation heap: min_queue f "is_heap f" mset "heappush f" "heappop f" for f :: "'a \<Rightarrow> 'k::linorder"
proof
  show "is_heap f q \<Longrightarrow> is_heap f (heappush f q x)" "is_heap f q \<Longrightarrow> mset (heappush f q x) = add_mset x (mset q)" for q x
    by (rule heappush_ok, assumption)+
  show "is_heap f q \<Longrightarrow> heappop f q = None \<longleftrightarrow> mset q = {#}" for q by (simp add: heappop_None)
  show "is_heap f q \<Longrightarrow> heappop f q = Some (x, q') \<Longrightarrow> is_heap f q'"
    "is_heap f q \<Longrightarrow> heappop f q = Some (x, q') \<Longrightarrow> mset q = add_mset x (mset q')"
    for q x q' by (rule heappop_ok, assumption+)+
  show "is_heap f q \<Longrightarrow> heappop f q = Some (x, q') \<Longrightarrow> y \<in># mset q \<Longrightarrow> f x \<le> f y" for q x q' y
    using heappop_ok(3)[of f q x q' y] unfolding set_mset_mset .
qed

end
