(* ===== verification/Request_Queue.thy ===== *)
theory Request_Queue
  imports Request Heapq
begin

text \<open>
  \<open>queue/request_queue.py\<close>: the per-model queue, a heap of requests under the key
  \<open>(rank, enqueued_at, seq)\<close>. Its specification is the list \<open>snapshot\<close>, the order of service;
  the lemmas say that each operation on the heap is the expected one on that list.
\<close>

section \<open>The queue\<close>

type_synonym queue_key = "nat \<times> rat \<times> nat"

type_synonym queue_item = "queue_key \<times> request"

record request_queue =
  q_items :: "queue_item list" \<comment> \<open>\<open>_queue._queue\<close>, the heap\<close>
  q_seq :: nat \<comment> \<open>the next value of \<open>_seq\<close>\<close>

definition new_queue :: request_queue where
  "new_queue = \<lparr>q_items = [], q_seq = 0\<rparr>"

definition rank :: "request \<Rightarrow> bool \<Rightarrow> nat" where
  "rank r prepend = (if priority r then 0 else 1) * 2 + (if prepend then 0 else 1)"

text \<open>\<open>put\<close> stamps the request, so it returns it too.\<close>

definition q_put :: "rat \<Rightarrow> request_queue \<Rightarrow> request \<Rightarrow> bool \<Rightarrow> request_queue \<times> request" where
  "q_put now q r prepend =
     (let t = (case rq_enqueued_at r of None \<Rightarrow> now | Some t \<Rightarrow> t);
          r' = r\<lparr>rq_enqueued_at := Some t\<rparr>
      in (\<lparr>q_items = heappush fst (q_items q) ((rank r' prepend, t, q_seq q), r'),
           q_seq = Suc (q_seq q)\<rparr>, r'))"

text \<open>\<open>get\<close>, \<open>None\<close> where it would wait.\<close>

definition q_get :: "request_queue \<Rightarrow> (request \<times> request_queue) option" where
  "q_get q = map_option (\<lambda>(x, h). (snd x, q\<lparr>q_items := h\<rparr>)) (heappop fst (q_items q))"

definition qsize :: "request_queue \<Rightarrow> nat" where
  "qsize q = length (q_items q)"

definition snapshot :: "request_queue \<Rightarrow> request list" where
  "snapshot q = map snd (sort_key fst (q_items q))"

text \<open>\<open>min(..., key=...)\<close> returns the first of the least.\<close>

fun least_by :: "('a \<Rightarrow> 'k::linorder) \<Rightarrow> 'a list \<Rightarrow> 'a option" where
  "least_by f [] = None"
| "least_by f (x # xs) =
     Some (case least_by f xs of None \<Rightarrow> x | Some y \<Rightarrow> if f y < f x then y else x)"

definition oldest :: "request_queue \<Rightarrow> request option" where
  "oldest q =
     least_by (\<lambda>r. case rq_enqueued_at r of None \<Rightarrow> 0 | Some t \<Rightarrow> t) (map snd (q_items q))"

definition position :: "request_queue \<Rightarrow> string \<Rightarrow> nat option" where
  "position q request_id =
     (case find (\<lambda>(_, r). rq_id r = request_id) (q_items q) of
        None \<Rightarrow> None
      | Some (k, _) \<Rightarrow> Some (1 + length (filter (\<lambda>(k', _). k' < k) (q_items q))))"

text \<open>\<open>remove\<close>: the first with the id is cut out of the list, and the rest heapified.\<close>

fun cut_id :: "string \<Rightarrow> queue_item list \<Rightarrow> (request \<times> queue_item list) option" where
  "cut_id request_id [] = None"
| "cut_id request_id (x # xs) =
     (if rq_id (snd x) = request_id then Some (snd x, xs)
      else map_option (\<lambda>(r, ys). (r, x # ys)) (cut_id request_id xs))"

definition q_remove :: "request_queue \<Rightarrow> string \<Rightarrow> request_queue \<times> request option" where
  "q_remove q request_id =
     (case cut_id request_id (q_items q) of
        None \<Rightarrow> (q, None)
      | Some (r, items) \<Rightarrow> (q\<lparr>q_items := heapify fst items\<rparr>, Some r))"

definition q_clear :: "request_queue \<Rightarrow> request_queue" where
  "q_clear q = q\<lparr>q_items := []\<rparr>"

section \<open>The invariant\<close>

text \<open>The list is a heap; no two sequence numbers are the same, and none has been given out yet that
  is not below the counter; each key has its request's time.\<close>

definition item_seq :: "queue_item \<Rightarrow> nat" where
  "item_seq x = snd (snd (fst x))"

definition queue_inv :: "request_queue \<Rightarrow> bool" where
  "queue_inv q \<longleftrightarrow>
     is_heap fst (q_items q) \<and> distinct (map item_seq (q_items q)) \<and>
     (\<forall>x \<in> set (q_items q). item_seq x < q_seq q \<and> rq_enqueued_at (snd x) = Some (fst (snd (fst x))))"

lemma new_queue_inv: "queue_inv new_queue"
  by (simp add: queue_inv_def new_queue_def heap_on_def)

lemma queue_invD:
  assumes "queue_inv q"
  shows "is_heap fst (q_items q)" and "distinct (map item_seq (q_items q))"
    and "\<And>x. x \<in> set (q_items q) \<Longrightarrow> item_seq x < q_seq q"
    and "\<And>x. x \<in> set (q_items q) \<Longrightarrow> rq_enqueued_at (snd x) = Some (fst (snd (fst x)))"
  using assms unfolding queue_inv_def by blast+

text \<open>So the keys differ, and no comparison reaches the request.\<close>

lemma keys_differ: "distinct (map item_seq xs) \<Longrightarrow> inj_on fst (set xs)"
proof (rule inj_onI)
  fix x y assume d: "distinct (map item_seq xs)" and xy: "x \<in> set xs" "y \<in> set xs" "fst x = fst y"
  then have "item_seq x = item_seq y" by (simp add: item_seq_def)
  then show "x = y" using d xy by (metis distinct_map inj_onD)
qed

lemma distinct_map_mset: "mset xs = mset ys \<Longrightarrow> distinct (map f xs) = distinct (map f ys)"
  by (metis mset_map mset_eq_imp_distinct_iff)

text \<open>An invariant that only looks at the items as a multiset, under a permutation.\<close>

lemma queue_inv_mset:
  assumes "is_heap fst items" and "mset items = mset xs" and "distinct (map item_seq xs)"
    and "\<And>x. x \<in> set xs \<Longrightarrow> item_seq x < n \<and> rq_enqueued_at (snd x) = Some (fst (snd (fst x)))"
  shows "queue_inv \<lparr>q_items = items, q_seq = n\<rparr>"
proof -
  have "set items = set xs" using assms(2) by (metis set_mset_mset)
  moreover have "distinct (map item_seq items)"
    using assms(2,3) distinct_map_mset by blast
  ultimately show ?thesis using assms(1,4) by (simp add: queue_inv_def)
qed

section \<open>The operations on the order of service\<close>

lemma put_inv: "queue_inv q \<Longrightarrow> queue_inv (fst (q_put now q r prepend))"
proof -
  assume inv: "queue_inv q"
  let ?t = "case rq_enqueued_at r of None \<Rightarrow> now | Some t \<Rightarrow> t" and ?r = "r\<lparr>rq_enqueued_at := Some (case rq_enqueued_at r of None \<Rightarrow> now | Some t \<Rightarrow> t)\<rparr>"
  let ?x = "((rank ?r prepend, ?t, q_seq q), ?r)"
  note h = heappush_ok[OF queue_invD(1)[OF inv], of ?x]
  have "distinct (map item_seq (?x # q_items q))"
  proof -
    have "item_seq ?x = q_seq q" by (simp add: item_seq_def)
    then have "item_seq ?x \<notin> item_seq ` set (q_items q)" using queue_invD(3)[OF inv] by fastforce
    then show ?thesis using queue_invD(2)[OF inv] by simp
  qed
  then show ?thesis
    unfolding q_put_def Let_def fst_conv
    by (intro queue_inv_mset[OF h(1), of "?x # q_items q"])
      (use h(2) queue_invD(3,4)[OF inv] in \<open>auto simp: item_seq_def less_SucI\<close>)
qed

text \<open>\<open>put\<close> inserts the request behind those with a lesser key.\<close>

lemma snapshot_put:
  assumes inv: "queue_inv q" and p: "q_put now q r prepend = (q', r')"
  shows "\<exists>t. rq_enqueued_at r' = Some t \<and> r' = r\<lparr>rq_enqueued_at := Some t\<rparr> \<and>
    t = (case rq_enqueued_at r of None \<Rightarrow> now | Some t \<Rightarrow> t) \<and>
    snapshot q' = map snd (filter (\<lambda>x. fst x < (rank r' prepend, t, q_seq q)) (sort_key fst (q_items q))) @ [r'] @
      map snd (filter (\<lambda>x. \<not> fst x < (rank r' prepend, t, q_seq q)) (sort_key fst (q_items q)))"
proof -
  define t where "t = (case rq_enqueued_at r of None \<Rightarrow> now | Some t \<Rightarrow> t)"
  define k where "k = (rank r' prepend, t, q_seq q)"
  have r': "r' = r\<lparr>rq_enqueued_at := Some t\<rparr>" and items: "q_items q' = heappush fst (q_items q) (k, r')"
    using p by (auto simp: q_put_def Let_def t_def k_def)
  let ?S = "sort_key fst (q_items q)"
  let ?A = "filter (\<lambda>x. fst x < k) ?S" and ?B = "filter (\<lambda>x. \<not> fst x < k) ?S"
  have "sorted (map fst (?A @ [(k, r')] @ ?B))"
    using sorted_insert_at[of fst ?S "(k, r')"] by simp
  moreover have "mset (?A @ [(k, r')] @ ?B) = mset (q_items q')"
    using heappush_ok(2)[OF queue_invD(1)[OF inv], of "(k, r')"] by (simp add: items)
  moreover have "inj_on fst (set (q_items q'))"
    using keys_differ queue_invD(2)[OF put_inv[OF inv, of now r prepend]] p by simp
  ultimately have "sort_key fst (q_items q') = ?A @ [(k, r')] @ ?B" by (rule sort_key_unique)
  then have "snapshot q' = map snd ?A @ [r'] @ map snd ?B" by (simp add: snapshot_def)
  then show ?thesis using r' by (intro exI[of _ t]) (simp add: t_def[symmetric] k_def)
qed

text \<open>\<open>get\<close> takes the head.\<close>

lemma get_inv: "queue_inv q \<Longrightarrow> q_get q = Some (r, q') \<Longrightarrow> queue_inv q' \<and> snapshot q = r # snapshot q'"
proof -
  assume inv: "queue_inv q" and g: "q_get q = Some (r, q')"
  then obtain x h where p: "heappop fst (q_items q) = Some (x, h)" and r: "r = snd x" and q': "q' = q\<lparr>q_items := h\<rparr>"
    by (auto simp: q_get_def)
  note ok = heappop_ok[OF queue_invD(1)[OF inv] p]
  have sub: "set h \<subseteq> set (q_items q)" using ok(2) by (metis set_mset_mset set_mset_add_mset_insert subset_insertI)
  have "distinct (map item_seq (x # h))"
    using queue_invD(2)[OF inv] ok(2) distinct_map_mset[of "q_items q" "x # h" item_seq] by simp
  then have i': "queue_inv q'"
    using ok(1) queue_invD(3,4)[OF inv] sub by (auto simp: queue_inv_def q')
  have "sort_key fst (q_items q) = x # sort_key fst h"
    by (rule sort_key_unique[OF _ _ keys_differ[OF queue_invD(2)[OF inv]]]) (use ok(2,3) sub in auto)
  then show ?thesis using i' r by (simp add: snapshot_def q')
qed

lemma get_None: "q_get q = None \<longleftrightarrow> snapshot q = []"
proof -
  have "snapshot q = [] \<longleftrightarrow> q_items q = []" by (metis snapshot_def map_is_Nil_conv length_0_conv length_sort)
  then show ?thesis by (simp add: q_get_def heappop_None)
qed

lemma size_snapshot: "length (snapshot q) = qsize q"
  by (simp add: snapshot_def qsize_def)

lemma cut_id_None: "cut_id i xs = None \<longleftrightarrow> i \<notin> (rq_id \<circ> snd) ` set xs"
  by (induction xs) auto

lemma cut_id_Some:
  "cut_id i xs = Some (r, ys) \<Longrightarrow> \<exists>x. snd x = r \<and> rq_id r = i \<and> mset xs = add_mset x (mset ys) \<and> x \<in> set xs"
  by (induction xs arbitrary: ys) (auto split: if_splits)

text \<open>\<open>remove\<close> takes one request with the id out of the order of service.\<close>

lemma remove_inv:
  assumes inv: "queue_inv q" and rm: "q_remove q i = (q', Some r)"
  shows "queue_inv q' \<and> rq_id r = i \<and> r \<in> set (snapshot q) \<and> mset (snapshot q) = add_mset r (mset (snapshot q'))"
proof -
  from rm obtain ys where c: "cut_id i (q_items q) = Some (r, ys)" and q': "q' = q\<lparr>q_items := heapify fst ys\<rparr>"
    by (auto simp: q_remove_def split: option.splits)
  from cut_id_Some[OF c] obtain x where x: "snd x = r" "rq_id r = i" "x \<in> set (q_items q)"
    and m: "mset (q_items q) = mset (x # ys)" by auto
  have "distinct (map item_seq ys)"
    using queue_invD(2)[OF inv] distinct_map_mset[OF m, of item_seq] by simp
  moreover have "set ys \<subseteq> set (q_items q)" using m by (metis set_mset_mset set_subset_Cons mset_eq_setD)
  ultimately have "queue_inv \<lparr>q_items = heapify fst ys, q_seq = q_seq q\<rparr>"
    using heapify_ok[of fst ys] queue_invD(3,4)[OF inv]
    by (intro queue_inv_mset[of _ ys]) auto
  moreover have "q' = \<lparr>q_items = heapify fst ys, q_seq = q_seq q\<rparr>" by (simp add: q')
  moreover have "mset (snapshot q) = image_mset snd (mset (q_items q))" for q by (simp add: snapshot_def)
  moreover have "r \<in> set (snapshot q)" using x by (auto simp: snapshot_def)
  ultimately show ?thesis using x m heapify_ok[of fst ys] by simp
qed

lemma snapshot_remove:
  assumes inv: "queue_inv q" and rm: "q_remove q i = (q', Some r)" and ids: "distinct (map rq_id (snapshot q))"
  shows "snapshot q' = filter (\<lambda>x. rq_id x \<noteq> i) (snapshot q)"
proof -
  from rm obtain ys where c: "cut_id i (q_items q) = Some (r, ys)" and q': "q' = q\<lparr>q_items := heapify fst ys\<rparr>"
    by (auto simp: q_remove_def split: option.splits)
  from cut_id_Some[OF c] obtain x where x: "snd x = r" "rq_id r = i" and m: "mset (q_items q) = mset (x # ys)" by auto
  let ?P = "\<lambda>x :: queue_item. rq_id (snd x) \<noteq> i"
  have "distinct (map (rq_id \<circ> snd) (sort_key fst (q_items q)))" using ids by (simp add: snapshot_def)
  then have "distinct (map (rq_id \<circ> snd) (x # ys))"
    using distinct_map_mset[of "sort_key fst (q_items q)" "x # ys" "rq_id \<circ> snd"] m by simp
  then have "i \<notin> (rq_id \<circ> snd) ` set ys" using x by simp
  then have "filter ?P ys = ys" by (force simp: filter_id_conv)
  then have "filter_mset ?P (mset (q_items q)) = mset ys" using m x by (simp flip: mset_filter)
  then have "mset (filter ?P (sort_key fst (q_items q))) = mset (heapify fst ys)"
    using heapify_ok[of fst ys] by (simp add: mset_filter)
  moreover have "sorted (map fst (filter ?P (sort_key fst (q_items q))))" by (simp add: sorted_filter)
  moreover have "inj_on fst (set (heapify fst ys))"
    using remove_inv[OF inv rm] keys_differ queue_invD(2)[of q'] by (simp add: q')
  ultimately have "sort_key fst (heapify fst ys) = filter ?P (sort_key fst (q_items q))" by (intro sort_key_unique)
  then show ?thesis by (simp add: snapshot_def q' filter_map comp_def)
qed

text \<open>\<open>position\<close> is the place in the order of service.\<close>

lemma position_snapshot:
  assumes inv: "queue_inv q" and ids: "distinct (map rq_id (snapshot q))" and j: "j < qsize q"
  shows "position q (rq_id (snapshot q ! j)) = Some (j + 1)"
proof -
  let ?S = "sort_key fst (q_items q)" and ?i = "rq_id (snapshot q ! j)"
  have jl: "j < length ?S" using j by (simp add: qsize_def)
  let ?x = "?S ! j"
  have at: "snapshot q ! j = snd ?x" using jl by (simp add: snapshot_def)
  have x: "?x \<in> set (q_items q)" using jl nth_mem[of j ?S] by simp
  have dist: "distinct (map (rq_id \<circ> snd) (q_items q))"
    using ids distinct_map_mset[of ?S "q_items q" "rq_id \<circ> snd"] by (simp add: snapshot_def)
  obtain y where f: "find (\<lambda>(_, r). rq_id r = ?i) (q_items q) = Some y"
  proof -
    have "\<exists>y \<in> set (q_items q). (\<lambda>(_, r). rq_id r = ?i) y" using x at by (intro bexI[of _ ?x]) (simp_all add: case_prod_unfold)
    then have "find (\<lambda>(_, r). rq_id r = ?i) (q_items q) \<noteq> None" unfolding find_None_iff by blast
    then show thesis using that by blast
  qed
  then have "y \<in> set (q_items q)" "rq_id (snd y) = ?i" by (auto simp: find_Some_iff case_prod_unfold)
  then have "y = ?x"
    using dist x at inj_onD[of "rq_id \<circ> snd" "set (q_items q)" y ?x] by (simp add: distinct_map)
  moreover have "length (filter (\<lambda>(k', _). k' < fst ?x) (q_items q)) = j"
  proof -
    have dS: "distinct (map fst ?S)" using keys_differ[OF queue_invD(2)[OF inv]] queue_invD(2)[OF inv]
      by (simp add: distinct_map)
    have "filter (\<lambda>x. fst x < fst ?x) ?S = take j ?S" using dS jl by (intro filter_below) simp_all
    then have "length (filter (\<lambda>x. fst x < fst ?x) ?S) = j" using jl by simp
    moreover have "length (filter (\<lambda>x. fst x < fst ?x) ?S) = length (filter (\<lambda>x. fst x < fst ?x) (q_items q))"
      by (rule length_filter_sort)
    ultimately show ?thesis by (simp add: case_prod_unfold)
  qed
  ultimately show ?thesis using f by (simp add: position_def case_prod_unfold)
qed

section \<open>Properties\<close>

text \<open>The operations in any order, from an empty queue.\<close>

datatype queue_op = Put rat request bool | Get | Remove string | Clear

fun q_step :: "request_queue \<Rightarrow> queue_op \<Rightarrow> request_queue" where
  "q_step q (Put now r prepend) = fst (q_put now q r prepend)"
| "q_step q Get = (case q_get q of None \<Rightarrow> q | Some (_, q') \<Rightarrow> q')"
| "q_step q (Remove i) = fst (q_remove q i)"
| "q_step q Clear = q_clear q"

lemma q_step_inv: "queue_inv q \<Longrightarrow> queue_inv (q_step q op)"
proof (cases op)
  case (Remove i)
  assume inv: "queue_inv q"
  obtain q' x where rm: "q_remove q i = (q', x)" by fastforce
  show ?thesis
  proof (cases x)
    case None
    then show ?thesis using inv rm Remove by (auto simp: q_remove_def split: option.splits)
  next
    case (Some r)
    then show ?thesis using remove_inv[OF inv] rm Remove by simp
  qed
next
  case Get
  assume "queue_inv q"
  then show ?thesis using get_inv[of q] Get by (auto split: option.splits)
next
  case Clear
  assume "queue_inv q"
  then show ?thesis using Clear by (simp add: q_clear_def queue_inv_def heap_on_def)
qed (simp add: put_inv)

lemma q_steps_inv: "queue_inv (foldl q_step new_queue ops)"
proof -
  have "queue_inv q \<Longrightarrow> queue_inv (foldl q_step q ops)" for q
    by (induction ops arbitrary: q) (simp_all add: q_step_inv)
  then show ?thesis using new_queue_inv by blast
qed

lemma pops_snapshot: "queue_inv q \<Longrightarrow> pops q_get (qsize q) q = snapshot q"
proof (induction "qsize q" arbitrary: q)
  case 0
  then show ?case using size_snapshot[of q] by simp
next
  case (Suc n)
  then have "snapshot q \<noteq> []" using size_snapshot[of q] by auto
  then obtain r q' where g: "q_get q = Some (r, q')" using get_None by fastforce
  note ok = get_inv[OF Suc.prems g]
  have "n = qsize q'" using Suc.hyps(2) ok size_snapshot[of q] size_snapshot[of q'] by simp
  with Suc.hyps(1)[OF this] ok show ?case using Suc.hyps(2)[symmetric] g by simp
qed

text \<open>C9. Whatever sequence of puts, gets, removals and clears made the queue, taking everything out of
  the heap one by one gives exactly the snapshot, so what the operators and the position messages
  read off the queue is the order in which the requests are served.\<close>

theorem queue_serves_snapshot:
  "pops q_get (qsize (foldl q_step new_queue ops)) (foldl q_step new_queue ops) = snapshot (foldl q_step new_queue ops)"
  by (rule pops_snapshot[OF q_steps_inv])

text \<open>C11. First come, first served within a tier, and no starvation by later arrivals: a request put at
  the back of its tier, at a time not before those of the queued requests, comes after every queued
  request of the same or a better tier and before every one of a worse tier; in particular no
  queued request of its own tier is overtaken.\<close>

theorem put_is_fifo:
  assumes "queue_inv q" and "rq_enqueued_at r = None" and "\<forall>x \<in> set (q_items q). fst (snd (fst x)) \<le> now"
    and "q_put now q r prepend = (q', r')"
  shows "snapshot q' =
    map snd (filter (\<lambda>x. fst (fst x) \<le> rank r prepend) (sort_key fst (q_items q))) @ [r'] @
    map snd (filter (\<lambda>x. \<not> fst (fst x) \<le> rank r prepend) (sort_key fst (q_items q)))"
proof -
  from snapshot_put[OF assms(1,4)] assms(2) obtain t where t: "t = now" "r' = r\<lparr>rq_enqueued_at := Some t\<rparr>"
    and s: "snapshot q' = map snd (filter (\<lambda>x. fst x < (rank r' prepend, t, q_seq q)) (sort_key fst (q_items q))) @ [r'] @
      map snd (filter (\<lambda>x. \<not> fst x < (rank r' prepend, t, q_seq q)) (sort_key fst (q_items q)))" by auto
  have rk: "rank r' prepend = rank r prepend" using t by (simp add: rank_def priority_def)
  have "fst x < (rank r' prepend, t, q_seq q) \<longleftrightarrow> fst (fst x) \<le> rank r prepend" if "x \<in> set (q_items q)" for x
  proof -
    have "fst (snd (fst x)) \<le> now" "snd (snd (fst x)) < q_seq q"
      using assms(3) queue_invD(3)[OF assms(1)] that by (auto simp: item_seq_def)
    then show ?thesis using t rk by (cases x) (auto simp: less_prod_def)
  qed
  then have "filter (\<lambda>x. fst x < (rank r' prepend, t, q_seq q)) (sort_key fst (q_items q)) =
      filter (\<lambda>x. fst (fst x) \<le> rank r prepend) (sort_key fst (q_items q))"
    "filter (\<lambda>x. \<not> fst x < (rank r' prepend, t, q_seq q)) (sort_key fst (q_items q)) =
      filter (\<lambda>x. \<not> fst (fst x) \<le> rank r prepend) (sort_key fst (q_items q))"
    by (auto intro!: filter_cong)
  with s show ?thesis by simp
qed

definition ex_request :: "string \<Rightarrow> string list \<Rightarrow> request" where
  "ex_request i tags = \<lparr>rq_id = i, rq_model_key = ''m'', rq_session_id = Some ''s'', rq_api_key = None,
     rq_email = None, rq_tags = tags, rq_enqueued_at = None\<rparr>"

definition ex_queue :: request_queue where
  "ex_queue = foldl q_step new_queue
     [Put 1 (ex_request ''a'' []) False, Put 2 (ex_request ''b'' []) False, Put 3 (ex_request ''p'' [''priority'']) False]"

theorem put_is_fifo_witness:
  "map rq_id (snapshot (fst (q_put 4 ex_queue (ex_request ''c'' [''priority'']) False))) = [''p'', ''c'', ''a'', ''b'']"
proof -
  have inv: "queue_inv ex_queue" unfolding ex_queue_def by (rule q_steps_inv)
  have le: "\<forall>x \<in> set (q_items ex_queue). fst (snd (fst x)) \<le> 4" by code_simp
  obtain q' r' where p: "q_put 4 ex_queue (ex_request ''c'' [''priority'']) False = (q', r')" by fastforce
  have "rq_id r' = ''c''" using p by (auto simp: q_put_def Let_def ex_request_def)
  moreover have "map (rq_id \<circ> snd) (filter (\<lambda>x. fst (fst x) \<le> 1) (sort_key fst (q_items ex_queue))) = [''p'']"
    "map (rq_id \<circ> snd) (filter (\<lambda>x. \<not> fst (fst x) \<le> 1) (sort_key fst (q_items ex_queue))) = [''a'', ''b'']"
    by code_simp+
  moreover have "rank (ex_request ''c'' [''priority'']) False = 1" by (simp add: rank_def priority_def ex_request_def)
  ultimately show ?thesis using put_is_fifo[OF inv _ le p] p by (simp add: ex_request_def)
qed

text \<open>C10. The heap implements the list: on a queue whose requests have different ids, \<open>get\<close> returns and
  removes the head of the snapshot and waits exactly when there is none; \<open>remove\<close> takes exactly
  the request with the id out and keeps the order of the others, and changes nothing when there is
  none; \<open>position\<close> is the place in the snapshot, counted from one.\<close>

theorem queue_refines_list:
  assumes "queue_inv q" and "distinct (map rq_id (snapshot q))"
  shows "(case snapshot q of
       [] \<Rightarrow> q_get q = None
     | r # rs \<Rightarrow> \<exists>q'. q_get q = Some (r, q') \<and> snapshot q' = rs \<and> queue_inv q') \<and>
    (if i \<in> rq_id ` set (snapshot q)
     then \<exists>q' r. q_remove q i = (q', Some r) \<and> rq_id r = i \<and> queue_inv q' \<and>
            snapshot q' = filter (\<lambda>x. rq_id x \<noteq> i) (snapshot q)
     else q_remove q i = (q, None)) \<and>
    (\<forall>j < length (snapshot q). position q (rq_id (snapshot q ! j)) = Some (j + 1))"
proof (intro conjI)
  show "case snapshot q of [] \<Rightarrow> q_get q = None
      | r # rs \<Rightarrow> \<exists>q'. q_get q = Some (r, q') \<and> snapshot q' = rs \<and> queue_inv q'"
  proof (cases "q_get q")
    case None
    then show ?thesis using get_None[of q] by simp
  next
    case (Some p)
    then show ?thesis using get_inv[OF assms(1), of "fst p" "snd p"] by (cases p) simp
  qed
  have ids: "(rq_id \<circ> snd) ` set (q_items q) = rq_id ` set (snapshot q)" by (simp add: snapshot_def image_comp)
  show "if i \<in> rq_id ` set (snapshot q)
     then \<exists>q' r. q_remove q i = (q', Some r) \<and> rq_id r = i \<and> queue_inv q' \<and>
            snapshot q' = filter (\<lambda>x. rq_id x \<noteq> i) (snapshot q)
     else q_remove q i = (q, None)"
  proof (cases "cut_id i (q_items q)")
    case None
    then have "i \<notin> rq_id ` set (snapshot q)" using cut_id_None[of i "q_items q"] unfolding ids by simp
    with None show ?thesis by (simp add: q_remove_def)
  next
    case (Some p)
    then obtain q' r where rm: "q_remove q i = (q', Some r)" by (cases p) (auto simp: q_remove_def)
    moreover have "i \<in> rq_id ` set (snapshot q)" using Some cut_id_None[of i "q_items q"] unfolding ids by simp
    ultimately show ?thesis using remove_inv[OF assms(1) rm] snapshot_remove[OF assms(1) rm assms(2)] by simp
  qed
  show "\<forall>j < length (snapshot q). position q (rq_id (snapshot q ! j)) = Some (j + 1)"
    using position_snapshot[OF assms] by (simp add: size_snapshot)
qed

theorem queue_refines_list_witness:
  "position ex_queue ''p'' = Some 1 \<and> position ex_queue ''b'' = Some 3"
proof -
  have inv: "queue_inv ex_queue" unfolding ex_queue_def by (rule q_steps_inv)
  have s: "map rq_id (snapshot ex_queue) = [''p'', ''a'', ''b'']" by code_simp
  have len: "length (snapshot ex_queue) = 3" using arg_cong[OF s, of length] by simp
  have at: "rq_id (snapshot ex_queue ! 0) = ''p''" "rq_id (snapshot ex_queue ! 2) = ''b''"
    using s len nth_map[of 0 "snapshot ex_queue" rq_id] nth_map[of 2 "snapshot ex_queue" rq_id] by simp_all
  from queue_refines_list[OF inv, of "''z''"] s
  have pos: "\<forall>j < length (snapshot ex_queue). position ex_queue (rq_id (snapshot ex_queue ! j)) = Some (j + 1)" by simp
  show ?thesis using pos[rule_format, of 0] pos[rule_format, of 2] at len by simp
qed

end
