(* ===== verification/Processor.thy ===== *)
theory Processor
  imports Request_Queue
begin

text \<open>
  \<open>queue/processor.py\<close> and \<open>queue/replica.py\<close>: the queue, the replica pool and the workers of one
  model, as a machine whose steps are what runs between two awaits on Ray, on the queue or on a
  timer (asyncio switches tasks nowhere else; the publication of a status message is part of the
  step that sends it). A suspended coroutine of the processor is an entry of \<open>pr_tasks\<close>, a worker
  task an entry of \<open>pr_workers\<close>; the \<open>Replica\<close> objects are in a store, since a coroutine may hold one
  that is no longer in the pool, and a replica started twice has two workers and the \<open>task\<close> of the
  second. What Ray and the controller answer are arguments of the events.
\<close>

section \<open>Errors\<close>

datatype err_kind = ValueErr | ActorDiedErr | CachedActorErr | ActorUnavailableErr | DeploymentErr | OtherErr

record err =
  err_kind :: err_kind
  err_cause :: "err_kind option" \<comment> \<open>\<open>.cause\<close> of a \<open>RayTaskError\<close>\<close>
  err_text :: string

definition evicted_errors :: "err_kind set" where
  "evicted_errors = {ValueErr, ActorDiedErr, CachedActorErr}"

definition evicted :: "err \<Rightarrow> bool" where
  "evicted e \<longleftrightarrow> err_kind e \<in> evicted_errors \<or> (\<exists>c \<in> set_option (err_cause e). c \<in> evicted_errors)"

section \<open>State\<close>

datatype processor_status = UNINITIALIZED | P_PROVISIONING | P_DEPLOYING | READY | CANCELLED

text \<open>Where a worker is: at \<open>queue.get\<close>, at \<open>handle.run\<close> with its request, at the wait for a
  restarting actor, or done. It is created at its first \<open>queue.get\<close>.\<close>

datatype place = AtGet | AtRun request | AtRestart | Done

record worker =
  wk_replica :: nat
  wk_at :: place
  wk_cancelled :: bool \<comment> \<open>\<open>cancel()\<close> was called on the task and it has not been resumed since\<close>

record replica =
  rep_id :: replica_id
  rep_task :: "nat option"
  rep_current :: "(request \<times> rat) option" \<comment> \<open>\<open>current_request\<close> and \<open>current_started_at\<close>\<close>

text \<open>The coroutines that may be suspended, with what they hold.\<close>

datatype task =
    StartQuery \<comment> \<open>\<open>start\<close>, at \<open>get_deployment\<close>\<close>
  | StartProvision \<comment> \<open>\<open>start\<close>, at \<open>Replica.provision\<close>\<close>
  | StartWait "nat list" \<comment> \<open>\<open>start\<close>, at \<open>wait\<close> of the first of these replicas\<close>
  | ScaleProvision \<comment> \<open>\<open>scale_up\<close>, at \<open>Replica.provision\<close>\<close>
  | ScaleWait nat \<comment> \<open>\<open>scale_up\<close>, at \<open>wait\<close>\<close>
  | Adopt nat
  | KillWait nat request \<comment> \<open>\<open>cancel\<close> with \<open>interrupt\<close>, until the dispatch returns\<close>

record processor =
  pr_model_key :: model_key
  pr_queue :: request_queue
  pr_status :: processor_status
  pr_replicas :: "(replica_id, nat) dict"
  pr_objects :: "replica list"
  pr_workers :: "worker list"
  pr_errors :: "err list" \<comment> \<open>what it put on the \<open>error_queue\<close>\<close>
  pr_tasks :: "task list"

definition new_processor :: "model_key \<Rightarrow> processor" where
  "new_processor mk =
     \<lparr>pr_model_key = mk, pr_queue = new_queue, pr_status = UNINITIALIZED, pr_replicas = [],
      pr_objects = [], pr_workers = [], pr_errors = [], pr_tasks = []\<rparr>"

text \<open>What a step shows: the messages sent, and the runs that came back.\<close>

datatype out = Sent request req_status string | RunDone request

section \<open>Replicas\<close>

definition worker_done :: "processor \<Rightarrow> nat \<Rightarrow> bool" where
  "worker_done p k \<longleftrightarrow> \<not> k < length (pr_workers p) \<or> wk_at (pr_workers p ! k) = Done"

definition dropped :: "processor \<Rightarrow> nat \<Rightarrow> bool" where
  "dropped p a \<longleftrightarrow> (case rep_task (pr_objects p ! a) of None \<Rightarrow> True | Some k \<Rightarrow> worker_done p k)"

definition current_request :: "processor \<Rightarrow> nat \<Rightarrow> request option" where
  "current_request p a = map_option fst (rep_current (pr_objects p ! a))"

definition rep_busy :: "processor \<Rightarrow> nat \<Rightarrow> bool" where
  "rep_busy p a \<longleftrightarrow> current_request p a \<noteq> None"

definition pr_busy :: "processor \<Rightarrow> bool" where
  "pr_busy p \<longleftrightarrow> list_ex (rep_busy p) (map snd (pr_replicas p))"

text \<open>\<open>Replica(...)\<close>, then \<open>replicas[replica_id] = replica\<close>.\<close>

definition register :: "processor \<Rightarrow> replica_id \<Rightarrow> processor \<times> nat" where
  "register p rid =
     (let a = length (pr_objects p) in
      (p\<lparr>pr_objects := pr_objects p @ [\<lparr>rep_id = rid, rep_task = None, rep_current = None\<rparr>],
         pr_replicas := dict_set rid a (pr_replicas p)\<rparr>, a))"

fun register_all :: "processor \<Rightarrow> replica_id list \<Rightarrow> processor \<times> nat list" where
  "register_all p [] = (p, [])"
| "register_all p (rid # rids) =
     (case register p rid of
        (p1, a) \<Rightarrow> (case register_all p1 rids of (p2, as) \<Rightarrow> (p2, a # as)))"

definition set_current :: "processor \<Rightarrow> nat \<Rightarrow> (request \<times> rat) option \<Rightarrow> processor" where
  "set_current p a c = p\<lparr>pr_objects := (pr_objects p)[a := (pr_objects p ! a)\<lparr>rep_current := c\<rparr>]\<rparr>"

definition set_task :: "processor \<Rightarrow> nat \<Rightarrow> nat option \<Rightarrow> processor" where
  "set_task p a t = p\<lparr>pr_objects := (pr_objects p)[a := (pr_objects p ! a)\<lparr>rep_task := t\<rparr>]\<rparr>"

definition set_place :: "processor \<Rightarrow> nat \<Rightarrow> place \<Rightarrow> processor" where
  "set_place p k l = p\<lparr>pr_workers := (pr_workers p)[k := (pr_workers p ! k)\<lparr>wk_at := l\<rparr>]\<rparr>"

definition cancel_task :: "processor \<Rightarrow> nat \<Rightarrow> processor" where
  "cancel_task p k = p\<lparr>pr_workers := (pr_workers p)[k := (pr_workers p ! k)\<lparr>wk_cancelled := True\<rparr>]\<rparr>"

text \<open>\<open>Replica.start\<close>\<close>

definition start_worker :: "processor \<Rightarrow> nat \<Rightarrow> processor" where
  "start_worker p a =
     set_task (p\<lparr>pr_workers := pr_workers p @ [\<lparr>wk_replica = a, wk_at = AtGet, wk_cancelled = False\<rparr>]\<rparr>)
       a (Some (length (pr_workers p)))"

definition drop_replica :: "processor \<Rightarrow> nat \<Rightarrow> processor" where
  "drop_replica p a = p\<lparr>pr_replicas := dict_del (rep_id (pr_objects p ! a)) (pr_replicas p)\<rparr>"

definition report :: "processor \<Rightarrow> err \<Rightarrow> processor" where
  "report p e = p\<lparr>pr_errors := pr_errors p @ [e]\<rparr>"

text \<open>\<open>Replica.provision\<close>, given the controller's answer: \<open>results[model_key]\<close>, its error, its first
  replica. \<open>render\<close> is the text of a deploy error.\<close>

definition provision ::
  "(deploy_error \<Rightarrow> string) \<Rightarrow> model_key \<Rightarrow> err + deploy_response \<Rightarrow> err + replica_id" where
  "provision render mk answer =
     (case answer of
        Inl e \<Rightarrow> Inl e
      | Inr resp \<Rightarrow>
          (case map_of (resp_results resp) mk of
             None \<Rightarrow> Inl \<lparr>err_kind = OtherErr, err_cause = None, err_text = mk\<rparr>
           | Some r \<Rightarrow>
               (case res_error r of
                  Some e \<Rightarrow> Inl \<lparr>err_kind = DeploymentErr, err_cause = None, err_text = render e\<rparr>
                | None \<Rightarrow>
                    (case res_replicas r of
                       [] \<Rightarrow> Inl \<lparr>err_kind = OtherErr, err_cause = None, err_text = ''list index out of range''\<rparr>
                     | rid # _ \<Rightarrow> Inr rid))))"

section \<open>Messages\<close>

fun dec :: "nat \<Rightarrow> string" where
  "dec n = (if n < 10 then [char_of (48 + n)] else dec (n div 10) @ [char_of (48 + n mod 10)])"

declare dec.simps [simp del]

definition setting_up :: "processor \<Rightarrow> bool" where
  "setting_up p \<longleftrightarrow> pr_status p = P_PROVISIONING \<or> pr_status p = P_DEPLOYING"

text \<open>\<open>reply\<close>\<close>

definition reply_text :: "processor \<Rightarrow> string option \<Rightarrow> req_status \<Rightarrow> string option \<times> req_status" where
  "reply_text p description st =
     (if description = None \<and> pr_status p = P_PROVISIONING then (Some ''Model Provisioning...'', PROVISIONING)
      else if description = None \<and> pr_status p = P_DEPLOYING then (Some ''Model Deploying...'', DEPLOYING)
      else (description, st))"

definition reply_one :: "processor \<Rightarrow> request \<Rightarrow> string option \<Rightarrow> req_status \<Rightarrow> out list" where
  "reply_one p r description st =
     (case reply_text p description st of
        (d, s) \<Rightarrow> [Sent r s (case d of None \<Rightarrow> [] | Some x \<Rightarrow> x)])"

definition reply_all :: "processor \<Rightarrow> string option \<Rightarrow> req_status \<Rightarrow> out list" where
  "reply_all p description st =
     (case reply_text p description st of
        (d, s) \<Rightarrow>
          map (\<lambda>(i, r). Sent r s
                 (case d of None \<Rightarrow> ''Moved to position '' @ dec (i + 1) @ '' in Queue.'' | Some x \<Rightarrow> x))
            (enumerate 0 (snapshot (pr_queue p))))"

section \<open>The queue side\<close>

definition ensure_started :: "processor \<Rightarrow> processor" where
  "ensure_started p =
     (if pr_replicas p \<noteq> [] then p
      else if setting_up p then p
      else p\<lparr>pr_status := P_PROVISIONING, pr_tasks := pr_tasks p @ [StartQuery]\<rparr>)"

definition mark_idle :: "processor \<Rightarrow> processor" where
  "mark_idle p = (if pr_replicas p = [] then p\<lparr>pr_status := UNINITIALIZED\<rparr> else p)"

definition enqueue :: "rat \<Rightarrow> processor \<Rightarrow> request \<Rightarrow> bool \<Rightarrow> processor \<times> out list" where
  "enqueue now p r prepend =
     (case q_put now (pr_queue p) r prepend of
        (q, r') \<Rightarrow>
          let p1 = ensure_started (p\<lparr>pr_queue := q\<rparr>);
              pos = (case position q (rq_id r') of None \<Rightarrow> qsize q | Some k \<Rightarrow> k)
          in (p1, reply_one p1 r'
                (if setting_up p1 then None else Some (''Added to Queue at position '' @ dec pos @ ''.'')) QUEUED))"

text \<open>\<open>Replica.cancel\<close> without \<open>interrupt\<close>.\<close>

definition default_cancel :: string where
  "default_cancel =
     ''Replica was evicted while processing your request. Sorry for the inconvenience. Please try again later.''"

definition cancel_worker :: "processor \<Rightarrow> nat \<Rightarrow> processor" where
  "cancel_worker p a =
     (case rep_task (pr_objects p ! a) of
        None \<Rightarrow> p | Some k \<Rightarrow> if worker_done p k then p else cancel_task p k)"

definition cancel :: "processor \<Rightarrow> nat \<Rightarrow> string \<Rightarrow> processor \<times> out list" where
  "cancel p a message =
     (cancel_worker p a,
      case current_request p a of
        None \<Rightarrow> []
      | Some r \<Rightarrow> [Sent r ERROR (if message = [] then default_cancel else message)])"

fun cancel_all :: "processor \<Rightarrow> nat list \<Rightarrow> string \<Rightarrow> processor \<times> out list" where
  "cancel_all p [] message = (p, [])"
| "cancel_all p (a # as) message =
     (case cancel p a message of
        (p1, o1) \<Rightarrow> (case cancel_all p1 as message of (p2, o2) \<Rightarrow> (p2, o1 @ o2)))"

definition purge_text :: string where
  "purge_text = ''Critical server error occurred. Please try again later. Sorry for the inconvenience.''"

text \<open>\<open>purge\<close>: the queued requests are told; then the queue is dropped and the replicas cancelled.\<close>

definition purge_tell :: "processor \<Rightarrow> string \<Rightarrow> out list" where
  "purge_tell p text = reply_all p (Some text) ERROR"

definition purge_drop :: "processor \<Rightarrow> string \<Rightarrow> processor \<times> out list" where
  "purge_drop p text =
     (let p1 = p\<lparr>pr_queue := q_clear (pr_queue p)\<rparr> in
      case cancel_all p1 (map snd (pr_replicas p1)) text of
        (p2, o2) \<Rightarrow> (p2\<lparr>pr_replicas := [], pr_status := UNINITIALIZED\<rparr>, o2))"

definition purge :: "processor \<Rightarrow> string option \<Rightarrow> processor \<times> out list" where
  "purge p message =
     (let text = (case message of None \<Rightarrow> purge_text | Some m \<Rightarrow> m) in
      case purge_drop p text of (p1, o1) \<Rightarrow> (p1, purge_tell p text @ o1))"

section \<open>Starting\<close>

definition starting_error :: string where
  "starting_error = ''Error starting model. Please try again later. Sorry for the inconvenience.''"

definition provisioning_error :: string where
  "provisioning_error = ''Error provisioning model. Please try again later. Sorry for the inconvenience.''"

definition trust_error :: string where
  "trust_error =
     ''This model runs code from its own repository (trust_remote_code=True), and deploying such a model '' @
     ''needs an API key with the `trust_remote_code` or `trusted` tag. Ask an NDIF admin to deploy it, or '' @
     ''to grant your key the tag.''"

definition space :: "char \<Rightarrow> bool" where
  "space c \<longleftrightarrow> c \<in> set '' '' \<or> of_char c \<in> {9 :: nat, 10, 11, 12, 13, 28, 29, 30, 31}"

definition rstrip :: "string \<Rightarrow> string" where
  "rstrip s = rev (dropWhile space (rev s))"

definition strip :: "string \<Rightarrow> string" where
  "strip s = rstrip (dropWhile space s)"

definition max_reason_chars :: nat where
  "max_reason_chars = 1500"

text \<open>The mark of a cut text, in UTF-8.\<close>

definition ellipsis :: string where
  "ellipsis = map char_of [226 :: nat, 128, 166]"

definition user_message :: "err \<Rightarrow> string \<Rightarrow> string" where
  "user_message e error_message =
     (if err_kind e = DeploymentErr
      then
        let reason = strip (err_text e) in
        ''Could not deploy this model. '' @
        (if length reason > max_reason_chars
         then rstrip (take max_reason_chars reason) @ ellipsis else reason)
      else error_message)"

text \<open>The handler of \<open>start\<close>: a processor that is serving is not purged.\<close>

definition start_failed :: "processor \<Rightarrow> err \<Rightarrow> string \<Rightarrow> processor \<times> out list" where
  "start_failed p e error_message =
     (let p1 = report p e in
      if pr_status p1 \<noteq> READY then purge p1 (Some (user_message e error_message)) else (p1, []))"

definition add_task :: "processor \<Rightarrow> task \<Rightarrow> processor" where
  "add_task p t = p\<lparr>pr_tasks := pr_tasks p @ [t]\<rparr>"

text \<open>From the registered replicas on: the status message, and the wait for each replica of the pool.\<close>

definition start_deploying :: "processor \<Rightarrow> processor \<times> out list" where
  "start_deploying p =
     (let p1 = p\<lparr>pr_status := P_DEPLOYING\<rparr> in
      (add_task p1 (StartWait (map snd (pr_replicas p1))), reply_all p1 None QUEUED))"

text \<open>\<open>start\<close> resumed with the answer of \<open>get_deployment\<close>.\<close>

definition start_query ::
  "(string \<Rightarrow> json option) \<Rightarrow> processor \<Rightarrow> err + replica_id list \<Rightarrow> processor \<times> out list" where
  "start_query loads p answer =
     (case answer of
        Inl e \<Rightarrow> start_failed p e starting_error
      | Inr [] \<Rightarrow>
          if truthy (key_field loads (pr_model_key p) ''trust_remote_code'') \<and>
             \<not> list_ex trust_remote_code (snapshot (pr_queue p))
          then start_failed p \<lparr>err_kind = DeploymentErr, err_cause = None, err_text = trust_error\<rparr> provisioning_error
          else (add_task p StartProvision, [])
      | Inr rids \<Rightarrow> start_deploying (fst (register_all p rids)))"

definition start_provision :: "processor \<Rightarrow> err + replica_id \<Rightarrow> processor \<times> out list" where
  "start_provision p answer =
     (case answer of
        Inl e \<Rightarrow> start_failed p e provisioning_error
      | Inr rid \<Rightarrow> start_deploying (fst (register p rid)))"

text \<open>\<open>start\<close> resumed when \<open>wait\<close> of the first replica of the list returned or raised.\<close>

definition start_wait :: "processor \<Rightarrow> nat list \<Rightarrow> err option \<Rightarrow> processor \<times> out list" where
  "start_wait p waiting answer =
     (case waiting of
        [] \<Rightarrow> (p, reply_all p None QUEUED)
      | a # rest \<Rightarrow>
          (case answer of
             Some e \<Rightarrow> start_failed p e starting_error
           | None \<Rightarrow>
               let p1 = (start_worker p a)\<lparr>pr_status := READY\<rparr> in
               if rest = [] then (p1, reply_all p1 None QUEUED) else (add_task p1 (StartWait rest), [])))"

section \<open>Growing and adopting\<close>

record queue_config =
  cf_wait_threshold_s :: rat
  cf_max_replicas :: nat

text \<open>A tick of \<open>autoscaling_loop\<close>.\<close>

definition wants_scale_up :: "queue_config \<Rightarrow> rat \<Rightarrow> processor \<Rightarrow> bool" where
  "wants_scale_up cf now p \<longleftrightarrow>
     pr_status p = READY \<and>
     (case oldest (pr_queue p) of
        None \<Rightarrow> False
      | Some r \<Rightarrow>
          (case rq_enqueued_at r of
             None \<Rightarrow> False
           | Some t \<Rightarrow> now - t > cf_wait_threshold_s cf \<and> length (pr_replicas p) < cf_max_replicas cf))"

definition autoscale :: "queue_config \<Rightarrow> rat \<Rightarrow> processor \<Rightarrow> processor" where
  "autoscale cf now p = (if wants_scale_up cf now p then add_task p ScaleProvision else p)"

definition scale_provision :: "processor \<Rightarrow> err + replica_id \<Rightarrow> processor" where
  "scale_provision p answer =
     (case answer of
        Inl e \<Rightarrow> report p e
      | Inr rid \<Rightarrow> (case register p rid of (p1, a) \<Rightarrow> add_task p1 (ScaleWait a)))"

definition scale_wait :: "processor \<Rightarrow> nat \<Rightarrow> err option \<Rightarrow> processor" where
  "scale_wait p a answer =
     (case answer of Some e \<Rightarrow> report (drop_replica p a) e | None \<Rightarrow> start_worker p a)"

definition reconcile :: "processor \<Rightarrow> err + replica_id list \<Rightarrow> processor" where
  "reconcile p answer =
     (case answer of
        Inl e \<Rightarrow> report p e
      | Inr rids \<Rightarrow>
          if setting_up p then p
          else
            (case register_all p (filter (\<lambda>rid. rid \<notin> fst ` set (pr_replicas p)) (remdups rids)) of
               (p1, as) \<Rightarrow> fold (\<lambda>a p. add_task p (Adopt a)) as p1))"

definition adopt :: "processor \<Rightarrow> nat \<Rightarrow> err option \<Rightarrow> processor \<times> out list" where
  "adopt p a answer =
     (case answer of
        Some e \<Rightarrow> (report (drop_replica p a) e, [])
      | None \<Rightarrow> let p1 = (start_worker p a)\<lparr>pr_status := READY\<rparr> in (p1, reply_all p1 None QUEUED))"

section \<open>Workers\<close>

text \<open>The \<open>finally\<close> of \<open>worker\<close>.\<close>

definition worker_exit :: "processor \<Rightarrow> nat \<Rightarrow> processor" where
  "worker_exit p k =
     (let p1 = drop_replica (set_place p k Done) (wk_replica (pr_workers p ! k)) in
      if qsize (pr_queue p1) \<noteq> 0 then ensure_started p1 else mark_idle p1)"

text \<open>The end of \<open>dispatch\<close>, and the loop condition of \<open>worker\<close>.\<close>

definition worker_loop :: "processor \<Rightarrow> nat \<Rightarrow> processor" where
  "worker_loop p k =
     (let a = wk_replica (pr_workers p ! k); p1 = set_current p a None in
      if dropped p1 a then worker_exit p1 k else set_place p1 k AtGet)"

definition worker_raise :: "processor \<Rightarrow> nat \<Rightarrow> processor" where
  "worker_raise p k = worker_exit (set_current p (wk_replica (pr_workers p ! k)) None) k"

definition submit_error :: string where
  "submit_error = ''Error submitting request to model deployment. Please try again later. Sorry for the inconvenience.''"

text \<open>The \<open>except Exception\<close> of \<open>dispatch\<close>, on the request in flight. A re-queued request leaves
  the worker at its exit, so the place is \<open>AtGet\<close> while it is put back.\<close>

definition dispatch_failed :: "rat \<Rightarrow> processor \<Rightarrow> nat \<Rightarrow> request \<Rightarrow> err \<Rightarrow> processor \<times> out list" where
  "dispatch_failed now p k r e =
     (let a = wk_replica (pr_workers p ! k) in
      if evicted e
      then
        (case enqueue now (set_task (set_place p k AtGet) a None) r True of
           (p1, o1) \<Rightarrow> (worker_loop p1 k, o1))
      else
        (let p1 = report (set_place p k AtRestart) e in
         (if err_kind e = ActorUnavailableErr then p1 else worker_loop p1 k,
          [Sent r ERROR submit_error])))"

definition dispatched_text :: string where
  "dispatched_text = ''Your job has been sent to the model deployment.''"

text \<open>A worker takes the next request; \<open>lookup\<close> is the error of \<open>get_model_actor_handle\<close>, if any.\<close>

definition worker_take :: "rat \<Rightarrow> processor \<Rightarrow> nat \<Rightarrow> err option \<Rightarrow> (processor \<times> out list) option" where
  "worker_take now p k lookup =
     (case q_get (pr_queue p) of
        None \<Rightarrow> None
      | Some (r, q) \<Rightarrow>
          let p1 = set_place (set_current (p\<lparr>pr_queue := q\<rparr>) (wk_replica (pr_workers p ! k)) (Some (r, now))) k (AtRun r) in
          Some (case lookup of
                  None \<Rightarrow> (p1, [Sent r DISPATCHED dispatched_text])
                | Some e \<Rightarrow> dispatch_failed now p1 k r e))"

text \<open>A cancelled worker is resumed.\<close>

definition cancelled_exit :: "processor \<Rightarrow> nat \<Rightarrow> processor \<times> out list" where
  "cancelled_exit p k =
     (case wk_at (pr_workers p ! k) of
        AtRun r \<Rightarrow> (worker_raise p k, [Sent r ERROR default_cancel])
      | AtRestart \<Rightarrow> (worker_raise p k, [])
      | _ \<Rightarrow> (worker_exit p k, []))"

section \<open>Operations of the dispatcher\<close>

definition pop_queued :: "processor \<Rightarrow> string \<Rightarrow> processor \<times> request option" where
  "pop_queued p i = (case q_remove (pr_queue p) i of (q, r) \<Rightarrow> (p\<lparr>pr_queue := q\<rparr>, r))"

definition executing_replica :: "processor \<Rightarrow> string \<Rightarrow> nat option" where
  "executing_replica p i =
     find (\<lambda>a. case current_request p a of Some r \<Rightarrow> rq_id r = i | None \<Rightarrow> False)
       (map snd (pr_replicas p))"

text \<open>\<open>snapshot\<close>\<close>

record replica_view =
  rv_replica_id :: replica_id
  rv_ready :: bool
  rv_busy :: bool
  rv_current_request_id :: "string option"
  rv_current_started_at :: "rat option"

record processor_view =
  pv_model_key :: model_key
  pv_status :: processor_status
  pv_queue_size :: nat
  pv_request_ids :: "string list"
  pv_replicas :: "replica_view list"

definition view_replica :: "processor \<Rightarrow> nat \<Rightarrow> replica_view" where
  "view_replica p a =
     \<lparr>rv_replica_id = rep_id (pr_objects p ! a), rv_ready = (\<not> dropped p a), rv_busy = rep_busy p a,
      rv_current_request_id = map_option rq_id (current_request p a),
      rv_current_started_at = map_option snd (rep_current (pr_objects p ! a))\<rparr>"

definition view_processor :: "processor \<Rightarrow> processor_view" where
  "view_processor p =
     \<lparr>pv_model_key = pr_model_key p, pv_status = pr_status p, pv_queue_size = qsize (pr_queue p),
      pv_request_ids = map rq_id (snapshot (pr_queue p)),
      pv_replicas = map (\<lambda>(_, a). view_replica p a) (pr_replicas p)\<rparr>"

end
