(* ===== verification/Processor_Steps.thy ===== *)
theory Processor_Steps
  imports Processor
begin

text \<open>
  The processor of a model as a transition system: the events that can resume one of its
  coroutines, what each does, and the states reached. The lemmas follow the requests: at every
  step each is in the queue, in flight on a worker, or answered.
\<close>

section \<open>Events\<close>

record environment =
  en_loads :: "string \<Rightarrow> json option"
  en_render :: "deploy_error \<Rightarrow> string"
  en_config :: queue_config

datatype event =
    Enqueued rat request
  | QueryAnswered "err + replica_id list"
  | ProvisionAnswered "err + deploy_response"
  | StartReady "nat list" "err option"
  | Tick rat
  | ScaleAnswered "err + deploy_response"
  | ScaleReady nat "err option"
  | Reconciled "err + replica_id list"
  | AdoptReady nat "err option"
  | Take rat nat "err option"
  | RunReturned nat
  | RunRaised rat nat err
  | Restarted nat "err option"
  | CancelDelivered nat
  | Purged string
  | KillQueued string
  | KillExecuting string
  | KillReturned nat request
  | KillTimeout nat request

definition operator_text :: string where
  "operator_text = ''Request cancelled by operator.''"

definition take_task :: "processor \<Rightarrow> task \<Rightarrow> processor option" where
  "take_task p t = (if t \<in> set (pr_tasks p) then Some (p\<lparr>pr_tasks := remove1 t (pr_tasks p)\<rparr>) else None)"

text \<open>A worker that can be resumed, without a cancellation waiting for it.\<close>

definition place_of :: "processor \<Rightarrow> nat \<Rightarrow> place" where
  "place_of p k = (if worker_done p k then Done else wk_at (pr_workers p ! k))"

definition undisturbed :: "processor \<Rightarrow> nat \<Rightarrow> bool" where
  "undisturbed p k \<longleftrightarrow> \<not> worker_done p k \<and> \<not> wk_cancelled (pr_workers p ! k)"

text \<open>\<open>None\<close> when the event cannot happen.\<close>

fun fire :: "environment \<Rightarrow> event \<Rightarrow> processor \<Rightarrow> (processor \<times> out list) option" where
  "fire en (Enqueued now r) p = Some (enqueue now p r False)"
| "fire en (QueryAnswered answer) p =
     map_option (\<lambda>p1. start_query (en_loads en) p1 answer) (take_task p StartQuery)"
| "fire en (ProvisionAnswered answer) p =
     map_option (\<lambda>p1. start_provision p1 (provision (en_render en) (pr_model_key p) answer)) (take_task p StartProvision)"
| "fire en (StartReady waiting answer) p =
     map_option (\<lambda>p1. start_wait p1 waiting answer) (take_task p (StartWait waiting))"
| "fire en (Tick now) p =
     (if \<exists>t \<in> set (pr_tasks p). t = ScaleProvision \<or> (case t of ScaleWait _ \<Rightarrow> True | _ \<Rightarrow> False) then None
      else Some (autoscale (en_config en) now p, []))"
| "fire en (ScaleAnswered answer) p =
     map_option (\<lambda>p1. (scale_provision p1 (provision (en_render en) (pr_model_key p) answer), [])) (take_task p ScaleProvision)"
| "fire en (ScaleReady a answer) p = map_option (\<lambda>p1. (scale_wait p1 a answer, [])) (take_task p (ScaleWait a))"
| "fire en (Reconciled answer) p = Some (reconcile p answer, [])"
| "fire en (AdoptReady a answer) p = map_option (\<lambda>p1. adopt p1 a answer) (take_task p (Adopt a))"
| "fire en (Take now k lookup) p =
     (if undisturbed p k \<and> place_of p k = AtGet then worker_take now p k lookup else None)"
| "fire en (RunReturned k) p =
     (case place_of p k of
        AtRun r \<Rightarrow> if undisturbed p k then Some (worker_loop p k, [RunDone r]) else None
      | _ \<Rightarrow> None)"
| "fire en (RunRaised now k e) p =
     (case place_of p k of
        AtRun r \<Rightarrow> if undisturbed p k then Some (dispatch_failed now p k r e) else None
      | _ \<Rightarrow> None)"
| "fire en (Restarted k answer) p =
     (if undisturbed p k \<and> place_of p k = AtRestart
      then Some (case answer of None \<Rightarrow> worker_loop p k | Some _ \<Rightarrow> worker_raise p k, [])
      else None)"
| "fire en (CancelDelivered k) p =
     (if \<not> worker_done p k \<and> \<not> undisturbed p k then Some (cancelled_exit p k) else None)"
| "fire en (Purged message) p = Some (purge p (Some message))"
| "fire en (KillQueued i) p =
     (case pop_queued p i of (p1, None) \<Rightarrow> None | (p1, Some r) \<Rightarrow> Some (p1, [Sent r ERROR operator_text]))"
| "fire en (KillExecuting i) p =
     (case executing_replica p i of
        None \<Rightarrow> None
      | Some a \<Rightarrow>
          (case current_request p a of
             None \<Rightarrow> None
           | Some r \<Rightarrow> Some (add_task p (KillWait a r), [Sent r ERROR operator_text])))"
| "fire en (KillReturned a r) p =
     (if current_request p a \<noteq> Some r then map_option (\<lambda>p1. (p1, [])) (take_task p (KillWait a r)) else None)"
| "fire en (KillTimeout a r) p =
     (if current_request p a = Some r
      then map_option (\<lambda>p1. (cancel_worker p1 a, [])) (take_task p (KillWait a r)) else None)"

text \<open>The states a processor can be in.\<close>

inductive reachable :: "environment \<Rightarrow> processor \<Rightarrow> bool" for en where
  initial: "reachable en (new_processor mk)"
| step: "reachable en p \<Longrightarrow> fire en ev p = Some (p', outs) \<Longrightarrow> reachable en p'"

fun run_events :: "environment \<Rightarrow> event list \<Rightarrow> processor \<Rightarrow> (processor \<times> out list) option" where
  "run_events en [] p = Some (p, [])"
| "run_events en (ev # evs) p =
     (case fire en ev p of
        None \<Rightarrow> None
      | Some (p1, o1) \<Rightarrow> map_option (\<lambda>(p2, o2). (p2, o1 @ o2)) (run_events en evs p1))"

lemma run_events_reachable: "reachable en p \<Longrightarrow> run_events en evs p = Some (p', outs) \<Longrightarrow> reachable en p'"
  by (induction evs arbitrary: p outs) (auto split: option.splits intro: step)

section \<open>Where the requests are\<close>

text \<open>A request as its client knows it: the id, and the model it is for.\<close>

type_synonym request_ref = "string \<times> model_key"

definition rq_ref :: "request \<Rightarrow> request_ref" where
  "rq_ref r = (rq_id r, rq_model_key r)"

lemma rq_ref_enqueued [simp]: "rq_ref (r\<lparr>rq_enqueued_at := t\<rparr>) = rq_ref r"
  by (simp add: rq_ref_def)

text \<open>The requests in flight, and those the processor answers for.\<close>

definition in_flight :: "processor \<Rightarrow> request list" where
  "in_flight p = List.map_filter (\<lambda>w. case wk_at w of AtRun r \<Rightarrow> Some r | _ \<Rightarrow> None) (pr_workers p)"

definition pending :: "processor \<Rightarrow> request_ref multiset" where
  "pending p = mset (map (rq_ref \<circ> snd) (q_items (pr_queue p))) + mset (map rq_ref (in_flight p))"

fun arrivals :: "event \<Rightarrow> request_ref multiset" where
  "arrivals (Enqueued _ r) = {#rq_ref r#}"
| "arrivals _ = {#}"

text \<open>The ids a list of outputs closes: an error, or the run's return.\<close>

fun closes :: "out \<Rightarrow> request_ref option" where
  "closes (Sent r ERROR _) = Some (rq_ref r)"
| "closes (Sent r _ _) = None"
| "closes (RunDone r) = Some (rq_ref r)"

definition answered :: "out list \<Rightarrow> request_ref set" where
  "answered outs = {i. Some i \<in> closes ` set outs}"

text \<open>Nothing appears from nowhere, and what goes was answered.\<close>

definition accounted :: "request_ref multiset \<Rightarrow> request_ref multiset \<Rightarrow> out list \<Rightarrow> bool" where
  "accounted before after outs \<longleftrightarrow> after \<subseteq># before \<and> set_mset (before - after) \<subseteq> answered outs"

lemma accounted_refl [simp]: "accounted m m outs"
  by (simp add: accounted_def)

lemma closed_append [simp]: "answered (a @ b) = answered a \<union> answered b"
  by (auto simp: answered_def)

lemma accounted_remove: "i \<in> answered outs \<Longrightarrow> accounted (add_mset i m) m outs"
  by (simp add: accounted_def)

lemma accounted_all: "set_mset m \<subseteq> answered outs \<Longrightarrow> accounted (m + k) k outs"
  by (simp add: accounted_def)

lemma accounted_trans:
  assumes "accounted m n o1" and "accounted n k o2" shows "accounted m k (o1 @ o2)"
proof -
  have "m - k = (m - n) + (n - k)" using assms unfolding accounted_def
    by (metis subset_mset.add_diff_assoc2 subset_mset.diff_add add.commute)
  then have "set_mset (m - k) = set_mset (m - n) \<union> set_mset (n - k)" by (metis set_mset_union)
  moreover have "k \<subseteq># m" using assms by (meson accounted_def subset_mset.trans)
  ultimately show ?thesis using assms by (simp add: accounted_def) blast
qed

text \<open>The account reads the queue and the places of the workers only.\<close>

fun place_ids :: "place \<Rightarrow> request_ref multiset" where
  "place_ids (AtRun r) = {#rq_ref r#}"
| "place_ids _ = {#}"

definition queue_ids :: "request_queue \<Rightarrow> request_ref multiset" where
  "queue_ids q = mset (map (rq_ref \<circ> snd) (q_items q))"

definition places :: "processor \<Rightarrow> place list" where
  "places p = map wk_at (pr_workers p)"

lemma pending_alt: "pending p = queue_ids (pr_queue p) + \<Sum>\<^sub># (mset (map place_ids (places p)))"
proof -
  have "mset (map rq_ref (List.map_filter (\<lambda>w. case wk_at w of AtRun r \<Rightarrow> Some r | _ \<Rightarrow> None) ws)) =
    \<Sum>\<^sub># (mset (map place_ids (map wk_at ws)))" for ws
    by (induction ws) (auto simp: List.map_filter_simps split: place.splits)
  then show ?thesis by (simp add: pending_def queue_ids_def places_def in_flight_def)
qed

lemma pending_cong: "pr_queue p = pr_queue p' \<Longrightarrow> places p = places p' \<Longrightarrow> pending p = pending p'"
  by (simp add: pending_alt)

lemma map_update_same: "f y = f (xs ! k) \<Longrightarrow> map f (xs[k := y]) = map f xs"
  by (cases "k < length xs") (auto simp: map_update list_update_beyond intro!: nth_equalityI simp: nth_list_update)

lemma sum_update:
  "k < length xs \<Longrightarrow> \<Sum>\<^sub># (mset (map f (xs[k := y]))) + f (xs ! k) = \<Sum>\<^sub># (mset (map f xs)) + (f y :: 'a multiset)"
  by (induction xs arbitrary: k) (auto split: nat.splits simp: ac_simps)

text \<open>Most operations do not touch either.\<close>

lemma quiet_fields [simp]:
  "pr_queue (set_current p a c) = pr_queue p" "pr_workers (set_current p a c) = pr_workers p"
  "pr_queue (set_task p a t) = pr_queue p" "pr_workers (set_task p a t) = pr_workers p"
  "pr_queue (drop_replica p a) = pr_queue p" "pr_workers (drop_replica p a) = pr_workers p"
  "pr_queue (report p e) = pr_queue p" "pr_workers (report p e) = pr_workers p"
  "pr_queue (add_task p tk) = pr_queue p" "pr_workers (add_task p tk) = pr_workers p"
  "pr_queue (ensure_started p) = pr_queue p" "pr_workers (ensure_started p) = pr_workers p"
  "pr_queue (mark_idle p) = pr_queue p" "pr_workers (mark_idle p) = pr_workers p"
  "pr_queue (fst (register p rid)) = pr_queue p" "pr_workers (fst (register p rid)) = pr_workers p"
  "pr_queue (set_place p k l) = pr_queue p" "pr_queue (cancel_task p k) = pr_queue p"
  "pr_queue (start_worker p a) = pr_queue p"
  by (simp_all add: set_current_def set_task_def drop_replica_def report_def add_task_def ensure_started_def
      mark_idle_def register_def set_place_def cancel_task_def start_worker_def Let_def)

lemma quiet_places [simp]:
  "places (cancel_task p k) = places p" "places (cancel_worker p a) = places p"
  "pr_queue (cancel_worker p a) = pr_queue p"
proof -
  show "places (cancel_task p k) = places p" for k by (simp add: places_def cancel_task_def map_update_same)
  then show "places (cancel_worker p a) = places p" "pr_queue (cancel_worker p a) = pr_queue p"
    by (simp_all add: cancel_worker_def split: option.split)
qed

lemma quiet_register_all [simp]:
  "pr_queue (fst (register_all p rids)) = pr_queue p" "pr_workers (fst (register_all p rids)) = pr_workers p"
proof (induction rids arbitrary: p)
  case (Cons rid rids)
  case 1 show ?case using Cons(1)[of "fst (register p rid)"] by (simp split: prod.split) (metis fst_conv quiet_fields(15))
  case 2 show ?case using Cons(2)[of "fst (register p rid)"] by (simp split: prod.split) (metis fst_conv quiet_fields(16))
qed simp_all

lemma cancel_all_step:
  "fst (cancel_all p (a # as) m) = fst (cancel_all (cancel_worker p a) as m)"
  by (simp add: cancel_def case_prod_unfold)

lemma quiet_cancel_all [simp]:
  "pr_queue (fst (cancel_all p as m)) = pr_queue p" "places (fst (cancel_all p as m)) = places p"
  by (induction as arbitrary: p) (simp_all only: cancel_all_step quiet_places cancel_all.simps(1) fst_conv)

lemma places_quiet [simp]:
  "places (set_current p a c) = places p" "places (set_task p a t) = places p" "places (drop_replica p a) = places p"
  "places (report p e) = places p" "places (add_task p tk) = places p" "places (ensure_started p) = places p"
  "places (mark_idle p) = places p" "places (fst (register p rid)) = places p"
  "places (fst (register_all p rids)) = places p" "places (set_place p k l) = (places p)[k := l]"
  "places (start_worker p a) = places p @ [AtGet]"
  "places (p\<lparr>pr_queue := q\<rparr>) = places p" "places (p\<lparr>pr_status := st\<rparr>) = places p" "places (p\<lparr>pr_tasks := ts\<rparr>) = places p"
  "places (p\<lparr>pr_replicas := rs\<rparr>) = places p"
  by (simp_all add: places_def map_update set_place_def start_worker_def)

lemma quiet_fold [simp]:
  "pr_queue (fold (\<lambda>a p. add_task p (Adopt a)) as p) = pr_queue p"
  "pr_workers (fold (\<lambda>a p. add_task p (Adopt a)) as p) = pr_workers p"
  by (induction as arbitrary: p) simp_all

end
