(* ===== verification/Processor_Account.thy ===== *)
theory Processor_Account
  imports Processor_Steps
begin

text \<open>
  No request is lost by the processor of a model: over any run, what arrived is still queued, in
  flight on a worker, or was answered, and nothing is served that did not arrive.
\<close>

section \<open>The queue\<close>

lemma queue_ids_snapshot: "queue_ids q = mset (map rq_ref (snapshot q))"
  by (simp add: queue_ids_def snapshot_def)

lemma queue_ids_put: "queue_inv q \<Longrightarrow> queue_ids (fst (q_put now q r b)) = add_mset (rq_ref r) (queue_ids q)"
  using heappush_ok(2)[of fst "q_items q"] queue_invD(1)[of q] by (simp add: queue_ids_def q_put_def Let_def)

lemma queue_ids_get:
  "queue_inv q \<Longrightarrow> q_get q = Some (r, q') \<Longrightarrow> queue_inv q' \<and> queue_ids q = add_mset (rq_ref r) (queue_ids q')"
  using get_inv[of q r q'] by (simp add: queue_ids_snapshot)

lemma queue_ids_remove:
  "queue_inv q \<Longrightarrow> q_remove q i = (q', Some r) \<Longrightarrow> queue_inv q' \<and> queue_ids q = add_mset (rq_ref r) (queue_ids q')"
  using remove_inv[of q i q' r] by (metis queue_ids_snapshot mset_map image_mset_add_mset)

lemma clear_inv: "queue_inv q \<Longrightarrow> queue_inv (q_clear q)"
  using q_step_inv[of q Clear] by simp

section \<open>The operations\<close>

text \<open>\<open>settles p m p' outs\<close>: the queue is kept well formed, and \<open>m\<close> is accounted for.\<close>

definition settles :: "request_ref multiset \<Rightarrow> processor \<times> out list \<Rightarrow> bool" where
  "settles m res \<longleftrightarrow> queue_inv (pr_queue (fst res)) \<and> accounted m (pending (fst res)) (snd res)"

lemma settles_same:
  "queue_inv (pr_queue p) \<Longrightarrow> pr_queue p' = pr_queue p \<Longrightarrow> places p' = places p \<Longrightarrow> settles (pending p) (p', outs)"
  using pending_cong[of p' p] by (simp add: settles_def)

lemma pending_start_worker [simp]: "pending (start_worker p a) = pending p"
  by (simp add: pending_alt)

lemma pending_status [simp]: "pending (p\<lparr>pr_status := st\<rparr>) = pending p" "pending (p\<lparr>pr_tasks := ts\<rparr>) = pending p"
  "pending (p\<lparr>pr_replicas := rs\<rparr>) = pending p"
  by (auto intro: pending_cong)

lemma pending_add_task [simp]: "pending (add_task p tk) = pending p" "pending (report p e) = pending p"
  "pending (drop_replica p a) = pending p" "pending (set_current p a c) = pending p" "pending (set_task p a tk') = pending p"
  "pending (ensure_started p) = pending p" "pending (mark_idle p) = pending p" "pending (cancel_worker p a) = pending p"
  "pending (fst (register_all p rids)) = pending p" "pending (fst (register p rid)) = pending p"
  by (auto intro: pending_cong)

lemma pending_enqueue:
  assumes "queue_inv (pr_queue p)"
  shows "queue_inv (pr_queue (fst (enqueue now p r b)))" and "pending (fst (enqueue now p r b)) = add_mset (rq_ref r) (pending p)"
    and "places (fst (enqueue now p r b)) = places p" and "pr_workers (fst (enqueue now p r b)) = pr_workers p"
proof -
  have e: "pr_queue (fst (enqueue now p r b)) = fst (q_put now (pr_queue p) r b)"
    "places (fst (enqueue now p r b)) = places p" "pr_workers (fst (enqueue now p r b)) = pr_workers p"
    by (simp_all add: enqueue_def Let_def split: prod.split)
  then show "places (fst (enqueue now p r b)) = places p" "pr_workers (fst (enqueue now p r b)) = pr_workers p" by simp_all
  from e assms show "queue_inv (pr_queue (fst (enqueue now p r b)))" by (simp add: put_inv)
  from e assms show "pending (fst (enqueue now p r b)) = add_mset (rq_ref r) (pending p)"
    by (simp add: pending_alt queue_ids_put)
qed

lemma pending_set_place:
  "k < length (pr_workers p) \<Longrightarrow>
   pending (set_place p k l) + place_ids (wk_at (pr_workers p ! k)) = pending p + place_ids l"
proof -
  assume k: "k < length (pr_workers p)"
  then have "k < length (places p)" "places p ! k = wk_at (pr_workers p ! k)" by (simp_all add: places_def)
  with sum_update[of k "places p" place_ids l] show ?thesis by (simp add: pending_alt add.assoc)
qed

lemma worker_exit_queue [simp]: "pr_queue (worker_exit p k) = pr_queue p"
  by (simp add: worker_exit_def Let_def)

lemma pending_worker_exit:
  "k < length (pr_workers p) \<Longrightarrow> pending (worker_exit p k) + place_ids (wk_at (pr_workers p ! k)) = pending p"
  using pending_set_place[of k p Done] by (simp add: worker_exit_def Let_def)

lemma worker_loop_queue [simp]: "pr_queue (worker_loop p k) = pr_queue p"
  by (simp add: worker_loop_def Let_def)

lemma pending_worker_loop:
  "k < length (pr_workers p) \<Longrightarrow> pending (worker_loop p k) + place_ids (wk_at (pr_workers p ! k)) = pending p"
  using pending_worker_exit[of k "set_current p (wk_replica (pr_workers p ! k)) None"]
    pending_set_place[of k "set_current p (wk_replica (pr_workers p ! k)) None" AtGet]
  by (simp add: worker_loop_def Let_def)

lemma pending_worker_raise:
  "k < length (pr_workers p) \<Longrightarrow> pending (worker_raise p k) + place_ids (wk_at (pr_workers p ! k)) = pending p"
  using pending_worker_exit[of k "set_current p (wk_replica (pr_workers p ! k)) None"] by (simp add: worker_raise_def)

lemma worker_raise_queue [simp]: "pr_queue (worker_raise p k) = pr_queue p"
  by (simp add: worker_raise_def)

lemma answered_error: "Sent r ERROR m \<in> set outs \<Longrightarrow> rq_ref r \<in> answered outs"
  by (force simp: answered_def image_def)

lemma set_place_at [simp]: "k < length (pr_workers p) \<Longrightarrow> wk_at (pr_workers (set_place p k l) ! k) = l"
  "length (pr_workers (set_place p k l)) = length (pr_workers p)"
  by (simp_all add: set_place_def)

lemma dispatch_failed_settles:
  assumes inv: "queue_inv (pr_queue p)" and k: "k < length (pr_workers p)" and w: "wk_at (pr_workers p ! k) = AtRun r"
  shows "settles (pending p) (dispatch_failed now p k r e)"
proof (cases "evicted e")
  case True
  let ?p1 = "set_task (set_place p k AtGet) (wk_replica (pr_workers p ! k)) None"
  let ?p2 = "fst (enqueue now ?p1 r True)"
  have "queue_inv (pr_queue ?p1)" using inv by simp
  note eq = pending_enqueue[OF this, of now r True]
  have "add_mset (rq_ref r) (pending ?p1) = pending p" using pending_set_place[OF k, of AtGet] w by simp
  moreover have "k < length (pr_workers ?p2)" "wk_at (pr_workers ?p2 ! k) = AtGet" using k eq by simp_all
  then have "pending (worker_loop ?p2 k) = pending ?p2" using pending_worker_loop[of k ?p2] by simp
  ultimately have "pending (worker_loop ?p2 k) = pending p" using eq by simp
  with True eq show ?thesis by (simp add: dispatch_failed_def settles_def Let_def case_prod_unfold)
next
  case False
  let ?p1 = "report (set_place p k AtRestart) e"
  have p1: "add_mset (rq_ref r) (pending ?p1) = pending p" using pending_set_place[OF k, of AtRestart] w by simp
  have "pending (worker_loop ?p1 k) = pending ?p1" using pending_worker_loop[of k ?p1] k by simp
  with False p1 inv show ?thesis
    by (auto simp: dispatch_failed_def settles_def Let_def accounted_def answered_error simp flip: p1)
qed

lemma worker_take_settles:
  assumes inv: "queue_inv (pr_queue p)" and k: "k < length (pr_workers p)" and w: "wk_at (pr_workers p ! k) = AtGet"
    and t: "worker_take now p k lookup = Some res"
  shows "settles (pending p) res"
proof -
  from t obtain r q where g: "q_get (pr_queue p) = Some (r, q)" by (auto simp: worker_take_def split: option.splits)
  let ?p0 = "set_current (p\<lparr>pr_queue := q\<rparr>) (wk_replica (pr_workers p ! k)) (Some (r, now))"
  let ?p1 = "set_place ?p0 k (AtRun r)"
  note q = queue_ids_get[OF inv g]
  have "pending ?p1 = add_mset (rq_ref r) (pending ?p0)" using pending_set_place[of k ?p0 "AtRun r"] k w by simp
  also have "\<dots> = pending p" using q by (simp add: pending_alt)
  finally have p1: "pending ?p1 = pending p" .
  have "settles (pending ?p1) (dispatch_failed now ?p1 k r e)" for e
    using q k by (intro dispatch_failed_settles) simp_all
  with p1 t g q show ?thesis by (auto simp: worker_take_def Let_def settles_def split: option.splits)
qed

lemma reply_all_errors:
  "set_mset (queue_ids (pr_queue p)) \<subseteq> answered (reply_all p (Some m) ERROR)"
proof
  fix i assume "i \<in># queue_ids (pr_queue p)"
  then obtain r where "r \<in> set (snapshot (pr_queue p))" "rq_ref r = i" by (auto simp: queue_ids_snapshot)
  then obtain j where "j < length (snapshot (pr_queue p))" "snapshot (pr_queue p) ! j = r" by (auto simp: in_set_conv_nth)
  then have "Sent r ERROR m \<in> set (reply_all p (Some m) ERROR)"
    unfolding reply_all_def reply_text_def
    by (simp add: in_set_enumerate_eq image_iff) (rule bexI[of _ "(j, r)"], simp_all add: in_set_enumerate_eq)
  then show "i \<in> answered (reply_all p (Some m) ERROR)" using answered_error \<open>rq_ref r = i\<close> by blast
qed

lemma purge_settles: "queue_inv (pr_queue p) \<Longrightarrow> settles (pending p) (purge p m)"
proof -
  assume inv: "queue_inv (pr_queue p)"
  let ?text = "case m of None \<Rightarrow> purge_text | Some m \<Rightarrow> m"
  have q: "pr_queue (fst (purge p m)) = q_clear (pr_queue p)" "places (fst (purge p m)) = places p"
    by (simp_all add: purge_def purge_drop_def Let_def case_prod_unfold)
  have "pending p = queue_ids (pr_queue p) + pending (fst (purge p m))"
    using q by (simp add: pending_alt queue_ids_def q_clear_def)
  moreover have "set_mset (queue_ids (pr_queue p)) \<subseteq> answered (snd (purge p m))"
    using reply_all_errors[of p ?text] by (auto simp: purge_def purge_tell_def Let_def case_prod_unfold)
  ultimately show ?thesis using q inv accounted_all by (simp add: settles_def clear_inv)
qed

lemma start_failed_settles: "queue_inv (pr_queue p) \<Longrightarrow> settles (pending p) (start_failed p e m)"
  using purge_settles[of "report p e"] by (auto simp: start_failed_def Let_def settles_def)

lemma start_deploying_settles: "queue_inv (pr_queue p) \<Longrightarrow> settles (pending p) (start_deploying p)"
  by (simp add: start_deploying_def Let_def settles_def)

lemma start_settles:
  assumes "queue_inv (pr_queue p)"
  shows "settles (pending p) (start_query loads p answer)" and "settles (pending p) (start_provision p answer')"
    and "settles (pending p) (start_wait p waiting result)"
proof -
  have d: "settles (pending p) (start_deploying (fst (register_all p rids)))"
    "settles (pending p) (start_deploying (fst (register p rid)))" for rids rid
    using start_deploying_settles[of "fst (register_all p rids)"] start_deploying_settles[of "fst (register p rid)"] assms
    by simp_all
  have a: "settles (pending p) (add_task p tk, outs)" for tk outs using assms by (simp add: settles_def)
  show "settles (pending p) (start_query loads p answer)" "settles (pending p) (start_provision p answer')"
    using d a start_failed_settles[OF assms]
    by (auto simp: start_query_def start_provision_def simp del: register_all.simps split: sum.split list.split)
  show "settles (pending p) (start_wait p waiting result)"
    using start_failed_settles[OF assms] assms
    by (auto simp: start_wait_def settles_def Let_def split: list.split option.split)
qed

lemma take_task_frame: "take_task p tk = Some p1 \<Longrightarrow> pr_queue p = pr_queue p1 \<and> pending p = pending p1"
  by (auto simp: take_task_def split: if_splits)

lemma settles_cong: "settles m res \<Longrightarrow> m = m' \<Longrightarrow> settles m' res"
  by simp

lemma undisturbed_bound: "undisturbed p k \<Longrightarrow> k < length (pr_workers p) \<and> place_of p k = wk_at (pr_workers p ! k)"
  by (auto simp: undisturbed_def worker_done_def place_of_def)

lemma worker_settles:
  assumes inv: "queue_inv (pr_queue p)" and u: "k < length (pr_workers p)"
    and "place_ids (wk_at (pr_workers p ! k)) = {#} \<or> (\<exists>r. wk_at (pr_workers p ! k) = AtRun r \<and> rq_ref r \<in> answered outs)"
  shows "settles (pending p) (worker_loop p k, outs)" and "settles (pending p) (worker_raise p k, outs)"
    and "settles (pending p) (worker_exit p k, outs)"
  using assms pending_worker_loop[OF u, symmetric] pending_worker_raise[OF u, symmetric] pending_worker_exit[OF u, symmetric]
  by (auto simp: settles_def accounted_remove)

lemma cancelled_exit_settles:
  assumes "queue_inv (pr_queue p)" and "k < length (pr_workers p)"
  shows "settles (pending p) (cancelled_exit p k)"
  using worker_settles[OF assms]
  by (auto simp: cancelled_exit_def answered_error split: place.split)

text \<open>The steps of the tasks, and of the workers.\<close>

lemma grow_settles:
  assumes "queue_inv (pr_queue p)"
  shows "settles (pending p) (scale_provision p ans, [])" and "settles (pending p) (scale_wait p a res, [])"
    and "settles (pending p) (reconcile p rids, [])" and "settles (pending p) (adopt p a res)"
    and "settles (pending p) (autoscale cf now p, [])"
proof -
  note frame = settles_def assms places_def pending_alt
  show "settles (pending p) (scale_provision p ans, [])"
    using assms by (auto simp: scale_provision_def settles_def case_prod_unfold split: sum.split)
  show "settles (pending p) (scale_wait p a res, [])" "settles (pending p) (adopt p a res)"
    using assms by (auto simp: scale_wait_def adopt_def Let_def settles_def split: option.split)
  show "settles (pending p) (reconcile p rids, [])"
    using assms by (auto simp: reconcile_def case_prod_unfold places_def intro!: settles_same split: sum.split)
  show "settles (pending p) (autoscale cf now p, [])" using assms by (auto simp: autoscale_def settles_def)
qed

fun task_event :: "event \<Rightarrow> bool" where
  "task_event (QueryAnswered _) = True"
| "task_event (ProvisionAnswered _) = True"
| "task_event (StartReady _ _) = True"
| "task_event (ScaleAnswered _) = True"
| "task_event (ScaleReady _ _) = True"
| "task_event (AdoptReady _ _) = True"
| "task_event (KillReturned _ _) = True"
| "task_event (KillTimeout _ _) = True"
| "task_event _ = False"

lemma task_event_settles:
  assumes inv: "queue_inv (pr_queue p)" and f: "fire en ev p = Some res" and t: "task_event ev"
  shows "settles (pending p) res"
  using f t inv
  by (cases ev) (auto dest!: take_task_frame simp: start_settles grow_settles settles_same split: if_splits)

lemma worker_event_settles:
  assumes inv: "queue_inv (pr_queue p)" and f: "fire en ev p = Some res" and t: "\<not> task_event ev"
  shows "settles (pending p + arrivals ev) res"
proof (cases ev)
  case (Enqueued now r)
  then show ?thesis using f pending_enqueue[OF inv, of now r False] by (auto simp: settles_def)
next
  case (Take now k lookup)
  then show ?thesis using f inv undisturbed_bound[of p k] by (auto intro!: worker_take_settles split: if_splits)
next
  case (RunReturned k)
  then show ?thesis
    using f inv undisturbed_bound[of p k]
    by (auto intro!: worker_settles(1) disjI2 exI simp: answered_def split: place.splits if_splits)
next
  case (RunRaised now k e)
  then show ?thesis
    using f inv undisturbed_bound[of p k] by (auto intro!: dispatch_failed_settles split: place.splits if_splits)
next
  case (Restarted k answer)
  then show ?thesis
    using f inv undisturbed_bound[of p k] by (auto intro!: worker_settles split: option.splits if_splits)
next
  case (CancelDelivered k)
  then show ?thesis
    using f inv by (auto intro!: cancelled_exit_settles simp: worker_done_def split: if_splits)
next
  case (KillQueued i)
  then obtain q r where "q_remove (pr_queue p) i = (q, Some r)" "res = (p\<lparr>pr_queue := q\<rparr>, [Sent r ERROR operator_text])"
    using f by (auto simp: pop_queued_def split: prod.splits option.splits)
  then show ?thesis using queue_ids_remove[OF inv, of i q r] KillQueued
    by (simp add: settles_def pending_alt accounted_remove answered_error)
next
  case (KillExecuting i)
  then show ?thesis using f inv by (auto simp: settles_def split: option.splits)
qed (use f inv t in \<open>auto simp: grow_settles purge_settles split: if_splits\<close>)

lemma fire_settles:
  assumes "queue_inv (pr_queue p)" and "fire en ev p = Some res"
  shows "settles (pending p + arrivals ev) res"
proof (cases "task_event ev")
  case True
  then have "arrivals ev = {#}" by (cases ev) simp_all
  with task_event_settles[OF assms True] show ?thesis by simp
qed (rule worker_event_settles[OF assms])

lemma run_settles:
  "queue_inv (pr_queue p) \<Longrightarrow> run_events en evs p = Some res \<Longrightarrow>
   settles (pending p + \<Sum>\<^sub># (mset (map arrivals evs))) res"
proof (induction evs arbitrary: p res)
  case Nil
  then show ?case by (auto simp: settles_def)
next
  case (Cons ev evs)
  from Cons.prems(2) obtain p1 o1 p2 o2 where f: "fire en ev p = Some (p1, o1)"
    and r: "run_events en evs p1 = Some (p2, o2)" and res: "res = (p2, o1 @ o2)"
    by (auto split: option.splits)
  from fire_settles[OF Cons.prems(1) f] have q: "queue_inv (pr_queue p1)"
    and a: "accounted (pending p + arrivals ev) (pending p1) o1" by (simp_all add: settles_def)
  let ?m = "\<Sum>\<^sub># (mset (map arrivals evs))"
  from Cons.IH[OF q r] have "queue_inv (pr_queue p2)" "accounted (pending p1 + ?m) (pending p2) o2"
    by (simp_all add: settles_def)
  moreover have "accounted (pending p + arrivals ev + ?m) (pending p1 + ?m) o1" using a by (simp add: accounted_def)
  ultimately show ?case using res accounted_trans by (fastforce simp: settles_def add.assoc)
qed

end
