(* ===== verification/Processor_Progress.thy ===== *)
theory Processor_Progress
  imports Processor_Account
begin

text \<open>
  A queued request is always attended: a worker is up, or a task that brings one up is pending. The
  invariant says why, the steps that break it are named by \<open>strands\<close>, and the worker that is up
  serves the queue in order.
\<close>

section \<open>The invariant\<close>

fun start_task :: "task \<Rightarrow> bool" where
  "start_task StartQuery = True"
| "start_task StartProvision = True"
| "start_task (StartWait _) = True"
| "start_task _ = False"

fun awaits :: "task \<Rightarrow> nat set" where
  "awaits (StartWait as) = set as"
| "awaits (ScaleWait a) = {a}"
| "awaits (Adopt a) = {a}"
| "awaits _ = {}"

definition start_pending :: "processor \<Rightarrow> bool" where
  "start_pending p \<longleftrightarrow> (\<exists>t \<in> set (pr_tasks p). start_task t)"

definition awaited :: "processor \<Rightarrow> nat set" where
  "awaited p = (\<Union>t \<in> set (pr_tasks p). awaits t)"

text \<open>The replicas with a worker.\<close>

definition alive :: "processor \<Rightarrow> nat set" where
  "alive p = wk_replica ` {w \<in> set (pr_workers p). wk_at w \<noteq> Done}"

text \<open>Every replica of the pool has a worker, is waited for, or is in \<open>S\<close>, the replicas the running
  step has in hand.\<close>

definition pool_ok :: "processor \<Rightarrow> nat set \<Rightarrow> bool" where
  "pool_ok p S \<longleftrightarrow>
     (\<forall>x \<in> set (pr_replicas p).
        snd x < length (pr_objects p) \<and> rep_id (pr_objects p ! snd x) = fst x \<and> snd x \<in> alive p \<union> awaited p \<union> S)"

text \<open>The addresses the tasks and workers hold are in the store.\<close>

definition held_ok :: "processor \<Rightarrow> nat set \<Rightarrow> bool" where
  "held_ok p S \<longleftrightarrow>
     (\<forall>a \<in> awaited p \<union> S. a < length (pr_objects p)) \<and>
     (\<forall>w \<in> set (pr_workers p). wk_replica w < length (pr_objects p)) \<and> StartWait [] \<notin> set (pr_tasks p)"

text \<open>\<open>b\<close>: the running step is one of \<open>start\<close>.\<close>

definition progress :: "processor \<Rightarrow> nat set \<Rightarrow> bool \<Rightarrow> bool" where
  "progress p S b \<longleftrightarrow>
     held_ok p S \<and> pool_ok p S \<and> (setting_up p \<longrightarrow> start_pending p \<or> b) \<and>
     (pr_status p = READY \<longrightarrow> alive p \<noteq> {} \<or> pr_replicas p \<noteq> []) \<and>
     (qsize (pr_queue p) \<noteq> 0 \<longrightarrow> alive p \<noteq> {} \<or> pr_replicas p \<noteq> [] \<or> start_pending p \<or> b)"

definition prog :: "processor \<Rightarrow> bool" where
  "prog p \<longleftrightarrow> progress p {} False"

definition attended :: "processor \<Rightarrow> bool" where
  "attended p \<longleftrightarrow> alive p \<noteq> {} \<or> awaited p \<noteq> {} \<or> start_pending p"

lemma prog_attended: "prog p \<Longrightarrow> qsize (pr_queue p) \<noteq> 0 \<Longrightarrow> attended p"
  by (cases "pr_replicas p") (auto simp: prog_def progress_def attended_def pool_ok_def)

text \<open>The steps after which a request may be left alone: the wait of a replica fails while the
  processor counts as serving, or an adopted or added replica fails and was the last of the pool.\<close>

fun strands :: "processor \<Rightarrow> event \<Rightarrow> bool" where
  "strands p (StartReady _ (Some _)) = (pr_status p = READY)"
| "strands p (AdoptReady a (Some _)) = (pr_replicas (drop_replica p a) = [])"
| "strands p (ScaleReady a (Some _)) = (pr_replicas (drop_replica p a) = [])"
| "strands p _ = False"

section \<open>The operations\<close>

lemma prog_new: "prog (new_processor mk)"
  by (simp add: prog_def progress_def new_processor_def held_ok_def pool_ok_def awaited_def setting_up_def
      new_queue_def qsize_def)

text \<open>What the invariant reads.\<close>

lemma progress_cong:
  assumes "progress p S b" and "pr_status p' = pr_status p" "pr_replicas p' = pr_replicas p"
    "map rep_id (pr_objects p') = map rep_id (pr_objects p)" "alive p' = alive p"
    "wk_replica ` set (pr_workers p') \<subseteq> wk_replica ` set (pr_workers p)"
    "pr_tasks p' = pr_tasks p" "qsize (pr_queue p') \<noteq> 0 \<longrightarrow> qsize (pr_queue p) \<noteq> 0"
  shows "progress p' S b"
proof -
  have len: "length (pr_objects p') = length (pr_objects p)" using assms(4) by (metis length_map)
  have ids: "rep_id (pr_objects p' ! a) = rep_id (pr_objects p ! a)" if "a < length (pr_objects p)" for a
    using assms(4) len that by (metis nth_map)
  have "awaited p' = awaited p" "start_pending p' = start_pending p" "setting_up p' = setting_up p"
    using assms(2,7) by (simp_all add: awaited_def start_pending_def setting_up_def)
  moreover have held: "held_ok p S" and pool: "pool_ok p S" using assms(1) by (simp_all add: progress_def)
  have "wk_replica ` set (pr_workers p) \<subseteq> {..<length (pr_objects p)}" using held by (auto simp: held_ok_def)
  then have "wk_replica ` set (pr_workers p') \<subseteq> {..<length (pr_objects p)}" using assms(6) by blast
  then have "\<forall>w \<in> set (pr_workers p'). wk_replica w < length (pr_objects p)" by (simp add: image_subset_iff)
  then have "held_ok p' S" using held by (simp add: held_ok_def len assms(7) calculation(1))
  moreover have "pool_ok p' S" using pool ids by (simp add: pool_ok_def assms(3,5) len calculation(1))
  ultimately show ?thesis using assms(1,8) by (simp add: progress_def assms(2,3,5))
qed

lemma quiet_ids [simp]:
  "map rep_id (pr_objects (set_current p a c)) = map rep_id (pr_objects p)"
  "map rep_id (pr_objects (set_task p a t)) = map rep_id (pr_objects p)"
  by (simp_all add: set_current_def set_task_def map_update_same)

lemma quiet_other [simp]:
  "pr_status (set_current p a c) = pr_status p" "pr_replicas (set_current p a c) = pr_replicas p"
  "pr_tasks (set_current p a c) = pr_tasks p" "pr_status (set_task p a t) = pr_status p"
  "pr_replicas (set_task p a t) = pr_replicas p" "pr_tasks (set_task p a t) = pr_tasks p"
  "pr_status (set_place p k l) = pr_status p" "pr_replicas (set_place p k l) = pr_replicas p"
  "pr_tasks (set_place p k l) = pr_tasks p" "pr_objects (set_place p k l) = pr_objects p"
  "pr_status (cancel_task p k) = pr_status p" "pr_replicas (cancel_task p k) = pr_replicas p"
  "pr_tasks (cancel_task p k) = pr_tasks p" "pr_objects (cancel_task p k) = pr_objects p"
  "pr_status (report p e) = pr_status p" "pr_replicas (report p e) = pr_replicas p"
  "pr_tasks (report p e) = pr_tasks p" "pr_objects (report p e) = pr_objects p"
  unfolding set_current_def set_task_def set_place_def cancel_task_def report_def by simp_all

lemma alive_quiet [simp]:
  "alive (set_current p a c) = alive p" "alive (set_task p a t) = alive p" "alive (report p e) = alive p"
  "alive (add_task p tk) = alive p" "alive (drop_replica p a) = alive p" "alive (p\<lparr>pr_queue := q\<rparr>) = alive p"
  "alive (p\<lparr>pr_status := st\<rparr>) = alive p" "alive (p\<lparr>pr_tasks := ts\<rparr>) = alive p" "alive (p\<lparr>pr_replicas := rs\<rparr>) = alive p"
  by (simp_all add: alive_def)

lemma wk_map_update:
  "f y = f (xs ! k) \<Longrightarrow> f ` set (xs[k := y]) = f ` set xs"
  using map_update_same[of f y xs k] by (metis set_map)

lemma alive_pairs: "alive p = fst ` {x \<in> (\<lambda>w. (wk_replica w, wk_at w = Done)) ` set (pr_workers p). \<not> snd x}"
  by (auto simp: alive_def image_def)

lemma alive_set_place: "wk_at (pr_workers p ! k) \<noteq> Done \<Longrightarrow> l \<noteq> Done \<Longrightarrow> alive (set_place p k l) = alive p"
  unfolding alive_pairs set_place_def by (simp add: wk_map_update)

lemma alive_cancel_task: "alive (cancel_task p k) = alive p"
  unfolding alive_pairs cancel_task_def by (simp add: wk_map_update)

lemma progress_quiet:
  assumes "progress p S b"
  shows "progress (set_current p a c) S b" and "progress (set_task p a t) S b" and "progress (report p e) S b"
    and "progress (cancel_task p k) S b"
    and "wk_at (pr_workers p ! k) \<noteq> Done \<Longrightarrow> l \<noteq> Done \<Longrightarrow> progress (set_place p k l) S b"
    and "queue_inv (pr_queue p) \<Longrightarrow> q_get (pr_queue p) = Some (r, q) \<Longrightarrow> progress (p\<lparr>pr_queue := q\<rparr>) S b"
proof -
  show "progress (set_current p a c) S b" "progress (set_task p a t) S b" "progress (report p e) S b"
    by (rule progress_cong[OF assms]; simp)+
  show "progress (cancel_task p k) S b"
    by (rule progress_cong[OF assms]; simp add: alive_cancel_task) (simp add: cancel_task_def wk_map_update)
  show "progress (set_place p k l) S b" if "wk_at (pr_workers p ! k) \<noteq> Done" "l \<noteq> Done"
    by (rule progress_cong[OF assms]; simp add: alive_set_place that) (simp add: set_place_def wk_map_update)
  show "progress (p\<lparr>pr_queue := q\<rparr>) S b" if "queue_inv (pr_queue p)" "q_get (pr_queue p) = Some (r, q)"
  proof -
    have "qsize (pr_queue p) \<noteq> 0"
      using get_None[of "pr_queue p"] size_snapshot[of "pr_queue p"] that by (metis length_0_conv option.distinct(1))
    then show ?thesis by (intro progress_cong[OF assms]) simp_all
  qed
qed

lemma progress_cancel_worker: "progress p S b \<Longrightarrow> progress (cancel_worker p a) S b"
  by (auto simp: cancel_worker_def progress_quiet split: option.split)

text \<open>Starting and draining the pool.\<close>

definition sound :: "processor \<Rightarrow> bool" where
  "sound p \<longleftrightarrow> held_ok p {} \<and> pool_ok p {} \<and> (setting_up p \<longrightarrow> start_pending p)"

lemma prog_sound: "prog p \<Longrightarrow> sound p"
  by (simp add: prog_def progress_def sound_def)

lemma start_pending_add [simp]: "start_pending (add_task p t) \<longleftrightarrow> start_pending p \<or> start_task t"
  and awaited_add [simp]: "awaited (add_task p t) = awaited p \<union> awaits t"
  by (auto simp: start_pending_def awaited_def add_task_def)

lemma ensure_started_alt:
  "ensure_started p =
     (if pr_replicas p \<noteq> [] \<or> setting_up p then p else add_task (p\<lparr>pr_status := P_PROVISIONING\<rparr>) StartQuery)"
  by (simp add: ensure_started_def add_task_def)

lemma add_fields [simp]:
  "pr_status (add_task p t) = pr_status p" "pr_replicas (add_task p t) = pr_replicas p"
  "pr_objects (add_task p t) = pr_objects p" "pr_tasks (add_task p t) = pr_tasks p @ [t]"
  by (simp_all add: add_task_def)

lemma status_fields [simp]:
  "awaited (p\<lparr>pr_status := st\<rparr>) = awaited p" "start_pending (p\<lparr>pr_status := st\<rparr>) = start_pending p"
  "awaited (p\<lparr>pr_queue := q\<rparr>) = awaited p" "start_pending (p\<lparr>pr_queue := q\<rparr>) = start_pending p"
  "awaited (p\<lparr>pr_replicas := rs\<rparr>) = awaited p" "start_pending (p\<lparr>pr_replicas := rs\<rparr>) = start_pending p"
  by (simp_all add: awaited_def start_pending_def)

lemma ensure_started_prog: "sound p \<Longrightarrow> prog (ensure_started p)"
  by (auto simp: sound_def prog_def progress_def ensure_started_alt setting_up_def held_ok_def pool_ok_def)

lemma mark_idle_prog: "sound p \<Longrightarrow> qsize (pr_queue p) = 0 \<Longrightarrow> prog (mark_idle p)"
  by (auto simp: sound_def prog_def progress_def mark_idle_def setting_up_def held_ok_def pool_ok_def)

lemma enqueue_prog: "prog p \<Longrightarrow> prog (fst (enqueue now p r b))"
proof -
  assume "prog p"
  then have "sound (p\<lparr>pr_queue := q\<rparr>)" for q
    by (simp add: prog_def progress_def sound_def held_ok_def pool_ok_def setting_up_def)
  then show ?thesis using ensure_started_prog by (simp add: enqueue_def Let_def split: prod.split)
qed

lemma alive_done: "alive p - {wk_replica (pr_workers p ! k)} \<subseteq> alive (set_place p k Done)"
proof
  fix a assume "a \<in> alive p - {wk_replica (pr_workers p ! k)}"
  then obtain j where j: "j < length (pr_workers p)" "wk_at (pr_workers p ! j) \<noteq> Done" "wk_replica (pr_workers p ! j) = a"
    and "a \<noteq> wk_replica (pr_workers p ! k)" by (auto simp: alive_def in_set_conv_nth)
  then have "j \<noteq> k" by auto
  then have "pr_workers (set_place p k Done) ! j = pr_workers p ! j" by (simp add: set_place_def)
  moreover have "j < length (pr_workers (set_place p k Done))" using j by simp
  ultimately show "a \<in> alive (set_place p k Done)" using j unfolding alive_def by (metis (mono_tags, lifting) imageI mem_Collect_eq nth_mem)
qed

lemma drop_pool_ok:
  assumes "pool_ok p (insert a S)" and "a < length (pr_objects p)" and "alive p - {a} \<subseteq> alive p'"
    and "pr_replicas p' = pr_replicas p" "pr_objects p' = pr_objects p" "awaited p' = awaited p"
  shows "pool_ok (drop_replica p' a) S"
proof -
  have "snd x \<noteq> a" if "x \<in> set (pr_replicas p)" "fst x \<noteq> rep_id (pr_objects p ! a)" for x
    using assms(1) that by (auto simp: pool_ok_def)
  moreover have "awaited (drop_replica p' a) = awaited p" using assms(6) by (simp add: drop_replica_def awaited_def)
  moreover have "pr_objects (drop_replica p' a) = pr_objects p" using assms(5) by (simp add: drop_replica_def)
  moreover have "set (pr_replicas (drop_replica p' a)) = {x \<in> set (pr_replicas p). fst x \<noteq> rep_id (pr_objects p ! a)}"
    using assms(4,5) by (auto simp: drop_replica_def AList.delete_eq)
  moreover have "snd x \<in> alive p' \<union> awaited p \<union> S"
    if "x \<in> set (pr_replicas p)" "fst x \<noteq> rep_id (pr_objects p ! a)" for x
    using assms(1,3) calculation(1)[OF that] that(1) unfolding pool_ok_def by blast
  ultimately show ?thesis using assms(1) by (simp add: pool_ok_def)
qed

lemma worker_exit_prog:
  assumes prog: "prog p" and k: "k < length (pr_workers p)"
  shows "prog (worker_exit p k)"
proof -
  let ?a = "wk_replica (pr_workers p ! k)" and ?p0 = "set_place p k Done"
  let ?p1 = "drop_replica ?p0 ?a"
  from prog have s: "held_ok p {}" "pool_ok p {}" "setting_up p \<longrightarrow> start_pending p" by (simp_all add: prog_def progress_def)
  from s(2) have p2: "pool_ok p (insert ?a {})" by (auto simp: pool_ok_def)
  have a: "?a < length (pr_objects p)" using s(1) k by (simp add: held_ok_def)
  have aw: "awaited ?p0 = awaited p" by (simp add: awaited_def)
  have "pool_ok ?p1 {}" by (rule drop_pool_ok[OF p2 a alive_done _ _ aw]) simp_all
  moreover have "held_ok ?p1 {}"
  proof -
    have "wk_replica ` set (pr_workers ?p0) = wk_replica ` set (pr_workers p)" by (simp add: set_place_def wk_map_update)
    moreover have "\<forall>b \<in> wk_replica ` set (pr_workers p). b < length (pr_objects p)" using s(1) by (simp add: held_ok_def)
    ultimately have "\<forall>b \<in> wk_replica ` set (pr_workers ?p0). b < length (pr_objects p)" by (simp only:)
    then have "\<forall>w \<in> set (pr_workers ?p0). wk_replica w < length (pr_objects p)" by simp
    then show ?thesis using s(1) by (simp add: held_ok_def drop_replica_def awaited_def)
  qed
  moreover have "setting_up ?p1 \<longrightarrow> start_pending ?p1"
    using s(3) by (simp add: setting_up_def drop_replica_def start_pending_def)
  ultimately have "sound ?p1" by (simp add: sound_def)
  then show ?thesis using ensure_started_prog mark_idle_prog by (simp add: worker_exit_def Let_def)
qed

lemma worker_loop_prog:
  assumes "prog p" and "k < length (pr_workers p)" and "wk_at (pr_workers p ! k) \<noteq> Done"
  shows "prog (worker_loop p k)" and "prog (worker_raise p k)"
proof -
  let ?p1 = "set_current p (wk_replica (pr_workers p ! k)) None"
  have p1: "prog ?p1" using assms(1) progress_quiet by (simp add: prog_def)
  moreover have "prog (set_place ?p1 k AtGet)" using p1 progress_quiet(5) assms(3) by (simp add: prog_def)
  ultimately show "prog (worker_loop p k)" "prog (worker_raise p k)"
    using worker_exit_prog[OF p1] assms(2) by (simp_all add: worker_loop_def worker_raise_def Let_def)
qed

lemma dispatch_failed_prog:
  assumes "prog p" and "k < length (pr_workers p)" and "wk_at (pr_workers p ! k) \<noteq> Done" and "queue_inv (pr_queue p)"
  shows "prog (fst (dispatch_failed now p k r e))"
proof -
  let ?p1 = "set_task (set_place p k AtGet) (wk_replica (pr_workers p ! k)) None"
  let ?p2 = "report (set_place p k AtRestart) e"
  have "prog (set_place p k l)" if "l \<noteq> Done" for l using assms progress_quiet(5) that by (simp add: prog_def)
  then have p: "prog ?p1" "prog ?p2" using progress_quiet by (simp_all add: prog_def)
  note eq = pending_enqueue[of ?p1 now r True]
  have "prog (worker_loop (fst (enqueue now ?p1 r True)) k)"
    using worker_loop_prog(1)[OF enqueue_prog[OF p(1)], of k now r True] assms eq by simp
  moreover have "prog (worker_loop ?p2 k)" using worker_loop_prog(1)[OF p(2), of k] assms by simp
  ultimately show ?thesis using p(2) by (simp add: dispatch_failed_def Let_def case_prod_unfold)
qed

text \<open>Taking a task and leaving one.\<close>

lemma take_task_progress:
  assumes "prog p" and t: "take_task p t = Some p1"
  shows "progress p1 (awaits t) (start_task t)"
proof -
  from t have p1: "p1 = p\<lparr>pr_tasks := remove1 t (pr_tasks p)\<rparr>" and tin: "t \<in> set (pr_tasks p)"
    by (auto simp: take_task_def split: if_splits)
  have "x = t \<or> x \<in> set (remove1 t (pr_tasks p))" if "x \<in> set (pr_tasks p)" for x
    using that by (cases "x = t") simp_all
  then have ts: "set (pr_tasks p1) \<subseteq> set (pr_tasks p)" "set (pr_tasks p) \<subseteq> insert t (set (pr_tasks p1))"
    using p1 set_remove1_subset[of t "pr_tasks p"] by auto
  have "awaited p = awaited p1 \<union> awaits t" "start_pending p = (start_pending p1 \<or> start_task t)"
    using ts tin unfolding awaited_def start_pending_def by blast+
  then show ?thesis using assms(1) ts p1
    by (auto simp: prog_def progress_def held_ok_def pool_ok_def setting_up_def)
qed

lemma add_task_prog: "progress p (awaits t) b \<Longrightarrow> b \<longrightarrow> start_task t \<Longrightarrow> t \<noteq> StartWait [] \<Longrightarrow> prog (add_task p t)"
  by (auto simp: prog_def progress_def held_ok_def pool_ok_def setting_up_def)

lemma add_idle_task_prog: "prog p \<Longrightarrow> awaits t = {} \<Longrightarrow> t \<noteq> StartWait [] \<Longrightarrow> prog (add_task p t)"
  by (rule add_task_prog[of p t False]) (simp_all add: prog_def)

text \<open>The worker of a replica in hand is started.\<close>

lemma start_worker_fields [simp]:
  "pr_status (start_worker p a) = pr_status p" "pr_replicas (start_worker p a) = pr_replicas p"
  "pr_tasks (start_worker p a) = pr_tasks p" "map rep_id (pr_objects (start_worker p a)) = map rep_id (pr_objects p)"
  "awaited (start_worker p a) = awaited p" "start_pending (start_worker p a) = start_pending p"
  "alive (start_worker p a) = insert a (alive p)"
proof -
  let ?p = "p\<lparr>pr_workers := pr_workers p @ [\<lparr>wk_replica = a, wk_at = AtGet, wk_cancelled = False\<rparr>]\<rparr>"
  have "map rep_id (pr_objects (set_task ?p a t)) = map rep_id (pr_objects ?p)" for t by (rule quiet_ids)
  then show "map rep_id (pr_objects (start_worker p a)) = map rep_id (pr_objects p)" by (simp add: start_worker_def)
  have "{w \<in> set (pr_workers (start_worker p a)). wk_at w \<noteq> Done} =
      insert \<lparr>wk_replica = a, wk_at = AtGet, wk_cancelled = False\<rparr> {w \<in> set (pr_workers p). wk_at w \<noteq> Done}"
    by (auto simp: start_worker_def)
  then show "alive (start_worker p a) = insert a (alive p)" by (simp add: alive_def)
qed (auto simp: start_worker_def awaited_def start_pending_def)

lemma start_worker_progress:
  assumes "progress p (insert a S) b"
  shows "progress (start_worker p a) S b" and "progress ((start_worker p a)\<lparr>pr_status := READY\<rparr>) S False"
proof -
  have len: "length (pr_objects (start_worker p a)) = length (pr_objects p)"
    using start_worker_fields(4)[of p a] by (metis length_map)
  have ids: "rep_id (pr_objects (start_worker p a) ! j) = rep_id (pr_objects p ! j)" if "j < length (pr_objects p)" for j
    using start_worker_fields(4)[of p a] len that by (metis nth_map)
  have "pr_workers (start_worker p a) = pr_workers p @ [\<lparr>wk_replica = a, wk_at = AtGet, wk_cancelled = False\<rparr>]"
    by (simp add: start_worker_def)
  then show "progress (start_worker p a) S b" "progress ((start_worker p a)\<lparr>pr_status := READY\<rparr>) S False"
    using assms len ids by (auto simp: progress_def held_ok_def pool_ok_def setting_up_def)
qed

text \<open>New replicas are registered.\<close>

lemma register_fields:
  assumes "register p rid = (p1, a)"
  shows "a = length (pr_objects p)" "pr_objects p1 = pr_objects p @ [\<lparr>rep_id = rid, rep_task = None, rep_current = None\<rparr>]"
    "pr_replicas p1 = dict_set rid a (pr_replicas p)" "pr_tasks p1 = pr_tasks p" "pr_workers p1 = pr_workers p"
    "pr_queue p1 = pr_queue p" "pr_status p1 = pr_status p"
  using assms by (auto simp: register_def Let_def)

lemma dict_set_nonempty [simp]: "dict_set k v d \<noteq> []"
  by (cases d) auto

lemma register_progress:
  assumes r: "register p rid = (p1, a)" and "progress p S b"
  shows "progress p1 (insert a S) b" and "pr_replicas p1 \<noteq> []"
proof -
  note f = register_fields[OF r]
  have eq: "awaited p1 = awaited p" "start_pending p1 = start_pending p" "alive p1 = alive p" "setting_up p1 = setting_up p"
    using f by (simp_all add: awaited_def start_pending_def alive_def setting_up_def)
  show ne: "pr_replicas p1 \<noteq> []" using f by simp
  have "pool_ok p1 (insert a S)" unfolding pool_ok_def
  proof
    fix x assume "x \<in> set (pr_replicas p1)"
    then have "x = (rid, a) \<or> x \<in> set (pr_replicas p)" using f set_dict_set[of rid a "pr_replicas p"] by auto
    moreover have "pool_ok p S" using assms(2) by (simp add: progress_def)
    ultimately show "snd x < length (pr_objects p1) \<and> rep_id (pr_objects p1 ! snd x) = fst x \<and> snd x \<in> alive p1 \<union> awaited p1 \<union> insert a S"
      using f(1,2) eq by (auto simp: pool_ok_def nth_append)
  qed
  moreover have "held_ok p S" using assms(2) by (simp add: progress_def)
  then have "held_ok p1 (insert a S)" using f(1,2,4,5) eq(1) by (auto simp: held_ok_def less_Suc_eq)
  ultimately show "progress p1 (insert a S) b" using assms(2) ne eq(2,4) by (simp add: progress_def)
qed

lemma register_all_progress:
  "register_all p rids = (p1, as) \<Longrightarrow> progress p S b \<Longrightarrow>
   progress p1 (set as \<union> S) b \<and> (rids \<noteq> [] \<or> pr_replicas p \<noteq> [] \<longrightarrow> pr_replicas p1 \<noteq> [])"
proof (induction rids arbitrary: p as S)
  case (Cons rid rids)
  from Cons.prems(1) obtain p0 a as' where r: "register p rid = (p0, a)" and ra: "register_all p0 rids = (p1, as')"
    and as: "as = a # as'" by (auto split: prod.splits)
  from Cons.IH[OF ra register_progress(1)[OF r Cons.prems(2)]] register_progress(2)[OF r Cons.prems(2)] as
  show ?case by simp
qed simp

lemma cancel_all_progress: "progress p S b \<Longrightarrow> progress (fst (cancel_all p as m)) S b"
  by (induction as arbitrary: p) (simp_all only: cancel_all_step cancel_all.simps(1) fst_conv progress_cancel_worker)

text \<open>\<open>purge\<close> leaves nothing to attend to.\<close>

lemma purge_prog: "progress p S b \<Longrightarrow> prog (fst (purge p m))"
proof -
  assume p: "progress p S b"
  let ?p1 = "p\<lparr>pr_queue := q_clear (pr_queue p)\<rparr>"
  have p1: "progress ?p1 S b"
    by (rule progress_cong[OF p]) (simp_all add: q_clear_def qsize_def)
  note c = cancel_all_progress[OF p1, of "map snd (pr_replicas p)" "case m of None \<Rightarrow> purge_text | Some m \<Rightarrow> m"]
  have "pr_queue (fst (purge p m)) = q_clear (pr_queue p)" by (simp add: purge_def purge_drop_def Let_def case_prod_unfold)
  then show ?thesis using c
    by (simp add: purge_def purge_drop_def Let_def case_prod_unfold prog_def progress_def held_ok_def pool_ok_def
        setting_up_def qsize_def q_clear_def)
qed

section \<open>The steps\<close>

lemma ready_prog: "progress p {} b \<Longrightarrow> pr_status p = READY \<Longrightarrow> prog p"
  by (auto simp: prog_def progress_def setting_up_def)

lemma start_failed_prog:
  assumes "progress p S b" and "S = {} \<or> pr_status p \<noteq> READY"
  shows "prog (fst (start_failed p e m))"
proof -
  have r: "progress (report p e) S b" by (rule progress_quiet(3)[OF assms(1)])
  show ?thesis
  proof (cases "pr_status p = READY")
    case True
    then show ?thesis using ready_prog[of "report p e" b] r assms(2) by (simp add: start_failed_def)
  next
    case False
    then show ?thesis using purge_prog[OF r] by (simp add: start_failed_def)
  qed
qed

lemma start_deploying_prog:
  assumes "progress p S b" and "pr_replicas p \<noteq> []"
  shows "prog (fst (start_deploying p))"
  using assms by (auto simp: start_deploying_def Let_def prog_def progress_def held_ok_def pool_ok_def setting_up_def)

lemma start_query_prog: "progress p {} True \<Longrightarrow> prog (fst (start_query loads p answer))"
proof (cases answer)
  case (Inr rids)
  assume p: "progress p {} True"
  obtain p1 as where r: "register_all p rids = (p1, as)" by fastforce
  have "prog (fst (start_deploying p1))" if "rids \<noteq> []"
    using start_deploying_prog register_all_progress[OF r p] that by blast
  moreover have "prog (add_task p StartProvision)" using p by (intro add_task_prog) simp_all
  ultimately show ?thesis
    using Inr r p start_failed_prog[of p] by (auto simp: start_query_def simp del: register_all.simps split: list.split)
qed (use start_failed_prog[of p] in \<open>auto simp: start_query_def\<close>)

lemma start_provision_prog: "progress p {} True \<Longrightarrow> prog (fst (start_provision p answer))"
proof (cases answer)
  case (Inr rid)
  assume p: "progress p {} True"
  obtain p1 a where r: "register p rid = (p1, a)" by fastforce
  show ?thesis using start_deploying_prog[OF register_progress(1)[OF r p] register_progress(2)[OF r p]] Inr r
    by (simp add: start_provision_def)
qed (use start_failed_prog[of p] in \<open>auto simp: start_provision_def\<close>)

lemma start_wait_prog:
  assumes p: "progress p (set waiting) True" and "waiting \<noteq> []" and "pr_status p = READY \<longrightarrow> answer = None"
  shows "prog (fst (start_wait p waiting answer))"
proof (cases answer)
  case None
  from assms(2) obtain a rest where w: "waiting = a # rest" by (cases waiting) auto
  from p w have r: "progress ((start_worker p a)\<lparr>pr_status := READY\<rparr>) (set rest) False"
    using start_worker_progress(2)[of p a "set rest" True] by simp
  have "prog (add_task ((start_worker p a)\<lparr>pr_status := READY\<rparr>) (StartWait rest))" if "rest \<noteq> []"
    using add_task_prog[of _ "StartWait rest" False] r that by simp
  then show ?thesis using None w r by (auto simp: start_wait_def Let_def prog_def)
next
  case (Some e)
  then show ?thesis using start_failed_prog[OF p] assms by (auto simp: start_wait_def split: list.split)
qed

lemma scale_provision_prog: "progress p {} False \<Longrightarrow> prog (scale_provision p answer)"
proof (cases answer)
  case (Inr rid)
  assume p: "progress p {} False"
  obtain p1 a where r: "register p rid = (p1, a)" by fastforce
  show ?thesis using add_task_prog[of p1 "ScaleWait a" False] register_progress(1)[OF r p] Inr r
    by (simp add: scale_provision_def)
qed (use progress_quiet(3) in \<open>auto simp: scale_provision_def prog_def\<close>)

lemma drop_replica_prog:
  assumes p: "progress p {a} False" and ne: "pr_replicas (drop_replica p a) \<noteq> []"
  shows "prog (drop_replica p a)"
proof -
  have "pool_ok (drop_replica p a) {}"
    using p by (intro drop_pool_ok[of p]) (auto simp: progress_def held_ok_def)
  moreover have "awaited (drop_replica p a) = awaited p" "start_pending (drop_replica p a) = start_pending p"
    "setting_up (drop_replica p a) = setting_up p" "pr_objects (drop_replica p a) = pr_objects p"
    "pr_tasks (drop_replica p a) = pr_tasks p"
    by (simp_all add: drop_replica_def awaited_def start_pending_def setting_up_def)
  moreover from this have "held_ok (drop_replica p a) {}" using p by (simp add: progress_def held_ok_def)
  ultimately show ?thesis using p ne by (simp add: prog_def progress_def)
qed

lemma scale_wait_prog:
  "progress p {a} False \<Longrightarrow> answer = None \<or> pr_replicas (drop_replica p a) \<noteq> [] \<Longrightarrow> prog (scale_wait p a answer)"
  "progress p {a} False \<Longrightarrow> answer = None \<or> pr_replicas (drop_replica p a) \<noteq> [] \<Longrightarrow> prog (fst (adopt p a answer))"
  using start_worker_progress[of p a "{}" False] drop_replica_prog[of p a] progress_quiet(3)[of "drop_replica p a" "{}" False]
  by (auto simp: scale_wait_def adopt_def Let_def prog_def split: option.split)

lemma adopt_all_prog:
  "progress p (set as) False \<Longrightarrow> prog (fold (\<lambda>a p. add_task p (Adopt a)) as p)"
proof (induction as arbitrary: p)
  case (Cons a as)
  have "progress (add_task p (Adopt a)) (set as) False"
    using Cons.prems by (auto simp: progress_def held_ok_def pool_ok_def setting_up_def)
  then show ?case using Cons.IH by simp
qed (simp add: prog_def)

lemma reconcile_prog: "prog p \<Longrightarrow> prog (reconcile p answer)"
proof (cases answer)
  case (Inr rids)
  assume p: "prog p"
  obtain p1 as where r: "register_all p (filter (\<lambda>rid. rid \<notin> fst ` set (pr_replicas p)) (remdups rids)) = (p1, as)"
    by fastforce
  have "progress p1 (set as) False" using register_all_progress[OF r, of "{}" False] p by (simp add: prog_def)
  then show ?thesis using adopt_all_prog[of p1 as] p Inr r by (simp add: reconcile_def)
qed (use progress_quiet(3) in \<open>auto simp: reconcile_def prog_def\<close>)

lemma worker_take_prog:
  assumes p: "prog p" and k: "k < length (pr_workers p)" and w: "wk_at (pr_workers p ! k) \<noteq> Done"
    and inv: "queue_inv (pr_queue p)" and t: "worker_take now p k lookup = Some res"
  shows "prog (fst res)"
proof -
  from t obtain r q where g: "q_get (pr_queue p) = Some (r, q)" by (auto simp: worker_take_def split: option.splits)
  let ?p0 = "set_current (p\<lparr>pr_queue := q\<rparr>) (wk_replica (pr_workers p ! k)) (Some (r, now))"
  let ?p1 = "set_place ?p0 k (AtRun r)"
  have "progress (p\<lparr>pr_queue := q\<rparr>) {} False" using progress_quiet(6)[of p "{}" False] p inv g by (simp add: prog_def)
  then have "progress ?p0 {} False" by (rule progress_quiet(1))
  then have p1: "prog ?p1" using progress_quiet(5)[of ?p0 "{}" False k "AtRun r"] w by (simp add: prog_def)
  have "prog (fst (dispatch_failed now ?p1 k r e))" for e
    using dispatch_failed_prog[OF p1] k queue_ids_get[OF inv g] by simp
  with p1 t g show ?thesis by (auto simp: worker_take_def Let_def split: option.splits)
qed

lemma cancelled_exit_prog:
  assumes "prog p" and "k < length (pr_workers p)" and "wk_at (pr_workers p ! k) \<noteq> Done"
  shows "prog (fst (cancelled_exit p k))"
  using worker_loop_prog(2)[OF assms] worker_exit_prog[OF assms(1,2)] by (simp add: cancelled_exit_def split: place.split)

lemma pop_queued_prog: "prog p \<Longrightarrow> queue_inv (pr_queue p) \<Longrightarrow> pop_queued p i = (p1, Some r) \<Longrightarrow> prog p1"
proof -
  assume p: "prog p" and inv: "queue_inv (pr_queue p)" and pop: "pop_queued p i = (p1, Some r)"
  then obtain q where q: "q_remove (pr_queue p) i = (q, Some r)" "p1 = p\<lparr>pr_queue := q\<rparr>"
    by (auto simp: pop_queued_def split: prod.splits)
  have "r \<in> set (snapshot (pr_queue p))" using remove_inv[OF inv q(1)] by blast
  then have "qsize (pr_queue p) \<noteq> 0" using size_snapshot[of "pr_queue p"] by (metis length_0_conv list.set(1) empty_iff)
  then show ?thesis using p progress_cong[of p "{}" False p1] by (simp add: prog_def q(2))
qed

lemma task_event_prog:
  assumes p: "prog p" and f: "fire en ev p = Some res" and t: "task_event ev" and s: "\<not> strands p ev"
  shows "prog (fst res)"
proof -
  have st: "pr_status p1 = pr_status p" "pr_replicas (drop_replica p1 a) = pr_replicas (drop_replica p a)"
    if "take_task p tk = Some p1" for p1 tk a using that by (auto simp: take_task_def drop_replica_def split: if_splits)
  note tp = take_task_progress[OF p]
  show ?thesis
  proof (cases ev)
    case (StartReady waiting answer)
    with f obtain p1 where t: "take_task p (StartWait waiting) = Some p1" "res = start_wait p1 waiting answer" by auto
    moreover have "waiting \<noteq> []" using t p by (auto simp: take_task_def prog_def progress_def held_ok_def split: if_splits)
    ultimately show ?thesis using tp[OF t(1)] st(1)[OF t(1)] s StartReady
      by (cases answer) (auto intro!: start_wait_prog)
  next
    case (ScaleReady a answer)
    with f obtain p1 where t: "take_task p (ScaleWait a) = Some p1" "res = (scale_wait p1 a answer, [])" by auto
    then show ?thesis using tp[OF t(1)] st(2)[OF t(1)] s ScaleReady by (cases answer) (auto intro!: scale_wait_prog)
  next
    case (AdoptReady a answer)
    with f obtain p1 where t: "take_task p (Adopt a) = Some p1" "res = adopt p1 a answer" by auto
    then show ?thesis using tp[OF t(1)] st(2)[OF t(1)] s AdoptReady by (cases answer) (auto intro!: scale_wait_prog)
  next
    case (KillReturned a r)
    then show ?thesis using f tp[of "KillWait a r"] by (auto simp: prog_def split: if_splits)
  next
    case (KillTimeout a r)
    then show ?thesis using f tp[of "KillWait a r"] by (auto simp: prog_def progress_cancel_worker split: if_splits)
  next
    case (QueryAnswered answer)
    then show ?thesis using f tp[of StartQuery] by (auto intro!: start_query_prog)
  next
    case (ProvisionAnswered answer)
    then show ?thesis using f tp[of StartProvision] by (auto intro!: start_provision_prog)
  next
    case (ScaleAnswered answer)
    then show ?thesis using f tp[of ScaleProvision] by (auto intro!: scale_provision_prog)
  qed (use t in simp_all)
qed

lemma worker_event_prog:
  assumes p: "prog p" and inv: "queue_inv (pr_queue p)" and f: "fire en ev p = Some res" and t: "\<not> task_event ev"
  shows "prog (fst res)"
proof (cases ev)
  case (Take now k lookup)
  then show ?thesis using f p inv undisturbed_bound[of p k] by (auto intro!: worker_take_prog split: if_splits)
next
  case (RunReturned k)
  then show ?thesis using f p undisturbed_bound[of p k] by (auto intro!: worker_loop_prog(1) split: place.splits if_splits)
next
  case (RunRaised now k e)
  then show ?thesis using f p inv undisturbed_bound[of p k] by (auto intro!: dispatch_failed_prog split: place.splits if_splits)
next
  case (Restarted k answer)
  then show ?thesis using f p undisturbed_bound[of p k]
    by (auto intro!: worker_loop_prog split: option.splits if_splits)
next
  case (CancelDelivered k)
  then show ?thesis using f p by (auto intro!: cancelled_exit_prog simp: worker_done_def split: if_splits)
next
  case (Purged m)
  then show ?thesis using f purge_prog[of p "{}" False] p by (auto simp: prog_def)
next
  case (KillQueued i)
  then show ?thesis using f pop_queued_prog[OF p inv] by (auto split: prod.splits option.splits)
next
  case (KillExecuting i)
  then show ?thesis using f p by (auto intro!: add_idle_task_prog split: option.splits)
next
  case (Tick now)
  then show ?thesis using f p by (auto intro!: add_idle_task_prog simp: autoscale_def split: if_splits)
next
  case (Enqueued now r)
  then show ?thesis using f enqueue_prog[OF p, of now r False] by auto
next
  case (Reconciled answer)
  then show ?thesis using f reconcile_prog[OF p] by auto
qed (use t in simp_all)

text \<open>The states reached without one of those steps.\<close>

inductive calm :: "environment \<Rightarrow> processor \<Rightarrow> bool" for en where
  initial: "calm en (new_processor mk)"
| step: "calm en p \<Longrightarrow> fire en ev p = Some (p', outs) \<Longrightarrow> \<not> strands p ev \<Longrightarrow> calm en p'"

lemma calm_prog: "calm en p \<Longrightarrow> prog p \<and> queue_inv (pr_queue p)"
proof (induction rule: calm.induct)
  case (initial mk)
  then show ?case using prog_new new_queue_inv by (simp add: new_processor_def)
next
  case (step p ev p' outs)
  then show ?case
    using task_event_prog[of p en ev "(p', outs)"] worker_event_prog[of p en ev "(p', outs)"]
      fire_settles[of p en ev "(p', outs)"] by (auto simp: settles_def)
qed

end
