(* ===== verification/Processor_Props.thy ===== *)
theory Processor_Props
  imports Processor_Progress
begin

text \<open>
  The properties of the processor of a model: no request is lost, a queued request is attended,
  a worker serves the queue in order, an evicted request goes back to the front. The steps that do
  not keep them are shown by runs of the model.
\<close>

section \<open>Example data\<close>

definition ex_env :: environment where
  "ex_env = \<lparr>en_loads = (\<lambda>_. None), en_render = (\<lambda>_. []), en_config = \<lparr>cf_wait_threshold_s = 30, cf_max_replicas = 1\<rparr>\<rparr>"

definition ex_died :: err where
  "ex_died = \<lparr>err_kind = ActorDiedErr, err_cause = None, err_text = []\<rparr>"

abbreviation req_a :: request where
  "req_a \<equiv> ex_request ''a'' []"

abbreviation ref_a :: request_ref where
  "ref_a \<equiv> (''a'', ''m'')"

text \<open>A request arrives at an idle processor, whose model the controller already serves.\<close>

definition ex_up :: "event list" where
  "ex_up = [Enqueued 1 req_a, QueryAnswered (Inr [''r1'']), StartReady [0] None]"

section \<open>No request is lost\<close>



section \<open>A queued request is attended\<close>

text \<open>C6. As long as no wait for a replica fails while the processor counts as serving, and no failed
  adoption or addition empties the pool, a processor with a queued request has a worker, waits for
  a replica to become ready, or is starting one.\<close>

theorem queued_is_attended:
  assumes "calm en p" and "qsize (pr_queue p) \<noteq> 0"
  shows "attended p"
  using assms calm_prog prog_attended by blast

theorem queued_is_attended_witness: "attended (fst (enqueue 1 (new_processor ''m'') req_a False))"
proof (rule queued_is_attended)
  show "calm ex_env (fst (enqueue 1 (new_processor ''m'') req_a False))"
    by (rule calm.step[OF calm.initial, where ev = "Enqueued 1 req_a" and outs = "snd (enqueue 1 (new_processor ''m'') req_a False)"]) simp_all
  show "qsize (pr_queue (fst (enqueue 1 (new_processor ''m'') req_a False))) \<noteq> 0" by code_simp
qed

section \<open>A worker serves the queue\<close>

definition serve :: "rat \<Rightarrow> nat \<Rightarrow> nat \<Rightarrow> event list" where
  "serve now k n = concat (replicate n [Take now k None, RunReturned k])"

lemma rep_task_current: "rep_task (pr_objects (set_current p a c) ! b) = rep_task (pr_objects p ! b)"
  by (cases "a < length (pr_objects p)") (auto simp: set_current_def nth_list_update list_update_beyond)

lemma done_place: "wk_at (pr_workers p ! k) \<noteq> Done \<Longrightarrow> l \<noteq> Done \<Longrightarrow> worker_done (set_place p k l) j = worker_done p j"
  by (cases "k < length (pr_workers p)") (auto simp: worker_done_def set_place_def nth_list_update list_update_beyond)

lemma dropped_frame [simp]:
  "dropped (set_current p a c) b = dropped p b" "dropped (p\<lparr>pr_queue := q\<rparr>) b = dropped p b"
  "wk_at (pr_workers p ! k) \<noteq> Done \<Longrightarrow> l \<noteq> Done \<Longrightarrow> dropped (set_place p k l) b = dropped p b"
proof -
  have "worker_done (set_current p a c) j = worker_done p j" for j by (simp add: worker_done_def)
  then show "dropped (set_current p a c) b = dropped p b" by (simp add: dropped_def rep_task_current cong: option.case_cong)
  show "dropped (p\<lparr>pr_queue := q\<rparr>) b = dropped p b" by (simp add: dropped_def worker_done_def cong: option.case_cong)
  show "wk_at (pr_workers p ! k) \<noteq> Done \<Longrightarrow> l \<noteq> Done \<Longrightarrow> dropped (set_place p k l) b = dropped p b"
    by (simp add: dropped_def done_place cong: option.case_cong)
qed

text \<open>A worker at rest that has not been cancelled, of a replica that has not been dropped.\<close>

definition serving :: "processor \<Rightarrow> nat \<Rightarrow> bool" where
  "serving p k \<longleftrightarrow> undisturbed p k \<and> place_of p k = AtGet \<and> \<not> dropped p (wk_replica (pr_workers p ! k))"

lemma serve_one:
  assumes s: "serving p k" and g: "q_get (pr_queue p) = Some (r, q)"
  shows "\<exists>p'. run_events en [Take now k None, RunReturned k] p = Some (p', [Sent r DISPATCHED dispatched_text, RunDone r]) \<and>
    serving p' k \<and> pr_queue p' = q"
proof -
  let ?a = "wk_replica (pr_workers p ! k)"
  let ?p0 = "set_current (p\<lparr>pr_queue := q\<rparr>) ?a (Some (r, now))"
  let ?p1 = "set_place ?p0 k (AtRun r)" and ?p2 = "set_place (set_current (set_place ?p0 k (AtRun r)) ?a None) k AtGet"
  have u: "undisturbed p k" "k < length (pr_workers p)" "wk_at (pr_workers p ! k) = AtGet" "\<not> dropped p ?a"
    using s undisturbed_bound[of p k] by (auto simp: serving_def)
  have w1: "pr_workers ?p1 ! k = (pr_workers p ! k)\<lparr>wk_at := AtRun r\<rparr>"
    and w2: "pr_workers ?p2 ! k = (pr_workers p ! k)\<lparr>wk_at := AtGet\<rparr>" "length (pr_workers ?p2) = length (pr_workers p)"
    using u(2) by (simp_all add: set_place_def)
  have u1: "undisturbed ?p1 k" "place_of ?p1 k = AtRun r"
    using u w1 by (simp_all add: undisturbed_def worker_done_def place_of_def)
  have d1: "\<not> dropped ?p1 ?a" using u dropped_frame(3)[of ?p0 k "AtRun r"] by simp
  then have loop: "worker_loop ?p1 k = ?p2" using w1 by (simp add: worker_loop_def Let_def)
  have t: "worker_take now p k None = Some (?p1, [Sent r DISPATCHED dispatched_text])"
    using g by (simp add: worker_take_def Let_def)
  have "\<not> dropped ?p2 ?a"
    using d1 dropped_frame(3)[of "set_current ?p1 ?a None" k AtGet ?a] w1 by simp
  then have "serving ?p2 k"
    using u w2 by (simp add: serving_def undisturbed_def worker_done_def place_of_def)
  then show ?thesis using s u1 t loop u by (intro exI[of _ ?p2]) (simp add: serving_def)
qed

lemma run_append:
  "run_events en (xs @ ys) p =
     (case run_events en xs p of None \<Rightarrow> None
      | Some (p1, o1) \<Rightarrow> map_option (\<lambda>(p2, o2). (p2, o1 @ o2)) (run_events en ys p1))"
  by (induction xs arbitrary: p) (auto split: option.splits simp: option.map_comp comp_def case_prod_unfold option.map_ident)

text \<open>C7. A worker that is at rest serves every queued request, in the order of the snapshot, when its
  runs return: each is announced as dispatched and comes back, and the queue is empty at the end.\<close>

theorem worker_serves_queue:
  assumes "queue_inv (pr_queue p)" and "serving p k"
  shows "\<exists>p'. run_events en (serve now k (qsize (pr_queue p))) p =
      Some (p', concat (map (\<lambda>r. [Sent r DISPATCHED dispatched_text, RunDone r]) (snapshot (pr_queue p)))) \<and>
    qsize (pr_queue p') = 0 \<and> serving p' k"
  using assms
proof (induction "qsize (pr_queue p)" arbitrary: p)
  case 0
  then show ?case using size_snapshot[of "pr_queue p"] by (simp add: serve_def)
next
  case (Suc n)
  then have "snapshot (pr_queue p) \<noteq> []" using size_snapshot[of "pr_queue p"] by auto
  then obtain r q where g: "q_get (pr_queue p) = Some (r, q)" using get_None by fastforce
  from serve_one[OF Suc.prems(2) g] obtain p1 where
    r: "run_events en [Take now k None, RunReturned k] p = Some (p1, [Sent r DISPATCHED dispatched_text, RunDone r])"
    and s: "serving p1 k" and q: "pr_queue p1 = q" by blast
  note inv = get_inv[OF Suc.prems(1) g]
  have "n = qsize (pr_queue p1)" using Suc.hyps(2) inv q size_snapshot[of "pr_queue p"] size_snapshot[of q] by simp
  from Suc.hyps(1)[OF this] inv q s obtain p2 where
    "run_events en (serve now k n) p1 =
       Some (p2, concat (map (\<lambda>r. [Sent r DISPATCHED dispatched_text, RunDone r]) (snapshot q)))"
    "qsize (pr_queue p2) = 0" "serving p2 k" using \<open>n = _\<close> by auto
  moreover have "serve now k (Suc n) = [Take now k None, RunReturned k] @ serve now k n" by (simp add: serve_def)
  ultimately show ?case using r inv Suc.hyps(2) by (simp only: run_append) simp
qed

definition ex_serving :: processor where
  "ex_serving = fst (the (run_events ex_env (ex_up @ [Enqueued 2 (ex_request ''p'' [''priority''])]) (new_processor ''m'')))"

theorem worker_serves_queue_witness:
  "\<exists>p'. run_events ex_env (serve 5 0 2) ex_serving =
      Some (p', concat (map (\<lambda>r. [Sent r DISPATCHED dispatched_text, RunDone r]) (snapshot (pr_queue ex_serving)))) \<and>
    map rq_id (snapshot (pr_queue ex_serving)) = [''p'', ''a''] \<and> qsize (pr_queue p') = 0"
proof -
  let ?evs = "ex_up @ [Enqueued 2 (ex_request ''p'' [''priority''])]"
  have ev: "map_option (\<lambda>(p, _). (serving p 0, qsize (pr_queue p), map rq_id (snapshot (pr_queue p))))
      (run_events ex_env ?evs (new_processor ''m'')) = Some (True, 2, [''p'', ''a''])" by code_simp
  then obtain outs where r: "run_events ex_env ?evs (new_processor ''m'') = Some (ex_serving, outs)"
    by (cases "run_events ex_env ?evs (new_processor ''m'')") (auto simp: ex_serving_def)
  have inv: "queue_inv (pr_queue ex_serving)"
    using r run_settles[of "new_processor ''m''" ex_env ?evs "(ex_serving, outs)"] new_queue_inv
    by (simp add: settles_def new_processor_def)
  have s: "serving ex_serving 0" and n: "qsize (pr_queue ex_serving) = 2"
    and ids: "map rq_id (snapshot (pr_queue ex_serving)) = [''p'', ''a'']" using ev unfolding r by simp_all
  from worker_serves_queue[OF inv s, of ex_env 5, unfolded n] show ?thesis
    by (elim exE conjE) (intro exI conjI ids, assumption+)
qed

section \<open>An evicted request goes back to the front\<close>

lemma evicted_requeued:
  assumes "place_of p k = AtRun r" and "undisturbed p k" and "evicted e" and "q_put now (pr_queue p) r True = (q, r)"
  shows "\<exists>p' outs. fire en (RunRaised now k e) p = Some (p', outs) \<and> pr_queue p' = q \<and> rq_ref r \<notin> answered outs"
proof -
  let ?p1 = "set_task (set_place p k AtGet) (wk_replica (pr_workers p ! k)) None"
  obtain p2 o2 where enq: "enqueue now ?p1 r True = (p2, o2)" by fastforce
  have q2: "pr_queue p2 = q" and o2: "\<forall>y \<in> set o2. \<exists>st m. y = Sent r st m \<and> st \<noteq> ERROR"
    using enq assms(4) by (auto simp: enqueue_def Let_def reply_one_def reply_text_def split: if_splits)
  have "fire en (RunRaised now k e) p = Some (worker_loop p2 k, o2)"
    using assms(1,2,3) enq by (simp add: dispatch_failed_def Let_def)
  moreover have "closes y = None" if "y \<in> set o2" for y
  proof -
    from o2 that obtain st m where "y = Sent r st m" "st \<noteq> ERROR" by blast
    then show ?thesis by (cases st) simp_all
  qed
  then have "rq_ref r \<notin> answered o2" by (force simp: answered_def image_def)
  ultimately show ?thesis using q2 by (intro exI[of _ "worker_loop p2 k"] exI[of _ o2]) simp
qed

text \<open>C8. When a run fails because the replica is gone, the request gets no error: it is put back, with
  the time it was first queued at, behind only the requests of a better tier and those handed back
  that had been queued before it, and ahead of every other request of its group.\<close>

theorem evicted_request_goes_first:
  assumes "queue_inv (pr_queue p)" and "place_of p k = AtRun r" and "undisturbed p k" and "evicted e"
    and "rq_enqueued_at r = Some t"
  shows "\<exists>p' outs. fire en (RunRaised now k e) p = Some (p', outs) \<and> rq_ref r \<notin> answered outs \<and>
    snapshot (pr_queue p') =
      map snd (filter (\<lambda>x. fst x < (rank r True, t, q_seq (pr_queue p))) (sort_key fst (q_items (pr_queue p)))) @ [r] @
      map snd (filter (\<lambda>x. \<not> fst x < (rank r True, t, q_seq (pr_queue p))) (sort_key fst (q_items (pr_queue p)))) \<and>
    (\<forall>x. x \<in> set (q_items (pr_queue p)) \<longrightarrow> fst (fst x) = rank r False \<longrightarrow>
       \<not> fst x < (rank r True, t, q_seq (pr_queue p)))"
proof -
  obtain q r' where put: "q_put now (pr_queue p) r True = (q, r')" by fastforce
  have "r\<lparr>rq_enqueued_at := Some t\<rparr> = r" using assms(5) by simp
  with snapshot_put[OF assms(1) put] assms(5) have r': "r' = r" and snap: "snapshot q =
      map snd (filter (\<lambda>x. fst x < (rank r True, t, q_seq (pr_queue p))) (sort_key fst (q_items (pr_queue p)))) @ [r] @
      map snd (filter (\<lambda>x. \<not> fst x < (rank r True, t, q_seq (pr_queue p))) (sort_key fst (q_items (pr_queue p))))" by auto
  from evicted_requeued[OF assms(2,3,4), of now q en] put r' obtain p' outs where
    "fire en (RunRaised now k e) p = Some (p', outs)" "pr_queue p' = q" "rq_ref r \<notin> answered outs" by auto
  moreover have "\<not> fst x < (rank r True, t, q_seq (pr_queue p))" if "fst (fst x) = rank r False" for x :: queue_item
    using that by (cases x) (auto simp: rank_def less_prod_def)
  ultimately show ?thesis using snap by (intro exI[of _ p'] exI[of _ outs]) simp
qed

definition ex_running :: "event list" where
  "ex_running = ex_up @ [Take 2 0 None, Enqueued 3 (ex_request ''b'' [])]"

lemma answered_empty [simp]: "answered [] = {}"
  by (simp add: answered_def)

lemma run_inv: "run_events en evs (new_processor mk) = Some (p, outs) \<Longrightarrow> queue_inv (pr_queue p)"
  using run_settles[of "new_processor mk" en evs "(p, outs)"] new_queue_inv by (simp add: settles_def new_processor_def)

theorem evicted_request_goes_first_witness:
  "\<exists>p p' outs r. fst (the (run_events ex_env ex_running (new_processor ''m''))) = p \<and>
     fire ex_env (RunRaised 4 0 ex_died) p = Some (p', outs) \<and> place_of p 0 = AtRun r \<and> rq_ref r \<notin> answered outs"
proof -
  have ev: "map_option (\<lambda>(p, _). (undisturbed p 0, map_option rq_enqueued_at (case place_of p 0 of AtRun r \<Rightarrow> Some r | _ \<Rightarrow> None)))
      (run_events ex_env ex_running (new_processor ''m'')) = Some (True, Some (Some 1))" by code_simp
  then obtain p outs where r: "run_events ex_env ex_running (new_processor ''m'') = Some (p, outs)"
    by (cases "run_events ex_env ex_running (new_processor ''m'')") auto
  from ev r obtain rq where "place_of p 0 = AtRun rq" "undisturbed p 0" "rq_enqueued_at rq = Some 1"
    by (auto split: place.splits)
  with evicted_request_goes_first[OF run_inv[OF r], of 0 rq ex_died 1 ex_env 4] r show ?thesis
    by (auto simp: ex_died_def evicted_def evicted_errors_def)
qed

section \<open>Where a request is left alone\<close>

text \<open>The events that need neither a new request, nor an operator, nor the dispatcher.\<close>

fun own_event :: "event \<Rightarrow> bool" where
  "own_event (Enqueued _ _) = False"
| "own_event (Reconciled _) = False"
| "own_event (Purged _) = False"
| "own_event (KillQueued _) = False"
| "own_event _ = True"

definition dormant :: "processor \<Rightarrow> bool" where
  "dormant p \<longleftrightarrow>
     pr_tasks p = [] \<and> (\<forall>w \<in> set (pr_workers p). wk_at w = Done) \<and>
     (\<forall>x \<in> set (pr_replicas p). rep_current (pr_objects p ! snd x) = None)"

lemma dormant_done: "dormant p \<Longrightarrow> worker_done p k" "dormant p \<Longrightarrow> \<not> undisturbed p k"
  by (auto simp: dormant_def worker_done_def undisturbed_def)

lemma dormant_no_task: "dormant p \<Longrightarrow> take_task p t = None"
  by (simp add: dormant_def take_task_def)

lemma dormant_executing: "dormant p \<Longrightarrow> executing_replica p i = None"
  by (auto simp: dormant_def executing_replica_def find_None_iff current_request_def split: option.splits)

lemma dormant_step:
  assumes d: "dormant p" and "own_event ev" and n: "\<And>now. autoscale (en_config en) now p = p"
    and f: "fire en ev p = Some (p', outs)"
  shows "p' = p \<and> outs = []"
  using assms(2) f dormant_done[OF d] dormant_no_task[OF d] dormant_executing[OF d] n
  by (cases ev) (auto simp: place_of_def split: if_splits)

lemma dormant_run:
  assumes "dormant p" and n: "\<And>now. autoscale (en_config en) now p = p"
  shows "list_all own_event evs \<Longrightarrow> run_events en evs p = Some (p', outs) \<Longrightarrow> p' = p \<and> outs = []"
  by (induction evs arbitrary: outs)
    (auto split: option.splits dest!: dormant_step[OF assms(1) _ n])

definition ex_stranded :: "event list" where
  "ex_stranded = [Reconciled (Inr [''r1'']), Enqueued 1 req_a, AdoptReady 0 (Some ex_died)]"

text \<open>A request that arrives while a replica is being adopted is left alone when the adoption
  fails: the replica leaves the pool, nothing is started, and nothing the processor does by itself
  ever serves or answers the request, under any configuration.\<close>

theorem adopt_failure_strands_request:
  "\<exists>p outs. run_events ex_env ex_stranded (new_processor ''m'') = Some (p, outs) \<and>
     pending p = {#ref_a#} \<and> pr_status p = UNINITIALIZED \<and>
     (\<forall>en evs p' outs'. list_all own_event evs \<longrightarrow> run_events en evs p = Some (p', outs') \<longrightarrow> p' = p \<and> outs' = [])"
proof -
  have ev: "map_option (\<lambda>(p, _). (map rq_ref (snapshot (pr_queue p)), places p, pr_status p, pr_tasks p, pr_replicas p, pr_workers p))
      (run_events ex_env ex_stranded (new_processor ''m'')) = Some ([ref_a], [], UNINITIALIZED, [], [], [])" by code_simp
  then obtain p outs where r: "run_events ex_env ex_stranded (new_processor ''m'') = Some (p, outs)"
    by (cases "run_events ex_env ex_stranded (new_processor ''m'')") auto
  with ev have q: "map rq_ref (snapshot (pr_queue p)) = [ref_a]" "places p = []" "pr_status p = UNINITIALIZED"
    and d: "dormant p" by (simp_all add: dormant_def)
  have "autoscale cf now p = p" for cf now using q by (simp add: autoscale_def wants_scale_up_def)
  with dormant_run[OF d] r q show ?thesis
    by (intro exI[of _ p] exI[of _ outs]) (simp add: pending_alt queue_ids_snapshot)
qed

theorem adopt_failure_strands_request_witness:
  "\<exists>p outs. run_events ex_env ex_stranded (new_processor ''m'') = Some (p, outs) \<and> pending p = {#ref_a#} \<and>
     run_events ex_env [Tick 100] p = Some (p, [])"
proof -
  from adopt_failure_strands_request obtain p outs where
    r: "run_events ex_env ex_stranded (new_processor ''m'') = Some (p, outs)" and "pending p = {#ref_a#}"
    and idle: "\<forall>evs p' outs'. list_all own_event evs \<longrightarrow> run_events ex_env evs p = Some (p', outs') \<longrightarrow> p' = p \<and> outs' = []"
    by blast
  moreover have "map_option (\<lambda>_. True) (run_events ex_env (ex_stranded @ [Tick 100]) (new_processor ''m'')) = Some True" by code_simp
  then obtain p' outs' where "run_events ex_env [Tick 100] p = Some (p', outs')" unfolding run_append r by auto
  ultimately show ?thesis using idle[rule_format, of "[Tick 100]" p' outs'] by simp
qed

definition ex_unstarted :: "event list" where
  "ex_unstarted = [Enqueued 1 req_a, QueryAnswered (Inr [''r1'', ''r2'']), StartReady [0, 1] None,
     StartReady [1] (Some ex_died), Take 2 0 None, RunRaised 3 0 ex_died]"

lemma enqueue_reply: "enqueue now p r b = (p1, outs) \<Longrightarrow> answered outs = {}"
proof -
  assume e: "enqueue now p r b = (p1, outs)"
  then have "\<exists>r' st m. outs = [Sent r' st m] \<and> st \<noteq> ERROR"
    by (auto simp: enqueue_def Let_def reply_one_def reply_text_def split: prod.splits if_splits)
  then obtain r' st m where "outs = [Sent r' st m]" "st \<noteq> ERROR" by blast
  then show ?thesis by (cases st) (simp_all add: answered_def)
qed

text \<open>A pool of replicas without workers blocks every restart.\<close>

lemma blocked_run:
  assumes "dormant p" and "pr_replicas p \<noteq> []" and cf: "cf_max_replicas (en_config en) \<le> length (pr_replicas p)"
    and inv: "queue_inv (pr_queue p)"
  shows "list_all (\<lambda>ev. own_event ev \<or> (\<exists>now r. ev = Enqueued now r)) evs \<Longrightarrow> run_events en evs p = Some (p', outs) \<Longrightarrow>
     pending p \<subseteq># pending p' \<and> answered outs = {}"
  using assms
proof (induction evs arbitrary: p outs)
  case (Cons ev evs)
  from Cons.prems(2) obtain p1 o1 o2 where f: "fire en ev p = Some (p1, o1)"
    and r: "run_events en evs p1 = Some (p', o2)" and outs: "outs = o1 @ o2" by (auto split: option.splits)
  have n: "autoscale (en_config en) now p = p" for now
    using Cons.prems(5) by (auto simp: autoscale_def wants_scale_up_def split: option.splits)
  have "dormant p1 \<and> pr_replicas p1 = pr_replicas p \<and> queue_inv (pr_queue p1) \<and> pending p \<subseteq># pending p1 \<and> answered o1 = {}"
  proof (cases "own_event ev")
    case True
    then show ?thesis using dormant_step[OF Cons.prems(3) True n f] Cons.prems by simp
  next
    case False
    with Cons.prems(1) obtain now rq where ev: "ev = Enqueued now rq" by auto
    with f have e: "enqueue now p rq False = (p1, o1)" by simp
    then have "p1 = p\<lparr>pr_queue := fst (q_put now (pr_queue p) rq False)\<rparr>"
      using Cons.prems(4) by (auto simp: enqueue_def Let_def ensure_started_def split: prod.splits)
    then show ?thesis using enqueue_reply[OF e] pending_enqueue[OF Cons.prems(6), of now rq False] e Cons.prems(3)
      by (simp add: dormant_def)
  qed
  then show ?case using Cons.IH[OF _ r] Cons.prems outs by (auto intro: subset_mset.trans)
qed simp

text \<open>A failed wait for a later replica leaves it in the pool without a worker. When the replica that
  did start is evicted, its request goes back to the queue and no replica is started, because the
  pool is not empty: with the pool at the autoscaling limit, neither the processor's own steps nor
  any number of further requests ever serve or answer it.\<close>

theorem unstarted_replica_blocks_pool:
  "\<exists>p outs. run_events ex_env ex_unstarted (new_processor ''m'') = Some (p, outs) \<and>
     pending p = {#ref_a#} \<and> pr_status p = READY \<and>
     (\<forall>evs p' outs'. list_all (\<lambda>ev. own_event ev \<or> (\<exists>now r. ev = Enqueued now r)) evs \<longrightarrow>
        run_events ex_env evs p = Some (p', outs') \<longrightarrow> ref_a \<in># pending p' \<and> answered outs' = {})"
proof -
  have ev: "map_option (\<lambda>(p, _). (map rq_ref (snapshot (pr_queue p)), places p, pr_status p, pr_tasks p, length (pr_replicas p),
      list_all (\<lambda>w. wk_at w = Done) (pr_workers p), list_all (\<lambda>x. rep_current (pr_objects p ! snd x) = None) (pr_replicas p)))
      (run_events ex_env ex_unstarted (new_processor ''m'')) = Some ([ref_a], [Done], READY, [], 1, True, True)" by code_simp
  then obtain p outs where r: "run_events ex_env ex_unstarted (new_processor ''m'') = Some (p, outs)"
    by (cases "run_events ex_env ex_unstarted (new_processor ''m'')") auto
  with ev have q: "map rq_ref (snapshot (pr_queue p)) = [ref_a]" "places p = [Done]" "pr_status p = READY"
    and l: "length (pr_replicas p) = 1" and d: "dormant p" by (auto simp: dormant_def list_all_iff)
  have pen: "pending p = {#ref_a#}" using q by (simp add: pending_alt queue_ids_snapshot)
  have "cf_max_replicas (en_config ex_env) \<le> length (pr_replicas p)" "pr_replicas p \<noteq> []" using l by (auto simp: ex_env_def)
  with blocked_run[OF d _ _ run_inv[OF r], of ex_env] pen r q show ?thesis
    by (intro exI[of _ p] exI[of _ outs]) auto
qed

theorem unstarted_replica_blocks_pool_witness:
  "\<exists>p outs p' outs'. run_events ex_env ex_unstarted (new_processor ''m'') = Some (p, outs) \<and>
     run_events ex_env [Enqueued 4 (ex_request ''b'' []), Tick 100] p = Some (p', outs') \<and> ref_a \<in># pending p' \<and> answered outs' = {}"
proof -
  let ?evs = "[Enqueued 4 (ex_request ''b'' []), Tick 100]"
  from unstarted_replica_blocks_pool obtain p outs where
    r: "run_events ex_env ex_unstarted (new_processor ''m'') = Some (p, outs)"
    and idle: "\<forall>evs p' outs'. list_all (\<lambda>ev. own_event ev \<or> (\<exists>now r. ev = Enqueued now r)) evs \<longrightarrow>
        run_events ex_env evs p = Some (p', outs') \<longrightarrow> ref_a \<in># pending p' \<and> answered outs' = {}"
    by blast
  have "map_option (\<lambda>_. True) (run_events ex_env (ex_unstarted @ ?evs) (new_processor ''m'')) = Some True" by code_simp
  then obtain p' outs' where run: "run_events ex_env ?evs p = Some (p', outs')" unfolding run_append r by auto
  have "list_all (\<lambda>ev. own_event ev \<or> (\<exists>now r. ev = Enqueued now r)) ?evs" by simp
  with idle run have "ref_a \<in># pending p' \<and> answered outs' = {}" by blast
  with r run show ?thesis by blast
qed

section \<open>Two starts at once\<close>

definition ex_wide :: environment where
  "ex_wide = ex_env\<lparr>en_config := \<lparr>cf_wait_threshold_s = 30, cf_max_replicas = 3\<rparr>\<rparr>"

definition ex_deployed :: "err + deploy_response" where
  "ex_deployed = Inr \<lparr>resp_results = [(''m'', \<lparr>res_replicas = [''r2''], res_error = None\<rparr>)], resp_evictions = {}, resp_change = True\<rparr>"

definition ex_race :: "event list" where
  "ex_race = ex_up @ [Take 2 0 None, Enqueued 3 (ex_request ''b'' []), Tick 40, RunRaised 41 0 ex_died,
     ScaleAnswered ex_deployed, QueryAnswered (Inr [''r2'']), ScaleReady 1 None, StartReady [2] None]"

text \<open>The autoscaler and a restart can both bring up the same replica: when the last replica is
  evicted while the autoscaler waits for the controller, the restart finds the added replica at the
  controller and registers it a second time, and two workers serve one actor at once.\<close>

theorem two_workers_on_one_replica:
  "\<exists>p outs. run_events ex_wide ex_race (new_processor ''m'') = Some (p, outs) \<and>
     map (\<lambda>w. rep_id (pr_objects p ! wk_replica w)) (filter (\<lambda>w. wk_at w \<noteq> Done) (pr_workers p)) = [''r2'', ''r2''] \<and>
     map fst (pr_replicas p) = [''r2'']"
proof -
  have ev: "map_option (\<lambda>(p, _). (map (\<lambda>w. rep_id (pr_objects p ! wk_replica w)) (filter (\<lambda>w. wk_at w \<noteq> Done) (pr_workers p)),
      map fst (pr_replicas p))) (run_events ex_wide ex_race (new_processor ''m'')) = Some ([''r2'', ''r2''], [''r2''])" by code_simp
  then show ?thesis by (cases "run_events ex_wide ex_race (new_processor ''m'')") auto
qed

section \<open>A purge and a late request\<close>

lemma cancel_all_outs:
  "y \<in> set (snd (cancel_all p as m)) \<Longrightarrow> \<exists>a \<in> set as. \<exists>r m'. current_request p a = Some r \<and> y = Sent r ERROR m'"
proof (induction as arbitrary: p)
  case (Cons a as)
  have "pr_objects (cancel_worker p a) = pr_objects p" by (simp add: cancel_worker_def cancel_task_def split: option.split)
  then have "current_request (cancel_worker p a) b = current_request p b" for b by (simp add: current_request_def)
  then show ?case using Cons by (fastforce simp: cancel_def case_prod_unfold split: option.splits if_splits)
qed simp

text \<open>\<open>purge\<close> tells the requests that are queued when it begins and drops those that are queued when it
  has told them. A request that arrives in between is dropped and never answered.\<close>

theorem purge_drops_late_request:
  assumes "queue_inv (pr_queue p)" and "rq_ref r \<notin># pending p"
    and "\<forall>x \<in> set (pr_replicas p). \<forall>r'. current_request p (snd x) = Some r' \<longrightarrow> rq_ref r' \<noteq> rq_ref r"
    and "enqueue now p r False = (p1, o1)" and "purge_drop p1 m = (p2, o2)"
  shows "rq_ref r \<notin># pending p2 \<and> rq_ref r \<notin> answered (purge_tell p m @ o1 @ o2)"
proof -
  have e: "pr_replicas p1 = pr_replicas p" "pr_objects p1 = pr_objects p" "places p1 = places p" "answered o1 = {}"
    using assms(4) enqueue_reply[OF assms(4)]
    by (auto simp: enqueue_def Let_def ensure_started_def places_def split: prod.splits if_splits)
  have pen: "pending p2 \<subseteq># pending p"
    using assms(5) e by (auto simp: purge_drop_def Let_def case_prod_unfold pending_alt queue_ids_def q_clear_def)
  have "rq_ref r \<notin> answered o2"
  proof
    assume "rq_ref r \<in> answered o2"
    then obtain y where y: "y \<in> set o2" "closes y = Some (rq_ref r)" by (auto simp: answered_def image_def)
    let ?q = "p1\<lparr>pr_queue := q_clear (pr_queue p1)\<rparr>"
    have "o2 = snd (cancel_all ?q (map snd (pr_replicas p)) m)"
      using assms(5) e(1) by (auto simp: purge_drop_def Let_def case_prod_unfold)
    with y(1) have "y \<in> set (snd (cancel_all ?q (map snd (pr_replicas p)) m))" by simp
    from cancel_all_outs[OF this] obtain x r' m' where x: "x \<in> set (pr_replicas p)"
      and c: "current_request ?q (snd x) = Some r'" and s: "y = Sent r' ERROR m'" by (simp only: set_map) blast
    have "current_request p (snd x) = Some r'" using c e by (simp add: current_request_def)
    then show False using assms(3) x s y(2) by auto
  qed
  moreover have "rq_ref r \<notin> answered (purge_tell p m)"
  proof
    assume "rq_ref r \<in> answered (purge_tell p m)"
    then obtain y where y: "y \<in> set (purge_tell p m)" "closes y = Some (rq_ref r)" by (auto simp: answered_def image_def)
    then have "\<exists>r' \<in> set (snapshot (pr_queue p)). y = Sent r' ERROR m"
      by (auto simp: purge_tell_def reply_all_def reply_text_def in_set_enumerate_eq)
    then obtain r' where "r' \<in> set (snapshot (pr_queue p))" "y = Sent r' ERROR m" by blast
    moreover from this y(2) have "rq_ref r \<in> rq_ref ` set (snapshot (pr_queue p))" by (metis closes.simps(1) imageI option.inject)
    ultimately show False using assms(2) by (simp add: pending_alt queue_ids_snapshot)
  qed
  ultimately show ?thesis using e(4) pen assms(2) by (auto dest: mset_subset_eqD)
qed

theorem purge_drops_late_request_witness:
  "\<exists>p1 o1 p2 o2. enqueue 1 (new_processor ''m'') req_a False = (p1, o1) \<and> purge_drop p1 starting_error = (p2, o2) \<and>
     ref_a \<notin># pending p2 \<and> ref_a \<notin> answered (purge_tell (new_processor ''m'') starting_error @ o1 @ o2)"
proof -
  obtain p1 o1 p2 o2 where e: "enqueue 1 (new_processor ''m'') req_a False = (p1, o1)" "purge_drop p1 starting_error = (p2, o2)"
    by fastforce
  have "queue_inv (pr_queue (new_processor ''m''))" "pending (new_processor ''m'') = {#}" "pr_replicas (new_processor ''m'') = []"
    using new_queue_inv by (simp_all add: new_processor_def pending_alt queue_ids_def places_def new_queue_def)
  with purge_drops_late_request[OF _ _ _ e] e show ?thesis by (simp add: ex_request_def rq_ref_def)
qed

end
