(* ===== verification/Ingress.thy ===== *)
theory Ingress
  imports Processor
begin

text \<open>
  \<open>services/api/auth.py\<close>, \<open>versioning.py\<close> and the request path of \<open>app.py\<close>: who may send a request, what
  is written onto it, and how it reaches the list the dispatcher reads. The parsers of third-party
  packages (the envelope, versions) and the database are parameters.
\<close>

section \<open>API keys\<close>

text \<open>\<open>uuid.UUID(text)\<close>: the text without \<open>urn:\<close>, \<open>uuid:\<close>, surrounding braces and hyphens must be 32
  characters that \<open>int(_, 16)\<close> reads, which also takes blanks around, a sign, a prefix and single
  underscores between digits.\<close>

fun remove_all :: "string \<Rightarrow> string \<Rightarrow> string" where
  "remove_all pat [] = []"
| "remove_all pat (c # cs) =
     (if pat \<noteq> [] \<and> take (length pat) (c # cs) = pat then remove_all pat (drop (length pat - 1) cs)
      else c # remove_all pat cs)"

definition strip_braces :: "string \<Rightarrow> string" where
  "strip_braces s = rev (dropWhile (\<lambda>c. c \<in> set ''{}'') (rev (dropWhile (\<lambda>c. c \<in> set ''{}'') s)))"

definition hex_digit :: "char \<Rightarrow> nat option" where
  "hex_digit c =
     (let n = of_char c :: nat in
      if 48 \<le> n \<and> n < 58 then Some (n - 48)
      else if 97 \<le> n \<and> n < 103 then Some (n - 87)
      else if 65 \<le> n \<and> n < 71 then Some (n - 55) else None)"

text \<open>\<open>prev\<close>: the last character was a digit.\<close>

fun hex_run :: "bool \<Rightarrow> nat \<Rightarrow> string \<Rightarrow> nat option" where
  "hex_run prev acc [] = (if prev then Some acc else None)"
| "hex_run prev acc (c # cs) =
     (if c = CHR ''_'' then (if prev then hex_run False acc cs else None)
      else (case hex_digit c of None \<Rightarrow> None | Some d \<Rightarrow> hex_run True (acc * 16 + d) cs))"

definition int16 :: "string \<Rightarrow> int option" where
  "int16 s =
     (let t = strip s;
          neg = (t \<noteq> [] \<and> hd t = CHR ''-'');
          u = (if t \<noteq> [] \<and> hd t \<in> set ''+-'' then tl t else t);
          p = (take 2 u = ''0x'' \<or> take 2 u = ''0X'');
          v = (if p then drop 2 u else u);
          w = (if p \<and> v \<noteq> [] \<and> hd v = CHR ''_'' then tl v else v)
      in map_option (\<lambda>n. if neg then - int n else int n) (hex_run False 0 w))"

definition uuid_of :: "string \<Rightarrow> nat option" where
  "uuid_of s =
     (let h = remove_all ''-'' (strip_braces (remove_all ''uuid:'' (remove_all ''urn:'' s))) in
      if length h \<noteq> 32 then None
      else (case int16 h of None \<Rightarrow> None | Some n \<Rightarrow> if 0 \<le> n then Some (nat n) else None))"

text \<open>\<open>str\<close> of a UUID.\<close>

definition hex_char :: "nat \<Rightarrow> char" where
  "hex_char d = char_of (if d < 10 then 48 + d else 87 + d)"

fun hex_text :: "nat \<Rightarrow> nat \<Rightarrow> string" where
  "hex_text 0 n = []"
| "hex_text (Suc w) n = hex_text w (n div 16) @ [hex_char (n mod 16)]"

definition uuid_text :: "nat \<Rightarrow> string" where
  "uuid_text n =
     (let h = hex_text 32 n in
      take 8 h @ ''-'' @ take 4 (drop 8 h) @ ''-'' @ take 4 (drop 12 h) @ ''-'' @ take 4 (drop 16 h) @ ''-'' @ drop 20 h)"

section \<open>Rejections\<close>

datatype rejection =
    NoKey | BadKey string | AuthDown | UnknownKey
  | BadEnvelope
  | RayDown
  | NoVersion | BadVersion string | OldVersion string

fun status_code :: "rejection \<Rightarrow> nat" where
  "status_code NoKey = 401"
| "status_code (BadKey _) = 400"
| "status_code AuthDown = 503"
| "status_code UnknownKey = 403"
| "status_code BadEnvelope = 422"
| "status_code RayDown = 503"
| "status_code NoVersion = 400"
| "status_code (BadVersion _) = 400"
| "status_code (OldVersion _) = 400"

section \<open>Authentication\<close>

text \<open>A row of the key query: the user, its address, a tag.\<close>

record key_row =
  kr_user_id :: string
  kr_email :: "string option"
  kr_user_tag :: "string option"

record identity =
  id_key_id :: string
  id_user_id :: string
  id_email :: "string option"
  id_user_tags :: "string list"

text \<open>The key database: \<open>None\<close> when it is not configured; a failed query is \<open>Inl\<close>.\<close>

type_synonym key_db = "(nat \<Rightarrow> unit + key_row list) option"

definition verify_api_key :: "key_db \<Rightarrow> string option \<Rightarrow> rejection + identity option" where
  "verify_api_key db api_key =
     (case db of
        None \<Rightarrow> Inr None
      | Some fetch \<Rightarrow>
          (case api_key of
             None \<Rightarrow> Inl NoKey
           | Some key \<Rightarrow>
               if key = [] then Inl NoKey
               else
                 (case uuid_of key of
                    None \<Rightarrow> Inl (BadKey key)
                  | Some k \<Rightarrow>
                      (case fetch k of
                         Inl _ \<Rightarrow> Inl AuthDown
                       | Inr [] \<Rightarrow> Inl UnknownKey
                       | Inr (row # rows) \<Rightarrow>
                           Inr (Some \<lparr>id_key_id = uuid_text k, id_user_id = kr_user_id row, id_email = kr_email row,
                             id_user_tags = List.map_filter kr_user_tag (row # rows)\<rparr>)))))"

text \<open>\<open>validate_request\<close>: \<open>parse\<close> is the model's validation of the envelope, with whether the client set
  \<open>tags\<close>; \<open>header\<close> is \<open>ndif-api-key\<close>.\<close>

definition validate_request ::
  "(string \<Rightarrow> (request \<times> bool) option) \<Rightarrow> key_db \<Rightarrow> string \<Rightarrow> string option \<Rightarrow> rejection + request" where
  "validate_request parse db data header =
     (case parse data of
        None \<Rightarrow> Inl BadEnvelope
      | Some (r, tags_set) \<Rightarrow>
          let r1 = (case header of None \<Rightarrow> r | Some k \<Rightarrow> if k = [] then r else r\<lparr>rq_api_key := Some k\<rparr>) in
          (case verify_api_key db (rq_api_key r1) of
             Inl e \<Rightarrow> Inl e
           | Inr (Some i) \<Rightarrow> Inr (r1\<lparr>rq_email := id_email i, rq_tags := remdups (id_user_tags i)\<rparr>)
           | Inr None \<Rightarrow> Inr (if tags_set then r1 else r1\<lparr>rq_tags := [''trusted'']\<rparr>)))"

text \<open>\<open>whoami\<close>\<close>

definition whoami :: "key_db \<Rightarrow> string option \<Rightarrow> rejection + string option \<times> string list" where
  "whoami db api_key =
     (case verify_api_key db api_key of
        Inl e \<Rightarrow> if status_code e = 401 \<or> status_code e = 403 then Inr (None, []) else Inl e
      | Inr None \<Rightarrow> Inr (None, [])
      | Inr (Some i) \<Rightarrow> Inr (id_email i, id_user_tags i))"

section \<open>Client versions\<close>

definition split_dot :: "string \<Rightarrow> string list" where
  "split_dot s = foldr (\<lambda>c acc. if c = CHR ''.'' then [] # acc else (c # hd acc) # tl acc) s [[]]"

definition join_dot :: "string list \<Rightarrow> string" where
  "join_dot xs = (case xs of [] \<Rightarrow> [] | y # ys \<Rightarrow> y @ concat (map ((@) ''.'') ys))"

text \<open>\<open>version\<close> parses a version and \<open>older\<close> compares two; a configured minimum is one that parses.\<close>

definition check_version ::
  "(string \<Rightarrow> 'v option) \<Rightarrow> ('v \<Rightarrow> 'v \<Rightarrow> bool) \<Rightarrow> 'v \<Rightarrow> string \<Rightarrow> string option \<Rightarrow> rejection + unit" where
  "check_version version older minimum used client =
     (case client of
        None \<Rightarrow> Inl NoVersion
      | Some c \<Rightarrow>
          if c = [] then Inl NoVersion
          else
            (case version used of
               None \<Rightarrow> Inl (BadVersion c)
             | Some v \<Rightarrow> if older v minimum then Inl (OldVersion used) else Inr ()))"

definition check_nnsight ::
  "(string \<Rightarrow> 'v option) \<Rightarrow> ('v \<Rightarrow> 'v \<Rightarrow> bool) \<Rightarrow> 'v \<Rightarrow> string option \<Rightarrow> rejection + unit" where
  "check_nnsight version older minimum client =
     check_version version older minimum (case client of None \<Rightarrow> [] | Some c \<Rightarrow> c) client"

definition check_python ::
  "(string \<Rightarrow> 'v option) \<Rightarrow> ('v \<Rightarrow> 'v \<Rightarrow> bool) \<Rightarrow> 'v \<Rightarrow> string option \<Rightarrow> rejection + unit" where
  "check_python version older minimum client =
     check_version version older minimum
       (case client of None \<Rightarrow> [] | Some c \<Rightarrow> join_dot (take 2 (split_dot c))) client"

definition validate_client_versions ::
  "(string \<Rightarrow> 'v option) \<Rightarrow> ('v \<Rightarrow> 'v \<Rightarrow> bool) \<Rightarrow> 'v option \<Rightarrow> 'v option \<Rightarrow> string option \<Rightarrow> string option \<Rightarrow>
   rejection + unit" where
  "validate_client_versions version older min_nnsight min_python nnsight python =
     (case (case min_nnsight of None \<Rightarrow> Inr () | Some m \<Rightarrow> check_nnsight version older m nnsight) of
        Inl e \<Rightarrow> Inl e
      | Inr _ \<Rightarrow> (case min_python of None \<Rightarrow> Inr () | Some m \<Rightarrow> check_python version older m python))"

section \<open>The request path\<close>

text \<open>What the API reads when a request comes in.\<close>

record 'v api =
  api_parse :: "string \<Rightarrow> (request \<times> bool) option"
  api_clock :: "string \<Rightarrow> lifecycle" \<comment> \<open>the two timing fields of the envelope\<close>
  api_version :: "string \<Rightarrow> 'v option"
  api_older :: "'v \<Rightarrow> 'v \<Rightarrow> bool"
  api_min_nnsight :: "'v option"
  api_min_python :: "'v option"
  api_to_float :: "string \<Rightarrow> rat option"

record headers =
  hd_api_key :: "string option"
  hd_nnsight_version :: "string option"
  hd_python_version :: "string option"
  hd_timestamp :: "string option"

text \<open>A queued item: the request with its status clock and its blob.\<close>

record pushed =
  ps_request :: request
  ps_lifecycle :: lifecycle
  ps_payload :: string

definition require_ray_connection :: "string option \<Rightarrow> rejection + unit" where
  "require_ray_connection flag = (case flag of None \<Rightarrow> Inl RayDown | Some f \<Rightarrow> if f = [] then Inl RayDown else Inr ())"

text \<open>The metric of the transit from the client: only for a readable time that is not in the future.\<close>

definition sent_ms :: "(string \<Rightarrow> rat option) \<Rightarrow> rat \<Rightarrow> string option \<Rightarrow> rat option" where
  "sent_ms to_float received_at timestamp =
     (case timestamp of
        None \<Rightarrow> None
      | Some t \<Rightarrow>
          if t = [] then None
          else (case to_float t of
                  None \<Rightarrow> None
                | Some sent_at \<Rightarrow> if sent_at \<le> received_at then Some (round2 ((received_at - sent_at) * 1000)) else None))"

definition received_text :: string where
  "received_text = ''Your job has been received and is waiting to be queued.''"

text \<open>\<open>create_request\<close> at time \<open>now\<close>, with the \<open>ray:connected\<close> flag, the key database and the Redis list:
  the response, the list with the new item at its head, the transit metric and the metric of the phase
  left, which there is only when the envelope came with a status of its own.\<close>

definition create_request ::
  "'v api \<Rightarrow> string option \<Rightarrow> key_db \<Rightarrow> rat \<Rightarrow> pushed list \<Rightarrow> string \<Rightarrow> string \<Rightarrow> headers \<Rightarrow>
   rejection + response \<times> pushed list \<times> rat option \<times> status_time option" where
  "create_request api flag db now queue data blob h =
     bind_sum (require_ray_connection flag) (\<lambda>_.
     bind_sum (validate_request (api_parse api) db data (hd_api_key h)) (\<lambda>r.
     bind_sum (validate_client_versions (api_version api) (api_older api) (api_min_nnsight api) (api_min_python api)
                 (hd_nnsight_version h) (hd_python_version h)) (\<lambda>_.
       case advance_status now (api_clock api data) RECEIVED of
         (lc, metric) \<Rightarrow>
           Inr (response_for r RECEIVED received_text None None,
                \<lparr>ps_request = r, ps_lifecycle = lc, ps_payload = blob\<rparr> # queue,
                sent_ms (api_to_float api) now (hd_timestamp h), metric))))"

text \<open>\<open>Dispatcher.get\<close>: one blocking pop from the tail, then up to \<open>fetch_batch_max\<close> in all.\<close>

fun rpops :: "nat \<Rightarrow> 'a list \<Rightarrow> 'a list \<times> 'a list" where
  "rpops 0 queue = ([], queue)"
| "rpops (Suc n) queue =
     (if queue = [] then ([], [])
      else case rpops n (butlast queue) of (items, rest) \<Rightarrow> (last queue # items, rest))"

definition get_batch :: "nat \<Rightarrow> 'a list \<Rightarrow> 'a list \<times> 'a list" where
  "get_batch batch_max queue =
     (if queue = [] then ([], [])
      else case rpops (batch_max - 1) (butlast queue) of (items, rest) \<Rightarrow> (last queue # items, rest))"

lemma rpops_spec: "rpops n queue = (take n (rev queue), rev (drop n (rev queue)))"
proof (induction n queue rule: rpops.induct)
  case (2 n queue)
  show ?case
  proof (cases "queue = []")
    case False
    then obtain xs x where q: "queue = xs @ [x]" by (metis append_butlast_last_id)
    show ?thesis using 2 False by (simp add: q)
  qed simp
qed simp

lemma get_batch_spec:
  "0 < batch_max \<Longrightarrow> get_batch batch_max queue = (take batch_max (rev queue), rev (drop batch_max (rev queue)))"
proof (cases "queue = []")
  case False
  assume b: "0 < batch_max"
  from False obtain xs x where q: "queue = xs @ [x]" by (metis append_butlast_last_id)
  obtain n where n: "batch_max = Suc n" using b by (cases batch_max) auto
  show ?thesis by (simp add: get_batch_def q n rpops_spec)
qed (simp add: get_batch_def)

section \<open>Properties\<close>

lemma verify_ok:
  assumes "verify_api_key (Some fetch) api_key = Inr res"
  shows "\<exists>key k rows. api_key = Some key \<and> uuid_of key = Some k \<and> fetch k = Inr rows \<and> rows \<noteq> [] \<and>
    res = Some \<lparr>id_key_id = uuid_text k, id_user_id = kr_user_id (hd rows), id_email = kr_email (hd rows),
      id_user_tags = List.map_filter kr_user_tag rows\<rparr>"
  using assms by (auto simp: verify_api_key_def split: option.splits if_splits sum.splits list.splits)

lemma uuid_of_empty: "uuid_of [] = None"
  by (simp add: uuid_of_def strip_braces_def)

lemma set_map_filter_tags: "set (List.map_filter f xs) = {t. Some t \<in> f ` set xs}"
  by (induction xs) (auto simp: List.map_filter_simps split: option.splits)

text \<open>C22. With a key database configured, a request is admitted only for a key that reads as a UUID the
  database knows, and it carries the tags and the address of that key and no others, whatever the
  client wrote into the envelope: it is trusted, may run remote code or has priority exactly when the
  database grants the key that. While the database fails nobody is admitted, and a request with a
  well-formed key is told 503.\<close>

theorem auth_decides_tags:
  assumes "validate_request parse (Some fetch) data header = res"
  shows "(case res of
      Inr r \<Rightarrow>
        \<exists>key k rows. rq_api_key r = Some key \<and> uuid_of key = Some k \<and> fetch k = Inr rows \<and> rows \<noteq> [] \<and>
          rq_email r = kr_email (hd rows) \<and>
          (trusted r \<longleftrightarrow> Some ''trusted'' \<in> kr_user_tag ` set rows) \<and>
          (priority r \<longleftrightarrow> Some ''priority'' \<in> kr_user_tag ` set rows) \<and>
          (trust_remote_code r \<longleftrightarrow>
             Some ''trust_remote_code'' \<in> kr_user_tag ` set rows \<or> Some ''trusted'' \<in> kr_user_tag ` set rows)
    | Inl e \<Rightarrow> status_code e \<in> {400, 401, 403, 422, 503}) \<and>
    ((\<forall>k. fetch k = Inl ()) \<longrightarrow>
       (\<exists>e. res = Inl e \<and> (parse data \<noteq> None \<and> header = Some key \<and> uuid_of key \<noteq> None \<longrightarrow> e = AuthDown)))"
proof (cases res)
  case (Inl e)
  then show ?thesis using assms
    by (auto simp: validate_request_def verify_api_key_def Let_def uuid_of_empty split: option.splits if_splits sum.splits list.splits)
next
  case (Inr r)
  from assms Inr obtain r0 ts where p: "parse data = Some (r0, ts)" by (auto simp: validate_request_def split: option.splits)
  define r1 where "r1 = (case header of None \<Rightarrow> r0 | Some k \<Rightarrow> if k = [] then r0 else r0\<lparr>rq_api_key := Some k\<rparr>)"
  from assms Inr p obtain i where v: "verify_api_key (Some fetch) (rq_api_key r1) = Inr i"
    by (auto simp: validate_request_def Let_def r1_def split: sum.splits)
  from verify_ok[OF v] obtain key k rows where k: "rq_api_key r1 = Some key" "uuid_of key = Some k" "fetch k = Inr rows" "rows \<noteq> []"
    and i: "i = Some \<lparr>id_key_id = uuid_text k, id_user_id = kr_user_id (hd rows), id_email = kr_email (hd rows),
      id_user_tags = List.map_filter kr_user_tag rows\<rparr>" by blast
  have r: "r = r1\<lparr>rq_email := kr_email (hd rows), rq_tags := remdups (List.map_filter kr_user_tag rows)\<rparr>"
    using assms Inr p v i by (simp add: validate_request_def Let_def r1_def)
  have "set (rq_tags r) = {t. Some t \<in> kr_user_tag ` set rows}" by (simp add: r set_map_filter_tags)
  moreover have "\<exists>k. fetch k \<noteq> Inl ()" using k(3) by (intro exI[of _ k]) simp
  ultimately show ?thesis using Inr k r by (auto simp: trusted_def priority_def trust_remote_code_def)
qed

definition ex_row :: "string option \<Rightarrow> key_row" where
  "ex_row tag = \<lparr>kr_user_id = ''u'', kr_email = Some ''u@x'', kr_user_tag = tag\<rparr>"

definition ex_key :: string where
  "ex_key = ''{00000000-0000-0000-0000-00000000000A}''"

definition ex_fetch :: "nat \<Rightarrow> unit + key_row list" where
  "ex_fetch k = (if Some k = uuid_of ex_key then Inr [ex_row (Some ''priority'')] else Inr [])"

definition ex_parse :: "string \<Rightarrow> (request \<times> bool) option" where
  "ex_parse data = (if data = ''ok'' then Some (ex_request ''a'' [''trusted''], True) else None)"

theorem auth_decides_tags_witness:
  "\<exists>r. validate_request ex_parse (Some ex_fetch) ''ok'' (Some ex_key) = Inr r \<and> priority r \<and> \<not> trusted r"
proof -
  have "(case validate_request ex_parse (Some ex_fetch) ''ok'' (Some ex_key) of Inr r \<Rightarrow> True | Inl _ \<Rightarrow> False)" by code_simp
  then obtain r where r: "validate_request ex_parse (Some ex_fetch) ''ok'' (Some ex_key) = Inr r" by (auto split: sum.splits)
  from auth_decides_tags[OF r] obtain k rows where rows: "ex_fetch k = Inr rows" "rows \<noteq> []"
    and t: "trusted r \<longleftrightarrow> Some ''trusted'' \<in> kr_user_tag ` set rows"
    and p: "priority r \<longleftrightarrow> Some ''priority'' \<in> kr_user_tag ` set rows" by (simp only: sum.case) blast
  from rows have "rows = [ex_row (Some ''priority'')]" by (auto simp: ex_fetch_def split: if_splits)
  then show ?thesis using r t p by (simp add: ex_row_def)
qed

text \<open>The way in is first in, first out: requests accepted one after another are handed to the
  dispatcher in that order, at most \<open>fetch_batch_max\<close> at a time, none twice and none lost.\<close>

theorem intake_is_fifo:
  assumes "0 < batch_max" and "get_batch batch_max (rev arrived) = (batch, rest)"
  shows "arrived = batch @ rev rest \<and> length batch \<le> batch_max \<and> (batch = [] \<longleftrightarrow> arrived = []) \<and>
    (\<forall>api flag db now data blob h resp queue' ms.
       create_request api flag db now (rev arrived) data blob h = Inr (resp, queue', ms) \<longrightarrow>
         (\<exists>x. queue' = rev (arrived @ [x]) \<and> rq_id (ps_request x) = rsp_id resp \<and> ps_payload x = blob))"
proof (intro conjI allI impI)
  have b: "batch = take batch_max arrived" "rest = rev (drop batch_max arrived)"
    using assms get_batch_spec[OF assms(1), of "rev arrived"] by simp_all
  then show "arrived = batch @ rev rest" "length batch \<le> batch_max" "batch = [] \<longleftrightarrow> arrived = []" using assms(1) by simp_all
  fix api flag db now data blob h resp queue' ms
  assume "create_request api flag db now (rev arrived) data blob h = Inr (resp, queue', ms)"
  then show "\<exists>x. queue' = rev (arrived @ [x]) \<and> rq_id (ps_request x) = rsp_id resp \<and> ps_payload x = blob"
    by (auto simp: create_request_def bind_sum_Inr response_for_def case_prod_unfold)
qed

definition ex_pushed :: "string \<Rightarrow> pushed" where
  "ex_pushed i = \<lparr>ps_request = ex_request i [], ps_lifecycle = \<lparr>lc_last_status = None, lc_last_status_time = None\<rparr>, ps_payload = []\<rparr>"

theorem intake_is_fifo_witness:
  "get_batch 2 (rev [ex_pushed ''a'', ex_pushed ''b'', ex_pushed ''c'']) = ([ex_pushed ''a'', ex_pushed ''b''], [ex_pushed ''c'']) \<and>
   length [ex_pushed ''a'', ex_pushed ''b''] \<le> 2"
proof -
  have "get_batch 2 (rev [ex_pushed ''a'', ex_pushed ''b'', ex_pushed ''c'']) = ([ex_pushed ''a'', ex_pushed ''b''], [ex_pushed ''c''])"
    by (simp add: get_batch_def)
  from intake_is_fifo[OF _ this] this show ?thesis by simp
qed

text \<open>The time a request is queued at is the client's when the envelope has one: admission keeps it,
  and the queue orders by it, so a request that claims an early time goes ahead of every queued
  request of its tier, whatever the key.\<close>

theorem client_time_jumps_queue:
  assumes "parse data = Some (r0, ts)" and "rq_enqueued_at r0 = Some t"
    and "validate_request parse db data header = Inr r" and "queue_inv q"
    and "\<forall>x \<in> set (q_items q). fst (fst x) = rank r False \<longrightarrow> t < fst (snd (fst x))"
    and "q_put now q r False = (q', r')"
  shows "snapshot q' =
    map snd (filter (\<lambda>x. fst (fst x) < rank r False) (sort_key fst (q_items q))) @ [r'] @
    map snd (filter (\<lambda>x. \<not> fst (fst x) < rank r False) (sort_key fst (q_items q)))"
proof -
  have rt: "rq_enqueued_at r = Some t"
    using assms(1,2,3) by (auto simp: validate_request_def Let_def split: sum.splits option.splits if_splits)
  from snapshot_put[OF assms(4,6)] rt have r': "r' = r\<lparr>rq_enqueued_at := Some t\<rparr>" and
    s: "snapshot q' = map snd (filter (\<lambda>x. fst x < (rank r' False, t, q_seq q)) (sort_key fst (q_items q))) @ [r'] @
      map snd (filter (\<lambda>x. \<not> fst x < (rank r' False, t, q_seq q)) (sort_key fst (q_items q)))" by auto
  have "fst x < (rank r' False, t, q_seq q) \<longleftrightarrow> fst (fst x) < rank r False" if "x \<in> set (q_items q)" for x
  proof -
    have "rank r' False = rank r False" using r' by (simp add: rank_def priority_def)
    then show ?thesis using assms(5) that by (cases x) (auto simp: less_prod_def)
  qed
  then have "filter (\<lambda>x. fst x < (rank r' False, t, q_seq q)) (sort_key fst (q_items q)) =
      filter (\<lambda>x. fst (fst x) < rank r False) (sort_key fst (q_items q))"
    "filter (\<lambda>x. \<not> fst x < (rank r' False, t, q_seq q)) (sort_key fst (q_items q)) =
      filter (\<lambda>x. \<not> fst (fst x) < rank r False) (sort_key fst (q_items q))"
    by (auto intro!: filter_cong)
  with s show ?thesis by simp
qed

definition ex_early :: "string \<Rightarrow> (request \<times> bool) option" where
  "ex_early data = Some ((ex_request ''z'' [])\<lparr>rq_enqueued_at := Some 0\<rparr>, False)"

definition ex_plain :: key_db where
  "ex_plain = Some (\<lambda>k. Inr [ex_row None])"

theorem client_time_jumps_queue_witness:
  "\<exists>r. validate_request ex_early ex_plain ''ok'' (Some ex_key) = Inr r \<and>
     map rq_id (snapshot (fst (q_put 9 ex_queue r False))) = [''p'', ''z'', ''a'', ''b'']"
proof -
  have "(case validate_request ex_early ex_plain ''ok'' (Some ex_key) of
      Inr r \<Rightarrow> rank r False = 3 \<and> rq_id r = ''z'' | Inl _ \<Rightarrow> False)" by code_simp
  then obtain r where r: "validate_request ex_early ex_plain ''ok'' (Some ex_key) = Inr r"
    and rk: "rank r False = 3" and i: "rq_id r = ''z''" by (auto split: sum.splits)
  obtain q' r' where p: "q_put 9 ex_queue r False = (q', r')" by fastforce
  have inv: "queue_inv ex_queue" unfolding ex_queue_def by (rule q_steps_inv)
  have late: "\<forall>x \<in> set (q_items ex_queue). fst (fst x) = 3 \<longrightarrow> 0 < fst (snd (fst x))" by code_simp
  have "map (rq_id \<circ> snd) (filter (\<lambda>x. fst (fst x) < 3) (sort_key fst (q_items ex_queue))) = [''p'']"
    "map (rq_id \<circ> snd) (filter (\<lambda>x. \<not> fst (fst x) < 3) (sort_key fst (q_items ex_queue))) = [''a'', ''b'']" by code_simp+
  moreover have "rq_id r' = ''z''" using p i by (auto simp: q_put_def Let_def)
  moreover have "ex_early ''ok'' = Some ((ex_request ''z'' [])\<lparr>rq_enqueued_at := Some 0\<rparr>, False)" by (simp add: ex_early_def)
  ultimately show ?thesis using client_time_jumps_queue[of ex_early "''ok''" _ False 0 ex_plain "Some ex_key" r ex_queue 9 q' r'] r p inv late
    by (simp add: rk)
qed

end
