(* ===== verification/Dispatcher.thy ===== *)
theory Dispatcher
  imports Processor_Props Ingress
begin

text \<open>
  \<open>queue/dispatcher.py\<close> and \<open>queue/config.py\<close>: the process that takes requests off the Redis list,
  routes each to the processor of its model, drains the shared error queue and serves the
  operators' events. The processors are those of \<open>Processor_Steps\<close>; their steps interleave with the
  dispatcher's in any order.
\<close>

section \<open>Configuration\<close>

datatype config_error = NotAnInteger | NotPositive

text \<open>\<open>int(raw)\<close>: blanks around, a sign, digits with single underscores between them.\<close>

fun dec_run :: "bool \<Rightarrow> nat \<Rightarrow> string \<Rightarrow> nat option" where
  "dec_run prev acc [] = (if prev then Some acc else None)"
| "dec_run prev acc (c # cs) =
     (if c = CHR ''_'' then (if prev then dec_run False acc cs else None)
      else if 48 \<le> (of_char c :: nat) \<and> (of_char c :: nat) < 58 then dec_run True (acc * 10 + (of_char c - 48)) cs
      else None)"

definition int10 :: "string \<Rightarrow> int option" where
  "int10 s =
     (let t = strip s; neg = (t \<noteq> [] \<and> hd t = CHR ''-'') in
      map_option (\<lambda>n. if neg then - int n else int n) (dec_run False 0 (if t \<noteq> [] \<and> hd t \<in> set ''+-'' then tl t else t)))"

definition positive_int :: "(string, string) dict \<Rightarrow> string \<Rightarrow> int \<Rightarrow> config_error + int" where
  "positive_int env name dflt =
     (case map_of env name of
        None \<Rightarrow> Inr dflt
      | Some raw \<Rightarrow> (case int10 raw of None \<Rightarrow> Inl NotAnInteger | Some n \<Rightarrow> if n \<le> 0 then Inl NotPositive else Inr n))"

record settings =
  st_queue_key :: string
  st_fetch_timeout_s :: int
  st_fetch_batch_max :: int
  st_autoscaling_interval_s :: int
  st_autoscaling_wait_threshold_s :: int
  st_autoscaling_backoff_s :: int
  st_autoscaling_max_replicas :: int

definition settings_from_env :: "(string, string) dict \<Rightarrow> config_error + settings" where
  "settings_from_env env =
     bind_sum (positive_int env ''NDIF_QUEUE_FETCH_TIMEOUT_S'' 10) (\<lambda>timeout.
     bind_sum (positive_int env ''NDIF_QUEUE_FETCH_BATCH_MAX'' 32) (\<lambda>batch.
     bind_sum (positive_int env ''NDIF_AUTOSCALING_INTERVAL_S'' 5) (\<lambda>interval.
     bind_sum (positive_int env ''NDIF_AUTOSCALING_WAIT_THRESHOLD_S'' 30) (\<lambda>threshold.
     bind_sum (positive_int env ''NDIF_AUTOSCALING_BACKOFF_S'' 120) (\<lambda>backoff.
     bind_sum (positive_int env ''NDIF_AUTOSCALING_MAX_REPLICAS'' 3) (\<lambda>replicas.
       Inr \<lparr>st_queue_key = dict_get env ''NDIF_QUEUE_KEY'' ''queue'', st_fetch_timeout_s = timeout,
         st_fetch_batch_max = batch, st_autoscaling_interval_s = interval,
         st_autoscaling_wait_threshold_s = threshold, st_autoscaling_backoff_s = backoff,
         st_autoscaling_max_replicas = replicas\<rparr>))))))"

text \<open>Whatever the environment, a configuration that loads has positive numbers; the batch loop of \<open>get\<close>
  and the autoscaler rely on it.\<close>

lemma settings_positive:
  assumes "settings_from_env env = Inr st"
  shows "0 < st_fetch_batch_max st \<and> 0 < st_fetch_timeout_s st \<and> 0 < st_autoscaling_interval_s st \<and>
    0 < st_autoscaling_wait_threshold_s st \<and> 0 < st_autoscaling_backoff_s st \<and> 0 < st_autoscaling_max_replicas st"
proof -
  have "positive_int env name d = Inr n \<Longrightarrow> 0 < d \<Longrightarrow> 0 < n" for name d n
    by (auto simp: positive_int_def split: option.splits if_splits)
  then show ?thesis using assms unfolding settings_from_env_def by (fastforce simp: bind_sum_Inr)
qed

section \<open>Connection errors\<close>

fun contains :: "string \<Rightarrow> string \<Rightarrow> bool" where
  "contains pat [] = (pat = [])"
| "contains pat (c # cs) = (take (length pat) (c # cs) = pat \<or> contains pat cs)"

definition connection_error_patterns :: "string list" where
  "connection_error_patterns =
     [''Ray client has already been disconnected'', ''Unrecoverable error in data channel'',
      ''_MultiThreadedRendezvous'', ''Failed to reconnect'', ''session that has already been cleaned up'',
      ''Channel for client'', ''grpc._channel'', ''Failed during this or a previous request'']"

definition is_connection_error :: "err \<Rightarrow> bool" where
  "is_connection_error e = list_ex (\<lambda>pat. contains pat (err_text e)) connection_error_patterns"

section \<open>State\<close>

text \<open>What the dispatcher shares with the API through Redis.\<close>

record redis =
  rd_queue :: "pushed list"
  rd_connected :: "string option"
  rd_status :: "string option"
  rd_status_requested :: bool
  rd_env :: "string option"
  rd_env_requested :: bool

record dispatcher =
  ds_redis :: redis
  ds_batch :: "request list" \<comment> \<open>fetched, not yet routed\<close>
  ds_processors :: "(model_key, processor) dict"
  ds_errors :: "(string \<times> err) list"

text \<open>\<open>connect\<close>: what was cached of the old cluster goes first, the flag comes last; in between the loops
  wait for Redis and for Ray.\<close>

definition connect_begin :: "redis \<Rightarrow> redis" where
  "connect_begin rd =
     rd\<lparr>rd_connected := None, rd_status := None, rd_status_requested := False, rd_env := None, rd_env_requested := False\<rparr>"

definition connect_end :: "redis \<Rightarrow> redis" where
  "connect_end rd = rd\<lparr>rd_connected := Some ''1''\<rparr>"

definition connect :: "redis \<Rightarrow> redis" where
  "connect rd = connect_end (connect_begin rd)"

definition new_dispatcher :: "redis \<Rightarrow> dispatcher" where
  "new_dispatcher rd = \<lparr>ds_redis = connect rd, ds_batch = [], ds_processors = [], ds_errors = []\<rparr>"

text \<open>A processor after a step: what it reported is on the shared queue.\<close>

definition put_processor :: "dispatcher \<Rightarrow> model_key \<Rightarrow> processor \<Rightarrow> dispatcher" where
  "put_processor ds mk p =
     ds\<lparr>ds_processors := dict_set mk (p\<lparr>pr_errors := []\<rparr>) (ds_processors ds),
        ds_errors := ds_errors ds @ map (Pair mk) (pr_errors p)\<rparr>"

section \<open>Operations\<close>

definition fetch_batch :: "nat \<Rightarrow> dispatcher \<Rightarrow> dispatcher" where
  "fetch_batch batch_max ds =
     (case get_batch batch_max (rd_queue (ds_redis ds)) of
        (items, rest) \<Rightarrow>
          ds\<lparr>ds_redis := (ds_redis ds)\<lparr>rd_queue := rest\<rparr>, ds_batch := ds_batch ds @ map ps_request items\<rparr>)"

definition dispatch :: "rat \<Rightarrow> dispatcher \<Rightarrow> request \<Rightarrow> dispatcher \<times> out list" where
  "dispatch now ds r =
     (let mk = rq_model_key r;
          p = (case map_of (ds_processors ds) mk of None \<Rightarrow> new_processor mk | Some p \<Rightarrow> p)
      in case enqueue now p r False of (p1, outs) \<Rightarrow> (put_processor ds mk p1, outs))"

fun purge_each :: "dispatcher \<Rightarrow> (model_key \<times> processor) list \<Rightarrow> string \<Rightarrow> dispatcher \<times> out list" where
  "purge_each ds [] message = (ds, [])"
| "purge_each ds ((mk, p) # ps) message =
     (case purge p (Some message) of
        (p1, o1) \<Rightarrow> (case purge_each (put_processor ds mk p1) ps message of (ds2, o2) \<Rightarrow> (ds2, o1 @ o2)))"

definition purge_all :: "dispatcher \<Rightarrow> string \<Rightarrow> dispatcher \<times> out list" where
  "purge_all ds message = purge_each ds (ds_processors ds) message"

text \<open>\<open>handle_errors\<close>; \<open>ray_up\<close> is what \<open>RayProvider.connected()\<close> says.\<close>

definition handle_errors :: "bool \<Rightarrow> dispatcher \<Rightarrow> dispatcher \<times> out list" where
  "handle_errors ray_up ds =
     (if ds_errors ds = [] then (ds, [])
      else
        let ds1 = ds\<lparr>ds_errors := []\<rparr> in
        if list_ex (\<lambda>x. is_connection_error (snd x)) (ds_errors ds) \<or> \<not> ray_up
        then (case purge_all ds1 purge_text of
                (ds2, outs) \<Rightarrow> (ds2\<lparr>ds_redis := connect (ds_redis ds2)\<rparr>, outs))
        else (ds1, []))"

text \<open>\<open>_kill\<close>: every queue is searched before any replica.\<close>

datatype kill_answer = RemovedFromQueue | CancelledExecution | NotFound

fun kill_queued :: "(model_key \<times> processor) list \<Rightarrow> string \<Rightarrow> (model_key \<times> processor \<times> request) option" where
  "kill_queued [] i = None"
| "kill_queued ((mk, p) # ps) i =
     (case pop_queued p i of (p1, Some r) \<Rightarrow> Some (mk, p1, r) | (_, None) \<Rightarrow> kill_queued ps i)"

fun find_executing :: "(model_key \<times> processor) list \<Rightarrow> string \<Rightarrow> (model_key \<times> processor \<times> nat) option" where
  "find_executing [] i = None"
| "find_executing ((mk, p) # ps) i =
     (case executing_replica p i of Some a \<Rightarrow> Some (mk, p, a) | None \<Rightarrow> find_executing ps i)"

definition kill :: "dispatcher \<Rightarrow> string \<Rightarrow> dispatcher \<times> kill_answer \<times> out list" where
  "kill ds i =
     (case kill_queued (ds_processors ds) i of
        Some (mk, p1, r) \<Rightarrow> (put_processor ds mk p1, RemovedFromQueue, [Sent r ERROR operator_text])
      | None \<Rightarrow>
          (case find_executing (ds_processors ds) i of
             None \<Rightarrow> (ds, NotFound, [])
           | Some (mk, p, a) \<Rightarrow>
               (case current_request p a of
                  None \<Rightarrow> (put_processor ds mk (cancel_worker p a), CancelledExecution, [])
                | Some r \<Rightarrow>
                    (put_processor ds mk (add_task p (KillWait a r)), CancelledExecution, [Sent r ERROR operator_text]))))"

text \<open>\<open>_handle_reconcile\<close> and \<open>_handle_queue_state\<close>\<close>

definition handle_reconcile :: "dispatcher \<Rightarrow> model_key \<Rightarrow> err + replica_id list \<Rightarrow> dispatcher" where
  "handle_reconcile ds mk answer =
     (case map_of (ds_processors ds) mk of None \<Rightarrow> ds | Some p \<Rightarrow> put_processor ds mk (reconcile p answer))"

definition queue_state :: "dispatcher \<Rightarrow> (model_key \<times> processor_view) list" where
  "queue_state ds = map (\<lambda>(mk, p). (mk, view_processor p)) (ds_processors ds)"

text \<open>A refresh of \<open>status_worker\<close> and \<open>env_worker\<close>: the answer of the controller is cached, or the failure
  reported; the lock goes, and the message says which.\<close>

definition refresh_status :: "dispatcher \<Rightarrow> err + string \<Rightarrow> dispatcher \<times> string" where
  "refresh_status ds answer =
     (case answer of
        Inr text \<Rightarrow>
          (ds\<lparr>ds_redis := (ds_redis ds)\<lparr>rd_status := Some text, rd_status_requested := False\<rparr>\<rparr>, ''ok'')
      | Inl e \<Rightarrow>
          (ds\<lparr>ds_errors := ds_errors ds @ [(''status_worker'', e)],
              ds_redis := (ds_redis ds)\<lparr>rd_status_requested := False\<rparr>\<rparr>, ''error''))"

definition refresh_env :: "dispatcher \<Rightarrow> err + string \<Rightarrow> dispatcher \<times> string" where
  "refresh_env ds answer =
     (case answer of
        Inr text \<Rightarrow> (ds\<lparr>ds_redis := (ds_redis ds)\<lparr>rd_env := Some text, rd_env_requested := False\<rparr>\<rparr>, ''ok'')
      | Inl e \<Rightarrow>
          (ds\<lparr>ds_errors := ds_errors ds @ [(''env_worker'', e)],
              ds_redis := (ds_redis ds)\<lparr>rd_env_requested := False\<rparr>\<rparr>, ''error''))"

section \<open>Steps\<close>

datatype ds_event =
    Pushed pushed
  | Fetched nat
  | Routed rat
  | Stepped model_key event
  | ErrorsHandled bool
  | Killed string
  | ReconcileAsked model_key "err + replica_id list"
  | StatusRefreshed "err + string"
  | EnvRefreshed "err + string"

text \<open>The events a processor has by itself: the others are the dispatcher's.\<close>

fun inner :: "event \<Rightarrow> bool" where
  "inner (KillReturned _ _) = True"
| "inner (KillTimeout _ _) = True"
| "inner (KillExecuting _) = False"
| "inner ev = own_event ev"

fun ds_fire :: "environment \<Rightarrow> ds_event \<Rightarrow> dispatcher \<Rightarrow> (dispatcher \<times> out list) option" where
  "ds_fire en (Pushed x) ds = Some (ds\<lparr>ds_redis := (ds_redis ds)\<lparr>rd_queue := x # rd_queue (ds_redis ds)\<rparr>\<rparr>, [])"
| "ds_fire en (Fetched batch_max) ds = (if ds_batch ds = [] \<and> 0 < batch_max then Some (fetch_batch batch_max ds, []) else None)"
| "ds_fire en (Routed now) ds =
     (case ds_batch ds of [] \<Rightarrow> None | r # rs \<Rightarrow> Some (dispatch now (ds\<lparr>ds_batch := rs\<rparr>) r))"
| "ds_fire en (Stepped mk ev) ds =
     (case map_of (ds_processors ds) mk of
        None \<Rightarrow> None
      | Some p \<Rightarrow>
          if inner ev then map_option (\<lambda>(p1, outs). (put_processor ds mk p1, outs)) (fire en ev p) else None)"
| "ds_fire en (ErrorsHandled ray_up) ds = (if ds_batch ds = [] then Some (handle_errors ray_up ds) else None)"
| "ds_fire en (Killed i) ds = (case kill ds i of (ds1, _, outs) \<Rightarrow> Some (ds1, outs))"
| "ds_fire en (ReconcileAsked mk answer) ds = Some (handle_reconcile ds mk answer, [])"
| "ds_fire en (StatusRefreshed answer) ds = Some (fst (refresh_status ds answer), [])"
| "ds_fire en (EnvRefreshed answer) ds = Some (fst (refresh_env ds answer), [])"

fun ds_run :: "environment \<Rightarrow> ds_event list \<Rightarrow> dispatcher \<Rightarrow> (dispatcher \<times> out list) option" where
  "ds_run en [] ds = Some (ds, [])"
| "ds_run en (ev # evs) ds =
     (case ds_fire en ev ds of
        None \<Rightarrow> None
      | Some (ds1, o1) \<Rightarrow> map_option (\<lambda>(ds2, o2). (ds2, o1 @ o2)) (ds_run en evs ds1))"

end
