(* ===== verification/Dispatcher_Props.thy ===== *)
theory Dispatcher_Props
  imports Dispatcher
begin

text \<open>
  The composition: what the processors keep, the dispatcher keeps. Every request between the API and
  an answer is in the Redis list, in the fetched batch or with the processor of its own model.
\<close>

section \<open>The key of a processor\<close>

text \<open>No step changes the model a processor is for.\<close>

lemma key_basic [simp]:
  "pr_model_key (set_current p a c) = pr_model_key p" "pr_model_key (set_task p a t) = pr_model_key p"
  "pr_model_key (set_place p k l) = pr_model_key p" "pr_model_key (cancel_task p k) = pr_model_key p"
  "pr_model_key (start_worker p a) = pr_model_key p" "pr_model_key (drop_replica p a) = pr_model_key p"
  "pr_model_key (report p e) = pr_model_key p" "pr_model_key (add_task p tk) = pr_model_key p"
  "pr_model_key (ensure_started p) = pr_model_key p" "pr_model_key (mark_idle p) = pr_model_key p"
  "pr_model_key (fst (register p rid)) = pr_model_key p"
  by (simp_all add: set_current_def set_task_def set_place_def cancel_task_def start_worker_def drop_replica_def
      report_def add_task_def ensure_started_def mark_idle_def register_def Let_def)

lemma key_cancel_worker [simp]: "pr_model_key (cancel_worker p a) = pr_model_key p"
  by (simp add: cancel_worker_def split: option.split)

lemma key_cancel_all [simp]: "pr_model_key (fst (cancel_all p as m)) = pr_model_key p"
  by (induction as arbitrary: p) (simp_all only: cancel_all_step key_cancel_worker cancel_all.simps(1) fst_conv)

lemma key_register_all [simp]: "pr_model_key (fst (register_all p rids)) = pr_model_key p"
proof (induction rids arbitrary: p)
  case (Cons rid rids)
  obtain p1 a where r: "register p rid = (p1, a)" by fastforce
  then have "pr_model_key p1 = pr_model_key p" using key_basic(11)[of p rid] by simp
  then show ?case using Cons.IH[of p1] r by (simp add: case_prod_unfold)
qed simp

lemma key_fold [simp]: "pr_model_key (fold (\<lambda>a p. add_task p (Adopt a)) as p) = pr_model_key p"
  by (induction as arbitrary: p) simp_all

lemma key_enqueue [simp]: "pr_model_key (fst (enqueue now p r b)) = pr_model_key p"
  by (simp add: enqueue_def Let_def case_prod_unfold)

lemma key_purge [simp]: "pr_model_key (fst (purge p m)) = pr_model_key p"
  by (simp add: purge_def purge_drop_def Let_def case_prod_unfold)

lemma key_worker [simp]:
  "pr_model_key (worker_exit p k) = pr_model_key p" "pr_model_key (worker_loop p k) = pr_model_key p"
  "pr_model_key (worker_raise p k) = pr_model_key p"
  by (simp_all add: worker_exit_def worker_loop_def worker_raise_def Let_def)

lemma key_dispatch_failed [simp]: "pr_model_key (fst (dispatch_failed now p k r e)) = pr_model_key p"
  by (simp add: dispatch_failed_def Let_def case_prod_unfold)

lemma key_start [simp]:
  "pr_model_key (fst (start_failed p e m)) = pr_model_key p"
  "pr_model_key (fst (start_deploying p)) = pr_model_key p"
  by (simp_all add: start_failed_def start_deploying_def Let_def)

lemma key_start_query [simp]: "pr_model_key (fst (start_query loads p answer)) = pr_model_key p"
  by (auto simp: start_query_def simp del: register_all.simps split: sum.split list.split)

lemma key_start_rest [simp]:
  "pr_model_key (fst (start_provision p answer')) = pr_model_key p"
  "pr_model_key (fst (start_wait p waiting result)) = pr_model_key p"
  by (auto simp: start_provision_def start_wait_def Let_def split: sum.split list.split option.split)

lemma key_grow [simp]:
  "pr_model_key (scale_provision p ans) = pr_model_key p" "pr_model_key (scale_wait p a res) = pr_model_key p"
  "pr_model_key (fst (adopt p a res)) = pr_model_key p" "pr_model_key (autoscale cf now p) = pr_model_key p"
  "pr_model_key (reconcile p rids) = pr_model_key p"
  by (auto simp: scale_provision_def scale_wait_def adopt_def autoscale_def reconcile_def Let_def case_prod_unfold
      split: sum.split option.split)

lemma key_worker_take: "worker_take now p k lookup = Some res \<Longrightarrow> pr_model_key (fst res) = pr_model_key p"
  by (auto simp: worker_take_def Let_def split: option.splits)

lemma key_take_task: "take_task p tk = Some p1 \<Longrightarrow> pr_model_key p1 = pr_model_key p"
  by (auto simp: take_task_def split: if_splits)

lemma fire_key: "fire en ev p = Some res \<Longrightarrow> pr_model_key (fst res) = pr_model_key p"
  by (cases ev)
    (auto dest!: key_take_task key_worker_take simp: cancelled_exit_def pop_queued_def
      split: if_splits place.splits option.splits prod.splits)

section \<open>Where the requests are\<close>

definition pool_pending :: "(model_key, processor) dict \<Rightarrow> request_ref multiset" where
  "pool_pending d = \<Sum>\<^sub># (mset (map (pending \<circ> snd) d))"

definition ds_pending :: "dispatcher \<Rightarrow> request_ref multiset" where
  "ds_pending ds =
     mset (map (rq_ref \<circ> ps_request) (rd_queue (ds_redis ds))) + mset (map rq_ref (ds_batch ds)) +
     pool_pending (ds_processors ds)"

fun ds_arrivals :: "ds_event \<Rightarrow> request_ref multiset" where
  "ds_arrivals (Pushed x) = {#rq_ref (ps_request x)#}"
| "ds_arrivals _ = {#}"

text \<open>A processor is kept under its own key, and has only requests for its model.\<close>

definition homed :: "model_key \<Rightarrow> processor \<Rightarrow> bool" where
  "homed mk p \<longleftrightarrow> pr_model_key p = mk \<and> queue_inv (pr_queue p) \<and> (\<forall>x \<in># pending p. snd x = mk)"

definition routed :: "dispatcher \<Rightarrow> bool" where
  "routed ds \<longleftrightarrow> dict_wf (ds_processors ds) \<and> (\<forall>x \<in> set (ds_processors ds). homed (fst x) (snd x))"

lemma pool_pending_set:
  "dict_wf d \<Longrightarrow>
   pool_pending (dict_set mk p d) + (case map_of d mk of None \<Rightarrow> {#} | Some p0 \<Rightarrow> pending p0) = pool_pending d + pending p"
  by (induction d) (auto simp: pool_pending_def dict_wf_def ac_simps split: option.splits dest: map_of_SomeD)

lemma pool_pending_part: "map_of d mk = Some p \<Longrightarrow> pending p \<subseteq># pool_pending d"
proof -
  assume "map_of d mk = Some p"
  then obtain xs ys where "d = xs @ (mk, p) # ys" by (meson map_of_SomeD split_list)
  then show ?thesis by (simp add: pool_pending_def)
qed

lemma accounted_frame: "accounted m n outs \<Longrightarrow> accounted (m + k) (n + k) outs"
  by (simp add: accounted_def)

lemma pending_errors [simp]: "pending (p\<lparr>pr_errors := es\<rparr>) = pending p"
  by (rule pending_cong) (simp_all add: places_def)

lemma homed_errors [simp]: "homed mk (p\<lparr>pr_errors := es\<rparr>) = homed mk p"
  by (simp add: homed_def)

lemma homed_new: "homed mk (new_processor mk)"
  using new_queue_inv by (simp add: homed_def new_processor_def pending_alt queue_ids_def places_def new_queue_def)

lemma pending_new: "pending (new_processor mk) = {#}"
  by (simp add: new_processor_def pending_alt queue_ids_def places_def new_queue_def)

text \<open>\<open>carried m ds res\<close>: the processors stay in place, and \<open>m\<close> is accounted for.\<close>

definition carried :: "request_ref multiset \<Rightarrow> dispatcher \<times> out list \<Rightarrow> bool" where
  "carried m res \<longleftrightarrow> routed (fst res) \<and> accounted m (ds_pending (fst res)) (snd res)"

lemma put_processor_fields [simp]:
  "ds_redis (put_processor ds mk p) = ds_redis ds" "ds_batch (put_processor ds mk p) = ds_batch ds"
  "ds_processors (put_processor ds mk p) = dict_set mk (p\<lparr>pr_errors := []\<rparr>) (ds_processors ds)"
  by (simp_all add: put_processor_def)

text \<open>A step of a processor is a step of the dispatcher.\<close>

lemma lift_step:
  assumes r: "routed ds" and p: "(case map_of (ds_processors ds) mk of None \<Rightarrow> new_processor mk | Some p \<Rightarrow> p) = p"
    and f: "fire en ev p = Some (p', outs)" and a: "\<forall>x \<in># arrivals ev. snd x = mk"
  shows "carried (ds_pending ds + arrivals ev) (put_processor ds mk p', outs)"
proof -
  have h: "homed mk p" using r p homed_new unfolding routed_def by (force split: option.splits dest: map_of_SomeD)
  then have inv: "queue_inv (pr_queue p)" by (simp add: homed_def)
  from fire_settles[OF inv f] have s: "queue_inv (pr_queue p')" "accounted (pending p + arrivals ev) (pending p') outs"
    by (simp_all add: settles_def)
  have "homed mk p'"
  proof -
    have "x \<in># pending p + arrivals ev" if "x \<in># pending p'" for x
      using s(2) that by (auto simp: accounted_def dest: mset_subset_eqD)
    then have "\<forall>x \<in># pending p'. snd x = mk" using h a unfolding homed_def by fastforce
    then show ?thesis using s(1) h fire_key[OF f] by (simp add: homed_def)
  qed
  then have "routed (put_processor ds mk p')"
    using r set_dict_set[of mk "p'\<lparr>pr_errors := []\<rparr>" "ds_processors ds"] by (fastforce simp: routed_def)
  moreover have "accounted (ds_pending ds + arrivals ev) (ds_pending (put_processor ds mk p')) outs"
  proof -
    let ?d = "ds_processors ds"
    define k where "k = mset (map (rq_ref \<circ> ps_request) (rd_queue (ds_redis ds))) + mset (map rq_ref (ds_batch ds))"
    have wf: "dict_wf ?d" using r by (simp add: routed_def)
    have e: "pool_pending (dict_set mk (p'\<lparr>pr_errors := []\<rparr>) ?d) + pending p = pool_pending ?d + pending p'"
      using pool_pending_set[OF wf, of mk "p'\<lparr>pr_errors := []\<rparr>"] p by (auto simp: pending_new split: option.splits)
    obtain u where u: "pool_pending ?d = pending p + u"
    proof (cases "map_of ?d mk")
      case None
      then have "pending p = {#}" using p pending_new by auto
      then show thesis using that by simp
    next
      case (Some p0)
      then have "pending p \<subseteq># pool_pending ?d" using p pool_pending_part by simp
      then show thesis using that by (metis subset_mset.add_diff_inverse)
    qed
    from e u have "pool_pending (dict_set mk (p'\<lparr>pr_errors := []\<rparr>) ?d) = pending p' + u" by (simp add: ac_simps)
    then have "ds_pending (put_processor ds mk p') = pending p' + (u + k)" "ds_pending ds + arrivals ev = pending p + arrivals ev + (u + k)"
      using u by (simp_all add: ds_pending_def k_def ac_simps)
    then show ?thesis using accounted_frame[OF s(2), of "u + k"] by (simp only:)
  qed
  ultimately show ?thesis by (simp add: carried_def)
qed

lemma carried_same:
  "routed ds \<Longrightarrow> ds_processors ds' = ds_processors ds \<Longrightarrow> ds_batch ds' = ds_batch ds \<Longrightarrow>
   rd_queue (ds_redis ds') = rd_queue (ds_redis ds) \<Longrightarrow> carried (ds_pending ds) (ds', outs)"
  by (simp add: carried_def routed_def ds_pending_def)

lemma lift_known:
  assumes "routed ds" and "map_of (ds_processors ds) mk = Some p" and "fire en ev p = Some (p', outs)" and "arrivals ev = {#}"
  shows "carried (ds_pending ds) (put_processor ds mk p', outs)"
  using lift_step[OF assms(1) _ assms(3), of mk] assms(2,4) by simp

lemma dispatch_carried:
  assumes "routed ds"
  shows "carried (add_mset (rq_ref r) (ds_pending ds)) (dispatch now ds r)"
proof -
  let ?mk = "rq_model_key r"
  define p where "p = (case map_of (ds_processors ds) ?mk of None \<Rightarrow> new_processor ?mk | Some p \<Rightarrow> p)"
  obtain p1 outs where e: "enqueue now p r False = (p1, outs)" by fastforce
  have f: "fire undefined (Enqueued now r) p = Some (p1, outs)" using e by simp
  have "\<forall>x \<in># arrivals (Enqueued now r). snd x = ?mk" by (simp add: rq_ref_def)
  from lift_step[OF assms p_def[symmetric] f this] show ?thesis using e by (simp add: dispatch_def Let_def flip: p_def)
qed

lemma dict_set_others: "mk' \<noteq> mk \<Longrightarrow> map_of (dict_set mk p d) mk' = map_of d mk'"
  by (simp add: update_conv)

lemma purge_each_carried:
  "routed ds \<Longrightarrow> distinct (map fst ps) \<Longrightarrow> \<forall>x \<in> set ps. map_of (ds_processors ds) (fst x) = Some (snd x) \<Longrightarrow>
   carried (ds_pending ds) (purge_each ds ps m)"
proof (induction ps arbitrary: ds)
  case Nil
  then show ?case by (simp add: carried_same)
next
  case (Cons x ps)
  obtain mk p where x: "x = (mk, p)" by (cases x)
  obtain p1 o1 where g: "purge p (Some m) = (p1, o1)" by fastforce
  let ?ds = "put_processor ds mk p1"
  have c: "carried (ds_pending ds) (?ds, o1)"
    using lift_known[OF Cons.prems(1), of mk p undefined "Purged m" p1 o1] Cons.prems(3) x g by simp
  then have r: "routed ?ds" by (simp add: carried_def)
  have "\<forall>y \<in> set ps. map_of (ds_processors ?ds) (fst y) = Some (snd y)"
  proof
    fix y assume y: "y \<in> set ps"
    then have "fst y \<noteq> mk" using Cons.prems(2) x by force
    then show "map_of (ds_processors ?ds) (fst y) = Some (snd y)" using Cons.prems(3) y by (simp add: dict_set_others)
  qed
  moreover have "distinct (map fst ps)" using Cons.prems(2) by simp
  ultimately have c2: "carried (ds_pending ?ds) (purge_each ?ds ps m)" using Cons.IH[OF r] by blast
  obtain ds2 o2 where e: "purge_each ?ds ps m = (ds2, o2)" by fastforce
  from c c2 e have "carried (ds_pending ds) (ds2, o1 @ o2)" by (auto simp: carried_def intro: accounted_trans)
  with e g x show ?case by simp
qed

lemma purge_all_carried: "routed ds \<Longrightarrow> carried (ds_pending ds) (purge_all ds m)"
  unfolding purge_all_def by (rule purge_each_carried) (auto simp: routed_def dict_wf_def)

lemma handle_errors_carried: "routed ds \<Longrightarrow> carried (ds_pending ds) (handle_errors ray_up ds)"
proof -
  assume r: "routed ds"
  let ?ds = "ds\<lparr>ds_errors := []\<rparr>"
  have "routed ?ds" "ds_pending ?ds = ds_pending ds" using r by (simp_all add: routed_def ds_pending_def)
  then have c: "carried (ds_pending ds) (purge_all ?ds purge_text)" using purge_all_carried[of ?ds] by simp
  obtain ds2 outs where e: "purge_all ?ds purge_text = (ds2, outs)" by fastforce
  have "routed (ds2\<lparr>ds_redis := connect (ds_redis ds2)\<rparr>)" "ds_pending (ds2\<lparr>ds_redis := connect (ds_redis ds2)\<rparr>) = ds_pending ds2"
    using c e by (simp_all add: carried_def routed_def ds_pending_def connect_def connect_end_def connect_begin_def)
  then have "carried (ds_pending ds) (ds2\<lparr>ds_redis := connect (ds_redis ds2)\<rparr>, outs)" using c e by (simp add: carried_def)
  then show ?thesis using r e carried_same[OF r, of ds "[]"] carried_same[OF r, of ?ds "[]"] by (simp add: handle_errors_def Let_def)
qed

lemma kill_queued_found:
  "kill_queued ps i = Some (mk, p1, r) \<Longrightarrow> \<exists>p. (mk, p) \<in> set ps \<and> pop_queued p i = (p1, Some r)"
  by (induction ps i rule: kill_queued.induct) (auto split: prod.splits option.splits)

lemma find_executing_found:
  "find_executing ps i = Some (mk, p, a) \<Longrightarrow> (mk, p) \<in> set ps \<and> executing_replica p i = Some a"
  by (induction ps i rule: find_executing.induct) (auto split: option.splits)

lemma executing_current: "executing_replica p i = Some a \<Longrightarrow> \<exists>r. current_request p a = Some r \<and> rq_id r = i"
proof -
  have "find P xs = Some x \<Longrightarrow> P x" for P and xs :: "nat list" and x by (induction xs) (auto split: if_splits)
  moreover assume "executing_replica p i = Some a"
  ultimately show ?thesis unfolding executing_replica_def by (fastforce split: option.splits)
qed

lemma kill_carried:
  assumes "routed ds" and "kill ds i = (ds', answer, outs)"
  shows "carried (ds_pending ds) (ds', outs)"
proof -
  have known: "map_of (ds_processors ds) mk = Some p" if "(mk, p) \<in> set (ds_processors ds)" for mk p
    using assms(1) that by (simp add: routed_def dict_wf_def)
  show ?thesis
  proof (cases "kill_queued (ds_processors ds) i")
    case (Some x)
    then obtain mk p1 r where x: "kill_queued (ds_processors ds) i = Some (mk, p1, r)" by (cases x) auto
    from kill_queued_found[OF x] obtain p where p: "(mk, p) \<in> set (ds_processors ds)" "pop_queued p i = (p1, Some r)" by blast
    then show ?thesis using lift_known[OF assms(1) known[OF p(1)], of undefined "KillQueued i" p1 "[Sent r ERROR operator_text]"] assms(2) x
      by (simp add: kill_def)
  next
    case None
    show ?thesis
    proof (cases "find_executing (ds_processors ds) i")
      case None': None
      then show ?thesis using None assms by (auto simp: kill_def intro: carried_same)
    next
      case (Some x)
      then obtain mk p a where x: "find_executing (ds_processors ds) i = Some (mk, p, a)" by (cases x) auto
      from find_executing_found[OF x] have p: "(mk, p) \<in> set (ds_processors ds)" "executing_replica p i = Some a" by auto
      then obtain r where r: "current_request p a = Some r" using executing_current by blast
      have f: "fire undefined (KillExecuting i) p = Some (add_task p (KillWait a r), [Sent r ERROR operator_text])"
        using p(2) r by simp
      show ?thesis using lift_known[OF assms(1) known[OF p(1)] f] r x None assms(2) by (simp add: kill_def)
    qed
  qed
qed

lemma ds_fire_carried:
  assumes r: "routed ds" and f: "ds_fire en ev ds = Some res"
  shows "carried (ds_pending ds + ds_arrivals ev) res"
proof (cases ev)
  case (Pushed x)
  then show ?thesis using f r by (auto simp: carried_def routed_def ds_pending_def)
next
  case (Fetched n)
  then have n: "0 < n" and b: "ds_batch ds = []" and res: "res = (fetch_batch n ds, [])" using f by (auto split: if_splits)
  let ?q = "rd_queue (ds_redis ds)"
  have "mset (map (rq_ref \<circ> ps_request) ?q) =
      mset (map (rq_ref \<circ> ps_request) (take n (rev ?q))) + mset (map (rq_ref \<circ> ps_request) (drop n (rev ?q)))"
    by (metis append_take_drop_id map_append mset_append mset_rev rev_map)
  then have "ds_pending (fetch_batch n ds) = ds_pending ds"
    using b by (simp add: fetch_batch_def get_batch_spec[OF n] ds_pending_def rev_map comp_assoc)
  then show ?thesis using r res Fetched by (simp add: carried_def routed_def fetch_batch_def case_prod_unfold)
next
  case (Routed now)
  then obtain r' rs where b: "ds_batch ds = r' # rs" and res: "res = dispatch now (ds\<lparr>ds_batch := rs\<rparr>) r'"
    using f by (auto split: list.splits)
  have "routed (ds\<lparr>ds_batch := rs\<rparr>)" using r by (simp add: routed_def)
  from dispatch_carried[OF this, of r' now] show ?thesis using b res Routed by (simp add: ds_pending_def)
next
  case (Stepped mk ev')
  then obtain p p1 outs where "map_of (ds_processors ds) mk = Some p" "fire en ev' p = Some (p1, outs)"
    "res = (put_processor ds mk p1, outs)" "inner ev'" using f by (auto split: option.splits if_splits)
  moreover have "arrivals ev' = {#}" using \<open>inner ev'\<close> by (cases ev') simp_all
  ultimately show ?thesis using lift_known[OF r] Stepped by simp
next
  case (ErrorsHandled up)
  then show ?thesis using f handle_errors_carried[OF r] by (auto split: if_splits)
next
  case (Killed i)
  then show ?thesis using f kill_carried[OF r] by (auto split: prod.splits)
next
  case (ReconcileAsked mk answer)
  show ?thesis
  proof (cases "map_of (ds_processors ds) mk")
    case None
    then show ?thesis using f ReconcileAsked carried_same[OF r, of ds] by (auto simp: handle_reconcile_def)
  next
    case (Some p)
    then show ?thesis using f ReconcileAsked lift_known[OF r Some, of undefined "Reconciled answer" "reconcile p answer" "[]"]
      by (auto simp: handle_reconcile_def)
  qed
next
  case (StatusRefreshed answer)
  then show ?thesis using f r by (auto simp: refresh_status_def intro!: carried_same split: sum.splits)
next
  case (EnvRefreshed answer)
  then show ?thesis using f r by (auto simp: refresh_env_def intro!: carried_same split: sum.splits)
qed

lemma ds_run_carried:
  "routed ds \<Longrightarrow> ds_run en evs ds = Some res \<Longrightarrow> carried (ds_pending ds + \<Sum>\<^sub># (mset (map ds_arrivals evs))) res"
proof (induction evs arbitrary: ds res)
  case Nil
  then show ?case by (auto simp: carried_def)
next
  case (Cons ev evs)
  from Cons.prems(2) obtain ds1 o1 ds2 o2 where f: "ds_fire en ev ds = Some (ds1, o1)"
    and r: "ds_run en evs ds1 = Some (ds2, o2)" and res: "res = (ds2, o1 @ o2)" by (auto split: option.splits)
  let ?m = "\<Sum>\<^sub># (mset (map ds_arrivals evs))"
  from ds_fire_carried[OF Cons.prems(1) f] have q: "routed ds1"
    and a: "accounted (ds_pending ds + ds_arrivals ev) (ds_pending ds1) o1" by (simp_all add: carried_def)
  from Cons.IH[OF q r] have "routed ds2" "accounted (ds_pending ds1 + ?m) (ds_pending ds2) o2" by (simp_all add: carried_def)
  moreover have "accounted (ds_pending ds + ds_arrivals ev + ?m) (ds_pending ds1 + ?m) o1" by (rule accounted_frame[OF a])
  ultimately show ?case using res accounted_trans by (fastforce simp: carried_def add.assoc)
qed

section \<open>Properties\<close>

lemma routed_new: "routed (new_dispatcher rd)"
  by (simp add: routed_def new_dispatcher_def dict_wf_def)


definition ex_redis :: redis where
  "ex_redis = \<lparr>rd_queue = [ex_pushed ''a''], rd_connected = None, rd_status = Some ''old'', rd_status_requested = True,
     rd_env = None, rd_env_requested = False\<rparr>"

definition ex_flow :: "ds_event list" where
  "ex_flow = [Fetched 4, Routed 1, Stepped ''m'' (QueryAnswered (Inr [''r1''])), Stepped ''m'' (StartReady [0] None),
     Stepped ''m'' (Take 2 0 None), Pushed (ex_pushed ''b''), Stepped ''m'' (RunReturned 0)]"


lemma in_flight_pending: "r \<in> set (in_flight p) \<Longrightarrow> rq_ref r \<in># pending p"
  and queued_pending: "r \<in> set (snapshot (pr_queue p)) \<Longrightarrow> rq_ref r \<in># pending p"
  by (auto simp: pending_def snapshot_def)

text \<open>C20. A request is only ever handled by the processor of its own model: in every state the dispatcher
  reaches, each model has one processor, kept under its key, and every request queued or in flight
  there is for that model; so no replica runs a request for another model.\<close>

theorem requests_stay_with_their_model:
  assumes "ds_run en evs (new_dispatcher rd) = Some (ds, outs)"
  shows "distinct (map fst (ds_processors ds)) \<and>
    (\<forall>x \<in> set (ds_processors ds). pr_model_key (snd x) = fst x \<and>
       (\<forall>r \<in> set (snapshot (pr_queue (snd x))) \<union> set (in_flight (snd x)). rq_model_key r = fst x))"
proof -
  have r: "routed ds" using ds_run_carried[OF routed_new assms] by (simp add: carried_def)
  have "pr_model_key p = mk \<and> (\<forall>r \<in> set (snapshot (pr_queue p)) \<union> set (in_flight p). rq_model_key r = mk)"
    if "(mk, p) \<in> set (ds_processors ds)" for mk p
  proof -
    have h: "homed mk p" using r that by (force simp: routed_def)
    then have "snd (rq_ref r) = mk" if "r \<in> set (snapshot (pr_queue p)) \<union> set (in_flight p)" for r
      using in_flight_pending queued_pending that unfolding homed_def by blast
    then show ?thesis using h by (simp add: homed_def rq_ref_def)
  qed
  then show ?thesis using r by (auto simp: routed_def dict_wf_def)
qed

theorem requests_stay_with_their_model_witness:
  "\<exists>ds outs p r. ds_run ex_env (take 5 ex_flow) (new_dispatcher ex_redis) = Some (ds, outs) \<and>
     ds_processors ds = [(''m'', p)] \<and> in_flight p = [r] \<and> rq_model_key r = ''m''"
proof -
  have ev: "map_option (\<lambda>(ds, _). (map fst (ds_processors ds), map (length \<circ> in_flight \<circ> snd) (ds_processors ds)))
      (ds_run ex_env (take 5 ex_flow) (new_dispatcher ex_redis)) = Some ([''m''], [1])" by code_simp
  then obtain ds outs where r: "ds_run ex_env (take 5 ex_flow) (new_dispatcher ex_redis) = Some (ds, outs)"
    by (cases "ds_run ex_env (take 5 ex_flow) (new_dispatcher ex_redis)") auto
  with ev obtain p where p: "ds_processors ds = [(''m'', p)]" "length (in_flight p) = 1" by auto
  then obtain rq where "in_flight p = [rq]" by (auto simp: length_Suc_conv)
  with requests_stay_with_their_model[OF r] r p show ?thesis by auto
qed

section \<open>Reconnecting\<close>

lemma dict_set_here: "mk \<notin> fst ` set xs \<Longrightarrow> dict_set mk v (xs @ (mk, p) # ys) = xs @ (mk, v) # ys"
  by (induction xs) auto

definition purged :: "string \<Rightarrow> processor \<Rightarrow> processor" where
  "purged m p = (fst (purge p (Some m)))\<lparr>pr_errors := []\<rparr>"

lemma purge_each_result:
  "ds_processors ds = xs @ ps \<Longrightarrow> distinct (map fst (xs @ ps)) \<Longrightarrow>
   ds_processors (fst (purge_each ds ps m)) = xs @ map (\<lambda>x. (fst x, purged m (snd x))) ps \<and>
   ds_batch (fst (purge_each ds ps m)) = ds_batch ds \<and> ds_redis (fst (purge_each ds ps m)) = ds_redis ds \<and>
   (\<forall>x \<in> set ps. set (purge_tell (snd x) m) \<subseteq> set (snd (purge_each ds ps m)))"
proof (induction ps arbitrary: ds xs)
  case (Cons x ps)
  obtain mk p where x: "x = (mk, p)" by (cases x)
  let ?p1 = "fst (purge p (Some m))"
  let ?ds = "put_processor ds mk ?p1"
  have "ds_processors ?ds = (xs @ [(mk, purged m p)]) @ ps"
    using Cons.prems x by (simp add: dict_set_here purged_def)
  moreover have "distinct (map fst ((xs @ [(mk, purged m p)]) @ ps))" using Cons.prems(2) x by simp
  ultimately have ih: "ds_processors (fst (purge_each ?ds ps m)) = (xs @ [(mk, purged m p)]) @ map (\<lambda>x. (fst x, purged m (snd x))) ps"
    "ds_batch (fst (purge_each ?ds ps m)) = ds_batch ds" "ds_redis (fst (purge_each ?ds ps m)) = ds_redis ds"
    "\<forall>x \<in> set ps. set (purge_tell (snd x) m) \<subseteq> set (snd (purge_each ?ds ps m))"
    using Cons.IH[of ?ds "xs @ [(mk, purged m p)]"] by simp_all
  have "set (purge_tell p m) \<subseteq> set (snd (purge p (Some m)))" by (simp add: purge_def Let_def case_prod_unfold)
  then show ?case using ih x by (auto simp: case_prod_unfold)
qed simp

lemma purged_fields:
  "qsize (pr_queue (purged m p)) = 0" "pr_replicas (purged m p) = []" "pr_status (purged m p) = UNINITIALIZED"
  by (simp_all add: purged_def purge_def purge_drop_def Let_def case_prod_unfold qsize_def q_clear_def)


definition ex_lost :: err where
  "ex_lost = \<lparr>err_kind = OtherErr, err_cause = None, err_text = ''grpc._channel: Failed to reconnect''\<rparr>"


end
