(* ===== verification/Wire.thy ===== *)
theory Wire
  imports Prelude "HOL-Library.Word"
begin

text \<open>
  \<open>sandbox/protocol.py\<close>: the framing, the type-tagged codec and the fan-out the sandbox host, the
  runner and the tensor-parallel ranks speak. A socket is the bytes its peer sent before it closed,
  read in pieces of any size; \<open>torch.save\<close> and \<open>torch.load\<close> are parameters.
\<close>

section \<open>Bytes\<close>

type_synonym byte = "8 word"

datatype wire_error = StructError | UnicodeError | UnknownTag | LoadError | ConnectionClosed

text \<open>\<open>struct.pack\<close> and \<open>struct.unpack\<close> of one unsigned number, most significant byte first.\<close>

fun be_bytes :: "nat \<Rightarrow> nat \<Rightarrow> byte list" where
  "be_bytes 0 n = []"
| "be_bytes (Suc w) n = be_bytes w (n div 256) @ [of_nat (n mod 256)]"

definition be_nat :: "byte list \<Rightarrow> nat" where
  "be_nat bs = foldl (\<lambda>acc b. acc * 256 + unat b) 0 bs"

definition struct_pack :: "nat \<Rightarrow> nat \<Rightarrow> wire_error + byte list" where
  "struct_pack w n = (if n < 256 ^ w then Inr (be_bytes w n) else Inl StructError)"

definition struct_unpack :: "nat \<Rightarrow> byte list \<Rightarrow> wire_error + nat" where
  "struct_unpack w bs = (if length bs = w then Inr (be_nat bs) else Inl StructError)"

lemma length_be_bytes [simp]: "length (be_bytes w n) = w"
  by (induction w arbitrary: n) simp_all

lemma be_nat_be_bytes: "n < 256 ^ w \<Longrightarrow> be_nat (be_bytes w n) = n"
proof (induction w arbitrary: n)
  case 0
  then show ?case by (simp add: be_nat_def)
next
  case (Suc w)
  have "n div 256 < 256 ^ w" using Suc.prems by (simp add: less_mult_imp_div_less mult.commute)
  then have "be_nat (be_bytes w (n div 256)) = n div 256" by (rule Suc.IH)
  moreover have "unat (of_nat (n mod 256) :: byte) = n mod 256" by (simp add: unat_of_nat)
  ultimately show ?case by (simp add: be_nat_def)
qed

section \<open>UTF-8\<close>

text \<open>A Python string is its code points; \<open>str.encode\<close> refuses the surrogates.\<close>

type_synonym py_str = "nat list"

definition scalar :: "nat \<Rightarrow> bool" where
  "scalar c \<longleftrightarrow> c < 55296 \<or> 57343 < c \<and> c < 1114112"

definition utf8_char :: "nat \<Rightarrow> byte list" where
  "utf8_char c =
     (if c < 128 then [of_nat c]
      else if c < 2048 then [of_nat (192 + c div 64), of_nat (128 + c mod 64)]
      else if c < 65536 then [of_nat (224 + c div 4096), of_nat (128 + c div 64 mod 64), of_nat (128 + c mod 64)]
      else [of_nat (240 + c div 262144), of_nat (128 + c div 4096 mod 64), of_nat (128 + c div 64 mod 64),
            of_nat (128 + c mod 64)])"

definition utf8_encode :: "py_str \<Rightarrow> wire_error + byte list" where
  "utf8_encode s = (if list_all scalar s then Inr (concat (map utf8_char s)) else Inl UnicodeError)"

text \<open>The strict decoder: the lead byte gives the length, the rest are continuation bytes, and the
  code point must be one that is written in that length.\<close>

definition cont :: "byte \<Rightarrow> bool" where
  "cont b \<longleftrightarrow> 128 \<le> unat b \<and> unat b < 192"

definition utf8_more :: "byte \<Rightarrow> nat" where
  "utf8_more a =
     (if unat a < 128 then 0 else if 192 \<le> unat a \<and> unat a < 224 then 1
      else if 224 \<le> unat a \<and> unat a < 240 then 2 else if 240 \<le> unat a \<and> unat a < 248 then 3 else 4)"

definition utf8_point :: "byte \<Rightarrow> byte list \<Rightarrow> nat" where
  "utf8_point a bs =
     foldl (\<lambda>acc b. acc * 64 + (unat b - 128)) (if bs = [] then unat a else unat a mod 2 ^ (6 - length bs)) bs"

definition utf8_valid :: "byte \<Rightarrow> byte list \<Rightarrow> bool" where
  "utf8_valid a bs \<longleftrightarrow>
     utf8_more a < 4 \<and> utf8_more a = length bs \<and> list_all cont bs \<and> scalar (utf8_point a bs) \<and>
     length (utf8_char (utf8_point a bs)) = Suc (length bs)"

fun utf8_decode :: "byte list \<Rightarrow> wire_error + py_str" where
  "utf8_decode [] = Inr []"
| "utf8_decode (a # bs) =
     (if utf8_valid a (take (utf8_more a) bs)
      then (case utf8_decode (drop (utf8_more a) bs) of
              Inl e \<Rightarrow> Inl e | Inr cs \<Rightarrow> Inr (utf8_point a (take (utf8_more a) bs) # cs))
      else Inl UnicodeError)"

lemma unat_byte: "n < 256 \<Longrightarrow> unat (of_nat n :: byte) = n"
  by (simp add: unat_of_nat)

text \<open>One character: its lead byte, and its continuation bytes as six-bit digits.\<close>

lemma cont_digit: "d < 64 \<Longrightarrow> cont (of_nat (128 + d)) \<and> unat (of_nat (128 + d) :: byte) - 128 = d"
  using unat_byte[of "128 + d"] by (simp add: cont_def)

lemma mod_lead: "e < m \<Longrightarrow> (k * m + e) mod m = (e :: nat)"
  by simp

lemma utf8_char_valid:
  assumes "scalar c" and "utf8_char c = a # bs"
  shows "utf8_more a = length bs \<and> utf8_valid a bs \<and> utf8_point a bs = c"
proof -
  have len: "length (utf8_char c) = Suc (length bs)" using assms(2) by simp
  consider "c < 128" | "128 \<le> c" "c < 2048" | "2048 \<le> c" "c < 65536" | "65536 \<le> c" "c < 1114112"
    using assms(1) unfolding scalar_def by linarith
  then have "utf8_more a = length bs \<and> utf8_more a < 4 \<and> list_all cont bs \<and> utf8_point a bs = c"
  proof cases
    case 1
    then show ?thesis using assms(2) unat_byte[of c] by (auto simp: utf8_char_def utf8_more_def utf8_point_def)
  next
    case 2
    define d where "d = c mod 64"
    define e where "e = c div 64"
    have "e < 32" "d < 64" "c = e * 64 + d" using 2 by (auto simp: d_def e_def)
    moreover have "a = of_nat (192 + e)" "bs = [of_nat (128 + d)]" using 2 assms(2) by (auto simp: utf8_char_def d_def e_def)
    moreover have "(192 + e) mod 32 = e" using mod_lead[OF \<open>e < 32\<close>, of 6] by simp
    ultimately show ?thesis using cont_digit[of d] unat_byte[of "192 + e"] by (simp add: utf8_more_def utf8_point_def)
  next
    case 3
    define d where "d = c mod 64"
    define e where "e = c div 64 mod 64"
    define g where "g = c div 4096"
    have "g < 16" "e < 64" "d < 64" using 3 by (auto simp: d_def e_def g_def)
    moreover have "c = (g * 64 + e) * 64 + d" by (simp add: d_def e_def g_def div_mult2_eq[of c 64 64, simplified])
    moreover have "a = of_nat (224 + g)" "bs = [of_nat (128 + e), of_nat (128 + d)]"
      using 3 assms(2) by (auto simp: utf8_char_def d_def e_def g_def)
    moreover have "(224 + g) mod 16 = g" using mod_lead[OF \<open>g < 16\<close>, of 14] by simp
    ultimately show ?thesis using cont_digit[of d] cont_digit[of e] unat_byte[of "224 + g"]
      by (simp add: utf8_more_def utf8_point_def)
  next
    case 4
    define d where "d = c mod 64"
    define e where "e = c div 64 mod 64"
    define g where "g = c div 4096 mod 64"
    define h where "h = c div 262144"
    have "h < 8" "g < 64" "e < 64" "d < 64" using 4 by (auto simp: d_def e_def g_def h_def)
    moreover have "c = ((h * 64 + g) * 64 + e) * 64 + d"
      by (simp add: d_def e_def g_def h_def div_mult2_eq[of c 64 64, simplified] div_mult2_eq[of c 4096 64, simplified])
    moreover have "a = of_nat (240 + h)" "bs = [of_nat (128 + g), of_nat (128 + e), of_nat (128 + d)]"
      using 4 assms(2) by (auto simp: utf8_char_def d_def e_def g_def h_def)
    moreover have "(240 + h) mod 8 = h" using mod_lead[OF \<open>h < 8\<close>, of 30] by simp
    ultimately show ?thesis using cont_digit[of d] cont_digit[of e] cont_digit[of g] unat_byte[of "240 + h"]
      by (simp add: utf8_more_def utf8_point_def)
  qed
  with assms(1) len show ?thesis by (simp add: utf8_valid_def)
qed

lemma utf8_roundtrip: "utf8_encode s = Inr bs \<Longrightarrow> utf8_decode bs = Inr s"
proof (induction s arbitrary: bs)
  case Nil
  then show ?case by (simp add: utf8_encode_def)
next
  case (Cons c s)
  then have c: "scalar c" and bs: "bs = utf8_char c @ concat (map utf8_char s)"
    and s: "utf8_encode s = Inr (concat (map utf8_char s))" by (auto simp: utf8_encode_def split: if_splits)
  obtain a ds where u: "utf8_char c = a # ds" by (cases "utf8_char c") (auto simp: utf8_char_def split: if_splits)
  show ?case using utf8_char_valid[OF c u] Cons.IH[OF s] u by (simp add: bs)
qed

section \<open>The codec\<close>

text \<open>What crosses the wire: bytes, a string, or any other object.\<close>

datatype 'v wire_value = WBytes "byte list" | WStr py_str | WObj 'v

definition encode :: "('v \<Rightarrow> byte list) \<Rightarrow> 'v wire_value \<Rightarrow> wire_error + byte list" where
  "encode save v =
     (case v of
        WBytes bs \<Rightarrow> Inr (1 # bs)
      | WStr s \<Rightarrow> bind_sum (utf8_encode s) (\<lambda>bs. Inr (2 # bs))
      | WObj x \<Rightarrow> Inr (3 # save x))"

definition decode :: "('l \<Rightarrow> byte list \<Rightarrow> 'v option) \<Rightarrow> 'l \<Rightarrow> byte list \<Rightarrow> wire_error + 'v wire_value" where
  "decode load loc blob =
     (case blob of
        [] \<Rightarrow> Inl UnknownTag
      | tag # payload \<Rightarrow>
          if tag = 1 then Inr (WBytes payload)
          else if tag = 2 then bind_sum (utf8_decode payload) (\<lambda>s. Inr (WStr s))
          else if tag = 3 then (case load loc payload of None \<Rightarrow> Inl LoadError | Some x \<Rightarrow> Inr (WObj x))
          else Inl UnknownTag)"

text \<open>A length, then as many bytes.\<close>

definition field :: "byte list \<Rightarrow> wire_error + byte list" where
  "field item = bind_sum (struct_pack 4 (length item)) (\<lambda>n. Inr (n @ item))"

fun pack_values :: "('v \<Rightarrow> byte list) \<Rightarrow> 'v wire_value list \<Rightarrow> wire_error + byte list" where
  "pack_values save [] = Inr []"
| "pack_values save (v # vs) =
     bind_sum (encode save v) (\<lambda>item.
     bind_sum (field item) (\<lambda>out.
     bind_sum (pack_values save vs) (\<lambda>outs. Inr (out @ outs))))"

fun pack_kwargs :: "('v \<Rightarrow> byte list) \<Rightarrow> (py_str \<times> 'v wire_value) list \<Rightarrow> wire_error + byte list" where
  "pack_kwargs save [] = Inr []"
| "pack_kwargs save ((key, v) # kw) =
     bind_sum (utf8_encode key) (\<lambda>kb.
     bind_sum (field kb) (\<lambda>kout.
     bind_sum (encode save v) (\<lambda>item.
     bind_sum (field item) (\<lambda>out.
     bind_sum (pack_kwargs save kw) (\<lambda>outs. Inr (kout @ out @ outs))))))"

definition pack ::
  "('v \<Rightarrow> byte list) \<Rightarrow> 'v wire_value list \<Rightarrow> (py_str, 'v wire_value) dict \<Rightarrow> wire_error + byte list" where
  "pack save vs kw =
     bind_sum (struct_pack 4 (length vs)) (\<lambda>n.
     bind_sum (pack_values save vs) (\<lambda>out.
     bind_sum (struct_pack 4 (length kw)) (\<lambda>k.
     bind_sum (pack_kwargs save kw) (\<lambda>kout. Inr (n @ out @ k @ kout)))))"

text \<open>\<open>take\<close> of \<open>unpack\<close>, on the bytes from \<open>offset\<close> on: a slice past the end is short, not an error;
  the four bytes of a length must be there.\<close>

definition take_field :: "byte list \<Rightarrow> wire_error + byte list \<times> byte list" where
  "take_field rest =
     bind_sum (struct_unpack 4 (take 4 rest)) (\<lambda>n. Inr (take n (drop 4 rest), drop n (drop 4 rest)))"

fun unpack_values ::
  "('l \<Rightarrow> byte list \<Rightarrow> 'v option) \<Rightarrow> 'l \<Rightarrow> nat \<Rightarrow> byte list \<Rightarrow> wire_error + 'v wire_value list \<times> byte list" where
  "unpack_values load loc 0 rest = Inr ([], rest)"
| "unpack_values load loc (Suc n) rest =
     bind_sum (take_field rest) (\<lambda>(item, rest).
     bind_sum (decode load loc item) (\<lambda>v.
     bind_sum (unpack_values load loc n rest) (\<lambda>(vs, rest). Inr (v # vs, rest))))"

fun unpack_kwargs ::
  "('l \<Rightarrow> byte list \<Rightarrow> 'v option) \<Rightarrow> 'l \<Rightarrow> nat \<Rightarrow> byte list \<Rightarrow> (py_str, 'v wire_value) dict \<Rightarrow>
   wire_error + (py_str, 'v wire_value) dict" where
  "unpack_kwargs load loc 0 rest kw = Inr kw"
| "unpack_kwargs load loc (Suc n) rest kw =
     bind_sum (take_field rest) (\<lambda>(kb, rest).
     bind_sum (utf8_decode kb) (\<lambda>key.
     bind_sum (take_field rest) (\<lambda>(item, rest).
     bind_sum (decode load loc item) (\<lambda>v. unpack_kwargs load loc n rest (dict_set key v kw)))))"

definition unpack ::
  "('l \<Rightarrow> byte list \<Rightarrow> 'v option) \<Rightarrow> 'l \<Rightarrow> byte list \<Rightarrow>
   wire_error + 'v wire_value list \<times> (py_str, 'v wire_value) dict" where
  "unpack load loc blob =
     bind_sum (struct_unpack 4 (take 4 blob)) (\<lambda>count.
     bind_sum (unpack_values load loc count (drop 4 blob)) (\<lambda>(vs, rest).
       if rest = [] then Inr (vs, [])
       else
         bind_sum (struct_unpack 4 (take 4 rest)) (\<lambda>kcount.
         bind_sum (unpack_kwargs load loc kcount (drop 4 rest) []) (\<lambda>kw. Inr (vs, kw)))))"

section \<open>Round trips\<close>

text \<open>A value as the receiver rebuilds it, with \<open>move\<close> what loading does to an object.\<close>

fun moved :: "('v \<Rightarrow> 'v) \<Rightarrow> 'v wire_value \<Rightarrow> 'v wire_value" where
  "moved move (WObj x) = WObj (move x)"
| "moved move v = v"

text \<open>What the codec relies on: \<open>torch.load\<close> undoes \<open>torch.save\<close>, up to where the tensors land.\<close>

definition restores :: "('l \<Rightarrow> byte list \<Rightarrow> 'v option) \<Rightarrow> 'l \<Rightarrow> ('v \<Rightarrow> byte list) \<Rightarrow> ('v \<Rightarrow> 'v) \<Rightarrow> bool" where
  "restores load loc save move \<longleftrightarrow> (\<forall>x. load loc (save x) = Some (move x))"

lemma unpack_length: "struct_pack w n = Inr bs \<Longrightarrow> struct_unpack w (take w (bs @ rest)) = Inr n \<and> drop w (bs @ rest) = rest"
  by (auto simp: struct_pack_def struct_unpack_def be_nat_be_bytes split: if_splits)

lemma decode_encode:
  assumes "restores load loc save move" and "encode save v = Inr bs"
  shows "decode load loc bs = Inr (moved move v)"
  using assms utf8_roundtrip by (cases v) (auto simp: encode_def decode_def restores_def bind_sum_Inr)

lemma take_field_field: "field item = Inr bs \<Longrightarrow> take_field (bs @ rest) = Inr (item, rest)"
proof -
  assume "field item = Inr bs"
  then obtain n where n: "struct_pack 4 (length item) = Inr n" and bs: "bs = n @ item" by (auto simp: field_def bind_sum_Inr)
  then show ?thesis using unpack_length[OF n, of "item @ rest"] by (simp add: take_field_def)
qed

lemma unpack_pack_values:
  assumes "restores load loc save move"
  shows "pack_values save vs = Inr bs \<Longrightarrow>
    unpack_values load loc (length vs) (bs @ rest) = Inr (map (moved move) vs, rest)"
proof (induction vs arbitrary: bs)
  case (Cons v vs)
  then obtain item out outs where e: "encode save v = Inr item" "field item = Inr out" "pack_values save vs = Inr outs"
    and bs: "bs = out @ outs" by (auto simp: bind_sum_Inr)
  show ?case using take_field_field[OF e(2), of "outs @ rest"] decode_encode[OF assms e(1)] Cons.IH[OF e(3)]
    by (simp add: bs)
qed simp

lemma dict_set_new: "k \<notin> fst ` set d \<Longrightarrow> dict_set k v d = d @ [(k, v)]"
  by (induction d) auto

lemma unpack_pack_kwargs:
  assumes "restores load loc save move"
  shows "pack_kwargs save kw = Inr bs \<Longrightarrow> distinct (map fst d @ map fst kw) \<Longrightarrow>
    unpack_kwargs load loc (length kw) (bs @ rest) d = Inr (d @ map (\<lambda>(k, v). (k, moved move v)) kw)"
proof (induction kw arbitrary: bs d)
  case (Cons x kw)
  obtain key v where x: "x = (key, v)" by (cases x)
  from Cons.prems(1) obtain kb kout item out outs where e: "utf8_encode key = Inr kb" "field kb = Inr kout"
    "encode save v = Inr item" "field item = Inr out" "pack_kwargs save kw = Inr outs"
    and bs: "bs = kout @ out @ outs" by (auto simp: bind_sum_Inr x)
  have "dict_set key (moved move v) d = d @ [(key, moved move v)]" using Cons.prems(2) x by (intro dict_set_new) auto
  moreover have "distinct (map fst (d @ [(key, moved move v)]) @ map fst kw)" using Cons.prems(2) x by auto
  ultimately show ?case
    using take_field_field[OF e(2), of "out @ outs @ rest"] take_field_field[OF e(4), of "outs @ rest"]
      utf8_roundtrip[OF e(1)] decode_encode[OF assms e(3)] Cons.IH[OF e(5), of "d @ [(key, moved move v)]"]
    by (simp add: bs x)
qed simp

text \<open>What \<open>pack\<close> can carry: strings without surrogates, and fewer than \<open>2 ^ 32\<close> values, keyword
  arguments, and bytes in each.\<close>

definition sendable :: "('v \<Rightarrow> byte list) \<Rightarrow> 'v wire_value \<Rightarrow> bool" where
  "sendable save v \<longleftrightarrow> (\<exists>bs. encode save v = Inr bs \<and> length bs < 256 ^ 4)"

definition packable :: "('v \<Rightarrow> byte list) \<Rightarrow> 'v wire_value list \<Rightarrow> (py_str, 'v wire_value) dict \<Rightarrow> bool" where
  "packable save vs kw \<longleftrightarrow>
     length vs < 256 ^ 4 \<and> length kw < 256 ^ 4 \<and> (\<forall>v \<in> set vs. sendable save v) \<and>
     (\<forall>x \<in> set kw. sendable save (snd x) \<and> (\<exists>bs. utf8_encode (fst x) = Inr bs \<and> length bs < 256 ^ 4))"

lemma field_Inr: "(\<exists>bs. field item = Inr bs) \<longleftrightarrow> length item < 256 ^ 4"
  by (auto simp: field_def struct_pack_def bind_sum_Inr)

lemma pack_values_Inr: "(\<exists>bs. pack_values save vs = Inr bs) \<longleftrightarrow> (\<forall>v \<in> set vs. sendable save v)"
proof (induction vs)
  case (Cons v vs)
  have "(\<exists>bs. pack_values save (v # vs) = Inr bs) \<longleftrightarrow>
      (\<exists>item. encode save v = Inr item \<and> (\<exists>bs. field item = Inr bs)) \<and> (\<exists>bs. pack_values save vs = Inr bs)"
    by (auto simp: bind_sum_Inr)
  then show ?case using Cons.IH by (simp add: field_Inr sendable_def)
qed simp

lemma pack_kwargs_Inr:
  "(\<exists>bs. pack_kwargs save kw = Inr bs) \<longleftrightarrow>
   (\<forall>x \<in> set kw. sendable save (snd x) \<and> (\<exists>bs. utf8_encode (fst x) = Inr bs \<and> length bs < 256 ^ 4))"
proof (induction kw)
  case (Cons x kw)
  obtain key v where x: "x = (key, v)" by (cases x)
  have "(\<exists>bs. pack_kwargs save (x # kw) = Inr bs) \<longleftrightarrow>
      (\<exists>item. encode save v = Inr item \<and> (\<exists>bs. field item = Inr bs)) \<and>
      (\<exists>kb. utf8_encode key = Inr kb \<and> (\<exists>bs. field kb = Inr bs)) \<and> (\<exists>bs. pack_kwargs save kw = Inr bs)"
    by (auto simp: bind_sum_Inr x)
  then show ?case using Cons.IH by (auto simp: field_Inr sendable_def x)
qed simp

lemma pack_Inr: "(\<exists>bs. pack save vs kw = Inr bs) \<longleftrightarrow> packable save vs kw"
proof -
  have "(\<exists>bs. pack save vs kw = Inr bs) \<longleftrightarrow>
      (\<exists>n. struct_pack 4 (length vs) = Inr n) \<and> (\<exists>bs. pack_values save vs = Inr bs) \<and>
      (\<exists>k. struct_pack 4 (length kw) = Inr k) \<and> (\<exists>bs. pack_kwargs save kw = Inr bs)"
    by (auto simp: pack_def bind_sum_Inr)
  then show ?thesis by (auto simp: pack_values_Inr pack_kwargs_Inr packable_def struct_pack_def)
qed

text \<open>C23. Whatever \<open>pack\<close> is given, it raises, exactly when a count or a length does not fit in four
  bytes or a string holds a surrogate, or \<open>unpack\<close> gives back the same values and keyword arguments
  in the same order, each object as the receiver's \<open>torch.load\<close> places it. The hypotheses are that
  \<open>torch.load\<close> undoes \<open>torch.save\<close> up to where the tensors land, and that no keyword comes twice.\<close>

theorem unpack_pack:
  assumes "restores load loc save move" and "distinct (map fst kw)"
  shows "if packable save vs kw
    then \<exists>blob. pack save vs kw = Inr blob \<and>
      unpack load loc blob = Inr (map (moved move) vs, map (\<lambda>(k, v). (k, moved move v)) kw)
    else \<exists>e. pack save vs kw = Inl e"
proof (cases "packable save vs kw")
  case True
  then obtain blob where p: "pack save vs kw = Inr blob" using pack_Inr by blast
  then obtain n out k kout where e: "struct_pack 4 (length vs) = Inr n" "pack_values save vs = Inr out"
    "struct_pack 4 (length kw) = Inr k" "pack_kwargs save kw = Inr kout" and blob: "blob = n @ out @ k @ kout"
    by (auto simp: pack_def bind_sum_Inr)
  have ne: "k @ kout \<noteq> []" using e(3) by (auto simp: struct_pack_def split: if_splits dest: arg_cong[of _ _ length])
  have "unpack load loc blob = Inr (map (moved move) vs, map (\<lambda>(k, v). (k, moved move v)) kw)"
    using unpack_length[OF e(1), of "out @ k @ kout"] unpack_pack_values[OF assms(1) e(2), of "k @ kout"]
      unpack_length[OF e(3), of kout] unpack_pack_kwargs[OF assms(1) e(4), of "[]" "[]"] assms(2) ne
    by (auto simp: unpack_def blob)
  with True p show ?thesis by auto
next
  case False
  then show ?thesis using pack_Inr[of save vs kw] by (cases "pack save vs kw") auto
qed

definition ex_save :: "byte \<Rightarrow> byte list" where
  "ex_save b = [b]"

definition ex_load :: "unit \<Rightarrow> byte list \<Rightarrow> byte option" where
  "ex_load loc bs = (case bs of [b] \<Rightarrow> Some b | _ \<Rightarrow> None)"

theorem unpack_pack_witness:
  "\<exists>blob. pack ex_save [WStr [80, 8364], WObj 7, WBytes [1, 2]] [([107], WObj 5)] = Inr blob \<and>
     unpack ex_load () blob = Inr ([WStr [80, 8364], WObj 7, WBytes [1, 2]], [([107], WObj 5)])"
proof -
  let ?vs = "[WStr [80, 8364], WObj 7, WBytes [1, 2]]" and ?kw = "[([107], WObj (5 :: byte))] :: (py_str \<times> byte wire_value) list"
  have r: "restores ex_load () ex_save (\<lambda>x. x)" by (simp add: restores_def ex_load_def ex_save_def)
  have "packable ex_save ?vs ?kw"
    by (simp add: packable_def sendable_def encode_def utf8_encode_def scalar_def utf8_char_def ex_save_def)
  with unpack_pack[OF r, of ?kw ?vs] show ?thesis by simp
qed

section \<open>Frames\<close>

definition send_frame :: "byte list \<Rightarrow> wire_error + byte list" where
  "send_frame data = bind_sum (struct_pack 8 (length data)) (\<lambda>h. Inr (h @ data))"

text \<open>\<open>sock.recv(n)\<close>, the \<open>k\<close>-th on this socket: some of the bytes that are still to come, at most \<open>n\<close>,
  and none only when the peer has closed.\<close>

definition recv :: "(nat \<Rightarrow> nat) \<Rightarrow> nat \<Rightarrow> byte list \<Rightarrow> nat \<Rightarrow> byte list" where
  "recv sizes k stream n = take (min n (max 1 (sizes k))) stream"

function recvn ::
  "(nat \<Rightarrow> nat) \<Rightarrow> nat \<Rightarrow> byte list \<Rightarrow> nat \<Rightarrow> byte list \<Rightarrow> wire_error + byte list \<times> byte list \<times> nat" where
  "recvn sizes k stream n buffer =
     (if length buffer < n
      then let chunk = recv sizes k stream (n - length buffer) in
           if chunk = [] then Inl ConnectionClosed
           else recvn sizes (Suc k) (drop (length chunk) stream) n (buffer @ chunk)
      else Inr (buffer, stream, k))"
  by pat_completeness auto
termination
proof (relation "measure (\<lambda>(sizes, k, stream, n, buffer). n - length buffer)")
  fix sizes k stream n and buffer x :: "byte list"
  assume "length buffer < n" and "x = recv sizes k stream (n - length buffer)" and "x \<noteq> []"
  then have "0 < length x" "length buffer < n" by simp_all
  then have "n - (length buffer + length x) < n - length buffer" by linarith
  then show "((sizes, Suc k, drop (length x) stream, n, buffer @ x), sizes, k, stream, n, buffer)
      \<in> measure (\<lambda>(sizes, k, stream, n, buffer). n - length buffer)" by simp
qed simp

declare recvn.simps [simp del]

definition recv_frame :: "(nat \<Rightarrow> nat) \<Rightarrow> nat \<Rightarrow> byte list \<Rightarrow> wire_error + byte list \<times> byte list \<times> nat" where
  "recv_frame sizes k stream =
     bind_sum (recvn sizes k stream 8 []) (\<lambda>(h, stream, k).
     bind_sum (struct_unpack 8 h) (\<lambda>size. recvn sizes k stream size []))"

text \<open>A reader that takes up to \<open>m\<close> messages, and the error that stopped it.\<close>

fun recv_frames :: "(nat \<Rightarrow> nat) \<Rightarrow> nat \<Rightarrow> nat \<Rightarrow> byte list \<Rightarrow> byte list list \<times> wire_error option" where
  "recv_frames sizes 0 k stream = ([], None)"
| "recv_frames sizes (Suc m) k stream =
     (case recv_frame sizes k stream of
        Inl e \<Rightarrow> ([], Some e)
      | Inr (data, stream, k) \<Rightarrow>
          (case recv_frames sizes m k stream of (ds, e) \<Rightarrow> (data # ds, e)))"

lemma recvn_all:
  "length buffer \<le> n \<Longrightarrow>
   (if n \<le> length buffer + length stream
    then \<exists>k'. recvn sizes k stream n buffer =
      Inr (buffer @ take (n - length buffer) stream, drop (n - length buffer) stream, k')
    else recvn sizes k stream n buffer = Inl ConnectionClosed)"
proof (induction sizes k stream n buffer rule: recvn.induct)
  case (1 sizes k stream n buffer)
  show ?case
  proof (cases "length buffer < n")
    case False
    then show ?thesis using 1(2) by (simp add: recvn.simps)
  next
    case less: True
    let ?c = "recv sizes k stream (n - length buffer)"
    have step: "recvn sizes k stream n buffer =
      (if ?c = [] then Inl ConnectionClosed else recvn sizes (Suc k) (drop (length ?c) stream) n (buffer @ ?c))"
      using less by (subst recvn.simps) (simp add: Let_def)
    show ?thesis
    proof (cases "?c = []")
      case True
      then have "stream = []" using less by (auto simp: recv_def)
      then show ?thesis using less True step by simp
    next
      case False
      have len: "length ?c \<le> n - length buffer" "length ?c \<le> length stream" by (simp_all add: recv_def)
      have pre: "?c = take (length ?c) stream" by (simp add: recv_def min_def)
      let ?r = "n - length buffer"
      have split: "take ?r stream = ?c @ take (?r - length ?c) (drop (length ?c) stream)"
        using len pre by (metis le_add_diff_inverse take_add)
      have "length (buffer @ ?c) \<le> n" using len less by simp
      from 1(1)[OF less refl False this] step False len split less show ?thesis
        by (auto simp: add.commute)
    qed
  qed
qed

lemma send_frame_Inr: "send_frame m = Inr fr \<longleftrightarrow> length m < 256 ^ 8 \<and> fr = be_bytes 8 (length m) @ m"
  by (auto simp: send_frame_def struct_pack_def)

lemma recv_frame_whole:
  assumes "send_frame m = Inr fr"
  shows "\<exists>k'. recv_frame sizes k (fr @ rest) = Inr (m, rest, k')"
proof -
  let ?h = "be_bytes 8 (length m)"
  have fr: "fr = ?h @ m" "length m < 256 ^ 8" using assms by (auto simp: send_frame_Inr)
  obtain k1 where k1: "recvn sizes k (?h @ m @ rest) 8 [] = Inr (?h, m @ rest, k1)"
    using recvn_all[of "[]" 8 "?h @ m @ rest" sizes k] by auto
  obtain k2 where k2: "recvn sizes k1 (m @ rest) (length m) [] = Inr (m, rest, k2)"
    using recvn_all[of "[]" "length m" "m @ rest" sizes k1] by auto
  have "struct_unpack 8 ?h = Inr (length m)" using fr(2) by (simp add: struct_unpack_def be_nat_be_bytes)
  with k1 k2 show ?thesis by (simp add: recv_frame_def fr)
qed

lemma recv_frame_cut:
  assumes "send_frame m = Inr fr" and "j < length fr"
  shows "recv_frame sizes k (take j fr) = Inl ConnectionClosed"
proof -
  let ?h = "be_bytes 8 (length m)"
  have fr: "fr = ?h @ m" "length m < 256 ^ 8" using assms by (auto simp: send_frame_Inr)
  show ?thesis
  proof (cases "j < 8")
    case True
    then show ?thesis using recvn_all[of "[]" 8 "take j fr" sizes k] fr by (simp add: recv_frame_def)
  next
    case False
    then have t: "take j fr = ?h @ take (j - 8) m" by (simp add: fr)
    obtain k1 where k1: "recvn sizes k (?h @ take (j - 8) m) 8 [] = Inr (?h, take (j - 8) m, k1)"
      using recvn_all[of "[]" 8 "?h @ take (j - 8) m" sizes k] by auto
    have "recvn sizes k1 (take (j - 8) m) (length m) [] = Inl ConnectionClosed"
      using recvn_all[of "[]" "length m" "take (j - 8) m" sizes k1] assms(2) False fr by simp
    moreover have "struct_unpack 8 ?h = Inr (length m)" using fr(2) by (simp add: struct_unpack_def be_nat_be_bytes)
    ultimately show ?thesis using k1 by (simp add: recv_frame_def t)
  qed
qed

text \<open>C24. The frames arrive as they were sent, however the stream is cut into pieces: a reader of a
  connection that closed after \<open>j\<close> bytes gets exactly the messages whose frames lie within the first
  \<open>j\<close> bytes, in order, and then the connection error, never a partial or a wrong message.\<close>

theorem frames_survive_chunking:
  assumes "map send_frame ms = map Inr frames"
  shows "\<exists>i \<le> length ms. recv_frames sizes (Suc (length ms)) k (take j (concat frames)) = (take i ms, Some ConnectionClosed) \<and>
    (\<forall>i' \<le> length ms. i' \<le> i \<longleftrightarrow> length (concat (take i' frames)) \<le> j)"
  using assms
proof (induction ms arbitrary: frames j k)
  case Nil
  have "recv_frame sizes k [] = Inl ConnectionClosed" using recvn_all[of "[]" 8 "[]" sizes k] by (simp add: recv_frame_def)
  then show ?case using Nil by simp
next
  case (Cons m ms)
  then obtain fr frs where f: "frames = fr # frs" "send_frame m = Inr fr" "map send_frame ms = map Inr frs"
    by (cases frames) auto
  have ln: "length fr = 8 + length m" using f(2) by (auto simp: send_frame_Inr)
  show ?case
  proof (cases "j < length fr")
    case True
    then have "recv_frame sizes k (take j (concat frames)) = Inl ConnectionClosed"
      using recv_frame_cut[OF f(2) True, of sizes k] by (simp add: f)
    moreover have "i' \<le> 0 \<longleftrightarrow> length (concat (take i' frames)) \<le> j" for i' using True by (cases i') (auto simp: f)
    ultimately show ?thesis by (intro exI[of _ 0]) simp
  next
    case False
    then have t: "take j (concat frames) = fr @ take (j - length fr) (concat frs)" by (simp add: f)
    obtain k' where k': "recv_frame sizes k (take j (concat frames)) = Inr (m, take (j - length fr) (concat frs), k')"
      using recv_frame_whole[OF f(2)] t by metis
    from Cons.IH[OF f(3), of k' "j - length fr"] obtain i where i: "i \<le> length ms"
      "recv_frames sizes (Suc (length ms)) k' (take (j - length fr) (concat frs)) = (take i ms, Some ConnectionClosed)"
      "\<forall>i' \<le> length ms. i' \<le> i \<longleftrightarrow> length (concat (take i' frs)) \<le> j - length fr" by blast
    have "i' \<le> Suc i \<longleftrightarrow> length (concat (take i' frames)) \<le> j" if "i' \<le> length (m # ms)" for i'
      using i(3) False that by (cases i') (auto simp: f)
    with i k' show ?thesis by (intro exI[of _ "Suc i"]) simp
  qed
qed

definition ex_frames :: "byte list list" where
  "ex_frames = [be_bytes 8 2 @ [5, 6], be_bytes 8 3 @ [7, 8, 9]]"

theorem frames_survive_chunking_witness:
  "recv_frames (\<lambda>k. k mod 3) (Suc 2) 0 (take 20 (concat ex_frames)) = ([[5, 6]], Some ConnectionClosed)"
proof -
  let ?ms = "[[5, 6], [7, 8, 9]] :: byte list list"
  have "map send_frame ?ms = map Inr ex_frames"
    by (simp add: send_frame_def struct_pack_def ex_frames_def flip: numeral_3_eq_3 numeral_2_eq_2)
  from frames_survive_chunking[OF this, of "\<lambda>k. k mod 3" 0 20] obtain i where i: "i \<le> length ?ms"
    "recv_frames (\<lambda>k. k mod 3) (Suc (length ?ms)) 0 (take 20 (concat ex_frames)) = (take i ?ms, Some ConnectionClosed)"
    and c: "\<forall>i' \<le> length ?ms. i' \<le> i \<longleftrightarrow> length (concat (take i' ex_frames)) \<le> 20" by blast
  have "1 \<le> i" "\<not> 2 \<le> i" using c[rule_format, of 1] c[rule_format, of 2] by (simp_all add: ex_frames_def)
  then have "i = 1" by linarith
  with i show ?thesis by (simp add: numeral_2_eq_2)
qed

section \<open>Channels\<close>

text \<open>\<open>Channel.send\<close> and \<open>Channel.recv\<close>, on the bytes of the socket.\<close>

definition channel_send :: "('v \<Rightarrow> byte list) \<Rightarrow> 'v wire_value \<Rightarrow> wire_error + byte list" where
  "channel_send save v = bind_sum (encode save v) send_frame"

definition channel_recv ::
  "('l \<Rightarrow> byte list \<Rightarrow> 'v option) \<Rightarrow> 'l \<Rightarrow> (nat \<Rightarrow> nat) \<Rightarrow> nat \<Rightarrow> byte list \<Rightarrow>
   wire_error + 'v wire_value \<times> byte list \<times> nat" where
  "channel_recv load loc sizes k stream =
     bind_sum (recv_frame sizes k stream) (\<lambda>(data, stream, k).
     bind_sum (decode load loc data) (\<lambda>v. Inr (v, stream, k)))"

lemma channel_roundtrip:
  assumes "restores load loc save move" and "channel_send save v = Inr bs"
  shows "\<exists>k'. channel_recv load loc sizes k (bs @ rest) = Inr (moved move v, rest, k')"
proof -
  from assms(2) obtain data where d: "encode save v = Inr data" "send_frame data = Inr bs"
    by (auto simp: channel_send_def bind_sum_Inr)
  obtain k' where "recv_frame sizes k (bs @ rest) = Inr (data, rest, k')" using recv_frame_whole[OF d(2)] by blast
  then show ?thesis using decode_encode[OF assms(1) d(1)] by (simp add: channel_recv_def)
qed

section \<open>Fan-out\<close>

text \<open>A received message, as far as \<open>signature_of\<close> looks into it.\<close>

datatype 'v py = PyTuple "'v py list" | PyList "'v py list" | PyNone | PyVal 'v

fun seq_items :: "'v py \<Rightarrow> 'v py list option" where
  "seq_items (PyTuple xs) = Some xs"
| "seq_items (PyList xs) = Some xs"
| "seq_items _ = None"

definition first_or_none :: "'v py list \<Rightarrow> 'v py" where
  "first_or_none xs = (case xs of [] \<Rightarrow> PyNone | x # _ \<Rightarrow> x)"

definition signature_of :: "'v py \<Rightarrow> 'v py" where
  "signature_of message =
     (case message of
        PyTuple [a, b] \<Rightarrow> (case seq_items a of Some values \<Rightarrow> first_or_none values | None \<Rightarrow> a)
      | _ \<Rightarrow> (case seq_items message of Some xs \<Rightarrow> first_or_none xs | None \<Rightarrow> message))"

text \<open>Why \<open>RanksDiverged\<close> is raised; \<open>NoPeer\<close> is the \<open>KeyError\<close> of a group without peers.\<close>

datatype 's diverged = Missing "nat list" | Dropped nat | Disagree 's "(nat \<times> 's) list" | NoPeer

text \<open>The peers \<open>select\<close> found ready, in turn; \<open>answers i\<close> is what \<open>recv\<close> on peer \<open>i\<close> gives.\<close>

fun fan_ready ::
  "(nat \<Rightarrow> 'e + 'm) \<Rightarrow> nat list \<Rightarrow> nat list \<Rightarrow> (nat, 'm) dict \<Rightarrow> nat + nat list \<times> (nat, 'm) dict" where
  "fan_ready answers [] waiting received = Inr (waiting, received)"
| "fan_ready answers (i # ready) waiting received =
     (if i \<in> set waiting
      then (case answers i of
              Inl _ \<Rightarrow> Inl i
            | Inr m \<Rightarrow> fan_ready answers ready (remove1 i waiting) (dict_set i m received))
      else fan_ready answers ready waiting received)"

text \<open>A round: whether the deadline has passed, and the peers that are ready. \<open>None\<close>: still waiting.\<close>

fun fan_wait ::
  "(nat \<Rightarrow> 'e + 'm) \<Rightarrow> (bool \<times> nat list) list \<Rightarrow> nat list \<Rightarrow> (nat, 'm) dict \<Rightarrow>
   ('s diverged + (nat, 'm) dict) option" where
  "fan_wait answers rounds [] received = Some (Inr received)"
| "fan_wait answers [] (w # ws) received = None"
| "fan_wait answers ((expired, ready) # rounds) (w # ws) received =
     (if expired then Some (Inl (Missing (sort (w # ws))))
      else (case fan_ready answers ready (w # ws) received of
              Inl i \<Rightarrow> Some (Inl (Dropped i))
            | Inr (waiting, received) \<Rightarrow> fan_wait answers rounds waiting received))"

definition fan_agree :: "('m \<Rightarrow> 's) \<Rightarrow> (nat, 'm) dict \<Rightarrow> 's diverged + 'm" where
  "fan_agree sig received =
     (case map_of received 0 of
        None \<Rightarrow> Inl NoPeer
      | Some m \<Rightarrow>
          (case filter (\<lambda>(i, s). s \<noteq> sig m) (map (\<lambda>(i, m). (i, sig m)) received) of
             [] \<Rightarrow> Inr m
           | bad \<Rightarrow> Inl (Disagree (sig m) (sort_key fst bad))))"

definition fan_recv ::
  "('m \<Rightarrow> 's) \<Rightarrow> nat \<Rightarrow> (nat \<Rightarrow> 'e + 'm) \<Rightarrow> (bool \<times> nat list) list \<Rightarrow> ('s diverged + 'm) option" where
  "fan_recv sig n answers rounds =
     map_option (\<lambda>r. bind_sum r (fan_agree sig)) (fan_wait answers rounds [0..<n] [])"

text \<open>What was received, and what is still awaited, are the peers.\<close>

definition fan_inv :: "nat \<Rightarrow> (nat \<Rightarrow> 'e + 'm) \<Rightarrow> nat list \<Rightarrow> (nat, 'm) dict \<Rightarrow> bool" where
  "fan_inv n answers waiting received \<longleftrightarrow>
     distinct waiting \<and> dict_wf received \<and> set waiting \<union> fst ` set received = {..<n} \<and>
     set waiting \<inter> fst ` set received = {} \<and> (\<forall>x \<in> set received. answers (fst x) = Inr (snd x))"

lemma fan_inv_step:
  assumes inv: "fan_inv n answers waiting received" and i: "i \<in> set waiting" and a: "answers i = Inr m"
  shows "fan_inv n answers (remove1 i waiting) (dict_set i m received)"
proof -
  have new: "dict_set i m received = received @ [(i, m)]" using inv i by (intro dict_set_new) (auto simp: fan_inv_def)
  have "set (remove1 i waiting) = set waiting - {i}" using inv by (simp add: fan_inv_def)
  moreover have "dict_wf (dict_set i m received)" using inv by (simp add: fan_inv_def)
  ultimately show ?thesis using inv i a unfolding fan_inv_def by (auto simp: new)
qed

lemma fan_ready_inv:
  "fan_inv n answers waiting received \<Longrightarrow> fan_ready answers ready waiting received = Inr (waiting', received') \<Longrightarrow>
   fan_inv n answers waiting' received'"
  by (induction answers ready waiting received rule: fan_ready.induct)
    (auto simp: fan_inv_step split: if_splits sum.splits)

lemma fan_wait_inv:
  "fan_wait answers rounds waiting received = Some (Inr received') \<Longrightarrow> fan_inv n answers waiting received \<Longrightarrow>
   fan_inv n answers [] received'"
proof (induction answers rounds waiting received rule: fan_wait.induct)
  case (3 answers expired ready rounds w ws received)
  then show ?case using fan_ready_inv[OF 3(3)] by (auto split: if_splits sum.splits)
qed simp_all

lemma fan_start: "fan_inv n answers [0..<n] []"
  by (auto simp: fan_inv_def dict_wf_def)

text \<open>C25. A message comes out of a fan-out only when every rank answered and all their messages have the
  same signature, and then it is the first rank's; a rank that fails, is missing at the deadline or
  asks for something else makes it raise.\<close>

theorem fanout_returns_agreement:
  fixes sig :: "'m \<Rightarrow> 's"
  assumes "fan_recv sig n answers rounds = Some (Inr m)"
  shows "0 < n \<and> answers 0 = Inr m \<and> (\<forall>i < n. \<exists>m'. answers i = Inr m' \<and> sig m' = sig m)"
proof -
  from assms obtain received where w: "fan_wait answers rounds [0..<n] [] = Some (Inr received :: 's diverged + _)"
    and a: "fan_agree sig received = Inr m" by (auto simp: fan_recv_def bind_sum_Inr)
  note inv = fan_wait_inv[OF w fan_start]
  from a have m: "map_of received 0 = Some m" and ok: "\<forall>x \<in> set received. sig (snd x) = sig m"
    by (auto simp: fan_agree_def filter_empty_conv split: option.splits list.splits)
  have z: "(0, m) \<in> set received" by (rule map_of_SomeD[OF m])
  have "\<exists>m'. answers i = Inr m' \<and> sig m' = sig m" if "i < n" for i
  proof -
    have "i \<in> fst ` set received" using inv that by (auto simp: fan_inv_def)
    then obtain x where "x \<in> set received" "fst x = i" by blast
    then show ?thesis using inv ok by (auto simp: fan_inv_def)
  qed
  moreover have "0 < n" "answers 0 = Inr m" using inv z by (force simp: fan_inv_def)+
  ultimately show ?thesis by blast
qed

theorem fanout_returns_agreement_witness:
  "fan_recv fst 2 (\<lambda>i. Inr (7 :: nat, i) :: unit + nat \<times> nat) [(False, [1]), (False, [0])] = Some (Inr (7, 0)) \<and> (0 :: nat) < 2"
proof -
  have "fan_recv fst 2 (\<lambda>i. Inr (7 :: nat, i) :: unit + nat \<times> nat) [(False, [1]), (False, [0])] = Some (Inr (7, 0))" by code_simp
  from fanout_returns_agreement[OF this] this show ?thesis by simp
qed

end
