(* ===== verification/Coalesce.thy ===== *)
theory Coalesce
  imports Dispatcher
begin

text \<open>
  \<open>_coalesced_fetch\<close> of \<open>app.py\<close> (behind \<open>/status\<close> and \<open>/env\<close>) with the dispatcher's \<open>status_worker\<close> and
  \<open>env_worker\<close>, which are the same but for their keys: the callers of the API, the worker and the Redis
  keys between them, as a machine whose steps are single Redis commands. The ids of the trigger
  stream are \<open>1, 2, \<dots>\<close>; a pub/sub message goes to the callers subscribed at that moment. Redis itself
  does not fail, except under the blocking read.
\<close>

section \<open>State\<close>

datatype reply = Served string | Failed \<comment> \<open>503\<close> | TimedOut \<comment> \<open>504\<close>

text \<open>Where a caller is; from the subscription on it has an inbox.\<close>

datatype caller =
    AtFirstGet
  | AtSubscribe
  | AtSecondGet "string list"
  | AtLock "string list"
  | AtAdd "string list"
  | Listening "string list"
  | AtThirdGet "string list"
  | Replied reply

text \<open>Where the worker is: about to read, blocked on the entries after an id, waiting for the
  controller, or at the commands of the two ways out.\<close>

datatype refresher =
    AtRead
  | Blocked nat
  | AtController
  | AtSet string
  | AtDelete
  | AtPublish
  | AtDeleteErr
  | AtPublishErr
  | Sleeping

record fetching =
  cf_cache :: "string option"
  cf_lock :: bool
  cf_added :: nat \<comment> \<open>entries appended to the trigger stream so far\<close>
  cf_last :: "nat option" \<comment> \<open>the worker's \<open>last_id\<close>; \<open>None\<close> is \<open>$\<close>\<close>
  cf_worker :: refresher
  cf_callers :: "caller list"

datatype cf_event =
    Arrives
  | Steps nat
  | GivesUp nat \<comment> \<open>the caller's timeout\<close>
  | WorkerSteps
  | Answers "unit + string" \<comment> \<open>the controller, or its timeout\<close>
  | ReadFails
  | CacheExpires
  | LockExpires
  | Reconnects \<comment> \<open>\<open>Dispatcher.connect\<close> drops the keys\<close>

section \<open>Steps\<close>

fun deliver :: "string \<Rightarrow> caller \<Rightarrow> caller" where
  "deliver m (AtSecondGet ib) = AtSecondGet (ib @ [m])"
| "deliver m (AtLock ib) = AtLock (ib @ [m])"
| "deliver m (AtAdd ib) = AtAdd (ib @ [m])"
| "deliver m (Listening ib) = Listening (ib @ [m])"
| "deliver m (AtThirdGet ib) = AtThirdGet (ib @ [m])"
| "deliver m c = c"

definition put_caller :: "nat \<Rightarrow> caller \<Rightarrow> fetching \<Rightarrow> fetching" where
  "put_caller i c s = s\<lparr>cf_callers := (cf_callers s)[i := c]\<rparr>"

definition get_or :: "fetching \<Rightarrow> caller \<Rightarrow> caller" where
  "get_or s c = (case cf_cache s of Some t \<Rightarrow> Replied (Served t) | None \<Rightarrow> c)"

fun caller_step :: "nat \<Rightarrow> caller \<Rightarrow> fetching \<Rightarrow> fetching option" where
  "caller_step i AtFirstGet s = Some (put_caller i (get_or s AtSubscribe) s)"
| "caller_step i AtSubscribe s = Some (put_caller i (AtSecondGet []) s)"
| "caller_step i (AtSecondGet ib) s = Some (put_caller i (get_or s (AtLock ib)) s)"
| "caller_step i (AtLock ib) s =
     Some (if cf_lock s then put_caller i (Listening ib) s else put_caller i (AtAdd ib) (s\<lparr>cf_lock := True\<rparr>))"
| "caller_step i (AtAdd ib) s = Some (put_caller i (Listening ib) (s\<lparr>cf_added := cf_added s + 1\<rparr>))"
| "caller_step i (Listening []) s = None"
| "caller_step i (Listening (m # ib)) s =
     Some (put_caller i (if m = ''error'' then Replied Failed else AtThirdGet ib) s)"
| "caller_step i (AtThirdGet ib) s = Some (put_caller i (get_or s (Listening ib)) s)"
| "caller_step i (Replied r) s = None"

definition publish :: "string \<Rightarrow> refresher \<Rightarrow> fetching \<Rightarrow> fetching" where
  "publish m w s = s\<lparr>cf_callers := map (deliver m) (cf_callers s), cf_worker := w\<rparr>"

fun worker_step :: "refresher \<Rightarrow> fetching \<Rightarrow> fetching option" where
  "worker_step AtRead s =
     Some (s\<lparr>cf_worker := Blocked (case cf_last s of None \<Rightarrow> cf_added s | Some n \<Rightarrow> n)\<rparr>)"
| "worker_step (Blocked n) s =
     (if n < cf_added s then Some (s\<lparr>cf_last := Some (n + 1), cf_worker := AtController\<rparr>) else None)"
| "worker_step AtController s = None"
| "worker_step (AtSet t) s = Some (s\<lparr>cf_cache := Some t, cf_worker := AtDelete\<rparr>)"
| "worker_step AtDelete s = Some (s\<lparr>cf_lock := False, cf_worker := AtPublish\<rparr>)"
| "worker_step AtPublish s = Some (publish ''ok'' AtRead s)"
| "worker_step AtDeleteErr s = Some (s\<lparr>cf_lock := False, cf_worker := AtPublishErr\<rparr>)"
| "worker_step AtPublishErr s = Some (publish ''error'' Sleeping s)"
| "worker_step Sleeping s = Some (s\<lparr>cf_worker := AtRead\<rparr>)"

fun cf_fire :: "cf_event \<Rightarrow> fetching \<Rightarrow> fetching option" where
  "cf_fire Arrives s = Some (s\<lparr>cf_callers := cf_callers s @ [AtFirstGet]\<rparr>)"
| "cf_fire (Steps i) s = (if i < length (cf_callers s) then caller_step i (cf_callers s ! i) s else None)"
| "cf_fire (GivesUp i) s =
     (if i < length (cf_callers s)
      then (case cf_callers s ! i of
              Listening _ \<Rightarrow> Some (put_caller i (Replied TimedOut) s)
            | AtThirdGet _ \<Rightarrow> Some (put_caller i (Replied TimedOut) s)
            | _ \<Rightarrow> None)
      else None)"
| "cf_fire WorkerSteps s = worker_step (cf_worker s) s"
| "cf_fire (Answers a) s =
     (if cf_worker s = AtController
      then Some (s\<lparr>cf_worker := (case a of Inr t \<Rightarrow> AtSet t | Inl _ \<Rightarrow> AtDeleteErr)\<rparr>) else None)"
| "cf_fire ReadFails s =
     (case cf_worker s of Blocked _ \<Rightarrow> Some (s\<lparr>cf_worker := AtDeleteErr\<rparr>) | _ \<Rightarrow> None)"
| "cf_fire CacheExpires s = Some (s\<lparr>cf_cache := None\<rparr>)"
| "cf_fire LockExpires s = Some (s\<lparr>cf_lock := False\<rparr>)"
| "cf_fire Reconnects s = Some (s\<lparr>cf_cache := None, cf_lock := False\<rparr>)"

fun cf_run :: "cf_event list \<Rightarrow> fetching \<Rightarrow> fetching option" where
  "cf_run [] s = Some s"
| "cf_run (e # es) s = Option.bind (cf_fire e s) (cf_run es)"

lemma cf_run_append: "cf_run (es @ fs) s = Option.bind (cf_run es s) (cf_run fs)"
  by (induction es arbitrary: s) (auto split: Option.bind_splits)

text \<open>The dispatcher's own view of a refresh, \<open>refresh_status\<close>, is these commands in one step.\<close>

definition of_redis :: "redis \<Rightarrow> refresher \<Rightarrow> fetching" where
  "of_redis rd w =
     \<lparr>cf_cache = rd_status rd, cf_lock = rd_status_requested rd, cf_added = 0, cf_last = None, cf_worker = w, cf_callers = []\<rparr>"

lemma refresh_status_commands:
  "\<exists>n w. cf_run (Answers (map_sum (\<lambda>_. ()) id answer) # replicate n WorkerSteps) (of_redis (ds_redis ds) AtController) =
     Some (of_redis (ds_redis (fst (refresh_status ds answer))) w)"
proof (cases answer)
  case (Inl e)
  show ?thesis by (rule exI[of _ 2]) (simp add: Inl of_redis_def refresh_status_def publish_def numeral_2_eq_2)
next
  case (Inr t)
  show ?thesis by (rule exI[of _ 3]) (simp add: Inr of_redis_def refresh_status_def publish_def numeral_3_eq_3)
qed

section \<open>Reachable states\<close>

text \<open>The worker has made its first read; callers come and go, the controller answers or not, the lock
  may run out. The cache keeps its value, Redis answers the reads.\<close>

definition start :: "string option \<Rightarrow> fetching" where
  "start cache =
     \<lparr>cf_cache = cache, cf_lock = False, cf_added = 0, cf_last = None, cf_worker = Blocked 0, cf_callers = []\<rparr>"

fun keeps_cache :: "cf_event \<Rightarrow> bool" where
  "keeps_cache CacheExpires = False"
| "keeps_cache Reconnects = False"
| "keeps_cache ReadFails = False"
| "keeps_cache _ = True"

inductive reached :: "(cf_event \<Rightarrow> bool) \<Rightarrow> string option \<Rightarrow> fetching \<Rightarrow> bool" for ok cache where
  reached_start: "reached ok cache (start cache)"
| reached_step: "reached ok cache s \<Longrightarrow> ok e \<Longrightarrow> cf_fire e s = Some s' \<Longrightarrow> reached ok cache s'"

lemma reached_run: "reached ok cache s \<Longrightarrow> list_all ok es \<Longrightarrow> cf_run es s = Some s' \<Longrightarrow> reached ok cache s'"
  by (induction es arbitrary: s) (auto split: Option.bind_splits intro: reached_step)

text \<open>Refreshes under way: callers about to append a trigger, triggers not yet read, and the one the
  worker is serving until it releases the lock.\<close>

fun adding :: "caller \<Rightarrow> bool" where
  "adding (AtAdd _) = True"
| "adding _ = False"

fun serving :: "refresher \<Rightarrow> nat" where
  "serving AtController = 1"
| "serving (AtSet _) = 1"
| "serving AtDelete = 1"
| "serving AtDeleteErr = 1"
| "serving _ = 0"

fun read_upto :: "refresher \<Rightarrow> nat option \<Rightarrow> nat" where
  "read_upto (Blocked n) _ = n"
| "read_upto _ (Some n) = n"
| "read_upto _ None = 0"

definition under_way :: "fetching \<Rightarrow> nat" where
  "under_way s = length (filter adding (cf_callers s)) + (cf_added s - read_upto (cf_worker s) (cf_last s)) + serving (cf_worker s)"

fun oks :: "caller \<Rightarrow> bool" where
  "oks (AtSecondGet ib) = (\<exists>m \<in> set ib. m \<noteq> ''error'')"
| "oks (AtLock ib) = (\<exists>m \<in> set ib. m \<noteq> ''error'')"
| "oks (AtAdd ib) = (\<exists>m \<in> set ib. m \<noteq> ''error'')"
| "oks (Listening ib) = (\<exists>m \<in> set ib. m \<noteq> ''error'')"
| "oks (AtThirdGet ib) = True"
| "oks _ = False"

text \<open>The worker's place agrees with its \<open>last_id\<close>; without a cached value nobody was told \<open>ok\<close>.\<close>

fun placed :: "refresher \<Rightarrow> nat option \<Rightarrow> bool" where
  "placed (Blocked n) l \<longleftrightarrow> l = Some n \<or> l = None \<and> n = 0"
| "placed _ l \<longleftrightarrow> l \<noteq> None"

definition cf_inv :: "fetching \<Rightarrow> bool" where
  "cf_inv s \<longleftrightarrow>
     placed (cf_worker s) (cf_last s) \<and> read_upto (cf_worker s) (cf_last s) \<le> cf_added s \<and>
     (cf_cache s = None \<longrightarrow> cf_worker s \<noteq> AtDelete \<and> cf_worker s \<noteq> AtPublish \<and> \<not> list_ex oks (cf_callers s))"

lemma deliver_adding [simp]: "adding (deliver m c) = adding c"
  by (cases c) auto

lemma deliver_wakes: "deliver m c \<noteq> Listening []"
  by (cases c) auto

lemma deliver_oks: "oks (deliver m c) \<Longrightarrow> m = ''error'' \<Longrightarrow> oks c"
  by (cases c) auto

lemma filter_update:
  "i < length xs \<Longrightarrow>
   length (filter P (xs[i := y])) + (if P (xs ! i) then 1 else 0) = length (filter P xs) + (if P y then 1 else 0)"
proof (induction xs arbitrary: i)
  case (Cons x xs)
  then show ?case by (cases i) auto
qed simp

text \<open>How one caller's step changes what the invariant speaks of.\<close>

lemma list_ex_update: "i < length xs \<Longrightarrow> list_ex P (xs[i := y]) \<Longrightarrow> P y \<or> list_ex P xs"
  by (auto simp: list_ex_iff dest: set_update_subset_insert[THEN subsetD])

lemma put_caller_inv:
  assumes "cf_inv s" and "i < length (cf_callers s)" and "oks c \<Longrightarrow> oks (cf_callers s ! i) \<or> cf_cache s \<noteq> None"
  shows "cf_inv (put_caller i c s)"
proof -
  have "list_ex oks (cf_callers s)" if "cf_cache s = None" "list_ex oks ((cf_callers s)[i := c])"
    using list_ex_update[OF assms(2) that(2)] assms(2,3) that(1) by (auto simp: list_ex_iff)
  then show ?thesis using assms(1) by (auto simp: cf_inv_def put_caller_def)
qed

lemma cf_inv_more:
  "cf_inv s \<Longrightarrow> cf_inv (s\<lparr>cf_lock := b\<rparr>)" "cf_inv s \<Longrightarrow> cf_inv (s\<lparr>cf_added := Suc (cf_added s)\<rparr>)"
  by (auto simp: cf_inv_def)

lemma caller_step_inv:
  assumes "cf_inv s" and "i < length (cf_callers s)" and "caller_step i (cf_callers s ! i) s = Some s'"
  shows "cf_inv s'"
  using assms
  by (cases "(i, cf_callers s ! i, s)" rule: caller_step.cases)
    (auto simp: get_or_def intro!: put_caller_inv cf_inv_more split: option.splits if_splits)

lemma worker_step_inv:
  assumes "cf_inv s" and "worker_step (cf_worker s) s = Some s'"
  shows "cf_inv s'"
proof (cases "cf_worker s")
  case AtPublishErr
  have "list_ex oks (cf_callers s)" if "list_ex oks (map (deliver ''error'') (cf_callers s))"
    using that by (auto simp: list_ex_iff dest: deliver_oks)
  then show ?thesis using assms AtPublishErr by (auto simp: cf_inv_def publish_def)
next
  case (Blocked n)
  then show ?thesis using assms by (auto simp: cf_inv_def split: if_splits)
qed (use assms in \<open>auto simp: cf_inv_def publish_def split: option.splits\<close>)

lemma cf_fire_inv:
  assumes "cf_inv s" and "keeps_cache e" and "cf_fire e s = Some s'"
  shows "cf_inv s'"
proof (cases e)
  case Arrives
  then show ?thesis using assms by (auto simp: cf_inv_def)
next
  case (Steps i)
  then show ?thesis using assms caller_step_inv by (auto split: if_splits)
next
  case (GivesUp i)
  then show ?thesis using assms by (auto intro!: put_caller_inv split: if_splits caller.splits)
next
  case WorkerSteps
  then show ?thesis using assms worker_step_inv by simp
next
  case (Answers a)
  then show ?thesis using assms by (auto simp: cf_inv_def split: if_splits sum.splits)
next
  case LockExpires
  then show ?thesis using assms cf_inv_more(1) by auto
qed (use assms in auto)

lemma reached_inv: "reached ok cache s \<Longrightarrow> (\<And>e. ok e \<Longrightarrow> keeps_cache e) \<Longrightarrow> cf_inv s"
proof (induction rule: reached.induct)
  case reached_start
  then show ?case by (simp add: start_def cf_inv_def)
next
  case (reached_step s e s')
  then show ?case using cf_fire_inv by blast
qed

section \<open>A refresh for everyone who waits\<close>

lemma under_way_put:
  "i < length (cf_callers s) \<Longrightarrow>
   under_way (put_caller i c s) + (if adding (cf_callers s ! i) then 1 else 0) = under_way s + (if adding c then 1 else 0)"
  using filter_update[of i "cf_callers s" adding c] by (auto simp: under_way_def put_caller_def)

lemma under_way_more:
  "under_way (s\<lparr>cf_lock := b\<rparr>) = under_way s"
  "cf_inv s \<Longrightarrow> under_way (s\<lparr>cf_added := Suc (cf_added s)\<rparr>) = Suc (under_way s)"
  by (auto simp: under_way_def cf_inv_def)

lemma caller_step_under_way:
  assumes "cf_inv s" and "i < length (cf_callers s)" and "caller_step i (cf_callers s ! i) s = Some s'"
  shows "under_way s' = under_way s + (if cf_lock s' \<and> \<not> cf_lock s then 1 else 0) \<and> (cf_lock s \<longrightarrow> cf_lock s') \<and> cf_worker s' = cf_worker s"
proof -
  have put: "under_way (put_caller i c t) = under_way t + (if adding c then 1 else 0) - (if adding (cf_callers s ! i) then 1 else 0)"
    "cf_lock (put_caller i c t) = cf_lock t" "cf_worker (put_caller i c t) = cf_worker t"
    if "cf_callers t = cf_callers s" for c t
    using under_way_put[of i t c] assms(2) that by (auto simp: put_caller_def)
  show ?thesis using assms
    by (cases "(i, cf_callers s ! i, s)" rule: caller_step.cases)
      (auto simp: put under_way_more get_or_def split: option.splits if_splits)
qed

lemma worker_step_under_way:
  assumes "cf_inv s" and "worker_step (cf_worker s) s = Some s'"
  shows "under_way s' + (if cf_worker s \<in> {AtDelete, AtDeleteErr} then 1 else 0) = under_way s"
proof -
  have f: "filter adding (map (deliver m) cs) = map (deliver m) (filter adding cs)" for m cs by (induction cs) auto
  show ?thesis using assms
    by (cases "(cf_worker s, s)" rule: worker_step.cases)
      (auto simp: under_way_def cf_inv_def publish_def f split: if_splits option.splits)
qed

lemma answers_under_way:
  "cf_inv s \<Longrightarrow> cf_worker s = AtController \<Longrightarrow>
   under_way (s\<lparr>cf_worker := (case a of Inr t \<Rightarrow> AtSet t | Inl _ \<Rightarrow> AtDeleteErr)\<rparr>) = under_way s"
  by (cases "cf_last s"; cases a) (auto simp: under_way_def cf_inv_def)

text \<open>Whoever takes the lock starts a refresh, and whoever finds it taken waits for one.\<close>

definition awaited :: "fetching \<Rightarrow> bool" where
  "awaited s \<longleftrightarrow> 0 < under_way s \<or> cf_worker s \<in> {AtPublish, AtPublishErr}"

definition wait_inv :: "fetching \<Rightarrow> bool" where
  "wait_inv s \<longleftrightarrow> cf_inv s \<and> (cf_lock s \<longrightarrow> 0 < under_way s) \<and> (Listening [] \<in> set (cf_callers s) \<longrightarrow> awaited s)"

lemma in_set_put: "c \<in> set (cf_callers (put_caller i d s)) \<Longrightarrow> c = d \<or> c \<in> set (cf_callers s)"
  using set_update_subset_insert[of "cf_callers s" i d] by (auto simp: put_caller_def)

text \<open>A caller starts to wait when it finds the lock taken or has appended a trigger; one that was
  woken finds the cached value.\<close>

lemma caller_step_waiting:
  assumes "cf_inv s" and "i < length (cf_callers s)" and "caller_step i (cf_callers s ! i) s = Some s'"
    and "Listening [] \<in> set (cf_callers s')"
  shows "Listening [] \<in> set (cf_callers s) \<or> cf_lock s \<or> adding (cf_callers s ! i)"
proof -
  have ok: "cf_cache s \<noteq> None" if "oks (cf_callers s ! i)"
    using assms(1,2) that by (auto simp: cf_inv_def list_ex_iff)
  show ?thesis using assms ok
    by (cases "(i, cf_callers s ! i, s)" rule: caller_step.cases)
      (auto simp: get_or_def split: option.splits if_splits dest!: in_set_put)
qed

lemma adding_under_way: "i < length (cf_callers s) \<Longrightarrow> adding (cf_callers s ! i) \<Longrightarrow> 0 < under_way s"
  by (auto simp: under_way_def filter_empty_conv) 

lemma cf_fire_waits:
  assumes "wait_inv s" and "keeps_cache e" and "cf_fire e s = Some s'"
  shows "wait_inv s'"
proof -
  have inv: "cf_inv s" and inv': "cf_inv s'" using assms cf_fire_inv by (auto simp: wait_inv_def)
  show ?thesis
  proof (cases e)
    case (Steps i)
    then have i: "i < length (cf_callers s)" and st: "caller_step i (cf_callers s ! i) s = Some s'"
      using assms(3) by (auto split: if_splits)
    note uw = caller_step_under_way[OF inv i st]
    have "awaited s'" if "Listening [] \<in> set (cf_callers s')"
      using caller_step_waiting[OF inv i st that] adding_under_way[OF i] assms(1) uw
      by (auto simp: wait_inv_def awaited_def)
    then show ?thesis using uw inv' assms(1) by (auto simp: wait_inv_def split: if_splits)
  next
    case (GivesUp i)
    then show ?thesis using assms inv' under_way_put[of i s "Replied TimedOut"]
      by (auto simp: wait_inv_def awaited_def put_caller_def split: if_splits caller.splits
          dest: set_update_subset_insert[THEN subsetD])
  next
    case WorkerSteps
    then have st: "worker_step (cf_worker s) s = Some s'" using assms(3) by simp
    note uw = worker_step_under_way[OF inv st]
    have no: "Listening [] \<notin> set (map (deliver m) cs)" for m cs using deliver_wakes by fastforce
    show ?thesis using uw st inv' assms(1) no
      by (cases "(cf_worker s, s)" rule: worker_step.cases)
        (auto simp: wait_inv_def awaited_def publish_def split: if_splits)
  next
    case (Answers a)
    then show ?thesis using assms inv' by (auto simp: wait_inv_def awaited_def under_way_def split: if_splits sum.splits)
  qed (use assms inv' in \<open>auto simp: wait_inv_def awaited_def under_way_def\<close>)
qed

lemma reached_waits: "reached keeps_cache cache s \<Longrightarrow> wait_inv s"
proof (induction rule: reached.induct)
  case reached_start
  then show ?case by (simp add: start_def wait_inv_def cf_inv_def)
next
  case (reached_step s e s')
  then show ?case using cf_fire_waits by blast
qed

text \<open>The way from any place of the worker to its next message.\<close>

definition woken :: "(cf_event \<Rightarrow> bool) \<Rightarrow> nat \<Rightarrow> nat \<Rightarrow> fetching \<Rightarrow> bool" where
  "woken ok k i s \<longleftrightarrow>
     (\<exists>es s' m. cf_run es s = Some s' \<and> length es \<le> k \<and> list_all ok es \<and> cf_callers s' ! i = Listening [m])"

lemma woken_Cons:
  assumes "cf_fire e s = Some s1" and "ok e" and "woken ok k i s1"
  shows "woken ok (Suc k) i s"
proof -
  from assms(3) obtain es s' m where "cf_run es s1 = Some s'" "length es \<le> k" "list_all ok es" "cf_callers s' ! i = Listening [m]"
    by (auto simp: woken_def)
  then show ?thesis using assms(1,2) unfolding woken_def
    by (intro exI[of _ "e # es"] exI[of _ s'] exI[of _ m]) simp
qed

lemma woken_mono: "woken ok k i s \<Longrightarrow> k \<le> k' \<Longrightarrow> woken ok k' i s"
  by (fastforce simp: woken_def)

lemma worker_wakes:
  assumes "cf_inv s" and "i < length (cf_callers s)" and "cf_callers s ! i = Listening []"
    and "ok WorkerSteps" and "ok (Answers a)"
    and "cf_added s > read_upto (cf_worker s) (cf_last s) \<or> 0 < serving (cf_worker s) \<or> cf_worker s \<in> {AtPublish, AtPublishErr}"
  shows "woken ok 7 i s"
proof -
  have publish: "woken ok 1 i t" if "cf_worker t \<in> {AtPublish, AtPublishErr}" "cf_callers t = cf_callers s" for t
    using that assms(2-4) unfolding woken_def
    by (intro exI[of _ "[WorkerSteps]"]) (auto simp: publish_def)
  have delete: "woken ok 2 i t" if "cf_worker t \<in> {AtDelete, AtDeleteErr}" "cf_callers t = cf_callers s" for t
    using that publish[of "t\<lparr>cf_lock := False, cf_worker := AtPublish\<rparr>"]
      publish[of "t\<lparr>cf_lock := False, cf_worker := AtPublishErr\<rparr>"] assms(4)
    by (auto simp: numeral_2_eq_2 intro: woken_Cons[of WorkerSteps])
  have set: "woken ok 3 i t" if "cf_worker t = AtSet x" "cf_callers t = cf_callers s" for t x
    using that delete[of "t\<lparr>cf_cache := Some x, cf_worker := AtDelete\<rparr>"] assms(4)
    by (auto simp: numeral_3_eq_3 numeral_2_eq_2 intro: woken_Cons[of WorkerSteps])
  have ask: "woken ok 4 i t" if "cf_worker t = AtController" "cf_callers t = cf_callers s" for t
  proof -
    let ?t = "t\<lparr>cf_worker := (case a of Inr x \<Rightarrow> AtSet x | Inl _ \<Rightarrow> AtDeleteErr)\<rparr>"
    have "woken ok 3 i ?t"
      using set[of ?t] delete[of ?t] woken_mono[of ok 2 i ?t 3] that(2) by (cases a) auto
    then have "woken ok (Suc 3) i t" using that(1) assms(5) by (intro woken_Cons[of "Answers a"]) auto
    then show ?thesis by simp
  qed
  have read: "woken ok 5 i t" if "cf_worker t = Blocked n" "n < cf_added t" "cf_callers t = cf_callers s" for t n
  proof -
    have "woken ok (Suc 4) i t"
      using that ask[of "t\<lparr>cf_last := Some (n + 1), cf_worker := AtController\<rparr>"] assms(4)
      by (intro woken_Cons[of WorkerSteps]) auto
    then show ?thesis by simp
  qed
  have again: "woken ok 6 i t" if "cf_worker t = AtRead" "cf_last t = Some n" "n < cf_added t" "cf_callers t = cf_callers s" for t n
  proof -
    have "woken ok (Suc 5) i t"
      using that read[of "t\<lparr>cf_worker := Blocked n\<rparr>" n] assms(4) by (intro woken_Cons[of WorkerSteps]) auto
    then show ?thesis by simp
  qed
  have sleep: "woken ok 7 i t" if "cf_worker t = Sleeping" "cf_last t = Some n" "n < cf_added t" "cf_callers t = cf_callers s" for t n
  proof -
    have "woken ok (Suc 6) i t"
      using that again[of "t\<lparr>cf_worker := AtRead\<rparr>" n] assms(4) by (intro woken_Cons[of WorkerSteps]) auto
    then show ?thesis by simp
  qed
  show ?thesis
  proof (cases "cf_worker s")
    case AtRead
    then show ?thesis using assms(1,6) again[of s] by (auto simp: cf_inv_def intro: woken_mono)
  next
    case (Blocked n)
    then show ?thesis using assms(6) read[of s] by (auto intro: woken_mono)
  next
    case Sleeping
    then show ?thesis using assms(1,6) sleep[of s] by (auto simp: cf_inv_def)
  qed (use publish[of s] delete[of s] set[of s] ask[of s] in \<open>auto intro: woken_mono\<close>)
qed

section \<open>Properties\<close>



definition ex_fetching :: "cf_event list" where
  "ex_fetching = [Arrives, Arrives] @ concat (replicate 4 [Steps 0, Steps 1]) @ [LockExpires]"




text \<open>The state of a lost trigger: the worker waits for an entry after the last one, the lock is held.\<close>

definition stuck :: "fetching \<Rightarrow> bool" where
  "stuck s \<longleftrightarrow> cf_worker s = Blocked (cf_added s) \<and> cf_lock s \<and> cf_cache s = None \<and>
     set (cf_callers s) \<subseteq> {AtFirstGet, AtSubscribe, AtSecondGet [], AtLock [], Listening [], Replied TimedOut}"

fun frees :: "cf_event \<Rightarrow> bool" where
  "frees LockExpires = True"
| "frees Reconnects = True"
| "frees ReadFails = True"
| "frees _ = False"

lemma stuck_put: "stuck s \<Longrightarrow> c \<in> {AtFirstGet, AtSubscribe, AtSecondGet [], AtLock [], Listening [], Replied TimedOut} \<Longrightarrow>
  stuck (put_caller i c s)"
  using set_update_subset_insert[of "cf_callers s" i c] by (auto simp: stuck_def put_caller_def)

lemma stuck_free: "stuck s \<Longrightarrow> cf_cache s \<noteq> Some t" "stuck s \<Longrightarrow> cf_lock s"
  by (simp_all add: stuck_def)

lemma cf_fire_stuck:
  assumes "stuck s" and "\<not> frees e" and "cf_fire e s = Some s'"
  shows "stuck s'"
proof (cases e)
  case (Steps i)
  then have i: "i < length (cf_callers s)" and st: "caller_step i (cf_callers s ! i) s = Some s'"
    using assms(3) by (auto split: if_splits)
  from i assms(1) have "cf_callers s ! i \<in> {AtFirstGet, AtSubscribe, AtSecondGet [], AtLock [], Listening [], Replied TimedOut}"
    unfolding stuck_def using nth_mem by blast
  then show ?thesis using st assms(1) by (auto simp: get_or_def intro!: stuck_put split: option.splits if_splits dest: stuck_free)
next
  case (GivesUp i)
  then show ?thesis using assms by (auto intro!: stuck_put split: if_splits caller.splits)
qed (use assms in \<open>auto simp: stuck_def split: if_splits\<close>)

lemma cf_run_stuck: "stuck s \<Longrightarrow> list_all (Not \<circ> frees) es \<Longrightarrow> cf_run es s = Some s' \<Longrightarrow> stuck s'"
  by (induction es arbitrary: s) (auto split: Option.bind_splits intro: cf_fire_stuck)

text \<open>A trigger appended before the worker's first read is never read, because that read starts after
  the newest entry: from then on until the lock runs out, the dispatcher reconnects or the read fails,
  no caller is served, neither the one who wrote the trigger nor any that come later.\<close>

theorem trigger_before_first_read_is_lost:
  assumes "cf_worker s = AtRead" and "cf_last s = None" and "cf_cache s = None" and "\<not> cf_lock s" and "cf_callers s = []"
    and "list_all (Not \<circ> frees) es"
    and "cf_run ([Arrives, Steps 0, Steps 0, Steps 0, Steps 0, Steps 0, WorkerSteps] @ es) s = Some s'"
  shows "\<forall>c \<in> set (cf_callers s'). \<forall>r. c = Replied r \<longrightarrow> r = TimedOut"
proof -
  obtain s1 where s1: "cf_run [Arrives, Steps 0, Steps 0, Steps 0, Steps 0, Steps 0, WorkerSteps] s = Some s1"
    and es: "cf_run es s1 = Some s'"
    using assms(7) unfolding cf_run_append by (auto simp: Option.bind_eq_Some_conv simp del: cf_run.simps)
  have "stuck s1" using s1 assms(1-5) by (auto simp: stuck_def get_or_def put_caller_def)
  with cf_run_stuck[OF _ assms(6) es] show ?thesis by (auto simp: stuck_def)
qed

definition ex_late :: "cf_event list" where
  "ex_late = [Arrives, Steps 1, Steps 1, Steps 1, Steps 1, GivesUp 0, GivesUp 1]"

theorem trigger_before_first_read_is_lost_witness:
  "\<exists>s'. cf_run ([Arrives, Steps 0, Steps 0, Steps 0, Steps 0, Steps 0, WorkerSteps] @ ex_late) ((start None)\<lparr>cf_worker := AtRead\<rparr>) = Some s' \<and>
     length (cf_callers s') = 2 \<and> (\<forall>r. Replied r \<in> set (cf_callers s') \<longrightarrow> r = TimedOut)"
proof -
  let ?s = "(start None)\<lparr>cf_worker := AtRead\<rparr>"
  let ?es = "[Arrives, Steps 0, Steps 0, Steps 0, Steps 0, Steps 0, WorkerSteps] @ ex_late"
  have "map_option (length \<circ> cf_callers) (cf_run ?es ?s) = Some 2" by code_simp
  then obtain s' where s': "cf_run ?es ?s = Some s'" "length (cf_callers s') = 2" by auto
  from trigger_before_first_read_is_lost[OF _ _ _ _ _ _ s'(1)] have "\<forall>c \<in> set (cf_callers s'). \<forall>r. c = Replied r \<longrightarrow> r = TimedOut"
    by (simp add: start_def ex_late_def)
  with s' show ?thesis by auto
qed

end
