(* ===== verification/Operations.thy ===== *)
theory Operations
  imports Status
begin

text \<open>
  \<open>cli/lib\<close>: what the operators' commands and the dashboard do with the controller (\<open>deploy.py\<close> with its
  sync mode, \<open>evict.py\<close>, \<open>restart.py\<close>, \<open>scale.py\<close>). The controller they call is a \<open>service\<close>; \<open>ndif_service\<close>
  is the one of \<open>Controller\<close> and \<open>Status\<close>. Progress lines are left out; minting a model key is
  nnsight's and a parameter.
\<close>

section \<open>The service\<close>

text \<open>\<open>sv_hot\<close> are the model key and replica id of the HOT rows of \<open>status\<close>; \<open>sv_ready\<close> is
  \<open>wait_for_replica_ready\<close> once it returns or raises.\<close>

record 'c service =
  sv_connect :: "exn + unit"
  sv_deploy :: "'c \<Rightarrow> (model_key, deployment_config) dict \<Rightarrow> ('c, deploy_response) run"
  sv_evict :: "'c \<Rightarrow> model_key \<Rightarrow> replica_id option \<Rightarrow> ('c, replica_state list) run"
  sv_hot :: "'c \<Rightarrow> (model_key option \<times> replica_id option) list"
  sv_ready :: "'c \<Rightarrow> model_key \<Rightarrow> replica_id \<Rightarrow> string + unit"

definition current_hot :: "(string, app_status) dict \<Rightarrow> (model_key option \<times> replica_id option) list" where
  "current_hot rows =
     map (\<lambda>(_, r). (as_model_key r, as_replica_id r)) (filter (\<lambda>(_, r). as_deployment_level r = Some ''HOT'') rows)"

text \<open>Calls return through Ray: the operations on actors they cause are not shown to the client.\<close>

definition drop_ops :: "('c, 'a \<times> 'b) run \<Rightarrow> ('c, 'a) run" where
  "drop_ops r = (fst r, map_sum id fst (snd r))"

definition ndif_service ::
  "runtime \<Rightarrow> (string, string) dict \<Rightarrow> ray_answers \<Rightarrow> hub \<Rightarrow> config_reader \<Rightarrow> (string \<times> string) list \<Rightarrow> string list \<Rightarrow>
   (controller \<Rightarrow> model_key \<Rightarrow> replica_id \<Rightarrow> string + unit) \<Rightarrow> controller service" where
  "ndif_service rt env ra h cr actors downloaded ready =
     \<lparr>sv_connect = Inr (),
      sv_deploy = (\<lambda>ct cfgs. drop_ops (ct_deploy rt env ra h ct (Configs cfgs))),
      sv_evict = (\<lambda>ct mk r. drop_ops (ct_evict rt env ra ct mk r)),
      sv_hot = (\<lambda>ct. current_hot (fst (status cr actors downloaded ct))),
      sv_ready = ready\<rparr>"

section \<open>Specs\<close>

text \<open>A spec as the caller wrote it, a missing key being \<open>None\<close>, and normalized.\<close>

record raw_spec =
  rw_checkpoint :: "string option"
  rw_revision :: "string option"
  rw_pinned :: "bool option"
  rw_replicas :: "int option"
  rw_actor_class :: "actor_class option"
  rw_envoy_class :: "string option"
  rw_task :: "string option"
  rw_trust_remote_code :: "bool option"
  rw_padding_factor :: "rat option"
  rw_size_bytes :: "int option"
  rw_padding_bias :: "int option"
  rw_gpus :: "int option"
  rw_max_tp :: "int option"
  rw_execution_timeout_seconds :: "rat option"
  rw_model_key :: "model_key option"
  rw_dtype :: "string option"

record model_spec =
  sp_checkpoint :: string
  sp_revision :: "string option"
  sp_pinned :: bool
  sp_replicas :: int
  sp_actor_class :: "actor_class option"
  sp_envoy_class :: "string option"
  sp_task :: "string option"
  sp_trust_remote_code :: bool
  sp_padding_factor :: "rat option"
  sp_size_bytes :: "int option"
  sp_padding_bias :: "int option"
  sp_gpus :: "int option"
  sp_max_tp :: "int option"
  sp_execution_timeout_seconds :: "rat option"
  sp_model_key :: "model_key option"
  sp_dtype :: "string option"

text \<open>\<open>int(x or 1)\<close>\<close>

definition or_one :: "int option \<Rightarrow> int" where
  "or_one x = (case x of None \<Rightarrow> 1 | Some n \<Rightarrow> if n = 0 then 1 else n)"

definition normalize_spec :: "raw_spec \<Rightarrow> exn + model_spec" where
  "normalize_spec r =
     (case rw_checkpoint r of
        None \<Rightarrow> Inl ValueError
      | Some cp \<Rightarrow>
          Inr \<lparr>sp_checkpoint = cp, sp_revision = rw_revision r, sp_pinned = (rw_pinned r = Some True),
            sp_replicas = or_one (rw_replicas r), sp_actor_class = rw_actor_class r, sp_envoy_class = rw_envoy_class r,
            sp_task = rw_task r, sp_trust_remote_code = (rw_trust_remote_code r = Some True),
            sp_padding_factor = rw_padding_factor r, sp_size_bytes = rw_size_bytes r,
            sp_padding_bias = rw_padding_bias r, sp_gpus = rw_gpus r, sp_max_tp = rw_max_tp r,
            sp_execution_timeout_seconds = rw_execution_timeout_seconds r, sp_model_key = rw_model_key r,
            sp_dtype = rw_dtype r\<rparr>)"

fun normalize_specs :: "raw_spec list \<Rightarrow> exn + model_spec list" where
  "normalize_specs [] = Inr []"
| "normalize_specs (r # rs) =
     bind_sum (normalize_spec r) (\<lambda>s. bind_sum (normalize_specs rs) (\<lambda>ss. Inr (s # ss)))"

text \<open>\<open>get_model_key\<close>: checkpoint, revision, wrapper class, task, remote code.\<close>

type_synonym mint = "string \<Rightarrow> string option \<Rightarrow> string option \<Rightarrow> string option \<Rightarrow> bool \<Rightarrow> exn + model_key"

definition spec_key :: "mint \<Rightarrow> model_spec \<Rightarrow> exn + model_key" where
  "spec_key get_model_key sp =
     (case sp_model_key sp of
        None \<Rightarrow> get_model_key (sp_checkpoint sp) (sp_revision sp) (sp_envoy_class sp) (sp_task sp) (sp_trust_remote_code sp)
      | Some mk \<Rightarrow>
          if mk = [] then get_model_key (sp_checkpoint sp) (sp_revision sp) (sp_envoy_class sp) (sp_task sp) (sp_trust_remote_code sp)
          else Inr mk)"

fun model_keys_map :: "mint \<Rightarrow> model_spec list \<Rightarrow> (model_key, model_spec) dict \<Rightarrow> exn + (model_key, model_spec) dict" where
  "model_keys_map get_model_key [] m = Inr m"
| "model_keys_map get_model_key (sp # sps) m =
     bind_sum (spec_key get_model_key sp) (\<lambda>mk. model_keys_map get_model_key sps (dict_set mk sp m))"

section \<open>Sync\<close>

text \<open>\<open>current_by_mk\<close>: the HOT replicas by model, in the order of the rows.\<close>

definition by_model :: "(model_key option \<times> replica_id option) list \<Rightarrow> (model_key, replica_id list) dict" where
  "by_model rows =
     fold (\<lambda>(mk, rid) d.
             case (mk, rid) of
               (Some m, Some r) \<Rightarrow> if m \<noteq> [] \<and> r \<noteq> [] then dict_set m (dict_get d m [] @ [r]) d else d
             | _ \<Rightarrow> d)
       rows []"

text \<open>Evicting a list of targets one after another; what was reported, with the model asked for.\<close>

fun evict_each :: "'c service \<Rightarrow> 'c \<Rightarrow> (model_key \<times> replica_id option) list \<Rightarrow> ('c, replica_key list) run" where
  "evict_each sv c [] = (c, Inr [])"
| "evict_each sv c ((mk, r) # ts) =
     bind_run (sv_evict sv c mk r) (\<lambda>c1 states.
     bind_run (evict_each sv c1 ts) (\<lambda>c2 more.
       (c2, Inr (map (\<lambda>s. (mk, rs_replica_id s)) states @ more))))"

definition extras :: "(model_key, replica_id list) dict \<Rightarrow> (model_key, model_spec) dict \<Rightarrow> model_key list" where
  "extras current desired = filter (\<lambda>mk. mk \<notin> fst ` set desired) (map fst current)"

text \<open>The slice \<open>xs[k:]\<close>: a negative \<open>k\<close> counts from the end.\<close>

definition py_drop :: "int \<Rightarrow> 'a list \<Rightarrow> 'a list" where
  "py_drop k xs = (if 0 \<le> k then drop (nat k) xs else drop (length xs - nat (- k)) xs)"

text \<open>The loop over the desired models: what to trim, and what is still missing.\<close>

fun trim :: "'c service \<Rightarrow> (model_key, replica_id list) dict \<Rightarrow> 'c \<Rightarrow> (model_key \<times> model_spec) list \<Rightarrow>
  ('c, replica_key list \<times> (model_key, model_spec) dict) run" where
  "trim sv current c [] = (c, Inr ([], []))"
| "trim sv current c ((mk, sp) # rest) =
     (let wanted = or_one (Some (sp_replicas sp)); have = dict_get current mk [] in
      if wanted \<le> int (length have)
      then bind_run (evict_each sv c (map (\<lambda>r. (mk, Some r)) (py_drop wanted have))) (\<lambda>c1 evs.
           bind_run (trim sv current c1 rest) (\<lambda>c2 (more, remaining). (c2, Inr (evs @ more, remaining))))
      else bind_run (trim sv current c rest) (\<lambda>c2 (more, remaining).
             (c2, Inr (more, (mk, sp\<lparr>sp_replicas := wanted - int (length have)\<rparr>) # remaining))))"

definition sync_reconcile ::
  "'c service \<Rightarrow> 'c \<Rightarrow> (model_key, model_spec) dict \<Rightarrow> ('c, replica_key list \<times> (model_key, model_spec) dict) run" where
  "sync_reconcile sv c desired =
     (let current = by_model (sv_hot sv c) in
      bind_run (evict_each sv c (map (\<lambda>mk. (mk, None)) (extras current desired))) (\<lambda>c1 evs.
      bind_run (trim sv current c1 desired) (\<lambda>c2 (more, remaining). (c2, Inr (evs @ more, remaining)))))"

section \<open>Deploy\<close>

datatype entry_error = Refused deploy_error | NonePlaced | NotReady "(replica_id \<times> string) list"

datatype entry_status = PENDING | E_ERROR | PARTIAL | E_READY

record deploy_entry =
  en_checkpoint :: string
  en_model_key :: model_key
  en_replicas :: "replica_id list"
  en_status :: entry_status
  en_error :: "entry_error option"

definition batch_config :: "bool \<Rightarrow> model_spec \<Rightarrow> deployment_config" where
  "batch_config pinned sp =
     \<lparr>cfg_pinned = pinned, cfg_replicas = or_one (Some (sp_replicas sp)), cfg_size_bytes = sp_size_bytes sp,
      cfg_padding_factor = sp_padding_factor sp, cfg_padding_bias = sp_padding_bias sp, cfg_gpus = sp_gpus sp,
      cfg_max_tp = sp_max_tp sp, cfg_execution_timeout_seconds = sp_execution_timeout_seconds sp,
      cfg_dtype = sp_dtype sp, cfg_actor_class = sp_actor_class sp\<rparr>"

definition placed_entry :: "deploy_response \<Rightarrow> model_key \<times> model_spec \<Rightarrow> deploy_entry" where
  "placed_entry resp x =
     (let result = map_of (resp_results resp) (fst x);
          replicas = (case result of None \<Rightarrow> [] | Some r \<Rightarrow> res_replicas r);
          error = (case result of None \<Rightarrow> None | Some r \<Rightarrow> map_option Refused (res_error r)) in
      \<lparr>en_checkpoint = sp_checkpoint (snd x), en_model_key = fst x, en_replicas = replicas,
       en_status = (if error \<noteq> None \<or> replicas = [] then E_ERROR else PENDING),
       en_error = (if error \<noteq> None then error else if replicas = [] then Some NonePlaced else None)\<rparr>)"

text \<open>Waiting for the replicas of an entry.\<close>

definition await_entry :: "(model_key \<Rightarrow> replica_id \<Rightarrow> string + unit) \<Rightarrow> deploy_entry \<Rightarrow> deploy_entry" where
  "await_entry ready e =
     (if en_error e \<noteq> None \<or> en_replicas e = [] then e
      else
        let failed = List.map_filter (\<lambda>r. case ready (en_model_key e) r of Inl t \<Rightarrow> Some (r, t) | Inr _ \<Rightarrow> None) (en_replicas e) in
        if failed = [] then e\<lparr>en_status := E_READY\<rparr>
        else e\<lparr>en_status := (if length failed = length (en_replicas e) then E_ERROR else PARTIAL),
               en_error := Some (NotReady failed)\<rparr>)"

definition deploy_batch ::
  "'c service \<Rightarrow> bool \<Rightarrow> 'c \<Rightarrow> (model_key, model_spec) dict \<Rightarrow> ('c, deploy_entry list \<times> replica_key set) run" where
  "deploy_batch sv pinned c specs =
     (let batch = filter (\<lambda>(_, sp). sp_pinned sp = pinned) specs in
      if batch = [] then (c, Inr ([], {}))
      else
        bind_run (sv_deploy sv c (map (\<lambda>(mk, sp). (mk, batch_config pinned sp)) batch)) (\<lambda>c1 resp.
          (c1, Inr (map (await_entry (sv_ready sv c1) \<circ> placed_entry resp) batch, resp_evictions resp))))"

record deploy_result =
  dr_deployments :: "deploy_entry list"
  dr_evictions :: "replica_key set"

definition deploy_specs :: "'c service \<Rightarrow> bool \<Rightarrow> 'c \<Rightarrow> (model_key, model_spec) dict \<Rightarrow> ('c, deploy_result) run" where
  "deploy_specs sv sync c specs =
     bind_run (if sync then sync_reconcile sv c specs else (c, Inr ([], specs))) (\<lambda>c1 (evicted, todo).
     bind_run (deploy_batch sv False c1 todo) (\<lambda>c2 (e1, v1).
     bind_run (deploy_batch sv True c2 todo) (\<lambda>c3 (e2, v2).
       (c3, Inr \<lparr>dr_deployments = e1 @ e2, dr_evictions = set evicted \<union> v1 \<union> v2\<rparr>))))"

definition deploy ::
  "'c service \<Rightarrow> mint \<Rightarrow> bool \<Rightarrow> 'c \<Rightarrow> raw_spec list \<Rightarrow> ('c, deploy_result) run" where
  "deploy sv get_model_key sync c raw =
     (case bind_sum (normalize_specs raw) (\<lambda>specs. bind_sum (model_keys_map get_model_key specs []) (\<lambda>m.
             bind_sum (sv_connect sv) (\<lambda>_. Inr m))) of
        Inl e \<Rightarrow> (c, Inl e)
      | Inr m \<Rightarrow> deploy_specs sv sync c m)"

text \<open>The models whose processors are told to look again.\<close>

definition touched :: "deploy_result \<Rightarrow> model_key set" where
  "touched r = (en_model_key ` set (dr_deployments r) \<union> fst ` dr_evictions r) - {[]}"

section \<open>Evict, restart, scale\<close>

text \<open>What to evict: checkpoints with their revisions, model keys, or everything that is HOT.\<close>

record evict_args =
  ea_checkpoints :: "(string \<times> string option) list"
  ea_task :: "string option"
  ea_trust_remote_code :: bool
  ea_model_keys :: "model_key list"
  ea_all :: bool
  ea_replica :: "replica_id option"

fun minted :: "mint \<Rightarrow> evict_args \<Rightarrow> (string \<times> string option) list \<Rightarrow> exn + model_key list" where
  "minted get_model_key a [] = Inr []"
| "minted get_model_key a ((cp, rv) # cps) =
     bind_sum (get_model_key cp rv None (ea_task a) (ea_trust_remote_code a)) (\<lambda>mk.
     bind_sum (minted get_model_key a cps) (\<lambda>mks. Inr (mk # mks)))"

definition args_ok :: "evict_args \<Rightarrow> bool" where
  "args_ok a \<longleftrightarrow>
     length (filter id [ea_checkpoints a \<noteq> [], ea_model_keys a \<noteq> [], ea_all a]) = 1 \<and>
     (ea_replica a \<noteq> None \<longrightarrow> \<not> ea_all a \<and> length (ea_checkpoints a) \<le> 1 \<and> length (ea_model_keys a) \<le> 1)"

definition evict_targets :: "'c service \<Rightarrow> mint \<Rightarrow> 'c \<Rightarrow> evict_args \<Rightarrow> exn + model_key list" where
  "evict_targets sv get_model_key c a =
     (if ea_all a then Inr (sort (remdups (List.map_filter fst (sv_hot sv c))))
      else if ea_checkpoints a \<noteq> [] then minted get_model_key a (ea_checkpoints a)
      else Inr (ea_model_keys a))"

text \<open>A result per target: the replicas with the GPUs and the memory they held; none is \<open>not_found\<close>.\<close>

record evicted_replica =
  er_replica_id :: replica_id
  er_freed_gpus :: nat
  er_freed_gpu_memory_bytes :: int
  er_size_bytes :: int

definition evicted_record :: "replica_state \<Rightarrow> evicted_replica" where
  "evicted_record s =
     \<lparr>er_replica_id = rs_replica_id s, er_freed_gpus = length (rs_gpus s),
      er_freed_gpu_memory_bytes = sum_list (map snd (rs_gpus s)), er_size_bytes = rs_size_bytes s\<rparr>"

fun evict_keys ::
  "'c service \<Rightarrow> replica_id option \<Rightarrow> 'c \<Rightarrow> model_key list \<Rightarrow> ('c, (model_key \<times> evicted_replica list) list) run" where
  "evict_keys sv replica c [] = (c, Inr [])"
| "evict_keys sv replica c (mk # mks) =
     bind_run (sv_evict sv c mk replica) (\<lambda>c1 states.
     bind_run (evict_keys sv replica c1 mks) (\<lambda>c2 more. (c2, Inr ((mk, map evicted_record states) # more))))"

definition evict :: "'c service \<Rightarrow> mint \<Rightarrow> 'c \<Rightarrow> evict_args \<Rightarrow> ('c, (model_key \<times> evicted_replica list) list) run" where
  "evict sv get_model_key c a =
     (if \<not> args_ok a then (c, Inl ValueError)
      else
        case bind_sum (sv_connect sv) (\<lambda>_. evict_targets sv get_model_key c a) of
          Inl e \<Rightarrow> (c, Inl e)
        | Inr targets \<Rightarrow> evict_keys sv (ea_replica a) c targets)"

text \<open>\<open>scale\<close>: the call, given the key, and the replicas and error it reports.\<close>

definition scale_args_ok :: "string option \<Rightarrow> model_key option \<Rightarrow> int \<Rightarrow> bool" where
  "scale_args_ok checkpoint mk n \<longleftrightarrow> (checkpoint = None) \<noteq> (mk = None) \<and> 1 \<le> n"

definition cli_scale ::
  "exn + unit \<Rightarrow> ('c \<Rightarrow> model_key \<Rightarrow> int \<Rightarrow> deployment_config option \<Rightarrow> ('c, deploy_response) run) \<Rightarrow> mint \<Rightarrow> 'c \<Rightarrow>
   string option \<Rightarrow> string option \<Rightarrow> string option \<Rightarrow> bool \<Rightarrow> model_key option \<Rightarrow> int \<Rightarrow> deployment_config \<Rightarrow>
   ('c, model_key \<times> replica_id list \<times> deploy_error option) run" where
  "cli_scale connect scale_call get_model_key c checkpoint revision tsk trust mk n requested =
     (if \<not> scale_args_ok checkpoint mk n then (c, Inl ValueError)
      else
        case bind_sum connect (\<lambda>_. case mk of Some m \<Rightarrow> Inr m | None \<Rightarrow> get_model_key (the checkpoint) revision None tsk trust) of
          Inl e \<Rightarrow> (c, Inl e)
        | Inr m \<Rightarrow>
            bind_run (scale_call c m n (Some requested)) (\<lambda>c1 resp.
              (c1, Inr (case map_of (resp_results resp) m of
                          None \<Rightarrow> (m, [], None) | Some r \<Rightarrow> (m, res_replicas r, res_error r)))))"

text \<open>\<open>restart\<close>: which replicas of the deployment are killed, and what each came to. \<open>find\<close>, \<open>kill\<close> and
  \<open>ready\<close> are what Ray answers.\<close>

definition restart_one ::
  "(replica_id \<Rightarrow> string + unit) \<Rightarrow> (replica_id \<Rightarrow> string + unit) \<Rightarrow> (replica_id \<Rightarrow> string + unit) \<Rightarrow> replica_id \<Rightarrow>
   replica_id \<times> (string + unit)" where
  "restart_one find_actor kill_actor ready rid =
     (rid, bind_sum (find_actor rid) (\<lambda>_. bind_sum (kill_actor rid) (\<lambda>_. ready rid)))"

definition restart_targets :: "replica_state list \<Rightarrow> replica_id option \<Rightarrow> replica_id list" where
  "restart_targets states replica =
     (let ids = map rs_replica_id states in
      case replica of None \<Rightarrow> ids | Some r \<Rightarrow> if r \<in> set ids then [r] else [])"

definition restart_key ::
  "mint \<Rightarrow> string option \<Rightarrow> string option \<Rightarrow> string option \<Rightarrow> bool \<Rightarrow> model_key option \<Rightarrow> exn + model_key" where
  "restart_key get_model_key checkpoint revision tsk trust mk =
     (case mk of
        Some m \<Rightarrow> Inr m
      | None \<Rightarrow>
          (case checkpoint of
             None \<Rightarrow> Inl ValueError
           | Some cp \<Rightarrow> if cp = [] then Inl ValueError else get_model_key cp revision None tsk trust))"

definition restart ::
  "exn + unit \<Rightarrow> mint \<Rightarrow> controller \<Rightarrow> (replica_id \<Rightarrow> string + unit) \<Rightarrow> (replica_id \<Rightarrow> string + unit) \<Rightarrow> (replica_id \<Rightarrow> string + unit) \<Rightarrow>
   string option \<Rightarrow> string option \<Rightarrow> string option \<Rightarrow> bool \<Rightarrow> model_key option \<Rightarrow> replica_id option \<Rightarrow>
   exn + model_key \<times> (replica_id \<times> (string + unit)) list" where
  "restart connect get_model_key ct find_actor kill_actor ready checkpoint revision tsk trust mk replica =
     bind_sum (restart_key get_model_key checkpoint revision tsk trust mk) (\<lambda>m.
     bind_sum connect (\<lambda>_.
       Inr (m, map (restart_one find_actor kill_actor ready) (restart_targets (get_deployment ct m None) replica))))"

end
