(* ===== verification/Operations_Props.thy ===== *)
theory Operations_Props
  imports Operations
begin

text \<open>
  What the operators' commands do to a controller. The sync mode is proved against the contract
  \<open>eviction_service\<close> (what evicting a model or a replica leaves HOT), which the controller of
  \<open>Controller\<close> meets when Ray carries its calls out; that the rows of \<open>status\<close> are the HOT replicas is
  proved of the status model.
\<close>

declare split_paired_All [simp del] split_paired_Ex [simp del]

section \<open>The rows of the status\<close>

definition hot_ids :: "controller \<Rightarrow> model_key \<Rightarrow> replica_id set" where
  "hot_ids ct mk = {rid. \<exists>d. hot (ct_cluster ct) (mk, rid) d}"

lemma fold_put_row_from:
  "map_of (fold put_row us st) nm = Some row \<Longrightarrow>
   map_of st nm = Some row \<or> (\<exists>f x. (nm, f) \<in> set us \<and> row = f x)"
proof (induction us arbitrary: st)
  case (Cons u us)
  from Cons.IH[of "put_row u st"] Cons.prems show ?case
    by (cases u) (auto simp: map_of_put_row split: if_splits)
qed simp

lemma dict_wf_put_rows: "dict_wf st \<Longrightarrow> dict_wf (fold put_row us st)"
  by (induction us arbitrary: st) (simp_all add: put_row_def)

lemma dict_wf_actor_rows: "dict_wf (actor_rows actors)"
proof -
  have "dict_wf st \<Longrightarrow> dict_wf (fold (\<lambda>(name, state) st.
      if \<not> is_model_actor name then st
      else dict_set name (no_status\<lparr>as_application_state :=
        Some (if state = ''ALIVE'' then ''RUNNING'' else ''DEPLOYING'')\<rparr>) st) xs st)" for xs st
    by (induction xs arbitrary: st) auto
  then show ?thesis by (simp add: actor_rows_def)
qed

text \<open>What the view relies on: names of actors are those Ray lists once, replica ids are non-empty and
  without colons, the evaluator knows the models that are up.\<close>

definition viewable :: "(string \<times> string) list \<Rightarrow> string list \<Rightarrow> controller \<Rightarrow> bool" where
  "viewable actors downloaded ct \<longleftrightarrow>
     distinct (map fst actors) \<and>
     (\<forall>i k d. live_at (ct_cluster ct) i k d \<longrightarrow>
        CHR '':'' \<notin> set (snd k) \<and> snd k \<noteq> [] \<and> fst k \<noteq> [] \<and> dep_name d \<notin> set downloaded) \<and>
     (\<forall>k d. hot (ct_cluster ct) k d \<longrightarrow> map_of (ev_cache (cl_evaluator (ct_cluster ct))) (fst k) \<noteq> None)"

lemma hot_live: "hot cl k d \<Longrightarrow> \<exists>i. live_at cl i k d"
  by (auto simp: hot_def live_at_def entry_def)

lemma hot_level:
  assumes "cluster_inv cl" and "hot cl k d"
  shows "dep_level d = HOT" and "dep_key d = k"
proof -
  from assms(2) obtain i n where n: "map_of (cl_nodes cl) i = Some n" "nget (nd_deployments n) k = Some d"
    by (auto simp: hot_def)
  then show "dep_level d = HOT" "dep_key d = k"
    using cluster_invD(2)[OF assms(1) n(1)] by (auto simp: node_inv_def hot_ok_def dest: hot_invD(3))
qed

lemma hot_same: "cluster_inv cl \<Longrightarrow> hot cl k d \<Longrightarrow> hot cl k e \<Longrightarrow> d = e"
  by (metis hot_def hot_unique holds_def entry_def option.inject)

lemma status_rows_hot:
  assumes inv: "cluster_inv (ct_cluster ct)" and view: "viewable actors downloaded ct"
    and row: "map_of (fst (status cr actors downloaded ct)) nm = Some row" and level: "as_deployment_level row = Some ''HOT''"
  shows "\<exists>k d. hot (ct_cluster ct) k d \<and> nm = dep_name d \<and> as_model_key row = Some (fst k) \<and> as_replica_id row = Some (snd k)"
proof -
  let ?cl = "ct_cluster ct" and ?nodes = "map snd (cl_nodes (ct_cluster ct))"
  let ?us = "concat (map (node_rows cr ?cl) ?nodes) @ cold_rows (concat (map (node_repos cr ?cl) ?nodes)) downloaded"
  have "as_deployment_level r \<noteq> Some ''HOT''" if "map_of (actor_rows actors) nm = Some r" for r
    using that view actor_rows_lookup[of actors nm]
    by (cases "map_of actors nm") (auto simp: viewable_def no_status_def split: if_splits)
  with fold_put_row_from[of ?us "actor_rows actors" nm row] row level
  obtain f x where f: "(nm, f) \<in> set ?us" "row = f x" by (auto simp: status_def Let_def)
  have "(nm, f) \<notin> set (cold_rows (concat (map (node_repos cr ?cl) ?nodes)) downloaded)"
    using f(2) level by (auto simp: cold_rows_def no_status_def level_name_def)
  with f(1) obtain i n where n: "(i, n) \<in> set (cl_nodes ?cl)" "(nm, f) \<in> set (node_rows cr ?cl n)" by auto
  then have n': "map_of (cl_nodes ?cl) i = Some n" using inv by (simp add: cluster_inv_def dict_wf_in)
  have wf: "nwf (nd_deployments n)"
    using cluster_invD(2)[OF inv n'] by (auto simp: node_inv_def dest: hot_invD(1))
  have "\<exists>k d e. (k, d) \<in> set (iter_deployments n) \<and> nm = dep_name d \<and> f = hot_row cr (cl_min_time ?cl) e d"
    using n(2) f(2) level unfolding node_rows_def
    by (force simp: map_filter_Some warm_row_def no_status_def level_name_def)
  then obtain k d e where d: "(k, d) \<in> set (iter_deployments n)" "nm = dep_name d" "f = hot_row cr (cl_min_time ?cl) e d" by blast
  then have h: "hot ?cl k d" using n' wf by (auto simp: hot_def iter_deployments_def nitems_nget)
  moreover have "as_model_key row = Some (fst k)" "as_replica_id row = Some (snd k)"
    using hot_level(2)[OF inv h] d(3) f(2) by (auto simp: hot_row_def Let_def dep_key_def)
  ultimately show ?thesis using d(2) by blast
qed

lemma current_hot_rows:
  assumes inv: "cluster_inv (ct_cluster ct)" and view: "viewable actors downloaded ct"
  shows "set (current_hot (fst (status cr actors downloaded ct))) =
      (\<lambda>k. (Some (fst k), Some (snd k))) ` {k. \<exists>d. hot (ct_cluster ct) k d}"
    and "distinct (current_hot (fst (status cr actors downloaded ct)))"
proof -
  let ?cl = "ct_cluster ct" and ?rows = "fst (status cr actors downloaded ct)"
  have wf: "dict_wf ?rows" by (simp add: status_def Let_def dict_wf_put_rows dict_wf_actor_rows)
  have in_rows: "(nm, row) \<in> set ?rows \<longleftrightarrow> map_of ?rows nm = Some row" for nm row using wf by (simp add: dict_wf_in)
  have col: "live_at ?cl i k d \<Longrightarrow> CHR '':'' \<notin> set (dep_replica_id d)" for i k d
    using view live_at_key(2)[OF inv, of i k d] unfolding viewable_def dep_key_def by fastforce
  have there: "\<exists>nm row. map_of ?rows nm = Some row \<and> as_deployment_level row = Some ''HOT'' \<and>
      as_model_key row = Some (fst k) \<and> as_replica_id row = Some (snd k)" if h: "hot ?cl k d" for k d
  proof -
    from h obtain i n where n: "map_of (cl_nodes ?cl) i = Some n" "nget (nd_deployments n) k = Some d" by (auto simp: hot_def)
    have "dep_model_key d = fst k" using hot_level(2)[OF inv h] by (auto simp: dep_key_def)
    then obtain e where e: "map_of (ev_cache (cl_evaluator ?cl)) (dep_model_key d) = Some e" using view h by (auto simp: viewable_def)
    have "dep_name d \<notin> set downloaded" "distinct (map fst actors)" using view hot_live[OF h] by (auto simp: viewable_def)
    with status_hot_row[OF inv _ _ _ n e, of actors downloaded cr] col show ?thesis by blast
  qed
  show "set (current_hot ?rows) = (\<lambda>k. (Some (fst k), Some (snd k))) ` {k. \<exists>d. hot ?cl k d}"
  proof (intro equalityI subsetI)
    fix x assume "x \<in> set (current_hot ?rows)"
    then obtain nm row where "map_of ?rows nm = Some row" "as_deployment_level row = Some ''HOT''" "x = (as_model_key row, as_replica_id row)"
      by (auto simp: current_hot_def in_rows)
    with status_rows_hot[OF inv view, of cr nm row] show "x \<in> (\<lambda>k. (Some (fst k), Some (snd k))) ` {k. \<exists>d. hot ?cl k d}" by auto
  next
    fix x assume "x \<in> (\<lambda>k. (Some (fst k), Some (snd k))) ` {k. \<exists>d. hot ?cl k d}"
    then obtain k d where "hot ?cl k d" and x: "x = (Some (fst k), Some (snd k))" by auto
    with there[of k d] show "x \<in> set (current_hot ?rows)" by (force simp: current_hot_def in_rows)
  qed
  have "inj_on (\<lambda>(_, r). (as_model_key r, as_replica_id r)) (set (filter (\<lambda>(_, r). as_deployment_level r = Some ''HOT'') ?rows))"
  proof (rule inj_onI, clarsimp simp: in_rows)
    fix nm row nm' row'
    assume r: "map_of ?rows nm = Some row" "as_deployment_level row = Some ''HOT''"
      and r': "map_of ?rows nm' = Some row'" "as_deployment_level row' = Some ''HOT''"
      and eq: "as_model_key row = as_model_key row'" "as_replica_id row = as_replica_id row'"
    from status_rows_hot[OF inv view r] obtain k d where d: "hot ?cl k d" "nm = dep_name d"
      "as_model_key row = Some (fst k)" "as_replica_id row = Some (snd k)" by blast
    from status_rows_hot[OF inv view r'] obtain k' d' where d': "hot ?cl k' d'" "nm' = dep_name d'"
      "as_model_key row' = Some (fst k')" "as_replica_id row' = Some (snd k')" by blast
    have "k = k'" using eq d(3,4) d'(3,4) by (simp add: prod_eq_iff)
    then have "d = d'" using hot_same[OF inv d(1)] d'(1) by simp
    then show "nm = nm' \<and> row = row'" using d(2) d'(2) r r' by simp
  qed
  moreover have "distinct (filter (\<lambda>(_, r). as_deployment_level r = Some ''HOT'') ?rows)"
    using wf by (auto simp: dict_wf_def distinct_map)
  ultimately show "distinct (current_hot ?rows)" unfolding current_hot_def by (simp add: distinct_map)
qed

section \<open>Grouping the rows\<close>

definition rids_of :: "(model_key option \<times> replica_id option) list \<Rightarrow> model_key \<Rightarrow> replica_id list" where
  "rids_of rows mk = List.map_filter (\<lambda>x. if fst x = Some mk \<and> mk \<noteq> [] \<and> snd x \<noteq> Some [] then snd x else None) rows"

lemma by_model_fold:
  assumes "dict_wf d" and "\<forall>mk rids. map_of d mk = Some rids \<longrightarrow> rids \<noteq> []"
  shows "let d' = fold (\<lambda>(mk, rid) d.
           case (mk, rid) of
             (Some m, Some r) \<Rightarrow> if m \<noteq> [] \<and> r \<noteq> [] then dict_set m (dict_get d m [] @ [r]) d else d
           | _ \<Rightarrow> d) rows d in
    dict_wf d' \<and> (\<forall>mk rids. map_of d' mk = Some rids \<longrightarrow> rids \<noteq> []) \<and>
    (\<forall>mk. dict_get d' mk [] = dict_get d mk [] @ rids_of rows mk)"
  using assms
proof (induction rows arbitrary: d)
  case (Cons x rows)
  obtain mk rid where x: "x = (mk, rid)" by (cases x)
  let ?d = "case (mk, rid) of
    (Some m, Some r) \<Rightarrow> if m \<noteq> [] \<and> r \<noteq> [] then dict_set m (dict_get d m [] @ [r]) d else d | _ \<Rightarrow> d"
  have "dict_wf ?d" "\<forall>mk rids. map_of ?d mk = Some rids \<longrightarrow> rids \<noteq> []"
    using Cons.prems by (auto simp: update_conv' split: option.split)
  from Cons.IH[OF this] have ih: "let d' = fold (\<lambda>(mk, rid) d.
           case (mk, rid) of
             (Some m, Some r) \<Rightarrow> if m \<noteq> [] \<and> r \<noteq> [] then dict_set m (dict_get d m [] @ [r]) d else d
           | _ \<Rightarrow> d) rows ?d in
    dict_wf d' \<and> (\<forall>mk rids. map_of d' mk = Some rids \<longrightarrow> rids \<noteq> []) \<and>
    (\<forall>mk. dict_get d' mk [] = dict_get ?d mk [] @ rids_of rows mk)" .
  have "dict_get ?d m [] @ rids_of rows m = dict_get d m [] @ rids_of (x # rows) m" for m
    by (auto simp: x rids_of_def dict_get_def update_conv' List.map_filter_simps split: option.splits)
  with ih show ?case by (simp add: x Let_def)
qed (simp add: rids_of_def List.map_filter_simps)

lemma by_model_get: "dict_get (by_model rows) mk [] = rids_of rows mk"
  using by_model_fold[of "[]" rows] unfolding by_model_def Let_def by (simp add: dict_get_def)

lemma by_model_keys: "mk \<in> fst ` set (by_model rows) \<longleftrightarrow> rids_of rows mk \<noteq> []"
proof -
  have f: "dict_wf (by_model rows)" "\<forall>mk rids. map_of (by_model rows) mk = Some rids \<longrightarrow> rids \<noteq> []"
    using by_model_fold[of "[]" rows] unfolding by_model_def Let_def by (simp_all add: dict_get_def)
  have "mk \<in> fst ` set (by_model rows) \<longleftrightarrow> map_of (by_model rows) mk \<noteq> None" by (simp add: map_of_eq_None_iff)
  with f(2) by_model_get[of rows mk] show ?thesis by (auto simp: dict_get_def split: option.splits)
qed

lemma in_rids: "r \<in> set (rids_of rows mk) \<longleftrightarrow> (Some mk, Some r) \<in> set rows \<and> mk \<noteq> [] \<and> r \<noteq> []"
  by (induction rows) (auto simp: rids_of_def List.map_filter_simps split: if_splits option.splits)

lemma rids_of_Cons:
  "rids_of (x # rows) mk = (if fst x = Some mk \<and> mk \<noteq> [] \<and> snd x \<noteq> Some [] \<and> snd x \<noteq> None then [the (snd x)] else []) @ rids_of rows mk"
  by (auto simp: rids_of_def List.map_filter_simps split: option.splits)

lemma distinct_rids: "distinct rows \<Longrightarrow> distinct (rids_of rows mk)"
proof (induction rows)
  case (Cons x rows)
  have "the (snd x) \<notin> set (rids_of rows mk)" if "fst x = Some mk" "snd x \<noteq> None"
    using that Cons.prems by (cases x) (auto simp: in_rids)
  then show ?case using Cons by (auto simp: rids_of_Cons)
qed (simp add: rids_of_def List.map_filter_simps)

lemma kept_by_take:
  assumes "distinct xs"
  shows "{x \<in> set xs. \<not> (n \<le> length xs \<and> x \<in> set (drop n xs))} = set (take n xs)"
proof -
  have "set xs = set (take n xs) \<union> set (drop n xs)" using set_append[of "take n xs" "drop n xs"] by simp
  moreover have "set (take n xs) \<inter> set (drop n xs) = {}" by (rule set_take_disj_set_drop_if_distinct[OF assms order_refl])
  moreover have "n \<le> length xs" if "x \<in> set (drop n xs)" for x using that by (cases "n \<le> length xs") auto
  ultimately show ?thesis by blast
qed

section \<open>The contract of eviction\<close>

locale eviction_service =
  fixes sv :: "'c service" and inv :: "'c \<Rightarrow> bool" and up :: "'c \<Rightarrow> replica_key set"
  assumes evict_model_law:
      "inv c \<Longrightarrow> \<exists>c' states. sv_evict sv c mk None = (c', Inr states) \<and> inv c' \<and> up c' = {k \<in> up c. fst k \<noteq> mk}"
    and evict_replica_law:
      "inv c \<Longrightarrow> \<exists>c' states. sv_evict sv c mk (Some r) = (c', Inr states) \<and> inv c' \<and> up c' = up c - {(mk, r)}"
begin

definition spared :: "(model_key \<times> replica_id option) list \<Rightarrow> replica_key set \<Rightarrow> replica_key set" where
  "spared ts ks = {k \<in> ks. (fst k, None) \<notin> set ts \<and> (fst k, Some (snd k)) \<notin> set ts}"

lemma evict_each_spares:
  "inv c \<Longrightarrow> \<exists>c' evs. evict_each sv c ts = (c', Inr evs) \<and> inv c' \<and> up c' = spared ts (up c)"
proof (induction ts arbitrary: c)
  case (Cons t ts)
  obtain mk r where t: "t = (mk, r)" by (cases t)
  obtain c1 states where c1: "sv_evict sv c mk r = (c1, Inr states)" "inv c1" and u1: "up c1 = spared [t] (up c)"
  proof (cases r)
    case None
    with evict_model_law[OF Cons.prems, of mk] that t show ?thesis by (auto simp: spared_def)
  next
    case (Some x)
    with evict_replica_law[OF Cons.prems, of mk x] that t show ?thesis by (force simp: spared_def)
  qed
  from Cons.IH[OF c1(2)] obtain c' evs where "evict_each sv c1 ts = (c', Inr evs)" "inv c'" "up c' = spared ts (up c1)" by blast
  with c1 u1 t show ?case by (auto simp: spared_def)
qed (simp add: spared_def)

lemma trim_spares:
  assumes "inv c"
  shows "\<exists>c' evs. trim sv current c desired =
      (c', Inr (evs, List.map_filter (\<lambda>(mk, sp).
        let wanted = or_one (Some (sp_replicas sp)); n = int (length (dict_get current mk [])) in
        if wanted \<le> n then None else Some (mk, sp\<lparr>sp_replicas := wanted - n\<rparr>)) desired)) \<and> inv c' \<and>
    up c' = {k \<in> up c. \<not> (\<exists>sp. (fst k, sp) \<in> set desired \<and> or_one (Some (sp_replicas sp)) \<le> int (length (dict_get current (fst k) [])) \<and>
      snd k \<in> set (py_drop (or_one (Some (sp_replicas sp))) (dict_get current (fst k) [])))}"
  using assms
proof (induction desired arbitrary: c)
  case (Cons x desired)
  obtain mk sp where x: "x = (mk, sp)" by (cases x)
  let ?w = "or_one (Some (sp_replicas sp))" and ?have = "dict_get current mk []"
  show ?case
  proof (cases "?w \<le> int (length ?have)")
    case True
    from evict_each_spares[OF Cons.prems, of "map (\<lambda>r. (mk, Some r)) (py_drop ?w ?have)"] obtain c1 evs1 where
      c1: "evict_each sv c (map (\<lambda>r. (mk, Some r)) (py_drop ?w ?have)) = (c1, Inr evs1)" "inv c1"
      "up c1 = {k \<in> up c. \<not> (fst k = mk \<and> snd k \<in> set (py_drop ?w ?have))}" by (auto simp: spared_def image_iff)
    from Cons.IH[OF c1(2)] c1 True x show ?thesis
      by (auto simp: Let_def List.map_filter_simps)
  next
    case False
    from Cons.IH[OF Cons.prems] False x show ?thesis by (auto simp: Let_def List.map_filter_simps)
  qed
qed (simp add: List.map_filter_simps)

lemma sync_spares:
  assumes c: "inv c" and rows: "set (sv_hot sv c) = (\<lambda>k. (Some (fst k), Some (snd k))) ` up c" "distinct (sv_hot sv c)"
    and names: "\<forall>k \<in> up c. fst k \<noteq> [] \<and> snd k \<noteq> []"
    and wf: "dict_wf desired" and pos: "\<forall>sp \<in> snd ` set desired. 0 < sp_replicas sp"
  shows "\<exists>c' evs remaining. sync_reconcile sv c desired = (c', Inr (evs, remaining)) \<and> inv c' \<and> up c' \<subseteq> up c \<and>
    (\<forall>k \<in> up c'. fst k \<in> fst ` set desired) \<and>
    (\<forall>mk sp. map_of desired mk = Some sp \<longrightarrow>
       card {r. (mk, r) \<in> up c'} = min (card {r. (mk, r) \<in> up c}) (nat (sp_replicas sp))) \<and>
    (\<forall>mk. map_of remaining mk =
       (case map_of desired mk of
          None \<Rightarrow> None
        | Some sp \<Rightarrow>
            let n = int (card {r. (mk, r) \<in> up c}) in
            if sp_replicas sp \<le> n then None else Some (sp\<lparr>sp_replicas := sp_replicas sp - n\<rparr>)))"
proof -
  let ?cur = "by_model (sv_hot sv c)"
  define rids where "rids = rids_of (sv_hot sv c)"
  have get: "dict_get ?cur mk [] = rids mk" for mk by (simp add: rids_def by_model_get)
  have set_rids: "set (rids mk) = {r. (mk, r) \<in> up c}" for mk
    unfolding rids_def using rows(1) names by (force simp: in_rids)
  have dist: "distinct (rids mk)" for mk
    unfolding rids_def by (rule distinct_rids[OF rows(2)])
  have len: "length (rids mk) = card {r. (mk, r) \<in> up c}" for mk using distinct_card[OF dist] set_rids by metis
  have one: "or_one (Some (sp_replicas sp)) = sp_replicas sp" if "(mk, sp) \<in> set desired" for mk sp
    using pos that by (force simp: or_one_def)
  from evict_each_spares[OF c, of "map (\<lambda>mk. (mk, None)) (extras ?cur desired)"] obtain c1 evs1 where
    e: "evict_each sv c (map (\<lambda>mk. (mk, None)) (extras ?cur desired)) = (c1, Inr evs1)" "inv c1"
    and u1: "up c1 = {k \<in> up c. fst k \<notin> set (extras ?cur desired)}" by (auto simp: spared_def)
  have ex: "fst k \<in> set (extras ?cur desired) \<longleftrightarrow> fst k \<notin> fst ` set desired" if "k \<in> up c" for k
  proof -
    have "snd k \<in> set (rids (fst k))" using set_rids that by simp
    then have "fst k \<in> fst ` set ?cur" by (auto simp: by_model_keys rids_def)
    then show ?thesis by (auto simp: extras_def)
  qed
  define remaining where "remaining = List.map_filter (\<lambda>(mk, sp).
        let wanted = or_one (Some (sp_replicas sp)); n = int (length (dict_get ?cur mk [])) in
        if wanted \<le> n then None else Some (mk, sp\<lparr>sp_replicas := wanted - n\<rparr>)) desired"
  from trim_spares[OF e(2), of ?cur desired] obtain c2 evs2 where
    t: "trim sv ?cur c1 desired = (c2, Inr (evs2, remaining))" "inv c2"
    and u2: "up c2 = {k \<in> up c1. \<not> (\<exists>sp. (fst k, sp) \<in> set desired \<and> or_one (Some (sp_replicas sp)) \<le> int (length (rids (fst k))) \<and>
      snd k \<in> set (py_drop (or_one (Some (sp_replicas sp))) (rids (fst k))))}"
    unfolding remaining_def get by blast
  have kept: "(mk, r) \<in> up c1 \<longleftrightarrow> (mk, r) \<in> up c" if "mk \<in> fst ` set desired" for mk r
    using ex[of "(mk, r)"] that by (auto simp: u1)
  have up2: "{r. (mk, r) \<in> up c2} = set (take (nat (sp_replicas sp)) (rids mk))" if sp: "map_of desired mk = Some sp" for mk sp
  proof -
    have only: "(mk, sp') \<in> set desired \<longleftrightarrow> sp' = sp" for sp' using sp wf by (auto simp: dict_wf_in)
    then have sp1: "(mk, sp) \<in> set desired" by simp
    have p: "0 < sp_replicas sp" using pos sp1 by force
    have kept: "(mk, r) \<in> up c1 \<longleftrightarrow> (mk, r) \<in> up c" for r by (rule kept) (use sp1 in force)
    have "{r. (mk, r) \<in> up c2} = {r \<in> set (rids mk). \<not> (nat (sp_replicas sp) \<le> length (rids mk) \<and> r \<in> set (drop (nat (sp_replicas sp)) (rids mk)))}"
      using kept set_rids[of mk] only one[OF sp1] p by (auto simp: u2 py_drop_def nat_le_iff)
    also have "\<dots> = set (take (nat (sp_replicas sp)) (rids mk))"
      using kept_by_take[OF dist] by simp
    finally show ?thesis .
  qed
  have card2: "card {r. (mk, r) \<in> up c2} = min (card {r. (mk, r) \<in> up c}) (nat (sp_replicas sp))" if "map_of desired mk = Some sp" for mk sp
    unfolding up2[OF that] using distinct_card[OF distinct_take[OF dist, of "nat (sp_replicas sp)" mk]] len[of mk] by simp
  have rem: "map_of remaining mk = (case map_of desired mk of None \<Rightarrow> None
      | Some sp \<Rightarrow> let n = int (card {r. (mk, r) \<in> up c}) in
          if sp_replicas sp \<le> n then None else Some (sp\<lparr>sp_replicas := sp_replicas sp - n\<rparr>))" for mk
  proof -
    have "map_of (List.map_filter (\<lambda>(mk, sp). let wanted = or_one (Some (sp_replicas sp)); n = int (length (rids mk)) in
          if wanted \<le> n then None else Some (mk, sp\<lparr>sp_replicas := wanted - n\<rparr>)) ds) mk =
        (case map_of ds mk of None \<Rightarrow> None
         | Some sp \<Rightarrow> let n = int (length (rids mk)) in
             if sp_replicas sp \<le> n then None else Some (sp\<lparr>sp_replicas := sp_replicas sp - n\<rparr>))"
      if "dict_wf ds" "set ds \<subseteq> set desired" for ds
      using that
    proof (induction ds)
      case (Cons d ds)
      obtain m sp where d: "d = (m, sp)" by (cases d)
      have "map_of ds m = None" using Cons.prems d by (simp add: dict_wf_def map_of_eq_None_iff)
      moreover have "or_one (Some (sp_replicas sp)) = sp_replicas sp" using one[of m sp] Cons.prems d by simp
      moreover have "dict_wf ds" "set ds \<subseteq> set desired" using Cons.prems by (auto simp: dict_wf_def)
      ultimately show ?case using Cons.IH d by (cases "mk = m") (simp_all add: Let_def List.map_filter_simps)
    qed (simp add: List.map_filter_simps)
    from this[OF wf subset_refl] show ?thesis by (simp add: remaining_def get len cong: option.case_cong)
  qed
  have "sync_reconcile sv c desired = (c2, Inr (evs1 @ evs2, remaining))" using e(1) t(1) by (simp add: sync_reconcile_def Let_def)
  moreover have "up c2 \<subseteq> up c" "\<forall>k \<in> up c2. fst k \<in> fst ` set desired" using ex by (auto simp: u2 u1)
  ultimately show ?thesis using t(2) card2 rem by blast
qed

end

text \<open>The controller meets the contract when Ray carries its calls out.\<close>

definition up_of :: "controller \<Rightarrow> replica_key set" where
  "up_of ct = {k. \<exists>d. hot (ct_cluster ct) k d}"

lemma ct_evict_hot:
  assumes "ctl_inv ct"
  shows "\<exists>ct' cl' states. drop_ops (ct_evict rt env (ra_all True) ct mk r) = (ct', Inr states) \<and> ctl_inv ct' \<and>
    cl_evict rt (ct_cluster ct) mk r = (cl', Inr states) \<and> (\<forall>k d. hot (ct_cluster ct') k d \<longleftrightarrow> hot cl' k d)"
proof -
  from ct_evict_ok[OF assms, of rt env "ra_all True" mk r] obtain ct' cl' states ops where
    e: "ct_evict rt env (ra_all True) ct mk r = (ct', Inr (states, ops))" "ctl_inv ct'"
    "cl_evict rt (ct_cluster ct) mk r = (cl', Inr states)" "cluster_inv cl'"
    and live: "\<And>i k d. live_at (ct_cluster ct') i k d \<longleftrightarrow> live_at cl' i k d" by blast
  have c: "cluster_inv (ct_cluster ct')" using e(2) by (simp add: ctl_inv_def)
  have "hot (ct_cluster ct') k d \<longleftrightarrow> hot cl' k d" for k d
    using live_hot[OF e(4) c live] live_hot[OF c e(4) live[symmetric]] by blast
  then show ?thesis using e by (auto simp: drop_ops_def)
qed

interpretation ndif: eviction_service "ndif_service rt env (ra_all True) h cr actors downloaded ready" ctl_inv up_of
  for rt env h cr actors downloaded ready
proof
  fix c :: controller and mk r
  assume inv: "ctl_inv c"
  then have cl: "cluster_inv (ct_cluster c)" by (simp add: ctl_inv_def)
  let ?sv = "ndif_service rt env (ra_all True) h cr actors downloaded ready"
  show "\<exists>c' states. sv_evict ?sv c mk None = (c', Inr states) \<and> ctl_inv c' \<and> up_of c' = {k \<in> up_of c. fst k \<noteq> mk}"
  proof -
    from ct_evict_hot[OF inv, of rt env mk None] obtain c' cl' states where
      e: "drop_ops (ct_evict rt env (ra_all True) c mk None) = (c', Inr states)" "ctl_inv c'"
      "cl_evict rt (ct_cluster c) mk None = (cl', Inr states)" "\<forall>k d. hot (ct_cluster c') k d \<longleftrightarrow> hot cl' k d" by blast
    from cl_evict_model[OF cl, of rt mk] e(3) have
      gone: "\<forall>i n rid. map_of (cl_nodes cl') i = Some n \<longrightarrow> \<not> holds n (mk, rid)"
      and other: "\<forall>k d. fst k \<noteq> mk \<longrightarrow> (hot cl' k d \<longleftrightarrow> hot (ct_cluster c) k d)" by auto
    have "\<not> hot cl' k d" if "fst k = mk" for k d using gone that by (cases k) (auto simp: hot_def not_holds)
    then have "up_of c' = {k \<in> up_of c. fst k \<noteq> mk}" using other e(4) unfolding up_of_def by blast
    then show ?thesis using e(1,2) by (simp add: ndif_service_def)
  qed
  show "\<exists>c' states. sv_evict ?sv c mk (Some r) = (c', Inr states) \<and> ctl_inv c' \<and> up_of c' = up_of c - {(mk, r)}"
  proof -
    from ct_evict_hot[OF inv, of rt env mk "Some r"] obtain c' cl' states where
      e: "drop_ops (ct_evict rt env (ra_all True) c mk (Some r)) = (c', Inr states)" "ctl_inv c'"
      "cl_evict rt (ct_cluster c) mk (Some r) = (cl', Inr states)" "\<forall>k d. hot (ct_cluster c') k d \<longleftrightarrow> hot cl' k d" by blast
    have "{k. \<exists>d. hot cl' k d} = up_of c - {(mk, r)}"
    proof (cases "\<forall>i n. map_of (cl_nodes (ct_cluster c)) i = Some n \<longrightarrow> \<not> holds n (mk, r)")
      case True
      with cl_evict_replica[OF cl, of mk r rt] e(3) have "cl' = ct_cluster c" by simp
      moreover have "\<not> hot (ct_cluster c) (mk, r) d" for d using True by (auto simp: hot_def not_holds)
      ultimately show ?thesis by (auto simp: up_of_def)
    next
      case False
      then obtain i n where n: "map_of (cl_nodes (ct_cluster c)) i = Some n" "holds n (mk, r)" by blast
      obtain cl1 d1 where g: "cl_evict rt (ct_cluster c) mk (Some r) = (cl1, Inr [dep_get_state d1])"
        "\<forall>d. \<not> hot cl1 (mk, r) d" "\<forall>k d. k \<noteq> (mk, r) \<longrightarrow> (hot cl1 k d \<longleftrightarrow> hot (ct_cluster c) k d)"
        using cl_evict_replica[OF cl, of mk r rt] n by blast
      then have "cl1 = cl'" using e(3) by simp
      then have "(\<exists>d. hot cl' k d) \<longleftrightarrow> (\<exists>d. hot (ct_cluster c) k d) \<and> k \<noteq> (mk, r)" for k
        using g(2,3) by (cases "k = (mk, r)") simp_all
      then show ?thesis unfolding up_of_def by (intro set_eqI) simp
    qed
    moreover have "up_of c' = {k. \<exists>d. hot cl' k d}" using e(4) by (simp add: up_of_def)
    ultimately show ?thesis using e(1,2) by (simp add: ndif_service_def)
  qed
qed

section \<open>Properties\<close>

text \<open>C36. The sync mode of \<open>ndif deploy\<close>, on a controller whose calls on Ray succeed: it ends without
  raising and keeps the controller's invariant; afterwards no model that was not asked for is HOT,
  every model asked for has the smaller of what it had and what was asked, all of it replicas it had
  before, and what is left to deploy is exactly each model's shortfall.\<close>

theorem sync_reconcile_exact:
  assumes "ctl_inv ct" and "viewable actors downloaded ct" and "dict_wf desired"
    and "\<forall>sp \<in> snd ` set desired. 0 < sp_replicas sp"
  shows "\<exists>ct' evs remaining.
    sync_reconcile (ndif_service rt env (ra_all True) h cr actors downloaded ready) ct desired = (ct', Inr (evs, remaining)) \<and>
    ctl_inv ct' \<and>
    (\<forall>mk. mk \<notin> fst ` set desired \<longrightarrow> hot_ids ct' mk = {}) \<and>
    (\<forall>mk sp. map_of desired mk = Some sp \<longrightarrow>
       hot_ids ct' mk \<subseteq> hot_ids ct mk \<and> card (hot_ids ct' mk) = min (card (hot_ids ct mk)) (nat (sp_replicas sp)) \<and>
       map_of remaining mk =
         (let n = int (card (hot_ids ct mk)) in
          if sp_replicas sp \<le> n then None else Some (sp\<lparr>sp_replicas := sp_replicas sp - n\<rparr>))) \<and>
    fst ` set remaining \<subseteq> fst ` set desired"
proof -
  let ?sv = "ndif_service rt env (ra_all True) h cr actors downloaded ready"
  have cl: "cluster_inv (ct_cluster ct)" using assms(1) by (simp add: ctl_inv_def)
  have ids: "{r. (mk, r) \<in> up_of c} = hot_ids c mk" for c mk by (simp add: up_of_def hot_ids_def)
  have rows: "set (sv_hot ?sv ct) = (\<lambda>k. (Some (fst k), Some (snd k))) ` up_of ct" "distinct (sv_hot ?sv ct)"
    using current_hot_rows[OF cl assms(2), of cr] by (simp_all add: ndif_service_def up_of_def)
  have names: "\<forall>k \<in> up_of ct. fst k \<noteq> [] \<and> snd k \<noteq> []"
    using assms(2) hot_live unfolding viewable_def up_of_def by blast
  from ndif.sync_spares[OF assms(1) rows names assms(3,4)] obtain ct' evs remaining where
    s: "sync_reconcile ?sv ct desired = (ct', Inr (evs, remaining))" "ctl_inv ct'" "up_of ct' \<subseteq> up_of ct"
    and only: "\<forall>k \<in> up_of ct'. fst k \<in> fst ` set desired"
    and cards: "\<forall>mk sp. map_of desired mk = Some sp \<longrightarrow> card (hot_ids ct' mk) = min (card (hot_ids ct mk)) (nat (sp_replicas sp))"
    and rem: "\<forall>mk. map_of remaining mk =
       (case map_of desired mk of
          None \<Rightarrow> None
        | Some sp \<Rightarrow>
            let n = int (card (hot_ids ct mk)) in
            if sp_replicas sp \<le> n then None else Some (sp\<lparr>sp_replicas := sp_replicas sp - n\<rparr>))"
    unfolding ids by blast
  have "hot_ids ct' mk \<subseteq> hot_ids ct mk" for mk using s(3) by (auto simp: up_of_def hot_ids_def)
  moreover have "hot_ids ct' mk = {}" if "mk \<notin> fst ` set desired" for mk
    using only[THEN bspec, of "(mk, _)"] that by (auto simp: up_of_def hot_ids_def)
  moreover have "fst ` set remaining \<subseteq> fst ` set desired"
  proof (rule subsetI, rule ccontr)
    fix mk assume that: "mk \<in> fst ` set remaining" and "mk \<notin> fst ` set desired"
    then have "map_of remaining mk = None" using rem by (simp add: map_of_eq_None_iff[symmetric] del: map_of_eq_None_iff)
    then show False using that by (simp add: map_of_eq_None_iff)
  qed
  ultimately show ?thesis using s(1,2) cards rem
    by (intro exI[of _ ct'] exI[of _ evs] exI[of _ remaining] conjI) simp_all
qed

definition ex_seen :: controller where
  "ex_seen = ex_ct\<lparr>ct_cluster := ex_cluster\<lparr>cl_evaluator := (cl_evaluator ex_cluster)\<lparr>ev_cache :=
     map (\<lambda>mk. (mk, \<lparr>ce_base_size_in_bytes = 6, ce_n_params = 3, ce_config = None, ce_revision = None,
       ce_dtype = ''bfloat16'', ce_max_tp = None\<rparr>)) [''a'', ''b'']\<rparr>\<rparr>\<rparr>"

definition ex_spec :: "int \<Rightarrow> model_spec" where
  "ex_spec n = \<lparr>sp_checkpoint = ''org/b'', sp_revision = None, sp_pinned = False, sp_replicas = n, sp_actor_class = None,
     sp_envoy_class = None, sp_task = None, sp_trust_remote_code = False, sp_padding_factor = None, sp_size_bytes = None,
     sp_padding_bias = None, sp_gpus = None, sp_max_tp = None, sp_execution_timeout_seconds = None, sp_model_key = None,
     sp_dtype = None\<rparr>"

lemma ex_seen_live:
  assumes "live_at (ct_cluster ex_seen) i k d"
  shows "holds ex_node k" and "dep_key d = k"
proof -
  show "holds ex_node k"
    using assms by (auto simp: live_at_def ex_seen_def ex_cluster_def holds_def split: if_splits)
  have "live_at ex_cluster i k d" using assms by (simp add: live_at_def ex_seen_def)
  then show "dep_key d = k" by (rule live_at_key(2)[OF ex_cluster_inv])
qed

lemma ex_seen_inv: "ctl_inv ex_seen"
  using ctl_inv_frame[OF ex_ct_inv, of "ct_cluster ex_seen"] by (simp add: ex_seen_def ex_ct_def)

lemma ex_seen_viewable: "viewable [] [] ex_seen"
proof -
  have "map_of (ev_cache (cl_evaluator (ct_cluster ex_seen))) (fst k) \<noteq> None" if "hot (ct_cluster ex_seen) k d" for k d
  proof -
    have "nget (nd_deployments ex_node) k = Some d"
      using that by (auto simp: hot_def ex_seen_def ex_cluster_def split: if_splits)
    then have "fst k \<in> {''a'', ''b''}" by (cases k) (auto simp: ex_node_def nget_def split: if_splits)
    then show ?thesis by (auto simp: ex_seen_def)
  qed
  moreover have "CHR '':'' \<notin> set (snd k) \<and> snd k \<noteq> [] \<and> fst k \<noteq> []" if "live_at (ct_cluster ex_seen) i k d" for i k d
  proof -
    have "holds ex_node k" by (rule ex_seen_live(1)[OF that])
    then have "k \<in> {(''a'', ''r1''), (''b'', ''r2''), (''c'', ''r3'')}"
      by (cases k) (auto simp: holds_def entry_def ex_node_def nget_def split: if_splits)
    then show ?thesis by auto
  qed
  ultimately show ?thesis by (simp add: viewable_def)
qed

theorem sync_reconcile_exact_witness:
  "\<exists>ct' evs remaining.
     sync_reconcile (ndif_service ex_rt [] (ra_all True) ex_hub ex_cr [] [] (\<lambda>_ _ _. Inr ())) ex_seen [(''b'', ex_spec 3)] =
       (ct', Inr (evs, remaining)) \<and> hot_ids ct' ''a'' = {} \<and> map_of remaining ''b'' = Some (ex_spec 2)"
proof -
  have b: "hot_ids ex_seen ''b'' = {''r2''}"
    by (auto simp: hot_ids_def hot_def ex_seen_def ex_cluster_def ex_node_def nget_def split: if_splits)
  have wf: "dict_wf [(''b'', ex_spec 3)]" by simp
  have pos: "\<forall>sp \<in> snd ` set [(''b'', ex_spec 3)]. 0 < sp_replicas sp" by (simp add: ex_spec_def)
  have m: "map_of [(''b'', ex_spec 3)] ''b'' = Some (ex_spec 3)" by simp
  from sync_reconcile_exact[OF ex_seen_inv ex_seen_viewable wf pos, of ex_rt "[]" ex_hub ex_cr "\<lambda>_ _ _. Inr ()"] m
  obtain ct' evs remaining where
    "sync_reconcile (ndif_service ex_rt [] (ra_all True) ex_hub ex_cr [] [] (\<lambda>_ _ _. Inr ())) ex_seen [(''b'', ex_spec 3)] =
       (ct', Inr (evs, remaining))"
    "\<forall>mk. mk \<notin> fst ` set [(''b'', ex_spec 3)] \<longrightarrow> hot_ids ct' mk = {}"
    "map_of remaining ''b'' =
         (let n = int (card (hot_ids ex_seen ''b'')) in
          if sp_replicas (ex_spec 3) \<le> n then None else Some ((ex_spec 3)\<lparr>sp_replicas := sp_replicas (ex_spec 3) - n\<rparr>))"
    by blast
  then show ?thesis by (intro exI conjI) (assumption, simp, simp add: b ex_spec_def)
qed

end
