(* ===== verification/Schedule.thy ===== *)
theory Schedule
  imports Operations Processor
begin

text \<open>
  The dashboard's schedule: the store of \<open>backend/schedule_store.py\<close>, the routes that write it
  (\<open>routers/schedule.py\<close>) and the job that makes the cluster follow it (\<open>jobs/reconcile.py\<close>). The files
  are the values read and written; the lock files make every operation of the store one step, and one
  pass of the job at a time. The routes may write the store while a pass runs, so the statuses a pass
  writes are a list of single writes (\<open>oc_marks\<close>). What the store reads is what it wrote (a missing or
  unreadable file is the empty store). Resolving a checkpoint is nnsight's and a parameter; so are the
  answers of the controller. The autocomplete cache the job feeds is not modelled.
\<close>

section \<open>Times\<close>

text \<open>A \<open>datetime\<close>, with an offset (as the instant) or without one; the two do not compare.\<close>

datatype datetime = Aware rat | Naive rat

datatype sched_error =
    CompareError \<comment> \<open>\<open>TypeError\<close> of the comparison\<close>
  | Invalid \<comment> \<open>\<open>ValidationError\<close>\<close>
  | Unresolved exn \<comment> \<open>400\<close>
  | NoEvent \<comment> \<open>404\<close>

fun dt_less :: "datetime \<Rightarrow> datetime \<Rightarrow> sched_error + bool" where
  "dt_less (Aware a) (Aware b) = Inr (a < b)"
| "dt_less (Naive a) (Naive b) = Inr (a < b)"
| "dt_less _ _ = Inl CompareError"

section \<open>Events\<close>

record payload =
  pl_title :: string
  pl_checkpoint :: string
  pl_start :: datetime
  pl_end :: "datetime option"
  pl_revision :: "string option"
  pl_task :: "string option"
  pl_trust_remote_code :: bool
  pl_actor_class :: "string option"
  pl_envoy_class :: "string option"
  pl_padding_factor :: "rat option"
  pl_execution_timeout_seconds :: "rat option"
  pl_model_key :: "model_key option"

record schedule_event = payload +
  ev_id :: string
  ev_created_at :: datetime
  ev_updated_at :: datetime
  ev_last_status :: "entry_status option"
  ev_last_error :: "entry_error option"

text \<open>\<open>_end_after_start\<close>\<close>

definition end_after_start :: "'a payload_scheme \<Rightarrow> sched_error + unit" where
  "end_after_start p =
     (case pl_end p of
        None \<Rightarrow> Inr ()
      | Some v \<Rightarrow> bind_sum (dt_less (pl_start p) v) (\<lambda>later. if later then Inr () else Inl Invalid))"

text \<open>\<open>ScheduleEvent.model_validate\<close>: the key is required.\<close>

definition model_validate :: "schedule_event \<Rightarrow> sched_error + schedule_event" where
  "model_validate e =
     bind_sum (end_after_start e) (\<lambda>_. if pl_model_key e = None then Inl Invalid else Inr e)"

fun all_of :: "('a \<Rightarrow> 'e + 'b) \<Rightarrow> 'a list \<Rightarrow> 'e + 'b list" where
  "all_of f [] = Inr []"
| "all_of f (x # xs) = bind_sum (f x) (\<lambda>y. bind_sum (all_of f xs) (\<lambda>ys. Inr (y # ys)))"

section \<open>The store\<close>

definition store_list :: "schedule_event list \<Rightarrow> sched_error + schedule_event list" where
  "store_list es = all_of model_validate es"

definition store_get :: "schedule_event list \<Rightarrow> string \<Rightarrow> sched_error + schedule_event option" where
  "store_get es i = bind_sum (store_list es) (\<lambda>xs. Inr (List.find (\<lambda>e. ev_id e = i) xs))"

definition store_create ::
  "string \<Rightarrow> datetime \<Rightarrow> payload \<Rightarrow> schedule_event list \<Rightarrow> sched_error + schedule_event \<times> schedule_event list" where
  "store_create i now p es =
     bind_sum (model_validate
       (payload.extend p \<lparr>ev_id = i, ev_created_at = now, ev_updated_at = now, ev_last_status = None, ev_last_error = None\<rparr>))
       (\<lambda>e. Inr (e, es @ [e]))"

fun store_update ::
  "datetime \<Rightarrow> string \<Rightarrow> payload \<Rightarrow> schedule_event list \<Rightarrow> sched_error + (schedule_event \<times> schedule_event list) option" where
  "store_update now i p [] = Inr None"
| "store_update now i p (e # es) =
     (if ev_id e = i
      then bind_sum (model_validate e) (\<lambda>old.
             let new = (payload.extend p (payload.more old))\<lparr>ev_updated_at := now\<rparr> in Inr (Some (new, new # es)))
      else bind_sum (store_update now i p es) (\<lambda>r. Inr (map_option (\<lambda>(new, es'). (new, e # es')) r)))"

definition store_delete :: "string \<Rightarrow> schedule_event list \<Rightarrow> schedule_event list option" where
  "store_delete i es =
     (let left = filter (\<lambda>e. ev_id e \<noteq> i) es in if length left = length es then None else Some left)"

fun mark_status ::
  "datetime \<Rightarrow> string \<Rightarrow> entry_status \<Rightarrow> entry_error option \<Rightarrow> schedule_event list \<Rightarrow> schedule_event list" where
  "mark_status now i st err [] = []"
| "mark_status now i st err (e # es) =
     (if ev_id e = i then e\<lparr>ev_last_status := Some st, ev_last_error := err, ev_updated_at := now\<rparr> # es
      else e # mark_status now i st err es)"

definition is_active :: "schedule_event \<Rightarrow> datetime \<Rightarrow> sched_error + bool" where
  "is_active e when =
     bind_sum (dt_less when (pl_start e)) (\<lambda>early.
       if early then Inr False
       else (case pl_end e of None \<Rightarrow> Inr True | Some v \<Rightarrow> dt_less when v))"

fun filter_active :: "schedule_event list \<Rightarrow> datetime \<Rightarrow> sched_error + schedule_event list" where
  "filter_active [] when = Inr []"
| "filter_active (e # es) when =
     bind_sum (is_active e when) (\<lambda>b. bind_sum (filter_active es when) (\<lambda>xs. Inr (if b then e # xs else xs)))"

section \<open>The routes\<close>

text \<open>\<open>extract_repo_id_from_model_key\<close>: the text between the quotes after \<open>"repo_id":\<close>, or the key.\<close>

fun after :: "string \<Rightarrow> string \<Rightarrow> string option" where
  "after pat [] = (if pat = [] then Some [] else None)"
| "after pat (c # cs) = (if take (length pat) (c # cs) = pat then Some (drop (length pat) (c # cs)) else after pat cs)"

definition extract_repo_id :: "model_key \<Rightarrow> string" where
  "extract_repo_id mk =
     (case after ''\"repo_id\":'' mk of
        None \<Rightarrow> mk
      | Some rest \<Rightarrow>
          (case strip rest of
             [] \<Rightarrow> mk
           | c # cs \<Rightarrow>
               if c = CHR 34 \<and> CHR 34 \<in> set cs then takeWhile (\<lambda>x. x \<noteq> CHR 34) cs else mk))"

definition canonicalize :: "mint \<Rightarrow> payload \<Rightarrow> sched_error + payload" where
  "canonicalize get_model_key p =
     (case get_model_key (pl_checkpoint p) (pl_revision p) (pl_envoy_class p) (pl_task p) (pl_trust_remote_code p) of
        Inl e \<Rightarrow> Inl (Unresolved e)
      | Inr mk \<Rightarrow> Inr (p\<lparr>pl_checkpoint := extract_repo_id mk, pl_model_key := Some mk\<rparr>))"

text \<open>What a route gets is a payload the framework has validated.\<close>

definition create_event ::
  "mint \<Rightarrow> string \<Rightarrow> datetime \<Rightarrow> payload \<Rightarrow> schedule_event list \<Rightarrow> sched_error + schedule_event \<times> schedule_event list" where
  "create_event get_model_key i now p es =
     bind_sum (end_after_start p) (\<lambda>_. bind_sum (canonicalize get_model_key p) (\<lambda>q. store_create i now q es))"

definition update_event ::
  "mint \<Rightarrow> datetime \<Rightarrow> string \<Rightarrow> payload \<Rightarrow> schedule_event list \<Rightarrow> sched_error + schedule_event \<times> schedule_event list" where
  "update_event get_model_key now i p es =
     bind_sum (end_after_start p) (\<lambda>_. bind_sum (canonicalize get_model_key p) (\<lambda>q.
       bind_sum (store_update now i q es) (\<lambda>r. case r of None \<Rightarrow> Inl NoEvent | Some x \<Rightarrow> Inr x)))"

definition delete_event :: "string \<Rightarrow> schedule_event list \<Rightarrow> sched_error + schedule_event list" where
  "delete_event i es = (case store_delete i es of None \<Rightarrow> Inl NoEvent | Some left \<Rightarrow> Inr left)"

section \<open>The reconcile job\<close>

definition spec_from_event :: "schedule_event \<Rightarrow> raw_spec" where
  "spec_from_event e =
     \<lparr>rw_checkpoint = Some (pl_checkpoint e), rw_revision = pl_revision e, rw_pinned = Some True, rw_replicas = None,
      rw_actor_class = map_option ClassPath (pl_actor_class e), rw_envoy_class = pl_envoy_class e, rw_task = pl_task e,
      rw_trust_remote_code = Some (pl_trust_remote_code e), rw_padding_factor = pl_padding_factor e,
      rw_size_bytes = None, rw_padding_bias = None, rw_gpus = None, rw_max_tp = None,
      rw_execution_timeout_seconds = pl_execution_timeout_seconds e, rw_model_key = None, rw_dtype = None\<rparr>"

record reconcile_state =
  rc_prev_model_keys :: "model_key list"
  rc_active_count :: nat
  rc_last_run :: datetime

record reconcile_result =
  rr_changed :: bool
  rr_active :: "string list"
  rr_evicted :: "model_key list"
  rr_deployed :: "model_key list"
  rr_skipped :: bool
  rr_error :: "string option"

text \<open>What a pass does outside: the calls on the controller in order, the statuses it writes to the store,
  its own file afterwards, the failures told.\<close>

datatype rc_call = EvictCall "model_key list" | DeployCall "raw_spec list"

record outcome =
  oc_result :: reconcile_result
  oc_calls :: "rc_call list"
  oc_marks :: "(string \<times> entry_status \<times> entry_error option) list"
  oc_state :: "reconcile_state option"
  oc_failed :: "(string \<times> entry_status \<times> entry_error) list"

text \<open>The HOT keys of the status; \<open>None\<close> when it could not be read.\<close>

definition hot_model_keys :: "(string + (string, app_status) dict) \<Rightarrow> model_key list option" where
  "hot_model_keys answer =
     (case answer of
        Inl _ \<Rightarrow> None
      | Inr rows \<Rightarrow>
          Some (filter (\<lambda>mk. mk \<noteq> []) (List.map_filter (\<lambda>(_, r). if as_deployment_level r = Some ''HOT'' then as_model_key r else None) rows)))"

text \<open>\<open>{e.model_key: e for e in active}\<close>\<close>

definition active_keys :: "schedule_event list \<Rightarrow> (model_key, schedule_event) dict" where
  "active_keys active = fold (\<lambda>e d. dict_set (the (pl_model_key e)) e d) active []"

definition to_evict :: "model_key list \<Rightarrow> (model_key, schedule_event) dict \<Rightarrow> model_key list" where
  "to_evict prev new = sort (remdups (filter (\<lambda>mk. mk \<notin> fst ` set new) prev))"

definition to_deploy ::
  "bool \<Rightarrow> model_key list \<Rightarrow> model_key list option \<Rightarrow> (model_key, schedule_event) dict \<Rightarrow> (model_key \<times> schedule_event) list" where
  "to_deploy force prev hot_keys new =
     (if force then new else filter (\<lambda>(mk, _). mk \<notin> set prev \<or> mk \<notin> set (case hot_keys of Some h \<Rightarrow> h | None \<Rightarrow> [])) new)"

text \<open>Every active event whose key the deploy answered gets its status; the last answer for a key
  counts.\<close>

definition by_key :: "deploy_entry list \<Rightarrow> (model_key, deploy_entry) dict" where
  "by_key ds = fold (\<lambda>d m. dict_set (en_model_key d) d m) ds []"

definition marks ::
  "(model_key, deploy_entry) dict \<Rightarrow> schedule_event list \<Rightarrow> (string \<times> entry_status \<times> entry_error option) list" where
  "marks answers active =
     List.map_filter (\<lambda>e. map_option (\<lambda>d. (ev_id e, en_status d, en_error d)) (map_of answers (the (pl_model_key e)))) active"

definition write_marks ::
  "datetime \<Rightarrow> (string \<times> entry_status \<times> entry_error option) list \<Rightarrow> schedule_event list \<Rightarrow> schedule_event list" where
  "write_marks now ms es = fold (\<lambda>(i, st, err). mark_status now i st err) ms es"

definition failed_events ::
  "(model_key, deploy_entry) dict \<Rightarrow> schedule_event list \<Rightarrow> (string \<times> entry_status \<times> entry_error) list" where
  "failed_events answers active =
     List.map_filter (\<lambda>e. case map_of answers (the (pl_model_key e)) of
         None \<Rightarrow> None
       | Some d \<Rightarrow> map_option (\<lambda>x. (pl_checkpoint e, en_status d, x)) (en_error d)) active"

text \<open>\<open>_reconcile_locked\<close>. \<open>evict_call\<close> and \<open>deploy_call\<close> are \<open>ndif_client\<close>'s, an exception being its text.\<close>

definition reconcile_locked ::
  "(model_key list \<Rightarrow> string + unit) \<Rightarrow> (raw_spec list \<Rightarrow> string + deploy_entry list) \<Rightarrow>
   (string + (string, app_status) dict) \<Rightarrow> datetime \<Rightarrow> bool \<Rightarrow> schedule_event list \<Rightarrow> reconcile_state option \<Rightarrow>
   sched_error + outcome" where
  "reconcile_locked evict_call deploy_call stat now force es state =
     bind_sum (store_list es) (\<lambda>events.
     bind_sum (filter_active events now) (\<lambda>active.
       let new = active_keys active;
           prev = (case state of None \<Rightarrow> [] | Some st \<Rightarrow> rc_prev_model_keys st);
           evs = to_evict prev new;
           hot_keys = hot_model_keys stat;
           names = map pl_checkpoint active;
           saved = Some \<lparr>rc_prev_model_keys = map fst new, rc_active_count = length active, rc_last_run = now\<rparr>;
           result = \<lparr>rr_changed = False, rr_active = names, rr_evicted = [], rr_deployed = [], rr_skipped = False, rr_error = None\<rparr>;
           unchanged = \<lparr>oc_result = result, oc_calls = [], oc_marks = [], oc_state = state, oc_failed = []\<rparr>
       in
       if hot_keys = None \<and> \<not> force then Inr (unchanged\<lparr>oc_result := result\<lparr>rr_skipped := True\<rparr>\<rparr>)
       else
         let deps = to_deploy force prev hot_keys new; specs = map (spec_from_event \<circ> snd) deps in
         if evs = [] \<and> deps = [] then Inr (unchanged\<lparr>oc_state := saved\<rparr>)
         else
           (case (if evs = [] then Inr () else evict_call evs) of
              Inl t \<Rightarrow> Inr (unchanged\<lparr>oc_result := result\<lparr>rr_error := Some t\<rparr>, oc_calls := [EvictCall evs]\<rparr>)
            | Inr _ \<Rightarrow>
                let calls = (if evs = [] then [] else [EvictCall evs]) @ (if deps = [] then [] else [DeployCall specs]) in
                (case (if deps = [] then Inr [] else deploy_call specs) of
                   Inl t \<Rightarrow>
                     Inr \<lparr>oc_result = result\<lparr>rr_changed := True, rr_evicted := evs, rr_error := Some t\<rparr>,
                          oc_calls = calls, oc_marks = [], oc_state = saved, oc_failed = []\<rparr>
                 | Inr ds \<Rightarrow>
                     Inr \<lparr>oc_result = result\<lparr>rr_changed := True, rr_evicted := evs, rr_deployed := map fst deps\<rparr>,
                          oc_calls = calls, oc_marks = marks (by_key ds) active, oc_state = saved,
                          oc_failed = failed_events (by_key ds) active\<rparr>))))"

end
