(* ===== verification/Schedule_Props.thy ===== *)
theory Schedule_Props
  imports Schedule
begin

text \<open>
  The schedule: the routes keep the store readable and do to one event what they say, and a pass of
  the reconcile job makes exactly the calls the difference asks for and remembers what it must evict
  later.
\<close>

section \<open>The store\<close>

definition valid_store :: "schedule_event list \<Rightarrow> bool" where
  "valid_store es \<longleftrightarrow> distinct (map ev_id es) \<and> (\<forall>e \<in> set es. model_validate e = Inr e)"

lemma all_of_same: "\<forall>x \<in> set xs. f x = Inr x \<Longrightarrow> all_of f xs = Inr xs"
  by (induction xs) auto

lemma store_list_valid: "valid_store es \<Longrightarrow> store_list es = Inr es"
  by (simp add: store_list_def valid_store_def all_of_same)

lemma store_get_valid: "valid_store es \<Longrightarrow> store_get es i = Inr (List.find (\<lambda>e. ev_id e = i) es)"
  by (simp add: store_get_def store_list_valid)

lemma model_validate_Inr: "model_validate e = Inr x \<Longrightarrow> x = e"
  by (auto simp: model_validate_def bind_sum_Inr split: if_splits)

lemma find_app: "List.find P (xs @ ys) = (case List.find P xs of None \<Rightarrow> List.find P ys | Some x \<Rightarrow> Some x)"
  by (induction xs) auto

lemma find_id_None: "List.find (\<lambda>e. ev_id e = i) es = None \<longleftrightarrow> i \<notin> ev_id ` set es"
  by (auto simp: find_None_iff)

text \<open>What a route writes has the canonical fields of the payload.\<close>

definition written :: "mint \<Rightarrow> payload \<Rightarrow> schedule_event \<Rightarrow> bool" where
  "written get_model_key p e \<longleftrightarrow>
     (\<exists>mk. get_model_key (pl_checkpoint p) (pl_revision p) (pl_envoy_class p) (pl_task p) (pl_trust_remote_code p) = Inr mk \<and>
        payload.truncate e = p\<lparr>pl_checkpoint := extract_repo_id mk, pl_model_key := Some mk\<rparr>)"

lemma extend_fields [simp]:
  "pl_start (payload.extend q m) = pl_start q" "pl_end (payload.extend q m) = pl_end q"
  "pl_model_key (payload.extend q m) = pl_model_key q" "payload.truncate (payload.extend q m) = q"
  "payload.more (payload.extend q m) = m"
  by (simp_all add: payload.defs)

lemma extend_more [simp]:
  "ev_id (payload.extend q (payload.more e)) = ev_id e"
  "ev_created_at (payload.extend q (payload.more e)) = ev_created_at e"
  "ev_last_status (payload.extend q (payload.more e)) = ev_last_status e"
  "ev_last_error (payload.extend q (payload.more e)) = ev_last_error e"
  by (cases e; simp add: payload.defs)+

lemma end_after_start_cong:
  "pl_start p = pl_start q \<Longrightarrow> pl_end p = pl_end q \<Longrightarrow> end_after_start p = end_after_start q"
  by (simp add: end_after_start_def split: option.split)

lemma updated_at_fields [simp]:
  "payload.truncate (e\<lparr>ev_updated_at := t\<rparr>) = payload.truncate e"
  by (simp add: payload.defs)

lemma canonicalize_Inr:
  assumes "canonicalize get_model_key p = Inr q" and "end_after_start p = Inr ()"
  shows "written get_model_key p (payload.extend q m)" and "end_after_start q = Inr ()" and "pl_model_key q \<noteq> None"
  using assms end_after_start_cong[of q p] by (auto simp: canonicalize_def written_def split: sum.splits)

lemma validate_extend:
  "end_after_start q = Inr () \<Longrightarrow> pl_model_key q \<noteq> None \<Longrightarrow> model_validate (payload.extend q m) = Inr (payload.extend q m)"
  using end_after_start_cong[of "payload.extend q m" q] by (simp add: model_validate_def)

lemma validate_updated_at:
  "model_validate e = Inr e \<Longrightarrow> model_validate (e\<lparr>ev_updated_at := t\<rparr>) = Inr (e\<lparr>ev_updated_at := t\<rparr>)"
  using end_after_start_cong[of "e\<lparr>ev_updated_at := t\<rparr>" e] by (auto simp: model_validate_def bind_sum_Inr split: if_splits)

lemma store_update_Some:
  assumes "valid_store es" and "store_update now i q es = Inr (Some (new, es'))"
  shows "\<exists>old. old \<in> set es \<and> ev_id old = i \<and> new = (payload.extend q (payload.more old))\<lparr>ev_updated_at := now\<rparr> \<and>
    map ev_id es' = map ev_id es \<and> set es' \<subseteq> insert new (set es) \<and> List.find (\<lambda>e. ev_id e = i) es' = Some new \<and>
    (\<forall>j. j \<noteq> i \<longrightarrow> List.find (\<lambda>e. ev_id e = j) es' = List.find (\<lambda>e. ev_id e = j) es)"
  using assms
proof (induction es arbitrary: es')
  case (Cons e es)
  have v: "valid_store es" "model_validate e = Inr e" using Cons.prems(1) by (auto simp: valid_store_def)
  show ?case
  proof (cases "ev_id e = i")
    case True
    then have "es' = new # es" "new = (payload.extend q (payload.more e))\<lparr>ev_updated_at := now\<rparr>"
      using Cons.prems(2) v(2) by (auto simp: Let_def)
    moreover have "ev_id ((payload.extend q (payload.more e))\<lparr>ev_updated_at := now\<rparr>) = i" using True by simp
    ultimately show ?thesis using True by auto
  next
    case False
    then obtain es1 where "store_update now i q es = Inr (Some (new, es1))" "es' = e # es1"
      using Cons.prems(2) by (auto simp: bind_sum_Inr)
    with Cons.IH[OF v(1)] False show ?thesis by auto
  qed
qed simp

lemma store_update_None: "store_update now i q es = Inr None \<Longrightarrow> i \<notin> ev_id ` set es"
  by (induction es) (auto simp: bind_sum_Inr Let_def split: if_splits)

lemma valid_updated:
  assumes "valid_store es" and "canonicalize get_model_key p = Inr q" "end_after_start p = Inr ()"
    and "store_update now i q es = Inr (Some (new, es'))"
  shows "valid_store es'"
proof -
  from store_update_Some[OF assms(1,4)] obtain old where
    new: "new = (payload.extend q (payload.more old))\<lparr>ev_updated_at := now\<rparr>" and ids: "map ev_id es' = map ev_id es"
    and sub: "set es' \<subseteq> insert new (set es)" by blast
  have "model_validate new = Inr new"
    unfolding new using canonicalize_Inr(2,3)[OF assms(2,3)] by (intro validate_updated_at validate_extend)
  then show ?thesis using assms(1) ids sub by (auto simp: valid_store_def)
qed

lemma created:
  assumes valid: "valid_store es" and c: "create_event get_model_key i now p es = Inr (e, es')" and i: "i \<notin> ev_id ` set es"
  shows "valid_store es' \<and> store_get es' i = Inr (Some e) \<and> written get_model_key p e \<and> ev_id e = i \<and>
    (\<forall>j. j \<noteq> i \<longrightarrow> store_get es' j = store_get es j)"
proof -
  from c obtain q where q: "end_after_start p = Inr ()" "canonicalize get_model_key p = Inr q"
    and st: "store_create i now q es = Inr (e, es')" by (auto simp: create_event_def bind_sum_Inr)
  let ?m = "\<lparr>ev_id = i, ev_created_at = now, ev_updated_at = now, ev_last_status = None, ev_last_error = None\<rparr>"
  note ok = validate_extend[OF canonicalize_Inr(2,3)[OF q(2,1)], of ?m]
  have e: "e = payload.extend q ?m" "es' = es @ [e]" using st ok by (auto simp: store_create_def)
  have id: "ev_id e = i" by (simp add: e(1) payload.defs)
  have v: "valid_store es'" using valid i ok e id by (auto simp: valid_store_def)
  have none: "List.find (\<lambda>x. ev_id x = i) es = None" using i by (simp add: find_id_None)
  show ?thesis
    using v store_get_valid[OF v] store_get_valid[OF valid] none id canonicalize_Inr(1)[OF q(2,1), of ?m] e
    by (auto simp: find_app split: option.splits)
qed

lemma updated:
  assumes valid: "valid_store es" and u: "update_event get_model_key now i p es = Inr (e, es')"
  shows "valid_store es' \<and> store_get es' i = Inr (Some e) \<and> written get_model_key p e \<and>
    (\<exists>old. store_get es i = Inr (Some old) \<and> ev_id e = i \<and> ev_created_at e = ev_created_at old \<and>
       ev_last_status e = ev_last_status old \<and> ev_last_error e = ev_last_error old) \<and>
    (\<forall>j. j \<noteq> i \<longrightarrow> store_get es' j = store_get es j)"
proof -
  from u obtain q where q: "end_after_start p = Inr ()" "canonicalize get_model_key p = Inr q"
    and st: "store_update now i q es = Inr (Some (e, es'))"
    by (auto simp: update_event_def bind_sum_Inr split: option.splits)
  have v: "valid_store es'" by (rule valid_updated[OF valid q(2,1) st])
  from store_update_Some[OF valid st] obtain old where
    old: "old \<in> set es" "ev_id old = i" and new: "e = (payload.extend q (payload.more old))\<lparr>ev_updated_at := now\<rparr>"
    and found: "List.find (\<lambda>x. ev_id x = i) es' = Some e"
    and other: "\<forall>j. j \<noteq> i \<longrightarrow> List.find (\<lambda>x. ev_id x = j) es' = List.find (\<lambda>x. ev_id x = j) es" by blast
  have "List.find (\<lambda>x. ev_id x = i) es = Some old"
  proof (cases "List.find (\<lambda>x. ev_id x = i) es")
    case None
    then show ?thesis using old by (auto simp: find_id_None)
  next
    case (Some x)
    then have "x \<in> set es" "ev_id x = i" by (auto simp: find_Some_iff)
    then show ?thesis using Some old valid by (auto simp: valid_store_def distinct_map dest: inj_onD)
  qed
  moreover have "written get_model_key p e"
    using canonicalize_Inr(1)[OF q(2,1), of "payload.more old"] by (simp add: new written_def)
  moreover have "ev_id e = ev_id old" "ev_created_at e = ev_created_at old" "ev_last_status e = ev_last_status old"
    "ev_last_error e = ev_last_error old" by (simp_all add: new)
  ultimately show ?thesis using v store_get_valid[OF v] store_get_valid[OF valid] found other old(2) by auto
qed

lemma update_refused:
  assumes valid: "valid_store es" and "update_event get_model_key now i p es = Inl NoEvent"
  shows "store_get es i = Inr None"
proof -
  have no: "canonicalize get_model_key p \<noteq> Inl NoEvent" "end_after_start p \<noteq> Inl NoEvent"
    by (auto simp: canonicalize_def end_after_start_def bind_sum_def elim!: dt_less.elims split: sum.splits option.splits if_splits)
  have upd: "store_update now i q es \<noteq> Inl NoEvent" for q
    using valid by (induction es) (auto simp: valid_store_def bind_sum_def Let_def split: sum.splits)
  from assms(2) obtain q where "store_update now i q es = Inr None"
    using no upd by (auto simp: update_event_def bind_sum_def split: sum.splits option.splits)
  then show ?thesis using store_update_None store_get_valid[OF valid] by (simp add: find_id_None)
qed

lemma delete_event_eq:
  "delete_event i es = (if i \<in> ev_id ` set es then Inr (filter (\<lambda>e. ev_id e \<noteq> i) es) else Inl NoEvent)"
proof (cases "i \<in> ev_id ` set es")
  case True
  then have "length (filter (\<lambda>e. ev_id e \<noteq> i) es) < length es" by (auto simp: length_filter_less)
  then show ?thesis using True by (simp add: delete_event_def store_delete_def Let_def)
next
  case False
  then have "filter (\<lambda>e. ev_id e \<noteq> i) es = es" by (auto simp: filter_id_conv)
  then show ?thesis using False by (simp add: delete_event_def store_delete_def Let_def)
qed

lemma deleted:
  assumes valid: "valid_store es" and "delete_event i es = Inr es'"
  shows "valid_store es' \<and> store_get es' i = Inr None \<and> (\<forall>j. j \<noteq> i \<longrightarrow> store_get es' j = store_get es j)"
proof -
  have es': "es' = filter (\<lambda>e. ev_id e \<noteq> i) es" using assms(2) delete_event_eq by (auto split: if_splits)
  have v: "valid_store es'" using valid by (auto simp: valid_store_def es' distinct_map inj_on_def)
  have "List.find (\<lambda>e. ev_id e = j) es' = List.find (\<lambda>e. ev_id e = j) es" if "j \<noteq> i" for j
    unfolding es' using that by (induction es) auto
  then show ?thesis using v store_get_valid[OF v] store_get_valid[OF valid] by (auto simp: find_id_None es')
qed

text \<open>C40. The schedule routes on a readable store: a created event, with a fresh id, can be read back and
  no other changes; an update replaces exactly the payload of the event it names, with the canonical
  checkpoint and key, and keeps its id, its creation time and its last status; a deleted event is gone;
  updating or deleting an unknown id is refused; and the store stays readable.\<close>

theorem schedule_routes:
  assumes "valid_store es"
  shows "(\<forall>e es'. create_event get_model_key i now p es = Inr (e, es') \<longrightarrow> i \<notin> ev_id ` set es \<longrightarrow>
      valid_store es' \<and> store_get es' i = Inr (Some e) \<and> written get_model_key p e \<and> ev_id e = i \<and>
      (\<forall>j. j \<noteq> i \<longrightarrow> store_get es' j = store_get es j)) \<and>
    (\<forall>e es'. update_event get_model_key now i p es = Inr (e, es') \<longrightarrow>
      valid_store es' \<and> store_get es' i = Inr (Some e) \<and> written get_model_key p e \<and>
      (\<exists>old. store_get es i = Inr (Some old) \<and> ev_id e = i \<and> ev_created_at e = ev_created_at old \<and>
         ev_last_status e = ev_last_status old \<and> ev_last_error e = ev_last_error old) \<and>
      (\<forall>j. j \<noteq> i \<longrightarrow> store_get es' j = store_get es j)) \<and>
    (update_event get_model_key now i p es = Inl NoEvent \<longrightarrow> store_get es i = Inr None) \<and>
    (delete_event i es = Inl NoEvent \<longleftrightarrow> store_get es i = Inr None) \<and>
    (\<forall>es'. delete_event i es = Inr es' \<longrightarrow>
      valid_store es' \<and> store_get es' i = Inr None \<and> (\<forall>j. j \<noteq> i \<longrightarrow> store_get es' j = store_get es j))"
proof (intro conjI allI impI)
  show "delete_event i es = Inl NoEvent \<longleftrightarrow> store_get es i = Inr None"
    using delete_event_eq[of i es] store_get_valid[OF assms, of i] by (auto simp: find_id_None)
qed (use created[OF assms] updated[OF assms] update_refused[OF assms] deleted[OF assms] in \<open>blast+\<close>)

definition ex_payload :: "datetime \<Rightarrow> datetime option \<Rightarrow> payload" where
  "ex_payload from till =
     \<lparr>pl_title = ''week'', pl_checkpoint = ''org/b'', pl_start = from, pl_end = till, pl_revision = None, pl_task = None,
      pl_trust_remote_code = False, pl_actor_class = None, pl_envoy_class = None, pl_padding_factor = None,
      pl_execution_timeout_seconds = None, pl_model_key = None\<rparr>"

definition ex_mint :: mint where
  "ex_mint cp rv ec tsk trust = Inr (''k:'' @ cp)"

theorem schedule_routes_witness:
  "\<exists>e es'. create_event ex_mint ''1'' (Aware 5) (ex_payload (Aware 0) (Some (Aware 9))) [] = Inr (e, es') \<and>
     store_get es' ''1'' = Inr (Some e) \<and> pl_model_key e = Some ''k:org/b''"
proof -
  have v: "valid_store []" by (simp add: valid_store_def)
  have "(case create_event ex_mint ''1'' (Aware 5) (ex_payload (Aware 0) (Some (Aware 9))) [] of
      Inr (e, es') \<Rightarrow> pl_model_key e = Some ''k:org/b'' | Inl _ \<Rightarrow> False)" by code_simp
  then obtain e es' where c: "create_event ex_mint ''1'' (Aware 5) (ex_payload (Aware 0) (Some (Aware 9))) [] = Inr (e, es')"
    "pl_model_key e = Some ''k:org/b''" by (auto split: sum.splits)
  from schedule_routes[OF v, of ex_mint "''1''" "Aware 5" "ex_payload (Aware 0) (Some (Aware 9))"] c(1)
  have "store_get es' ''1'' = Inr (Some e)" by simp
  with c show ?thesis by blast
qed

section \<open>A pass of the job\<close>

lemma active_keys_fold:
  "dict_wf d \<Longrightarrow> (\<forall>mk e. (mk, e) \<in> set d \<longrightarrow> pl_model_key e = Some mk) \<Longrightarrow> \<forall>e \<in> set es. pl_model_key e \<noteq> None \<Longrightarrow>
   let d' = fold (\<lambda>e d. dict_set (the (pl_model_key e)) e d) es d in
   dict_wf d' \<and> fst ` set d' = fst ` set d \<union> (the \<circ> pl_model_key) ` set es \<and>
   (\<forall>mk e. (mk, e) \<in> set d' \<longrightarrow> pl_model_key e = Some mk \<and> (e \<in> set es \<or> (mk, e) \<in> set d))"
proof (induction es arbitrary: d)
  case (Cons e es)
  let ?d = "dict_set (the (pl_model_key e)) e d"
  have w: "dict_wf ?d" using Cons.prems(1) by simp
  have m: "(mk, x) \<in> set ?d \<longleftrightarrow> (if mk = the (pl_model_key e) then x = e else (mk, x) \<in> set d)" for mk x
    using w Cons.prems(1) by (auto simp: dict_wf_in update_conv')
  have k: "fst ` set ?d = insert (the (pl_model_key e)) (fst ` set d)"
    using arg_cong[OF update_keys[of "the (pl_model_key e)" e d], of set] by auto
  have old: "\<forall>mk x. (mk, x) \<in> set ?d \<longrightarrow> pl_model_key x = Some mk" using Cons.prems(2,3) by (auto simp: m split: if_splits)
  have rest: "\<forall>e \<in> set es. pl_model_key e \<noteq> None" using Cons.prems(3) by simp
  note ih = Cons.IH[OF w old rest, unfolded Let_def]
  have step: "x = e \<or> (mk, x) \<in> set d" if "(mk, x) \<in> set ?d" for mk x
    using that m[of mk x] by (cases "mk = the (pl_model_key e)") simp_all
  let ?f = "fold (\<lambda>e d. dict_set (the (pl_model_key e)) e d) es ?d"
  have "pl_model_key x = Some mk \<and> (x \<in> set (e # es) \<or> (mk, x) \<in> set d)" if "(mk, x) \<in> set ?f" for mk x
  proof -
    have "pl_model_key x = Some mk" "x \<in> set es \<or> (mk, x) \<in> set ?d" using ih that by blast+
    then show ?thesis using step[of mk x] by (simp only: list.set insert_iff) blast
  qed
  moreover have "dict_wf ?f" "fst ` set ?f = fst ` set d \<union> (the \<circ> pl_model_key) ` set (e # es)"
    using conjunct1[OF ih] conjunct1[OF conjunct2[OF ih]] by (simp_all only: k list.set image_insert comp_def Un_insert_left Un_insert_right)
  ultimately show ?case unfolding Let_def fold_simps by blast
qed simp

lemma active_keys_spec:
  assumes "\<forall>e \<in> set active. pl_model_key e \<noteq> None"
  shows "dict_wf (active_keys active)" and "fst ` set (active_keys active) = (the \<circ> pl_model_key) ` set active"
    and "\<forall>mk e. (mk, e) \<in> set (active_keys active) \<longrightarrow> e \<in> set active \<and> pl_model_key e = Some mk"
proof -
  have f: "dict_wf (active_keys active) \<and> fst ` set (active_keys active) = fst ` set [] \<union> (the \<circ> pl_model_key) ` set active \<and>
      (\<forall>mk e. (mk, e) \<in> set (active_keys active) \<longrightarrow> pl_model_key e = Some mk \<and> (e \<in> set active \<or> (mk, e) \<in> set []))"
    using active_keys_fold[of "[]" active] assms unfolding active_keys_def Let_def by simp
  then show "dict_wf (active_keys active)" "fst ` set (active_keys active) = (the \<circ> pl_model_key) ` set active"
    "\<forall>mk e. (mk, e) \<in> set (active_keys active) \<longrightarrow> e \<in> set active \<and> pl_model_key e = Some mk" by simp_all
qed

lemma filter_active_sub: "filter_active es now = Inr active \<Longrightarrow> set active \<subseteq> set es"
  by (induction es arbitrary: active) (auto simp: bind_sum_Inr split: if_splits)

definition prev_keys :: "reconcile_state option \<Rightarrow> model_key list" where
  "prev_keys st = (case st of None \<Rightarrow> [] | Some x \<Rightarrow> rc_prev_model_keys x)"

definition keys_of :: "schedule_event list \<Rightarrow> model_key set" where
  "keys_of active = (the \<circ> pl_model_key) ` set active"

lemma pass_cases:
  assumes valid: "valid_store es" and act: "filter_active es now = Inr active"
    and run: "reconcile_locked evict_call deploy_call stat now force es st = Inr oc"
    and some: "hot_model_keys stat \<noteq> None \<or> force"
  defines "E \<equiv> to_evict (prev_keys st) (active_keys active)"
    and "D \<equiv> to_deploy force (prev_keys st) (hot_model_keys stat) (active_keys active)"
  shows "if E \<noteq> [] \<and> (\<exists>t. evict_call E = Inl t) then oc_calls oc = [EvictCall E] \<and> oc_state oc = st \<and> rr_evicted (oc_result oc) = []
    else oc_calls oc = (if E = [] then [] else [EvictCall E]) @ (if D = [] then [] else [DeployCall (map (spec_from_event \<circ> snd) D)]) \<and>
      prev_keys (oc_state oc) = map fst (active_keys active) \<and> rr_evicted (oc_result oc) = E"
proof -
  note run' = run[unfolded reconcile_locked_def store_list_valid[OF valid] bind_sum_simps act Let_def, folded prev_keys_def, folded E_def D_def]
  show ?thesis
  proof (cases "E = [] \<and> D = []")
    case True
    then show ?thesis using run' some by (auto simp: prev_keys_def)
  next
    case False
    then show ?thesis using run' some
      by (cases "evict_call E"; cases "deploy_call (map (spec_from_event \<circ> snd) D)"; cases "E = []"; cases "D = []") (auto simp: prev_keys_def)
  qed
qed

lemma to_evict_spec:
  "set (to_evict prev new) = set prev - fst ` set new" "sorted (to_evict prev new)" "distinct (to_evict prev new)"
  by (auto simp: to_evict_def)

lemma to_deploy_spec:
  fixes force :: bool and prev :: "model_key list" and h :: "model_key list option"
  assumes "\<forall>e \<in> set active. pl_model_key e \<noteq> None"
  defines "D \<equiv> to_deploy force prev h (active_keys active)"
  shows "distinct (map fst D)"
    and "fst ` set D = {mk \<in> keys_of active. force \<or> mk \<notin> set prev \<or> mk \<notin> set (case h of Some x \<Rightarrow> x | None \<Rightarrow> [])}"
    and "\<forall>mk e. (mk, e) \<in> set D \<longrightarrow> e \<in> set active \<and> pl_model_key e = Some mk"
proof -
  note ks = active_keys_spec[OF assms(1)]
  have "map fst (filter (\<lambda>(mk, _). P mk) d) = filter P (map fst d)" for P and d :: "(model_key, schedule_event) dict"
    by (induction d) auto
  then show "distinct (map fst D)" using ks(1) by (simp add: D_def to_deploy_def dict_wf_def)
  have "fst ` set (filter (\<lambda>(mk, _). P mk) d) = {mk \<in> fst ` set d. P mk}" for P and d :: "(model_key, schedule_event) dict"
    by force
  then show "fst ` set D = {mk \<in> keys_of active. force \<or> mk \<notin> set prev \<or> mk \<notin> set (case h of Some x \<Rightarrow> x | None \<Rightarrow> [])}"
    using ks(2) by (simp add: D_def to_deploy_def keys_of_def)
  show "\<forall>mk e. (mk, e) \<in> set D \<longrightarrow> e \<in> set active \<and> pl_model_key e = Some mk"
    using ks(3) by (auto simp: D_def to_deploy_def split: if_splits)
qed


definition ex_event :: "string \<Rightarrow> string \<Rightarrow> datetime \<Rightarrow> datetime option \<Rightarrow> schedule_event" where
  "ex_event i mk from till =
     payload.extend ((ex_payload from till)\<lparr>pl_model_key := Some mk\<rparr>)
       \<lparr>ev_id = i, ev_created_at = Aware 0, ev_updated_at = Aware 0, ev_last_status = None, ev_last_error = None\<rparr>"

definition ex_recorded :: "model_key list \<Rightarrow> reconcile_state option" where
  "ex_recorded mks = Some \<lparr>rc_prev_model_keys = mks, rc_active_count = length mks, rc_last_run = Aware 0\<rparr>"


section \<open>Runs of passes\<close>

text \<open>What one pass of the job meets: the controller's answers, the time, the operator's \<open>force\<close> and the
  schedule. A pass that raises leaves the job's file as it was.\<close>

record meeting =
  mt_evict :: "model_key list \<Rightarrow> string + unit"
  mt_deploy :: "raw_spec list \<Rightarrow> string + deploy_entry list"
  mt_status :: "string + (string, app_status) dict"
  mt_now :: datetime
  mt_force :: bool
  mt_events :: "schedule_event list"

definition pass :: "meeting \<Rightarrow> reconcile_state option \<Rightarrow> sched_error + outcome" where
  "pass m st = reconcile_locked (mt_evict m) (mt_deploy m) (mt_status m) (mt_now m) (mt_force m) (mt_events m) st"

fun passes :: "meeting list \<Rightarrow> reconcile_state option \<Rightarrow> (meeting \<times> outcome) list \<times> reconcile_state option" where
  "passes [] st = ([], st)"
| "passes (m # ms) st =
     (case pass m st of
        Inl _ \<Rightarrow> passes ms st
      | Inr oc \<Rightarrow> (let (ocs, st') = passes ms (oc_state oc) in ((m, oc) # ocs, st')))"

abbreviation recorded :: "reconcile_state option \<Rightarrow> model_key set" where
  "recorded st \<equiv> set (prev_keys st)"

abbreviation evicted_by :: "outcome \<Rightarrow> model_key set" where
  "evicted_by oc \<equiv> set (rr_evicted (oc_result oc))"

lemma pass_account:
  assumes "pass m st = Inr oc"
  shows "recorded st \<subseteq> recorded (oc_state oc) \<union> evicted_by oc"
    and "set (rr_deployed (oc_result oc)) \<subseteq> recorded (oc_state oc)"
    and "rr_evicted (oc_result oc) \<noteq> [] \<longrightarrow> mt_evict m (rr_evicted (oc_result oc)) = Inr ()"
proof -
  from assms obtain evs active where e: "store_list (mt_events m) = Inr evs" "filter_active evs (mt_now m) = Inr active"
    by (auto simp: pass_def reconcile_locked_def bind_sum_Inr)
  define E where "E = to_evict (prev_keys st) (active_keys active)"
  define D where "D = to_deploy (mt_force m) (prev_keys st) (hot_model_keys (mt_status m)) (active_keys active)"
  note run = assms[unfolded pass_def reconcile_locked_def e bind_sum_simps Let_def, folded prev_keys_def, folded E_def D_def]
  have old: "recorded st \<subseteq> fst ` set (active_keys active) \<union> set E"
    using to_evict_spec(1)[of "prev_keys st" "active_keys active"] by (auto simp: E_def)
  have new: "fst ` set D \<subseteq> fst ` set (active_keys active)" by (auto simp: D_def to_deploy_def split: if_splits)
  have "oc_state oc = st \<and> rr_evicted (oc_result oc) = [] \<and> rr_deployed (oc_result oc) = [] \<or>
    prev_keys (oc_state oc) = map fst (active_keys active) \<and> rr_evicted (oc_result oc) = E \<and>
    (rr_deployed (oc_result oc) = [] \<or> rr_deployed (oc_result oc) = map fst D) \<and> (E \<noteq> [] \<longrightarrow> mt_evict m E = Inr ())"
  proof (cases "hot_model_keys (mt_status m) = None \<and> \<not> mt_force m \<or> E = [] \<and> D = []")
    case True
    then show ?thesis using run by (auto simp: prev_keys_def split: if_splits)
  next
    case False
    then show ?thesis using run
      by (cases "E = []"; cases "D = []"; cases "mt_evict m E"; cases "mt_deploy m (map (spec_from_event \<circ> snd) D)")
        (auto simp: prev_keys_def split: if_splits)
  qed
  then show "recorded st \<subseteq> recorded (oc_state oc) \<union> evicted_by oc"
    "set (rr_deployed (oc_result oc)) \<subseteq> recorded (oc_state oc)"
    "rr_evicted (oc_result oc) \<noteq> [] \<longrightarrow> mt_evict m (rr_evicted (oc_result oc)) = Inr ()"
    using old new by (elim disjE conjE; simp)+
qed

lemma passes_account:
  "passes ms st = (ocs, st') \<Longrightarrow> recorded st \<subseteq> recorded st' \<union> (\<Union>(_, oc) \<in> set ocs. evicted_by oc)"
proof (induction ms arbitrary: st ocs)
  case (Cons m ms)
  show ?case
  proof (cases "pass m st")
    case (Inr oc)
    with Cons.prems obtain rest where r: "passes ms (oc_state oc) = (rest, st')" "ocs = (m, oc) # rest"
      by (auto split: prod.splits)
    show ?thesis using Cons.IH[OF r(1)] pass_account(1)[OF Inr] r(2) by auto
  qed (use Cons in auto)
qed auto

lemma passes_split:
  "passes ms st = (before @ (m, oc) # later, st') \<Longrightarrow> \<exists>ms1 st1. pass m st1 = Inr oc \<and> passes ms1 (oc_state oc) = (later, st')"
proof (induction ms arbitrary: st before)
  case (Cons x ms)
  show ?case
  proof (cases "pass x st")
    case (Inr oc')
    then obtain rest where r: "passes ms (oc_state oc') = (rest, st')" "before @ (m, oc) # later = (x, oc') # rest"
      using Cons.prems by (auto split: prod.splits)
    show ?thesis
    proof (cases before)
      case Nil
      then show ?thesis using r Inr by auto
    next
      case (Cons y ys)
      then show ?thesis using r Cons.IH[of "oc_state oc'" ys] by auto
    qed
  qed (use Cons in auto)
qed simp

text \<open>C38. No scheduled model is left behind: over any run of passes, with any answers of the controller, any
  times and any changes of the schedule in between, every model a pass deployed and every model it
  recorded is, at the end, still recorded or was evicted by a later pass, in a call that returned.\<close>

theorem scheduled_models_are_evicted:
  assumes "passes ms st = (before @ (m, oc) # later, st')"
  shows "set (rr_deployed (oc_result oc)) \<subseteq> recorded (oc_state oc) \<and>
    (\<forall>mk \<in> recorded (oc_state oc). mk \<in> recorded st' \<or>
       (\<exists>(m', oc') \<in> set later. mk \<in> evicted_by oc' \<and> mt_evict m' (rr_evicted (oc_result oc')) = Inr ()))"
proof -
  have calls: "mt_evict m' (rr_evicted (oc_result oc')) = Inr ()"
    if "(m', oc') \<in> set later" "mk \<in> evicted_by oc'" for m' oc' mk
  proof -
    from that(1) obtain l1 l2 where "later = l1 @ (m', oc') # l2" by (meson split_list)
    with assms passes_split[of ms st "before @ (m, oc) # l1" m' oc' l2 st'] obtain st1 where "pass m' st1 = Inr oc'" by auto
    then show ?thesis using pass_account(3) that(2) by fastforce
  qed
  from passes_split[OF assms] obtain ms1 st1 where p: "pass m st1 = Inr oc" "passes ms1 (oc_state oc) = (later, st')" by blast
  show ?thesis using pass_account(2)[OF p(1)] passes_account[OF p(2)] calls by fast
qed

definition ex_meeting :: "rat \<Rightarrow> meeting" where
  "ex_meeting t = \<lparr>mt_evict = \<lambda>_. Inr (), mt_deploy = \<lambda>_. Inr [], mt_status = Inr [], mt_now = Aware t, mt_force = False,
     mt_events = [ex_event ''1'' ''m'' (Aware 0) (Some (Aware 3))]\<rparr>"

theorem scheduled_models_are_evicted_witness:
  "\<exists>oc oc' st'. passes [ex_meeting 1, ex_meeting 4] None = ([(ex_meeting 1, oc), (ex_meeting 4, oc')], st') \<and>
     rr_deployed (oc_result oc) = [''m''] \<and> ''m'' \<in> evicted_by oc'"
proof -
  have "(case pass (ex_meeting 1) None of Inl _ \<Rightarrow> False
      | Inr oc \<Rightarrow> (case pass (ex_meeting 4) (oc_state oc) of Inl _ \<Rightarrow> False
          | Inr oc' \<Rightarrow> rr_deployed (oc_result oc) = [''m''] \<and> prev_keys (oc_state oc') = []))" by code_simp
  then obtain oc oc' where "pass (ex_meeting 1) None = Inr oc" "pass (ex_meeting 4) (oc_state oc) = Inr oc'"
    and d: "rr_deployed (oc_result oc) = [''m'']" "prev_keys (oc_state oc') = []" by (auto split: sum.splits)
  then have r: "passes [ex_meeting 1, ex_meeting 4] None = ([(ex_meeting 1, oc), (ex_meeting 4, oc')], oc_state oc')" by simp
  have "''m'' \<in> evicted_by oc'"
    using scheduled_models_are_evicted[of "[ex_meeting 1, ex_meeting 4]" None "[]" "ex_meeting 1" oc "[(ex_meeting 4, oc')]" "oc_state oc'"]
      r d by auto
  with r d show ?thesis by blast
qed

section \<open>Times without an offset\<close>

lemma filter_active_naive:
  assumes "e \<in> set es" and "pl_start e = Naive t"
  shows "filter_active es (Aware now) = Inl CompareError"
proof -
  have e: "is_active x (Aware now) = Inl CompareError \<or> (\<exists>b. is_active x (Aware now) = Inr b)" for x
    by (cases "pl_start x"; cases "pl_end x"; cases "the (pl_end x)") (auto simp: is_active_def)
  from assms(1) show ?thesis
  proof (induction es)
    case (Cons x xs)
    show ?case
    proof (cases "x = e")
      case True
      then show ?thesis using assms(2) by (simp add: is_active_def)
    next
      case False
      then have "filter_active xs (Aware now) = Inl CompareError" using Cons by simp
      then show ?thesis using e[of x] by auto
    qed
  qed simp
qed

text \<open>The create route takes a start without a time zone, and from then on, as long as the event is in the
  schedule, every pass raises before it does anything: no model is evicted or deployed and the job's
  file does not change.\<close>

theorem naive_start_blocks_reconcile:
  assumes "create_event get_model_key i now p es = Inr (e, es')" and "pl_start p = Naive t"
    and "\<forall>m \<in> set ms. valid_store (mt_events m) \<and> e \<in> set (mt_events m) \<and> (\<exists>n. mt_now m = Aware n)"
  shows "passes ms st = ([], st)"
proof -
  have "pl_start e = Naive t"
    using assms(1,2) by (auto simp: create_event_def store_create_def canonicalize_def bind_sum_Inr
      dest!: model_validate_Inr split: sum.splits)
  then have "pass m st = Inl CompareError" if "m \<in> set ms" for m
    using assms(3) that filter_active_naive
    by (fastforce simp: pass_def reconcile_locked_def store_list_valid)
  then show ?thesis by (induction ms) auto
qed

theorem naive_start_blocks_reconcile_witness:
  "\<exists>e es'. create_event ex_mint ''9'' (Aware 0) (ex_payload (Naive 0) None) [] = Inr (e, es') \<and>
     passes [(ex_meeting 1)\<lparr>mt_events := e # mt_events (ex_meeting 1)\<rparr>] None = ([], None) \<and> snd (passes [ex_meeting 1] None) \<noteq> None"
proof -
  let ?m = "\<lambda>e. (ex_meeting 1)\<lparr>mt_events := e # mt_events (ex_meeting 1)\<rparr>"
  have "(case create_event ex_mint ''9'' (Aware 0) (ex_payload (Naive 0) None) [] of
      Inr (e, es') \<Rightarrow> valid_store (mt_events (?m e)) | Inl _ \<Rightarrow> False)" by code_simp
  then obtain e es' where c: "create_event ex_mint ''9'' (Aware 0) (ex_payload (Naive 0) None) [] = Inr (e, es')"
    "valid_store (mt_events (?m e))" by (auto split: sum.splits)
  have "passes [?m e] None = ([], None)"
    by (rule naive_start_blocks_reconcile[OF c(1), of 0]) (use c(2) in \<open>auto simp: ex_payload_def ex_meeting_def\<close>)
  moreover have "snd (passes [ex_meeting 1] None) \<noteq> None" by code_simp
  ultimately show ?thesis using c(1) by blast
qed

end
