(* ===== verification/Model_Util.thy ===== *)
theory Model_Util
  imports Dispatcher "HOL-Library.Sublist"
begin

text \<open>
  What the model actor uses (\<open>modeling/util.py\<close>, \<open>common/errors.py\<close>, the publish limit of
  \<open>providers/redis.py\<close>): the stream that turns prints into LOG responses, the memory caps and the check of
  where the weights are, the measurements a response carries, and the failures a caller is told. What
  torch and CUDA answer are arguments, an exception of theirs being \<open>None\<close>; the amount in an allocator's
  refusal is read as an exact decimal. Regular expressions are written out for ASCII text.
\<close>

section \<open>Failures\<close>

text \<open>An exception as \<open>run\<close> tells them apart: a \<open>RequestError\<close>, a \<open>CachedActorError\<close>, torch's out-of-memory
  error, any other \<open>Exception\<close>, and what is no \<open>Exception\<close> (\<open>SystemExit\<close>).\<close>

datatype failure_kind = RequestErr | CachedErr | OomErr | PlainErr | NotException

record failure =
  fl_kind :: failure_kind
  fl_type :: string
  fl_text :: string

definition py_in :: "string \<Rightarrow> string \<Rightarrow> bool" where
  "py_in pat s \<longleftrightarrow> sublist pat s"

definition is_unrecoverable_cuda_error :: "failure \<Rightarrow> bool" where
  "is_unrecoverable_cuda_error f \<longleftrightarrow>
     list_ex (\<lambda>marker. py_in marker (fl_text f))
       [''device-side assert triggered'', ''an illegal memory access was encountered'', ''unspecified launch failure'']"

text \<open>\<open>PayloadError\<close>, \<open>ArchitectureMismatchError\<close> and the \<open>deserialize\<close> that raises them.\<close>

definition em_dash :: string where
  "em_dash = map char_of [226 :: nat, 128, 148]"

definition newline :: string where
  "newline = [char_of (10 :: nat)]"

definition payload_error :: "string \<Rightarrow> string \<Rightarrow> failure" where
  "payload_error cause_type cause =
     \<lparr>fl_kind = RequestErr, fl_type = ''PayloadError'',
      fl_text = ''Your request payload could not be read ('' @ cause_type @ '': '' @ cause @ ''). It may be truncated or '' @
        ''corrupted in transit, or compressed differently than the request declared. Re-sending it usually '' @
        ''resolves this; if it persists, check that the client and server nnsight versions match.''\<rparr>"

definition architecture_mismatch :: "string \<Rightarrow> failure" where
  "architecture_mismatch path =
     \<lparr>fl_kind = RequestErr, fl_type = ''ArchitectureMismatchError'',
      fl_text = ''The model architecture on this server doesn't match the one your code was traced against: it has no module at '' @
        [char_of (39 :: nat)] @ path @ [char_of (39 :: nat)] @ ''.'' @ newline @ newline @
        ''This usually means the package versions differ between your machine and the server '' @ em_dash @
        '' most often `transformers`, which determines a checkpoint's module layout. Compare the two environments with:'' @
        newline @ newline @ ''    from nnsight import ndif'' @ newline @ ''    print(ndif.compare())'' @ newline @ newline @
        ''then align any mismatch it flags under nnsight / transformers / torch and re-run.''\<rparr>"

datatype load_error = UnknownPersistentId string | OtherLoad string string | LoadExit failure

fun deserialize_failure :: "load_error \<Rightarrow> failure" where
  "deserialize_failure (UnknownPersistentId path) = architecture_mismatch path"
| "deserialize_failure (OtherLoad t e) = payload_error t e"
| "deserialize_failure (LoadExit f) = f\<lparr>fl_kind := NotException\<rparr>"

section \<open>Prints\<close>

text \<open>\<open>LogStream\<close>: \<open>drain\<close> is the loop of \<open>write\<close>.\<close>

definition nl :: char where
  "nl = char_of (10 :: nat)"

function drain :: "string \<Rightarrow> string list \<times> string" where
  "drain buf =
     (if nl \<in> set buf
      then (case drain (tl (dropWhile (\<lambda>c. c \<noteq> nl) buf)) of
              (lines, rest) \<Rightarrow> (takeWhile (\<lambda>c. c \<noteq> nl) buf # lines, rest))
      else ([], buf))"
  by pat_completeness auto
termination
proof (relation "measure length", simp)
  fix buf :: string
  assume "nl \<in> set buf"
  then have "dropWhile (\<lambda>c. c \<noteq> nl) buf \<noteq> []" by (auto simp: dropWhile_eq_Nil_conv)
  moreover have "length (dropWhile (\<lambda>c. c \<noteq> nl) buf) \<le> length buf" by (rule length_dropWhile_le)
  ultimately show "(tl (dropWhile (\<lambda>c. c \<noteq> nl) buf), buf) \<in> measure length" by (cases "dropWhile (\<lambda>c. c \<noteq> nl) buf") auto
qed

declare drain.simps [simp del]

definition ls_write :: "string \<Rightarrow> string \<Rightarrow> string list \<times> string" where
  "ls_write buf written = drain (buf @ written)"

definition ls_flush :: "string \<Rightarrow> string list \<times> string" where
  "ls_flush buf = (if buf \<noteq> [] then ([buf], []) else ([], []))"

section \<open>Memory\<close>

text \<open>\<open>set_process_limits\<close> and \<open>reset_process_limits\<close>: the fraction of each card this process may take.\<close>

definition mem_fraction :: "(int \<Rightarrow> int) \<Rightarrow> int \<Rightarrow> int \<Rightarrow> rat" where
  "mem_fraction total_memory gpu_id mem_bytes = min 1 (max 0 (of_int mem_bytes / of_int (total_memory gpu_id)))"

definition set_process_limits :: "(int \<Rightarrow> int) \<Rightarrow> (int, int) dict \<Rightarrow> (int, rat) dict \<Rightarrow> (int, rat) dict" where
  "set_process_limits total_memory gpus limits =
     fold (\<lambda>(gpu_id, mem_bytes). dict_set gpu_id (mem_fraction total_memory gpu_id mem_bytes)) gpus limits"

definition reset_process_limits :: "(int, int) dict \<Rightarrow> (int, rat) dict \<Rightarrow> (int, rat) dict" where
  "reset_process_limits gpus limits = fold (\<lambda>(gpu_id, _). dict_set gpu_id 1) gpus limits"

definition build_max_memory :: "(int \<Rightarrow> int) \<Rightarrow> (int, int) dict \<Rightarrow> (int, int) dict" where
  "build_max_memory total_memory gpus =
     fold (\<lambda>(gpu_id, mem_bytes). dict_set gpu_id (min mem_bytes (total_memory gpu_id))) gpus []"

datatype device = Meta | Cuda int | OtherDevice string

datatype placement_error = OnMeta string | NotCuda string device | Outside string int | NothingOn "int list"

text \<open>The walk over the parameters and buffers of \<open>verify_device_placement\<close>.\<close>

fun placement_walk :: "int set \<Rightarrow> (string \<times> device) list \<Rightarrow> int set \<Rightarrow> placement_error + int set" where
  "placement_walk expected [] seen = Inr seen"
| "placement_walk expected ((name, d) # ts) seen =
     (case d of
        Meta \<Rightarrow> Inl (OnMeta name)
      | OtherDevice t \<Rightarrow> Inl (NotCuda name d)
      | Cuda i \<Rightarrow> if i \<notin> expected then Inl (Outside name i) else placement_walk expected ts (insert i seen))"

definition verify_device_placement :: "(string \<times> device) list \<Rightarrow> int list \<Rightarrow> placement_error + unit" where
  "verify_device_placement tensors gpu_ids =
     bind_sum (placement_walk (set gpu_ids) tensors {}) (\<lambda>seen.
       let missing = sort (remdups (filter (\<lambda>i. i \<notin> seen) gpu_ids)) in
       if missing \<noteq> [] then Inl (NothingOn missing) else Inr ())"

section \<open>What a request cost\<close>

definition gpu_baselines :: "(int \<Rightarrow> int option) \<Rightarrow> (int, int) dict \<Rightarrow> (int, int) dict" where
  "gpu_baselines memory_allocated gpus =
     fold (\<lambda>(gpu_id, _) d. case memory_allocated gpu_id of None \<Rightarrow> d | Some n \<Rightarrow> dict_set gpu_id n d) gpus []"

definition gpu_peaks :: "(int \<Rightarrow> int option) \<Rightarrow> (int, int) dict \<Rightarrow> (int, int \<times> int) dict" where
  "gpu_peaks max_memory_allocated baselines =
     fold (\<lambda>(gpu_id, base) d. case max_memory_allocated gpu_id of None \<Rightarrow> d | Some n \<Rightarrow> dict_set gpu_id (base, n) d) baselines []"

definition is_oom :: "failure \<Rightarrow> bool" where
  "is_oom f \<longleftrightarrow> fl_kind f = OomErr \<or> py_in ''CUDA out of memory'' (fl_text f)"

text \<open>\<open>re.search\<close>: the first place where a match starts.\<close>

fun search :: "(string \<Rightarrow> 'a option) \<Rightarrow> string \<Rightarrow> 'a option" where
  "search here [] = here []"
| "search here (c # cs) = (case here (c # cs) of Some x \<Rightarrow> Some x | None \<Rightarrow> search here cs)"

definition upper :: "char \<Rightarrow> char" where
  "upper c = (let n = of_char c :: nat in if 97 \<le> n \<and> n \<le> 122 then char_of (n - 32) else c)"

definition digit :: "char \<Rightarrow> bool" where
  "digit c \<longleftrightarrow> (let n = of_char c :: nat in 48 \<le> n \<and> n < 58)"

definition opt_char :: "string \<Rightarrow> string \<Rightarrow> string \<times> string" where
  "opt_char cs s = (case s of c # rest \<Rightarrow> if upper c \<in> set cs then ([upper c], rest) else ([], s) | [] \<Rightarrow> ([], []))"

text \<open>\<open>[KMGT]?i?B\<close>, without regard to case, in upper case.\<close>

definition unit_here :: "string \<Rightarrow> string option" where
  "unit_here s =
     (case opt_char ''KMGT'' s of (a, s1) \<Rightarrow> case opt_char ''I'' s1 of (b, s2) \<Rightarrow>
        (case opt_char ''B'' s2 of (c, _) \<Rightarrow> if c = [] then None else Some (a @ b @ c)))"

text \<open>\<open>_REFUSED\<close>: the two groups.\<close>

definition refused_here :: "string \<Rightarrow> (string \<times> string) option" where
  "refused_here s =
     (let pat = ''Tried to allocate ''; rest = drop (length pat) s; amount = takeWhile (\<lambda>c. digit c \<or> c = CHR ''.'') rest in
      if map upper (take (length pat) s) \<noteq> map upper pat \<or> amount = [] then None
      else map_option (\<lambda>u. (amount, u)) (unit_here (dropWhile space (drop (length amount) rest))))"

definition digits :: "string \<Rightarrow> nat" where
  "digits s = fold (\<lambda>c n. n * 10 + (of_char c - 48)) s 0"

text \<open>\<open>_ON_DEVICE\<close>\<close>

definition device_here :: "string \<Rightarrow> int option" where
  "device_here s =
     (let ds = takeWhile digit (drop 4 s) in if take 4 s = ''GPU '' \<and> ds \<noteq> [] then Some (int (digits ds)) else None)"

definition units :: "(string, int) dict" where
  "units = [(''B'', 1), (''KIB'', 1024), (''MIB'', 1024 ^ 2), (''GIB'', 1024 ^ 3), (''TIB'', 1024 ^ 4)]"

text \<open>\<open>float(s)\<close> of digits and dots: at least one digit, at most one dot.\<close>

definition py_float :: "string \<Rightarrow> rat option" where
  "py_float s =
     (let whole = takeWhile (\<lambda>c. c \<noteq> CHR ''.'') s; frac = tl (dropWhile (\<lambda>c. c \<noteq> CHR ''.'') s @ [CHR ''.'']) in
      if count_list s (CHR ''.'') \<le> 1 \<and> list_ex digit s
      then let f = takeWhile digit frac in Some (of_nat (digits whole) + of_nat (digits f) / 10 ^ length f)
      else None)"

text \<open>\<open>_refused_allocation\<close>; a \<open>float\<close> that fails raises \<open>ValueError\<close>.\<close>

definition refused_allocation :: "string \<Rightarrow> err_kind + (int option \<times> int) option" where
  "refused_allocation message =
     (case search refused_here message of
        None \<Rightarrow> Inr None
      | Some (amount, u) \<Rightarrow>
          (case map_of units u of
             None \<Rightarrow> Inr None
           | Some scale \<Rightarrow>
               (case py_float amount of
                  None \<Rightarrow> Inl ValueErr
                | Some x \<Rightarrow> Inr (Some (search device_here message, \<lfloor>x * of_int scale\<rfloor>)))))"

definition str_int :: "int \<Rightarrow> string" where
  "str_int i = (if i < 0 then ''-'' @ dec (nat (- i)) else dec (nat i))"

definition alloc_shortfall :: "(int \<Rightarrow> int option) \<Rightarrow> failure \<Rightarrow> (int, int) dict \<Rightarrow> err_kind + (string \<times> int) option" where
  "alloc_shortfall max_memory_reserved f gpus =
     bind_sum (refused_allocation (fl_text f)) (\<lambda>refusal.
       case refusal of
         None \<Rightarrow> Inr None
       | Some (named, requested) \<Rightarrow>
           (case (case named of Some d \<Rightarrow> Some d | None \<Rightarrow> (case gpus of [(d, _)] \<Rightarrow> Some d | _ \<Rightarrow> None)) of
              None \<Rightarrow> Inr None
            | Some d \<Rightarrow>
                (case (map_of gpus d, max_memory_reserved d) of
                   (Some budget, Some reserved) \<Rightarrow> Inr (Some (str_int d, max (requested - (budget - reserved)) 0))
                 | _ \<Rightarrow> Inr None)))"

text \<open>\<open>round(x, 4)\<close>\<close>

definition round4 :: "rat \<Rightarrow> rat" where
  "round4 x = round2 (100 * x) / 100"

record meta =
  mt_runtime :: "rat option"
  mt_max_memory_usage :: int
  mt_max_mem_by_gpu :: "(string, int) dict"
  mt_max_mem_pct_by_gpu :: "(string, rat) dict"
  mt_alloc_shortfall_by_gpu :: "(string \<times> int) option option" \<comment> \<open>outer \<open>None\<close>: the key is absent\<close>

definition used_bytes :: "int \<times> int \<Rightarrow> int" where
  "used_bytes bp = max (snd bp - fst bp) 0"

definition used_pct :: "(int, int) dict \<Rightarrow> int \<Rightarrow> int \<times> int \<Rightarrow> rat" where
  "used_pct gpus gpu_id bp =
     (let headroom = dict_get gpus gpu_id 0 - fst bp in
      if headroom > 0 then round2 (of_int (used_bytes bp) / of_int headroom * 100) else 0)"

definition request_meta ::
  "(int \<Rightarrow> int option) \<Rightarrow> (int, int \<times> int) dict \<Rightarrow> (int, int) dict \<Rightarrow> rat option \<Rightarrow> failure option \<Rightarrow> err_kind + meta" where
  "request_meta max_memory_reserved per_device gpus exec_ms exception =
     (let by_gpu = fold (\<lambda>(g, bp). dict_set (str_int g) (used_bytes bp)) per_device [];
          pct = fold (\<lambda>(g, bp). dict_set (str_int g) (used_pct gpus g bp)) per_device [];
          m = \<lparr>mt_runtime = map_option (\<lambda>t. round4 (t / 1000)) exec_ms,
               mt_max_memory_usage = (if by_gpu = [] then 0 else Max (set (map snd by_gpu))),
               mt_max_mem_by_gpu = by_gpu, mt_max_mem_pct_by_gpu = pct, mt_alloc_shortfall_by_gpu = None\<rparr> in
      case exception of
        None \<Rightarrow> Inr m
      | Some f \<Rightarrow>
          if is_oom f
          then bind_sum (alloc_shortfall max_memory_reserved f gpus) (\<lambda>s. Inr (m\<lparr>mt_alloc_shortfall_by_gpu := Some s\<rparr>))
          else Inr m)"

section \<open>The publish limit\<close>

text \<open>\<open>str.split()\<close>\<close>

function fields_of :: "string \<Rightarrow> string list" where
  "fields_of s =
     (let t = dropWhile space s in
      if t = [] then [] else takeWhile (\<lambda>c. \<not> space c) t # fields_of (dropWhile (\<lambda>c. \<not> space c) t))"
  by pat_completeness auto
termination
proof (relation "measure length", simp)
  fix s t :: string
  assume t: "t = dropWhile space s" "t \<noteq> []"
  from t(2) obtain c cs where c: "t = c # cs" by (meson neq_Nil_conv)
  then have "\<not> space c" using t(1) hd_dropWhile[of space s] by auto
  then have "length (dropWhile (\<lambda>c. \<not> space c) t) < length t" using c by (simp add: le_imp_less_Suc length_dropWhile_le)
  moreover have "length t \<le> length s" using t(1) by (simp add: length_dropWhile_le)
  ultimately show "(dropWhile (\<lambda>c. \<not> space c) t, s) \<in> measure length" by simp
qed

declare fields_of.simps [simp del]

text \<open>\<open>_pubsub_limits\<close>: \<open>None\<close> when it raises. \<open>hard\<close> and \<open>soft\<close> limit.\<close>

definition pubsub_limits :: "string \<Rightarrow> (int \<times> int) option" where
  "pubsub_limits raw =
     (case dropWhile (\<lambda>w. w \<noteq> ''pubsub'') (fields_of raw) of
        _ # h # s # _ \<Rightarrow> (case (int10 h, int10 s) of (Some a, Some b) \<Rightarrow> Some (a, b) | _ \<Rightarrow> None)
      | _ \<Rightarrow> None)"

definition stock_pubsub_soft_limit_bytes :: int where
  "stock_pubsub_soft_limit_bytes = 8 * 1024 * 1024"

definition unlimited_pubsub_ceiling_bytes :: int where
  "unlimited_pubsub_ceiling_bytes = 20 * 1024 * 1024"

text \<open>\<open>answer\<close> is the value of the server's setting, \<open>None\<close> when reading it failed.\<close>

definition derive_max_publish_bytes :: "string option \<Rightarrow> int" where
  "derive_max_publish_bytes answer =
     (case Option.bind answer pubsub_limits of
        None \<Rightarrow> stock_pubsub_soft_limit_bytes
      | Some (hard, soft) \<Rightarrow>
          (case (if soft > 0 then [soft] else []) @ (if hard > 0 then [hard div 2] else []) of
             [] \<Rightarrow> unlimited_pubsub_ceiling_bytes
           | b # bs \<Rightarrow> fold min bs b))"

definition max_publish_bytes :: "int option \<Rightarrow> string option \<Rightarrow> int option \<times> int" where
  "max_publish_bytes memo answer =
     (let n = (case memo of Some m \<Rightarrow> m | None \<Rightarrow> derive_max_publish_bytes answer) in (Some n, n))"

end
