(* ===== verification/Model_Actor.thy ===== *)
theory Model_Actor
  imports Model_Util
begin

text \<open>
  \<open>modeling/base.py\<close>: the model actor of one replica, as a machine whose steps are what its event loop
  runs between two awaits, the starts and returns of the thread a block executes on, and what that
  thread prints. A replica's worker has one \<open>run\<close> outstanding at a time. What the request loads, runs
  and saves is nnsight's and torch's, and comes in with the events; so do the measurements and the
  answers of the object store (\<open>world\<close>). Publishing a response and \<open>cleanup\<close> do not fail.
\<close>

section \<open>State\<close>

datatype job_state = Starting | Executing | Finished "failure + string"

text \<open>Where \<open>run\<close> is suspended: while the request's environment is set, or in the race.\<close>

datatype run_phase = Preparing | Racing job_state

record running =
  rn_request :: request
  rn_compress :: bool
  rn_baselines :: "(int, int) dict"
  rn_phase :: run_phase
  rn_out :: string
  rn_err :: string

record actor =
  ac_model_key :: model_key
  ac_execution_timeout :: "rat option"
  ac_gpu_mem :: "(int, int) dict"
  ac_tensors :: "(string \<times> device) list"
  ac_limits :: "(int, rat) dict"
  ac_cached :: bool
  ac_kill_switch :: bool
  ac_kill_reason :: "string option"
  ac_execution_ident :: bool \<comment> \<open>whether a thread's id is recorded\<close>
  ac_max_publish :: "int option"
  ac_run :: "running option"
  ac_up :: bool

datatype result_data = NoData | Inline string | Url string

text \<open>What a step shows: responses, metrics, the object stored, the interruption of the thread, the kill of
  the process, and how \<open>run\<close> ended.\<close>

datatype emission =
    Told request req_status string result_data "meta option"
  | Reported request string
  | GpuMem "(int, int \<times> int) dict"
  | ResponseSize nat bool
  | Stored string string
  | Interrupted
  | Restarted request
  | Returned request
  | Raised request err_kind

record world =
  wd_exec_ms :: rat
  wd_peak :: "int \<Rightarrow> int option"
  wd_reserved :: "int \<Rightarrow> int option"
  wd_buffer_limit :: "string option"
  wd_zstd :: "string \<Rightarrow> string"
  wd_put :: "string \<Rightarrow> string \<Rightarrow> failure option"
  wd_presign :: "string \<Rightarrow> failure + string"
  wd_traceback :: "failure \<Rightarrow> string"

section \<open>Loading\<close>

text \<open>One card is given as a device, several as a map of what each may hold.\<close>

datatype load_call = OneDevice int | Balanced "(int, int) dict"

datatype load_failure = LoadFailed failure | Misplaced placement_error

definition load_placement :: "(int \<Rightarrow> int) \<Rightarrow> (int, int) dict \<Rightarrow> load_call" where
  "load_placement total_memory gpus =
     (case gpus of [(i, _)] \<Rightarrow> OneDevice i | _ \<Rightarrow> Balanced (build_max_memory total_memory gpus))"

definition load_from_disk ::
  "(int \<Rightarrow> int) \<Rightarrow> (load_call \<Rightarrow> failure + (string \<times> device) list) \<Rightarrow> (int, int) dict \<Rightarrow> load_failure + (string \<times> device) list" where
  "load_from_disk total_memory from_model_key gpus =
     (case from_model_key (load_placement total_memory gpus) of
        Inl f \<Rightarrow> Inl (LoadFailed f)
      | Inr tensors \<Rightarrow>
          (case verify_device_placement tensors (map fst gpus) of Inl e \<Rightarrow> Inl (Misplaced e) | Inr _ \<Rightarrow> Inr tensors))"

definition new_actor ::
  "(int \<Rightarrow> int) \<Rightarrow> (load_call \<Rightarrow> failure + (string \<times> device) list) \<Rightarrow> model_key \<Rightarrow> rat option \<Rightarrow> (int, int) dict \<Rightarrow> load_failure + actor" where
  "new_actor total_memory from_model_key mk timeout gpus =
     bind_sum (load_from_disk total_memory from_model_key gpus) (\<lambda>tensors.
       Inr \<lparr>ac_model_key = mk, ac_execution_timeout = timeout, ac_gpu_mem = gpus, ac_tensors = tensors,
            ac_limits = set_process_limits total_memory gpus [], ac_cached = False, ac_kill_switch = False,
            ac_kill_reason = None, ac_execution_ident = False, ac_max_publish = None, ac_run = None, ac_up = True\<rparr>)"

section \<open>Cancelling, parking and restoring\<close>

definition preempted :: string where
  "preempted = ''preempted''"

definition ac_cancel :: "string option \<Rightarrow> actor \<Rightarrow> actor" where
  "ac_cancel reason ac =
     (if ac_execution_ident ac then ac\<lparr>ac_kill_reason := reason, ac_kill_switch := True\<rparr> else ac)"

text \<open>\<open>moved\<close> is the failure of the move to the CPU, if any.\<close>

definition to_cache :: "failure option \<Rightarrow> actor \<Rightarrow> actor" where
  "to_cache moved ac =
     (let ac1 = ac_cancel (Some preempted) ac in
      case moved of
        Some _ \<Rightarrow> ac1
      | None \<Rightarrow>
          ac1\<lparr>ac_tensors := map (\<lambda>(n, _). (n, OtherDevice ''cpu'')) (ac_tensors ac1),
              ac_limits := reset_process_limits (ac_gpu_mem ac1) (ac_limits ac1), ac_cached := True\<rparr>)"

text \<open>\<open>placed\<close> is where accelerate put the tensors, or its failure.\<close>

definition from_cache ::
  "(int \<Rightarrow> int) \<Rightarrow> (int, int) dict \<Rightarrow> failure + (string \<times> device) list \<Rightarrow> actor \<Rightarrow> actor \<times> (load_failure + unit)" where
  "from_cache total_memory gpus placed ac =
     (let ac1 = ac\<lparr>ac_gpu_mem := gpus, ac_limits := set_process_limits total_memory gpus (ac_limits ac)\<rparr> in
      case placed of
        Inl f \<Rightarrow> (ac1, Inl (LoadFailed f))
      | Inr tensors \<Rightarrow>
          let ac2 = ac1\<lparr>ac_tensors := tensors\<rparr> in
          (case verify_device_placement tensors (map fst gpus) of
             Inl e \<Rightarrow> (ac2, Inl (Misplaced e))
           | Inr _ \<Rightarrow> (ac2\<lparr>ac_cached := False\<rparr>, Inr ())))"

section \<open>Executing\<close>

text \<open>\<open>execute\<close>, on the thread: read the request, run the block, serialize what it saved.\<close>

definition execute :: "load_error + 't \<Rightarrow> ('t \<Rightarrow> failure + 's) \<Rightarrow> ('s \<Rightarrow> failure + string) \<Rightarrow> failure + string" where
  "execute deserialized block save =
     (case deserialized of
        Inl e \<Rightarrow> Inl (deserialize_failure e)
      | Inr tracer \<Rightarrow> bind_sum (block tracer) save)"

definition format_error :: "(failure \<Rightarrow> string) \<Rightarrow> failure \<Rightarrow> string \<times> bool" where
  "format_error traceback f =
     (if fl_kind f = RequestErr then (fl_text f, False) else (traceback f, is_unrecoverable_cuda_error f))"

definition cleanup :: "actor \<Rightarrow> actor" where
  "cleanup ac = ac\<lparr>ac_kill_switch := False, ac_kill_reason := None, ac_execution_ident := False, ac_run := None\<rparr>"

text \<open>The \<open>finally\<close>: after a fatal failure the process is killed, and Ray starts a new one.\<close>

definition run_exit :: "request \<Rightarrow> bool \<Rightarrow> emission \<Rightarrow> actor \<Rightarrow> actor \<times> emission list" where
  "run_exit r fatal ending ac =
     (if fatal then (ac\<lparr>ac_run := None, ac_up := False\<rparr>, [Restarted r]) else (cleanup ac, [ending]))"

definition measured :: "world \<Rightarrow> actor \<Rightarrow> running \<Rightarrow> failure option \<Rightarrow> err_kind + meta" where
  "measured wd ac rn f =
     request_meta (wd_reserved wd) (gpu_peaks (wd_peak wd) (rn_baselines rn)) (ac_gpu_mem ac) (Some (wd_exec_ms wd)) f"

definition meta_of :: "err_kind + meta \<Rightarrow> meta option" where
  "meta_of m = (case m of Inl _ \<Rightarrow> None | Inr x \<Rightarrow> Some x)"

text \<open>The two \<open>except\<close> clauses; an exception in the second leaves \<open>run\<close> through the \<open>finally\<close>.\<close>

definition run_failed :: "world \<Rightarrow> running \<Rightarrow> failure \<Rightarrow> actor \<Rightarrow> actor \<times> emission list" where
  "run_failed wd rn f ac =
     (let r = rn_request rn in
      case fl_kind f of
        CachedErr \<Rightarrow> run_exit r False (Raised r CachedActorErr) ac
      | NotException \<Rightarrow> run_exit r False (Raised r OtherErr) ac
      | _ \<Rightarrow>
          (case format_error (wd_traceback wd) f of
             (message, fatal) \<Rightarrow>
               (case measured wd ac rn (Some f) of
                  Inl e \<Rightarrow> run_exit r fatal (Raised r e) ac
                | Inr m \<Rightarrow>
                    (case run_exit r fatal (Returned r) ac of
                       (ac1, ems) \<Rightarrow> (ac1, [Told r ERROR message NoData (Some m), Reported r ''error''] @ ems)))))"

definition session :: "request \<Rightarrow> string" where
  "session r = (case rq_session_id r of None \<Rightarrow> [] | Some s \<Rightarrow> s)"

definition prepare_result :: "world \<Rightarrow> running \<Rightarrow> string \<Rightarrow> string \<times> emission" where
  "prepare_result wd rn data =
     (let blob = (if rn_compress rn then wd_zstd wd data else data) in (blob, ResponseSize (length blob) (rn_compress rn)))"

definition upload_bytes :: "world \<Rightarrow> request \<Rightarrow> string \<Rightarrow> failure + string" where
  "upload_bytes wd r data =
     (let key = rq_id r @ ''.pt'' in case wd_put wd key data of Some f \<Rightarrow> Inl f | None \<Rightarrow> wd_presign wd key)"

definition completed_text :: string where
  "completed_text = ''Your job has been completed.''"

definition run_completed :: "world \<Rightarrow> running \<Rightarrow> result_data \<Rightarrow> actor \<Rightarrow> actor \<times> emission list" where
  "run_completed wd rn x ac =
     (let r = rn_request rn in
      (cleanup ac, [Told r COMPLETED completed_text x (meta_of (measured wd ac rn None)), Reported r ''completed'', Returned r]))"

text \<open>The block returned its result.\<close>

definition run_result :: "world \<Rightarrow> running \<Rightarrow> string \<Rightarrow> actor \<Rightarrow> actor \<times> emission list" where
  "run_result wd rn data ac =
     (let r = rn_request rn;
          peaks = gpu_peaks (wd_peak wd) (rn_baselines rn);
          metered = (if peaks = [] then [] else [GpuMem peaks]) in
      case max_publish_bytes (ac_max_publish ac) (wd_buffer_limit wd) of (memo, limit) \<Rightarrow>
      case prepare_result wd rn data of (blob, sz) \<Rightarrow>
        let ac1 = ac\<lparr>ac_max_publish := memo\<rparr> in
        if session r \<noteq> [] \<and> int (length blob) \<le> limit
        then (case run_completed wd rn (Inline blob) ac1 of (ac2, ems) \<Rightarrow> (ac2, metered @ sz # ems))
        else
          (case upload_bytes wd r blob of
             Inl f \<Rightarrow> (case run_failed wd rn f ac1 of (ac2, ems) \<Rightarrow> (ac2, metered @ sz # ems))
           | Inr url \<Rightarrow>
               (case run_completed wd rn (Url url) ac1 of
                  (ac2, ems) \<Rightarrow> (ac2, metered @ sz # Stored (rq_id r @ ''.pt'') blob # ems))))"

definition cancelled_text :: string where
  "cancelled_text = ''Your job was cancelled or preempted by the server.''"

definition run_killed :: "world \<Rightarrow> running \<Rightarrow> actor \<Rightarrow> actor \<times> emission list" where
  "run_killed wd rn ac =
     (let r = rn_request rn in
      if ac_kill_reason ac = Some preempted
      then (cleanup ac, [Interrupted, Reported r ''preempted'', Raised r CachedActorErr])
      else (cleanup ac, [Interrupted, Told r ERROR cancelled_text NoData (meta_of (measured wd ac rn None)),
                         Reported r ''cancelled'', Returned r]))"

text \<open>\<open>render\<close> is the text of a float.\<close>

definition run_timed_out :: "(rat \<Rightarrow> string) \<Rightarrow> world \<Rightarrow> running \<Rightarrow> actor \<Rightarrow> actor \<times> emission list" where
  "run_timed_out render wd rn ac =
     (let r = rn_request rn;
          limit = (case ac_execution_timeout ac of None \<Rightarrow> ''None'' | Some t \<Rightarrow> render t) in
      (cleanup ac, [Interrupted, Told r ERROR (''Your job exceeded the execution timeout of '' @ limit @ ''s.'') NoData
                      (meta_of (measured wd ac rn None)), Reported r ''timeout'', Returned r]))"

section \<open>The machine\<close>

definition told_logs :: "request \<Rightarrow> string list \<Rightarrow> emission list" where
  "told_logs r ls = map (\<lambda>l. Told r LOG l NoData None) ls"

text \<open>Leaving \<open>execution_scope\<close>.\<close>

definition flush_logs :: "running \<Rightarrow> emission list" where
  "flush_logs rn = told_logs (rn_request rn) (fst (ls_flush (rn_out rn)) @ fst (ls_flush (rn_err rn)))"

definition running_text :: string where
  "running_text = ''Your job has started running.''"

datatype stream = Out | Err

datatype act_event =
    Run request bool "int \<Rightarrow> int option" \<comment> \<open>\<open>run\<close> is called: the request, its \<open>compress\<close>, the allocations\<close>
  | EnvSet world "failure option" \<comment> \<open>\<open>_remoteable_set_env\<close> returned or raised\<close>
  | ThreadStarts
  | Prints stream string
  | ThreadReturns "failure + string"
  | Resumes world \<comment> \<open>the race has a winner\<close>
  | TimesOut "rat \<Rightarrow> string" world
  | Cancel "string option"
  | ToCacheCall "failure option"
  | FromCacheCall "int \<Rightarrow> int" "(int, int) dict" "failure + (string \<times> device) list"

definition with_run :: "actor \<Rightarrow> (running \<Rightarrow> (actor \<times> emission list) option) \<Rightarrow> (actor \<times> emission list) option" where
  "with_run ac f = (case ac_run ac of None \<Rightarrow> None | Some rn \<Rightarrow> f rn)"

definition set_phase :: "actor \<Rightarrow> running \<Rightarrow> run_phase \<Rightarrow> actor" where
  "set_phase ac rn ph = ac\<lparr>ac_run := Some (rn\<lparr>rn_phase := ph\<rparr>)\<rparr>"

definition run_begin :: "request \<Rightarrow> bool \<Rightarrow> (int \<Rightarrow> int option) \<Rightarrow> actor \<Rightarrow> actor \<times> emission list" where
  "run_begin r compress allocated ac =
     (if ac_cached ac then (ac, [Raised r CachedActorErr])
      else
        (ac\<lparr>ac_run := Some \<lparr>rn_request = r, rn_compress = compress, rn_baselines = gpu_baselines allocated (ac_gpu_mem ac),
                            rn_phase = Preparing, rn_out = [], rn_err = []\<rparr>\<rparr>,
         [Told r RUNNING running_text NoData None]))"

text \<open>The winner: the block's result if it is there, the kill switch otherwise.\<close>

definition run_resumed :: "world \<Rightarrow> running \<Rightarrow> actor \<Rightarrow> (actor \<times> emission list) option" where
  "run_resumed wd rn ac =
     map_option (\<lambda>(ac1, ems). (ac1, flush_logs rn @ ems))
       (case rn_phase rn of
          Racing (Finished (Inr data)) \<Rightarrow> Some (run_result wd rn data ac)
        | Racing (Finished (Inl f)) \<Rightarrow> Some (run_failed wd rn f ac)
        | Racing _ \<Rightarrow> if ac_kill_switch ac then Some (run_killed wd rn ac) else None
        | Preparing \<Rightarrow> None)"

definition run_prints :: "stream \<Rightarrow> string \<Rightarrow> running \<Rightarrow> actor \<Rightarrow> actor \<times> emission list" where
  "run_prints s t rn ac =
     (case s of
        Out \<Rightarrow> (case ls_write (rn_out rn) t of (ls, buf) \<Rightarrow> (ac\<lparr>ac_run := Some (rn\<lparr>rn_out := buf\<rparr>)\<rparr>, told_logs (rn_request rn) ls))
      | Err \<Rightarrow> (case ls_write (rn_err rn) t of (ls, buf) \<Rightarrow> (ac\<lparr>ac_run := Some (rn\<lparr>rn_err := buf\<rparr>)\<rparr>, told_logs (rn_request rn) ls)))"

fun act_fire :: "act_event \<Rightarrow> actor \<Rightarrow> (actor \<times> emission list) option" where
  "act_fire (Run r compress allocated) ac =
     (if ac_up ac \<and> ac_run ac = None then Some (run_begin r compress allocated ac) else None)"
| "act_fire (EnvSet wd answer) ac =
     with_run ac (\<lambda>rn.
       if rn_phase rn = Preparing
       then Some (case answer of Some f \<Rightarrow> run_failed wd rn f ac | None \<Rightarrow> (set_phase ac rn (Racing Starting), []))
       else None)"
| "act_fire ThreadStarts ac =
     with_run ac (\<lambda>rn.
       if rn_phase rn = Racing Starting then Some ((set_phase ac rn (Racing Executing))\<lparr>ac_execution_ident := True\<rparr>, []) else None)"
| "act_fire (Prints s t) ac =
     with_run ac (\<lambda>rn. if rn_phase rn = Racing Executing then Some (run_prints s t rn ac) else None)"
| "act_fire (ThreadReturns x) ac =
     with_run ac (\<lambda>rn. if rn_phase rn = Racing Executing then Some (set_phase ac rn (Racing (Finished x)), []) else None)"
| "act_fire (Resumes wd) ac = with_run ac (\<lambda>rn. run_resumed wd rn ac)"
| "act_fire (TimesOut render wd) ac =
     with_run ac (\<lambda>rn.
       if rn_phase rn = Racing Executing \<and> ac_execution_timeout ac \<noteq> None \<and> \<not> ac_kill_switch ac
       then (case run_timed_out render wd rn ac of (ac1, ems) \<Rightarrow> Some (ac1, flush_logs rn @ ems)) else None)"
| "act_fire (Cancel reason) ac = (if ac_up ac then Some (ac_cancel reason ac, []) else None)"
| "act_fire (ToCacheCall moved) ac = (if ac_up ac then Some (to_cache moved ac, []) else None)"
| "act_fire (FromCacheCall memory gpus placed) ac = (if ac_up ac then Some (fst (from_cache memory gpus placed ac), []) else None)"

fun act_run :: "act_event list \<Rightarrow> actor \<Rightarrow> (actor \<times> emission list) option" where
  "act_run [] ac = Some (ac, [])"
| "act_run (e # es) ac =
     Option.bind (act_fire e ac) (\<lambda>(ac1, o1). Option.bind (act_run es ac1) (\<lambda>(ac2, o2). Some (ac2, o1 @ o2)))"

text \<open>How the queue's client of Ray sees an exception of \<open>run\<close>: a task error with the exception as its
  cause.\<close>

definition task_error :: "err_kind \<Rightarrow> string \<Rightarrow> err" where
  "task_error k t = \<lparr>err_kind = OtherErr, err_cause = Some k, err_text = t\<rparr>"

end
