(* ===== verification/Model_Actor_Props.thy ===== *)
theory Model_Actor_Props
  imports Model_Actor
begin

text \<open>
  The model actor: prints reach the caller whole and in order, a run is answered once or handed back to
  the queue, what parking a busy replica does to the request it interrupts, and which failure of the
  measurements turns a failed request into one the queue runs again.
\<close>

declare split_paired_All [simp del] split_paired_Ex [simp del]

section \<open>Prints\<close>

lemma drain_spec:
  "drain buf = (ls, rest) \<Longrightarrow> concat (map (\<lambda>l. l @ [nl]) ls) @ rest = buf \<and> nl \<notin> set rest \<and> (\<forall>l \<in> set ls. nl \<notin> set l)"
proof (induction buf arbitrary: ls rest rule: drain.induct)
  case (1 buf)
  show ?case
  proof (cases "nl \<in> set buf")
    case True
    let ?line = "takeWhile (\<lambda>c. c \<noteq> nl) buf" and ?more = "dropWhile (\<lambda>c. c \<noteq> nl) buf"
    obtain ls1 where d: "drain (tl ?more) = (ls1, rest)" "ls = ?line # ls1"
      using "1.prems" True by (subst (asm) drain.simps) (auto split: prod.splits)
    have "?more \<noteq> []" using True by (auto simp: dropWhile_eq_Nil_conv)
    moreover from this have "hd ?more = nl" using hd_dropWhile[of "\<lambda>c. c \<noteq> nl" buf] by simp
    ultimately have "?line @ nl # tl ?more = buf" by (metis list.collapse takeWhile_dropWhile_id)
    moreover have "nl \<notin> set ?line" by (auto dest: set_takeWhileD)
    ultimately show ?thesis using "1.IH"[OF True d(1)] d(2) by auto
  next
    case False
    then show ?thesis using "1.prems" by (subst (asm) drain.simps) auto
  qed
qed

fun ls_writes :: "string \<Rightarrow> string list \<Rightarrow> string list \<times> string" where
  "ls_writes buf [] = ls_flush buf"
| "ls_writes buf (t # ts) =
     (case ls_write buf t of (ls, buf1) \<Rightarrow> (case ls_writes buf1 ts of (ls1, b) \<Rightarrow> (ls @ ls1, b)))"

lemma ls_writes_spec:
  "ls_writes buf ts = (ls, b) \<Longrightarrow> nl \<notin> set buf \<Longrightarrow>
   b = [] \<and> (\<forall>l \<in> set ls. nl \<notin> set l) \<and>
   (\<exists>full part. ls = full @ part \<and> concat (map (\<lambda>l. l @ [nl]) full) @ concat part = buf @ concat ts \<and> length part \<le> 1 \<and> [] \<notin> set part)"
proof (induction ts arbitrary: buf ls)
  case Nil
  then show ?case by (intro conjI exI[of _ "[]"] exI[of _ ls]) (auto simp: ls_flush_def split: if_splits)
next
  case (Cons t ts)
  obtain l1 buf1 ls1 where w: "ls_write buf t = (l1, buf1)" "ls_writes buf1 ts = (ls1, b)" "ls = l1 @ ls1"
    using Cons.prems(1) by (auto split: prod.splits)
  note d = drain_spec[OF w(1)[unfolded ls_write_def]]
  from Cons.IH[OF w(2)] d obtain full part where ih: "b = []" "\<forall>l \<in> set ls1. nl \<notin> set l" "ls1 = full @ part"
    "concat (map (\<lambda>l. l @ [nl]) full) @ concat part = buf1 @ concat ts" "length part \<le> 1" "[] \<notin> set part" by blast
  have "concat (map (\<lambda>l. l @ [nl]) (l1 @ full)) @ concat part = buf @ concat (t # ts)" using d ih(4) by simp
  then show ?case using w(3) ih d by (intro conjI exI[of _ "l1 @ full"] exI[of _ part]) auto
qed

text \<open>The LOG responses of a run's prints lose nothing: however the text is cut into writes, the lines
  told, each ended by a newline but for a last unfinished one, are exactly the text written, no line has
  a newline in it, and nothing stays in the buffer.\<close>

theorem prints_are_told_whole:
  assumes "ls_writes [] ts = (ls, b)"
  shows "b = [] \<and> (\<forall>l \<in> set ls. nl \<notin> set l) \<and>
    (\<exists>full part. ls = full @ part \<and> concat (map (\<lambda>l. l @ [nl]) full) @ concat part = concat ts \<and> length part \<le> 1 \<and> [] \<notin> set part)"
  using ls_writes_spec[OF assms] by simp

theorem prints_are_told_whole_witness:
  "ls_writes [] [''a'', ''b'' @ [nl] @ ''c''] = ([''ab'', ''c''], []) \<and> (\<forall>l \<in> set [''ab'', ''c'']. nl \<notin> set l)"
proof -
  have "ls_writes [] [''a'', ''b'' @ [nl] @ ''c''] = ([''ab'', ''c''], [])" by code_simp
  with prints_are_told_whole[OF this] show ?thesis by blast
qed

section \<open>Answers\<close>

fun terminal :: "request \<Rightarrow> emission \<Rightarrow> bool" where
  "terminal r (Told r' st _ _ _) \<longleftrightarrow> r' = r \<and> st \<in> {ERROR, COMPLETED}"
| "terminal r _ \<longleftrightarrow> False"

definition terminals :: "request \<Rightarrow> emission list \<Rightarrow> nat" where
  "terminals r out = length (filter (terminal r) out)"

definition returned :: "request \<Rightarrow> emission list \<Rightarrow> nat" where
  "returned r out = count_list out (Returned r)"

definition restarted :: "request \<Rightarrow> emission list \<Rightarrow> nat" where
  "restarted r out = count_list out (Restarted r)"

fun raising :: "request \<Rightarrow> emission \<Rightarrow> bool" where
  "raising r (Raised r' _) \<longleftrightarrow> r' = r"
| "raising r _ \<longleftrightarrow> False"

definition raised :: "request \<Rightarrow> emission list \<Rightarrow> nat" where
  "raised r out = length (filter (raising r) out)"

fun beginning :: "request \<Rightarrow> emission \<Rightarrow> bool" where
  "beginning r (Told r' st _ _ _) \<longleftrightarrow> r' = r \<and> st = RUNNING"
| "beginning r _ \<longleftrightarrow> False"

definition begun :: "request \<Rightarrow> emission list \<Rightarrow> nat" where
  "begun r out = length (filter (beginning r) out)"

lemmas tallies = terminals_def returned_def restarted_def raised_def begun_def

lemma tally_append [simp]:
  "terminals r (xs @ ys) = terminals r xs + terminals r ys" "returned r (xs @ ys) = returned r xs + returned r ys"
  "restarted r (xs @ ys) = restarted r xs + restarted r ys" "raised r (xs @ ys) = raised r xs + raised r ys"
  "begun r (xs @ ys) = begun r xs + begun r ys"
  by (simp_all add: tallies)

lemma tally_logs [simp]:
  "terminals r (told_logs q ls) = 0" "returned r (told_logs q ls) = 0" "restarted r (told_logs q ls) = 0"
  "raised r (told_logs q ls) = 0" "begun r (told_logs q ls) = 0"
  by (induction ls) (auto simp: tallies told_logs_def)

lemma tally_flush [simp]:
  "terminals r (flush_logs rn) = 0" "returned r (flush_logs rn) = 0" "restarted r (flush_logs rn) = 0"
  "raised r (flush_logs rn) = 0" "begun r (flush_logs rn) = 0"
  by (simp_all add: flush_logs_def)

text \<open>The emissions of a step that ends a run of \<open>q\<close>.\<close>

definition ends :: "request \<Rightarrow> emission list \<Rightarrow> bool" where
  "ends q out \<longleftrightarrow> (\<forall>r. begun r out = 0 \<and>
     (if r = q
      then returned r out + restarted r out + raised r out = 1 \<and> returned r out \<le> terminals r out \<and>
        terminals r out \<le> returned r out + restarted r out
      else returned r out + restarted r out + raised r out + terminals r out = 0))"

definition silent :: "emission list \<Rightarrow> bool" where
  "silent out \<longleftrightarrow> (\<forall>r. begun r out + returned r out + restarted r out + raised r out + terminals r out = 0)"

lemma silent_simps [simp]: "silent []" "silent (flush_logs rn)" "silent (told_logs q ls)" "silent (xs @ ys) \<longleftrightarrow> silent xs \<and> silent ys"
  by (auto simp: silent_def) (simp_all add: tallies)

lemma ends_silent: "silent xs \<Longrightarrow> ends q (xs @ ys) = ends q ys"
  by (simp add: silent_def ends_def)

lemma silent_Cons: "silent (x # xs) \<longleftrightarrow> silent [x] \<and> silent xs"
  using silent_simps(4)[of "[x]" xs] by simp

lemma silent_emission [simp]:
  "silent [Reported q t]" "silent [GpuMem p]" "silent [ResponseSize n c]" "silent [Stored k b]" "silent [Interrupted]"
  by (simp_all add: silent_def tallies)

lemma ends_Cons: "silent [x] \<Longrightarrow> ends q (x # xs) = ends q xs"
  using ends_silent[of "[x]" q xs] by simp

lemma run_exit_ends:
  assumes "run_exit q fatal ending ac = (ac', ems)" and "ending = Returned q \<or> (\<exists>k. ending = Raised q k)"
  shows "if ending = Returned q then ends q (Told q ERROR t x m # Reported q s # ems) else ends q ems"
  using assms by (auto simp: run_exit_def ends_def tallies split: if_splits)

lemma run_failed_ends:
  assumes "run_failed wd rn f ac = (ac', ems)"
  shows "ends (rn_request rn) ems"
proof -
  let ?q = "rn_request rn"
  have raise: "ends ?q ems" if "run_exit ?q fatal (Raised ?q k) ac = (ac', ems)" for fatal k
    using run_exit_ends[OF that] by simp
  show ?thesis
  proof (cases "fl_kind f \<in> {CachedErr, NotException}")
    case True
    then show ?thesis using assms raise by (auto simp: run_failed_def Let_def)
  next
    case False
    obtain message fatal where fe: "format_error (wd_traceback wd) f = (message, fatal)" by fastforce
    have run: "(case measured wd ac rn (Some f) of Inl e \<Rightarrow> run_exit ?q fatal (Raised ?q e) ac
        | Inr m \<Rightarrow> (case run_exit ?q fatal (Returned ?q) ac of
              (ac1, ems) \<Rightarrow> (ac1, [Told ?q ERROR message NoData (Some m), Reported ?q ''error''] @ ems))) = (ac', ems)"
      using assms False fe by (cases "fl_kind f") (auto simp: run_failed_def Let_def)
    show ?thesis
    proof (cases "measured wd ac rn (Some f)")
      case (Inl e)
      then show ?thesis using run raise by simp
    next
      case (Inr m)
      obtain ac1 em where ex: "run_exit ?q fatal (Returned ?q) ac = (ac1, em)" by fastforce
      have "ends ?q (Told ?q ERROR message NoData (Some m) # Reported ?q ''error'' # em)"
        using run_exit_ends[OF ex, of message NoData "Some m"] by simp
      then show ?thesis using run Inr ex by simp
    qed
  qed
qed

lemma run_completed_ends: "run_completed wd rn x ac = (ac', ems) \<Longrightarrow> ends (rn_request rn) ems"
  by (auto simp: run_completed_def ends_def tallies Let_def)

lemma run_killed_ends: "run_killed wd rn ac = (ac', ems) \<Longrightarrow> ends (rn_request rn) ems"
  by (auto simp: run_killed_def ends_def tallies Let_def split: if_splits)

lemma run_timed_out_ends: "run_timed_out render wd rn ac = (ac', ems) \<Longrightarrow> ends (rn_request rn) ems"
  by (auto simp: run_timed_out_def ends_def tallies Let_def)

lemma run_result_ends:
  assumes "run_result wd rn data ac = (ac', ems)"
  shows "ends (rn_request rn) ems"
  using assms run_failed_ends run_completed_ends
  by (auto simp: run_result_def prepare_result_def Let_def ends_silent ends_Cons
    split: prod.splits if_splits sum.splits)

text \<open>Outside the race nothing is to be killed; the kill switch is set only for a recorded thread.\<close>

definition actor_clean :: "actor \<Rightarrow> bool" where
  "actor_clean ac \<longleftrightarrow>
     (ac_kill_switch ac \<longrightarrow> ac_execution_ident ac) \<and>
     (case ac_run ac of
        None \<Rightarrow> ac_up ac \<longrightarrow> \<not> ac_execution_ident ac
      | Some rn \<Rightarrow> ac_up ac \<and> (ac_execution_ident ac \<longleftrightarrow> rn_phase rn \<notin> {Preparing, Racing Starting}))"

lemma cleanup_clean [simp]: "actor_clean (cleanup ac)" "ac_run (cleanup ac) = None"
  by (simp_all add: actor_clean_def cleanup_def)

lemma run_exit_clean:
  assumes "run_exit q fatal ending ac = (ac', ems)" and "ac_kill_switch ac \<longrightarrow> ac_execution_ident ac"
  shows "actor_clean ac'" and "ac_run ac' = None"
  using assms by (auto simp: run_exit_def actor_clean_def cleanup_def split: if_splits)

lemma run_failed_clean:
  assumes "run_failed wd rn f ac = (ac', ems)" and "actor_clean ac"
  shows "actor_clean ac' \<and> ac_run ac' = None"
proof -
  have k: "ac_kill_switch ac \<longrightarrow> ac_execution_ident ac" using assms(2) by (simp add: actor_clean_def)
  from assms(1) obtain fatal ending em where "run_exit (rn_request rn) fatal ending ac = (ac', em)"
    by (cases "fl_kind f"; cases "measured wd ac rn (Some f)") (auto simp: run_failed_def Let_def split: prod.splits)
  then show ?thesis using run_exit_clean k by blast
qed

lemma run_killed_clean: "run_killed wd rn ac = (ac', ems) \<Longrightarrow> actor_clean ac' \<and> ac_run ac' = None"
  by (auto simp: run_killed_def Let_def split: if_splits)

lemma run_result_clean:
  assumes "run_result wd rn data ac = (ac', ems)" and "actor_clean ac"
  shows "actor_clean ac' \<and> ac_run ac' = None"
proof -
  have c: "actor_clean (ac\<lparr>ac_max_publish := n\<rparr>)" for n
    using assms(2) by (simp add: actor_clean_def split: option.splits)
  show ?thesis using assms(1) run_failed_clean[OF _ c]
    by (auto simp: run_result_def prepare_result_def run_completed_def Let_def split: prod.splits if_splits sum.splits)
qed

definition under_way_of :: "request \<Rightarrow> actor \<Rightarrow> nat" where
  "under_way_of r ac = (case ac_run ac of Some rn \<Rightarrow> if rn_request rn = r then 1 else 0 | None \<Rightarrow> 0)"

text \<open>One step, from the emissions of the runs it ends.\<close>

definition tallied :: "request \<Rightarrow> actor \<Rightarrow> emission list \<Rightarrow> actor \<Rightarrow> bool" where
  "tallied r ac out ac' \<longleftrightarrow>
     returned r out \<le> terminals r out \<and> terminals r out \<le> returned r out + restarted r out \<and>
     begun r out + under_way_of r ac \<le> returned r out + restarted r out + raised r out + under_way_of r ac' \<and>
     returned r out + restarted r out + under_way_of r ac' \<le> begun r out + under_way_of r ac"

lemma tallied_ends:
  assumes "ac_run ac = Some rn" and "ends (rn_request rn) out" and "ac_run ac' = None"
  shows "tallied r ac out ac'"
proof (cases "r = rn_request rn")
  case True
  then have "begun r out = 0 \<and> returned r out + restarted r out + raised r out = 1 \<and> returned r out \<le> terminals r out \<and>
      terminals r out \<le> returned r out + restarted r out" using assms(2) by (simp add: ends_def)
  then show ?thesis using True assms(1,3) by (simp add: tallied_def under_way_of_def)
next
  case False
  then have "begun r out = 0 \<and> returned r out + restarted r out + raised r out + terminals r out = 0"
    using assms(2) unfolding ends_def by (auto split: if_splits)
  then show ?thesis using False assms by (auto simp: tallied_def under_way_of_def)
qed

lemma tallied_silent: "silent out \<Longrightarrow> under_way_of r ac' = under_way_of r ac \<Longrightarrow> tallied r ac out ac'"
  by (simp add: tallied_def silent_def)

lemma tallied_trans: "tallied r a xs b \<Longrightarrow> tallied r b ys c \<Longrightarrow> tallied r a (xs @ ys) c"
  unfolding tallied_def by simp

lemma run_begin_step:
  assumes "actor_clean ac" and "ac_run ac = None" and "ac_up ac" and "run_begin q compress allocated ac = (ac', out)"
  shows "tallied r ac out ac' \<and> actor_clean ac'"
  using assms
  by (auto simp: run_begin_def tallied_def under_way_of_def actor_clean_def tallies split: if_splits option.splits)

lemma run_resumed_step:
  assumes "actor_clean ac" and "ac_run ac = Some rn" and "run_resumed wd rn ac = Some (ac', out)"
  shows "tallied r ac out ac' \<and> actor_clean ac'"
proof -
  from assms(3) obtain em where out: "out = flush_logs rn @ em" and em: "(\<exists>data. run_result wd rn data ac = (ac', em)) \<or> (\<exists>f. run_failed wd rn f ac = (ac', em)) \<or> run_killed wd rn ac = (ac', em)"
    by (auto simp: run_resumed_def split: run_phase.splits job_state.splits sum.splits if_splits prod.splits)
  have "ends (rn_request rn) em \<and> actor_clean ac' \<and> ac_run ac' = None"
    using em
  proof (elim disjE exE)
    fix data assume e: "run_result wd rn data ac = (ac', em)"
    show ?thesis using run_result_ends[OF e] run_result_clean[OF e assms(1)] by simp
  next
    fix f assume e: "run_failed wd rn f ac = (ac', em)"
    show ?thesis using run_failed_ends[OF e] run_failed_clean[OF e assms(1)] by simp
  next
    assume e: "run_killed wd rn ac = (ac', em)"
    show ?thesis using run_killed_ends[OF e] run_killed_clean[OF e] by simp
  qed
  then show ?thesis using tallied_ends[OF assms(2), of out ac' r] by (simp add: out ends_silent)
qed

lemma silent_step:
  assumes "actor_clean ac" and "ac_run ac' = map_option g (ac_run ac)" and "\<And>rn. rn_request (g rn) = rn_request rn" and "silent out"
  shows "tallied r ac out ac'"
  using assms by (intro tallied_silent) (auto simp: under_way_of_def split: option.splits)

lemma act_fire_step:
  assumes "actor_clean ac" and "act_fire e ac = Some (ac', out)"
  shows "tallied r ac out ac' \<and> actor_clean ac'"
proof (cases e)
  case (Run q compress allocated)
  then show ?thesis using assms run_begin_step[OF assms(1)] by (auto split: if_splits)
next
  case (EnvSet wd answer)
  then obtain rn where rn: "ac_run ac = Some rn" "rn_phase rn = Preparing"
    using assms(2) by (auto simp: with_run_def split: option.splits if_splits)
  show ?thesis
  proof (cases answer)
    case None
    then have "ac' = set_phase ac rn (Racing Starting)" "out = []" using assms(2) EnvSet rn by (auto simp: with_run_def)
    then show ?thesis using assms(1) rn by (auto simp: tallied_silent under_way_of_def set_phase_def actor_clean_def)
  next
    case (Some f)
    then have "run_failed wd rn f ac = (ac', out)" using assms(2) EnvSet rn by (simp add: with_run_def)
    then show ?thesis using run_failed_ends run_failed_clean[OF _ assms(1)] tallied_ends[OF rn(1)] by blast
  qed
next
  case (Resumes wd)
  then show ?thesis using assms run_resumed_step[OF assms(1)] by (auto simp: with_run_def split: option.splits)
next
  case (TimesOut render wd)
  then obtain rn em where rn: "ac_run ac = Some rn" "run_timed_out render wd rn ac = (ac', em)" "out = flush_logs rn @ em"
    using assms(2) by (auto simp: with_run_def split: option.splits if_splits prod.splits)
  have "ac' = cleanup ac" using rn(2) by (simp add: run_timed_out_def Let_def)
  then show ?thesis using run_timed_out_ends[OF rn(2)] tallied_ends[OF rn(1), of out ac' r] by (simp add: rn(3) ends_silent)
next
  case (Prints s t)
  then obtain rn where rn: "ac_run ac = Some rn" "rn_phase rn = Racing Executing" "run_prints s t rn ac = (ac', out)"
    using assms(2) by (auto simp: with_run_def split: option.splits if_splits)
  then show ?thesis using assms(1)
    by (cases s) (auto simp: run_prints_def tallied_silent under_way_of_def actor_clean_def split: prod.splits)
qed (use assms in \<open>auto simp: with_run_def set_phase_def tallied_silent under_way_of_def actor_clean_def ac_cancel_def to_cache_def
      from_cache_def Let_def split: option.splits if_splits sum.splits\<close>)

lemma act_run_step:
  assumes "actor_clean ac" and "act_run es ac = Some (ac', out)"
  shows "tallied r ac out ac' \<and> actor_clean ac'"
  using assms
proof (induction es arbitrary: ac out)
  case Nil
  then show ?case by (auto simp: tallied_silent)
next
  case (Cons e es)
  then obtain ac1 o1 o2 where f: "act_fire e ac = Some (ac1, o1)" "act_run es ac1 = Some (ac', o2)" "out = o1 @ o2"
    by (auto split: Option.bind_splits)
  then show ?case using act_fire_step[OF Cons.prems(1) f(1)] Cons.IH[of ac1 o2] tallied_trans by blast
qed


definition ex_world :: world where
  "ex_world = \<lparr>wd_exec_ms = 5, wd_peak = (\<lambda>_. Some 7), wd_reserved = (\<lambda>_. Some 9), wd_buffer_limit = None, wd_zstd = id,
     wd_put = (\<lambda>_ _. None), wd_presign = (\<lambda>k. Inr k), wd_traceback = fl_text\<rparr>"

definition ex_actor :: actor where
  "ex_actor = \<lparr>ac_model_key = ''m'', ac_execution_timeout = Some 60, ac_gpu_mem = [(0, 10)], ac_tensors = [(''w'', Cuda 0)],
     ac_limits = [(0, 1)], ac_cached = False, ac_kill_switch = False, ac_kill_reason = None, ac_execution_ident = False,
     ac_max_publish = None, ac_run = None, ac_up = True\<rparr>"

definition ex_job :: request where
  "ex_job = (ex_request ''a'' [])\<lparr>rq_session_id := Some ''s''\<rparr>"

definition ex_executing :: "act_event list" where
  "ex_executing = [Run ex_job False (\<lambda>_. Some 2), EnvSet ex_world None, ThreadStarts]"


section \<open>Back to the queue\<close>

text \<open>The worker's side of an exception that stands for an eviction.\<close>

lemma requeued:
  assumes "queue_inv (pr_queue p)" and "place_of p k = AtRun r" and "undisturbed p k" and "rq_enqueued_at r = Some t" and "evicted e"
  shows "\<exists>p' outs. fire en (RunRaised now k e) p = Some (p', outs) \<and> r \<in> set (snapshot (pr_queue p')) \<and> rq_ref r \<notin> answered outs"
proof -
  obtain q r' where put: "q_put now (pr_queue p) r True = (q, r')" by fastforce
  have "r\<lparr>rq_enqueued_at := Some t\<rparr> = r" using assms(4) by simp
  with snapshot_put[OF assms(1) put] assms(4) have r': "r' = r" and "r \<in> set (snapshot q)" by auto
  then show ?thesis using evicted_requeued[OF assms(2,3,5), of now q en] put by fastforce
qed

lemma evicted_task_error [simp]: "evicted (task_error CachedActorErr t)" "evicted (task_error ValueErr t)"
  by (simp_all add: evicted_def task_error_def evicted_errors_def)


text \<open>A worker with a request in flight, and the actor that executes it.\<close>

definition ex_executing_of :: "request \<Rightarrow> actor" where
  "ex_executing_of r = fst (the (act_run [Run r False (\<lambda>_. Some 2), EnvSet ex_world None, ThreadStarts] ex_actor))"

lemma ex_executing_of:
  "actor_clean (ex_executing_of r)"
  "\<exists>rn. ac_run (ex_executing_of r) = Some rn \<and> rn_phase rn = Racing Executing \<and> rn_request rn = r"
  by (simp_all add: ex_executing_of_def ex_actor_def run_begin_def with_run_def set_phase_def actor_clean_def)

lemma ex_in_flight:
  "\<exists>p r. queue_inv (pr_queue p) \<and> place_of p 0 = AtRun r \<and> undisturbed p 0 \<and> rq_enqueued_at r = Some 1"
proof -
  have ev: "map_option (\<lambda>(p, _). (undisturbed p 0, map_option rq_enqueued_at (case place_of p 0 of AtRun r \<Rightarrow> Some r | _ \<Rightarrow> None)))
      (run_events ex_env ex_running (new_processor ''m'')) = Some (True, Some (Some 1))" by code_simp
  then obtain p outs where r: "run_events ex_env ex_running (new_processor ''m'') = Some (p, outs)"
    by (cases "run_events ex_env ex_running (new_processor ''m'')") auto
  from ev r obtain rq where "place_of p 0 = AtRun rq" "undisturbed p 0" "rq_enqueued_at rq = Some 1" by (auto split: place.splits)
  with run_inv[OF r] show ?thesis by blast
qed


lemma run_failed_plain:
  assumes "fl_kind f = PlainErr" and "\<not> is_oom f" and "\<not> is_unrecoverable_cuda_error f"
  shows "\<exists>m. run_failed wd rn f ac = (cleanup ac,
    [Told (rn_request rn) ERROR (wd_traceback wd f) NoData m, Reported (rn_request rn) ''error'', Returned (rn_request rn)])"
proof -
  obtain m where "measured wd ac rn (Some f) = Inr m" using assms(2) by (simp add: measured_def request_meta_def Let_def)
  then show ?thesis using assms(1,3) by (simp add: run_failed_def format_error_def run_exit_def Let_def)
qed

text \<open>Parking does not always find the request it interrupts. A replica parked while the request's
  environment is being set, or before its thread has recorded itself, is not cancelled: the block then
  executes against weights that are on the CPU. And a block that fails because its weights moved, before
  \<open>run\<close> is resumed, wins the race against the kill switch: its caller is told an ERROR with its traceback
  and the request is not handed back.\<close>

theorem parking_can_fail_request:
  assumes "actor_clean ac" and "ac_run ac = Some rn"
    and "fl_kind f = PlainErr" and "\<not> is_oom f" and "\<not> is_unrecoverable_cuda_error f"
  shows "(rn_phase rn = Preparing \<longrightarrow>
      (\<exists>ac'. act_run [ToCacheCall None, EnvSet wd None, ThreadStarts] ac = Some (ac', []) \<and> \<not> ac_kill_switch ac' \<and>
         ac_run ac' = Some (rn\<lparr>rn_phase := Racing Executing\<rparr>) \<and> (\<forall>x \<in> set (ac_tensors ac'). snd x = OtherDevice ''cpu''))) \<and>
    (rn_phase rn = Racing Starting \<longrightarrow>
      (\<exists>ac'. act_run [ToCacheCall None, ThreadStarts] ac = Some (ac', []) \<and> \<not> ac_kill_switch ac' \<and>
         ac_run ac' = Some (rn\<lparr>rn_phase := Racing Executing\<rparr>) \<and> (\<forall>x \<in> set (ac_tensors ac'). snd x = OtherDevice ''cpu''))) \<and>
    (rn_phase rn = Racing Executing \<longrightarrow>
      (\<exists>ac' out m. act_run [ToCacheCall None, ThreadReturns (Inl f), Resumes wd] ac = Some (ac', out) \<and>
         Told (rn_request rn) ERROR (wd_traceback wd f) NoData m \<in> set out \<and> Returned (rn_request rn) \<in> set out))"
proof (intro conjI impI)
  assume ph: "rn_phase rn = Racing Executing"
  have up: "ac_up ac" using assms(1,2) by (simp add: actor_clean_def)
  let ?ac1 = "to_cache None ac"
  let ?rn2 = "rn\<lparr>rn_phase := Racing (Finished (Inl f))\<rparr>"
  let ?ac2 = "set_phase ?ac1 rn (Racing (Finished (Inl f)))"
  have r1: "ac_run ?ac1 = Some rn" using assms(2) by (simp add: to_cache_def ac_cancel_def Let_def)
  have f1: "act_fire (ToCacheCall None) ac = Some (?ac1, [])" using up by simp
  have f2: "act_fire (ThreadReturns (Inl f)) ?ac1 = Some (?ac2, [])" using r1 ph by (simp add: with_run_def)
  have r2: "ac_run ?ac2 = Some ?rn2" by (simp add: set_phase_def)
  obtain m where "run_failed wd ?rn2 f ?ac2 = (cleanup ?ac2, [Told (rn_request rn) ERROR (wd_traceback wd f) NoData m,
      Reported (rn_request rn) ''error'', Returned (rn_request rn)])"
    using run_failed_plain[OF assms(3,4,5), of wd ?rn2 ?ac2] by auto
  then have f3: "act_fire (Resumes wd) ?ac2 = Some (cleanup ?ac2, flush_logs ?rn2 @ [Told (rn_request rn) ERROR (wd_traceback wd f) NoData m,
      Reported (rn_request rn) ''error'', Returned (rn_request rn)])"
    using r2 by (simp add: with_run_def run_resumed_def)
  show "\<exists>ac' out m. act_run [ToCacheCall None, ThreadReturns (Inl f), Resumes wd] ac = Some (ac', out) \<and>
      Told (rn_request rn) ERROR (wd_traceback wd f) NoData m \<in> set out \<and> Returned (rn_request rn) \<in> set out"
    unfolding act_run.simps f1 Option.bind.simps f2 f3 prod.case by auto
qed (use assms(1,2) in \<open>auto simp: to_cache_def ac_cancel_def with_run_def set_phase_def Let_def actor_clean_def\<close>)

theorem parking_can_fail_request_witness:
  "\<exists>ac' out m. act_run [ToCacheCall None, ThreadReturns (Inl \<lparr>fl_kind = PlainErr, fl_type = ''RuntimeError'', fl_text = ''devices''\<rparr>),
       Resumes ex_world] (ex_executing_of ex_job) = Some (ac', out) \<and>
     Told ex_job ERROR ''devices'' NoData m \<in> set out \<and> Returned ex_job \<in> set out"
proof -
  let ?f = "\<lparr>fl_kind = PlainErr, fl_type = ''RuntimeError'', fl_text = ''devices''\<rparr>"
  obtain rn where rn: "ac_run (ex_executing_of ex_job) = Some rn" "rn_phase rn = Racing Executing" "rn_request rn = ex_job"
    using ex_executing_of(2) by blast
  have f: "fl_kind ?f = PlainErr" "\<not> is_oom ?f" "\<not> is_unrecoverable_cuda_error ?f" by (simp, code_simp, code_simp)
  have t: "wd_traceback ex_world ?f = ''devices''" by (simp add: ex_world_def)
  show ?thesis
    using parking_can_fail_request[OF ex_executing_of(1) rn(1) f, of ex_world, unfolded t rn(3)] rn(2) by blast
qed

text \<open>A failed block whose message reads like an allocator's refusal with an amount that is no number makes
  the measurement of its own failure raise \<open>ValueError\<close>: the caller is told nothing, \<open>run\<close> raises, and the
  replica's worker, to which a \<open>ValueError\<close> means that the actor is gone, puts the request back into its
  queue to be run again.\<close>

theorem unreadable_refusal_requeues:
  assumes "actor_clean ac" and "ac_run ac = Some rn" and "rn_phase rn = Racing Executing" and "rn_request rn = r"
    and "fl_kind f = PlainErr" and "is_oom f" and "\<not> is_unrecoverable_cuda_error f"
    and "search refused_here (fl_text f) = Some (amount, u)" and "map_of units u \<noteq> None" and "py_float amount = None"
    and "queue_inv (pr_queue p)" and "place_of p k = AtRun r" and "undisturbed p k" and "rq_enqueued_at r = Some t"
  shows "\<exists>ac' out. act_run [ThreadReturns (Inl f), Resumes wd] ac = Some (ac', out) \<and> Raised r ValueErr \<in> set out \<and>
    terminals r out = 0 \<and>
    (\<exists>p' outs. fire en (RunRaised now k (task_error ValueErr msg)) p = Some (p', outs) \<and>
       r \<in> set (snapshot (pr_queue p')) \<and> rq_ref r \<notin> answered outs)"
proof -
  let ?rn1 = "rn\<lparr>rn_phase := Racing (Finished (Inl f))\<rparr>"
  let ?ac1 = "set_phase ac rn (Racing (Finished (Inl f)))"
  have f1: "act_fire (ThreadReturns (Inl f)) ac = Some (?ac1, [])" using assms(2,3) by (simp add: with_run_def)
  have "measured wd ?ac1 ?rn1 (Some f) = Inl ValueErr"
    using assms(6,8,9,10) by (auto simp: measured_def request_meta_def alloc_shortfall_def refused_allocation_def Let_def)
  then have "run_failed wd ?rn1 f ?ac1 = (cleanup ?ac1, [Raised r ValueErr])"
    using assms(4,5,7) by (simp add: run_failed_def format_error_def run_exit_def Let_def)
  then have f2: "act_fire (Resumes wd) ?ac1 = Some (cleanup ?ac1, flush_logs ?rn1 @ [Raised r ValueErr])"
    by (simp add: with_run_def set_phase_def run_resumed_def)
  have "act_run [ThreadReturns (Inl f), Resumes wd] ac = Some (cleanup ?ac1, flush_logs ?rn1 @ [Raised r ValueErr])"
    unfolding act_run.simps f1 Option.bind.simps f2 prod.case by simp
  moreover have "terminals r [Raised r ValueErr] = 0" by (simp add: terminals_def)
  ultimately show ?thesis using requeued[OF assms(11,12,13,14) evicted_task_error(2)] by fastforce
qed

definition ex_refusal :: failure where
  "ex_refusal = \<lparr>fl_kind = PlainErr, fl_type = ''RuntimeError'', fl_text = ''Tried to allocate 1.2.3 GiB: CUDA out of memory''\<rparr>"

theorem unreadable_refusal_requeues_witness:
  "\<exists>p r ac' out p' outs. place_of p 0 = AtRun r \<and>
     act_run [ThreadReturns (Inl ex_refusal), Resumes ex_world] (ex_executing_of r) = Some (ac', out) \<and> Raised r ValueErr \<in> set out \<and>
     fire ex_env (RunRaised 4 0 (task_error ValueErr [])) p = Some (p', outs) \<and> r \<in> set (snapshot (pr_queue p'))"
proof -
  obtain p r where p: "queue_inv (pr_queue p)" "place_of p 0 = AtRun r" "undisturbed p 0" "rq_enqueued_at r = Some 1"
    using ex_in_flight by blast
  obtain rn where rn: "ac_run (ex_executing_of r) = Some rn" "rn_phase rn = Racing Executing" "rn_request rn = r"
    using ex_executing_of(2) by blast
  have f: "fl_kind ex_refusal = PlainErr" "is_oom ex_refusal" "\<not> is_unrecoverable_cuda_error ex_refusal"
    by (simp add: ex_refusal_def, code_simp, code_simp)
  have g: "search refused_here (fl_text ex_refusal) = Some (''1.2.3'', ''GIB'')" by code_simp
  have u: "map_of units ''GIB'' \<noteq> None" by code_simp
  have n: "py_float ''1.2.3'' = None" by code_simp
  from unreadable_refusal_requeues[OF ex_executing_of(1) rn f g u n p, of ex_world ex_env 4 "[]"] p(2) show ?thesis by blast
qed

section \<open>Where the weights are\<close>

lemma placement_walk_Inr:
  "placement_walk expected ts seen = Inr s \<longleftrightarrow>
     (\<forall>x \<in> set ts. \<exists>i \<in> expected. snd x = Cuda i) \<and> s = seen \<union> {i. \<exists>n. (n, Cuda i) \<in> set ts}"
proof (induction expected ts seen rule: placement_walk.induct)
  case (2 expected name d ts seen)
  then show ?case by (cases d) auto
qed auto

lemma verify_device_placement_Inr:
  "verify_device_placement ts gpus = Inr () \<longleftrightarrow>
     (\<forall>x \<in> set ts. \<exists>i \<in> set gpus. snd x = Cuda i) \<and> (\<forall>i \<in> set gpus. \<exists>n. (n, Cuda i) \<in> set ts)"
proof (cases "placement_walk (set gpus) ts {}")
  case (Inl e)
  then have "\<not> (\<forall>x \<in> set ts. \<exists>i \<in> set gpus. snd x = Cuda i)" using placement_walk_Inr[of "set gpus" ts "{}"] by auto
  then show ?thesis using Inl by (simp add: verify_device_placement_def)
next
  case (Inr s)
  then have w: "\<forall>x \<in> set ts. \<exists>i \<in> set gpus. snd x = Cuda i" "s = {i. \<exists>n. (n, Cuda i) \<in> set ts}"
    using placement_walk_Inr[of "set gpus" ts "{}"] by auto
  have "sort (remdups (filter (\<lambda>i. i \<notin> s) gpus)) = [] \<longleftrightarrow> (\<forall>i \<in> set gpus. i \<in> s)"
    unfolding set_empty[symmetric] set_sort set_remdups set_filter by blast
  then have "verify_device_placement ts gpus = Inr () \<longleftrightarrow> (\<forall>i \<in> set gpus. i \<in> s)"
    by (simp add: verify_device_placement_def Inr Let_def)
  then show ?thesis using w by simp
qed

definition placed_right :: "actor \<Rightarrow> bool" where
  "placed_right ac \<longleftrightarrow>
     ac_cached ac \<or>
     (\<forall>x \<in> set (ac_tensors ac). \<exists>i \<in> fst ` set (ac_gpu_mem ac). snd x = Cuda i) \<and>
     (\<forall>i \<in> fst ` set (ac_gpu_mem ac). \<exists>n. (n, Cuda i) \<in> set (ac_tensors ac))"

text \<open>The controller restores only replicas it has parked.\<close>

fun restores_parked :: "act_event list \<Rightarrow> actor \<Rightarrow> bool" where
  "restores_parked [] ac \<longleftrightarrow> True"
| "restores_parked (e # es) ac \<longleftrightarrow>
     (case e of FromCacheCall _ _ _ \<Rightarrow> ac_cached ac | _ \<Rightarrow> True) \<and>
     (case act_fire e ac of None \<Rightarrow> True | Some (ac1, _) \<Rightarrow> restores_parked es ac1)"

lemma ends_keep_weights:
  "ac_tensors (cleanup ac) = ac_tensors ac" "ac_gpu_mem (cleanup ac) = ac_gpu_mem ac" "ac_cached (cleanup ac) = ac_cached ac"
  "run_failed wd rn f ac = (ac', out) \<Longrightarrow> ac_tensors ac' = ac_tensors ac \<and> ac_gpu_mem ac' = ac_gpu_mem ac \<and> ac_cached ac' = ac_cached ac"
proof -
  have x: "run_exit q b e ac = (ac', out) \<Longrightarrow> ac_tensors ac' = ac_tensors ac \<and> ac_gpu_mem ac' = ac_gpu_mem ac \<and> ac_cached ac' = ac_cached ac"
    for q b e ac' out by (auto simp: run_exit_def cleanup_def split: if_splits)
  show "run_failed wd rn f ac = (ac', out) \<Longrightarrow> ac_tensors ac' = ac_tensors ac \<and> ac_gpu_mem ac' = ac_gpu_mem ac \<and> ac_cached ac' = ac_cached ac"
    by (cases "fl_kind f"; cases "measured wd ac rn (Some f)") (auto simp: run_failed_def Let_def split: prod.splits dest: x)
qed (simp_all add: cleanup_def)

lemma run_result_keeps_weights:
  assumes "run_result wd rn data ac = (ac', out)"
  shows "ac_tensors ac' = ac_tensors ac \<and> ac_gpu_mem ac' = ac_gpu_mem ac \<and> ac_cached ac' = ac_cached ac"
  using assms by (auto simp: run_result_def prepare_result_def run_completed_def ends_keep_weights Let_def
    split: prod.splits if_splits sum.splits dest!: ends_keep_weights(4))

lemma act_fire_keeps_weights:
  assumes "act_fire e ac = Some (ac', out)" and "\<And>m g x. e \<noteq> FromCacheCall m g x" and "\<And>m. e \<noteq> ToCacheCall m"
  shows "ac_tensors ac' = ac_tensors ac \<and> ac_gpu_mem ac' = ac_gpu_mem ac \<and> ac_cached ac' = ac_cached ac"
proof (cases e)
  case (Resumes wd)
  then show ?thesis using assms(1)
    by (auto simp: with_run_def run_resumed_def run_killed_def ends_keep_weights Let_def
      split: option.splits run_phase.splits job_state.splits sum.splits if_splits prod.splits
      dest!: ends_keep_weights(4) run_result_keeps_weights)
next
  case (EnvSet wd answer)
  then show ?thesis using assms(1)
    by (auto simp: with_run_def set_phase_def split: option.splits if_splits dest!: ends_keep_weights(4))
qed (use assms in \<open>auto simp: run_begin_def with_run_def set_phase_def run_prints_def run_timed_out_def ends_keep_weights ac_cancel_def Let_def
      split: option.splits if_splits stream.splits prod.splits\<close>)

lemma act_fire_placed:
  assumes "placed_right ac" and "act_fire e ac = Some (ac', out)" and "case e of FromCacheCall _ _ _ \<Rightarrow> ac_cached ac | _ \<Rightarrow> True"
  shows "placed_right ac'"
proof (cases e)
  case (FromCacheCall m g x)
  show ?thesis
  proof (cases x)
    case (Inl f)
    then show ?thesis using assms FromCacheCall by (auto simp: from_cache_def placed_right_def Let_def split: if_splits)
  next
    case (Inr ts)
    show ?thesis
    proof (cases "verify_device_placement ts (map fst g)")
      case (Inl e)
      then show ?thesis using assms FromCacheCall \<open>x = Inr ts\<close> by (auto simp: from_cache_def placed_right_def Let_def split: if_splits)
    next
      case (Inr u)
      then have "ac_tensors ac' = ts" "ac_gpu_mem ac' = g"
        using assms(2) FromCacheCall \<open>x = Inr ts\<close> by (auto simp: from_cache_def Let_def split: if_splits)
      then show ?thesis using Inr verify_device_placement_Inr[of ts "map fst g"] by (simp add: placed_right_def)
    qed
  qed
next
  case (ToCacheCall m)
  show ?thesis
  proof (cases m)
    case None
    then show ?thesis using assms(2) ToCacheCall by (auto simp: to_cache_def placed_right_def Let_def split: if_splits)
  next
    case (Some f)
    then have "ac_tensors ac' = ac_tensors ac" "ac_gpu_mem ac' = ac_gpu_mem ac" "ac_cached ac' = ac_cached ac"
      using assms(2) ToCacheCall by (auto simp: to_cache_def ac_cancel_def Let_def split: if_splits)
    then show ?thesis using assms(1) by (simp add: placed_right_def)
  qed
qed (use act_fire_keeps_weights[OF assms(2)] assms(1) in \<open>simp_all add: placed_right_def\<close>)

lemma act_run_placed: "placed_right ac \<Longrightarrow> restores_parked es ac \<Longrightarrow> act_run es ac = Some (ac', out) \<Longrightarrow> placed_right ac'"
proof (induction es arbitrary: ac out)
  case (Cons e es)
  then obtain ac1 o1 o2 where f: "act_fire e ac = Some (ac1, o1)" "act_run es ac1 = Some (ac', o2)"
    by (auto split: Option.bind_splits)
  have "placed_right ac1" using act_fire_placed[OF Cons.prems(1) f(1)] Cons.prems(2) by (simp split: act_event.splits)
  then show ?case using Cons.IH[of ac1 o2] Cons.prems(2) f by simp
qed simp



end
