(* ===== verification/Shard_Group.thy ===== *)
theory Shard_Group
  imports Model_Util
begin

text \<open>
  The shard group of a tensor-parallel replica (\<open>tp/common.py\<close>, \<open>tp/shard.py\<close>, \<open>tp/host.py\<close>): the other ranks
  as processes that take commands from a socket and answer on it, the abort checkpoint, and what rank 0
  does with them, in two phases: have every rank build the block, then release them into the forward.

  Rank 0 and the shards run at once. Before each thing rank 0 does with a socket, and while it waits for
  one, the shards move as an argument \<open>env\<close> says, a list of moves for each tick of rank 0's clock; a
  property of every \<open>env\<close> is one of every interleaving. A wait that ends with nothing in the socket is
  one that timed out. Frames arrive whole. What building and running a block comes to is in the moves.
\<close>

section \<open>What every rank does alike\<close>

definition py_join :: "string \<Rightarrow> string list \<Rightarrow> string" where
  "py_join sep xs = (case xs of [] \<Rightarrow> [] | y # ys \<Rightarrow> y @ concat (map ((@) sep) ys))"

definition visible_devices :: "int list \<Rightarrow> string" where
  "visible_devices gpu_ids = py_join '','' (map str_int (sort gpu_ids))"

definition rank_env :: "int list \<Rightarrow> nat \<Rightarrow> nat \<Rightarrow> (string, string) dict" where
  "rank_env gpu_ids rk master_port =
     [(''CUDA_VISIBLE_DEVICES'', visible_devices gpu_ids),
      (''RANK'', dec rk),
      (''LOCAL_RANK'', dec rk),
      (''WORLD_SIZE'', dec (length gpu_ids)),
      (''MASTER_ADDR'', ''127.0.0.1''),
      (''MASTER_PORT'', dec master_port),
      (''TORCH_NCCL_ASYNC_ERROR_HANDLING'', ''1''),
      (''PYTORCH_CUDA_ALLOC_CONF'', ''expandable_segments:True''),
      (''PYTHONHASHSEED'', ''0'')]"

text \<open>\<open>AbortController\<close>: rank 0 is the source of the flag, and every armed rank reads what it broadcast.\<close>

record abort =
  ab_source :: bool
  ab_requested :: bool
  ab_armed :: bool

definition new_abort :: "bool \<Rightarrow> abort" where
  "new_abort source = \<lparr>ab_source = source, ab_requested = False, ab_armed = False\<rparr>"

definition arm :: "abort \<Rightarrow> abort" where
  "arm ab = ab\<lparr>ab_requested := False, ab_armed := True\<rparr>"

definition disarm :: "abort \<Rightarrow> abort" where
  "disarm ab = ab\<lparr>ab_armed := False, ab_requested := False\<rparr>"

definition request_abort :: "abort \<Rightarrow> abort" where
  "request_abort ab = ab\<lparr>ab_requested := True\<rparr>"

text \<open>\<open>_checkpoint\<close>, where \<open>broadcast\<close> is what the source's broadcast brings the other ranks: whether it raises.\<close>

definition checkpoint :: "bool \<Rightarrow> bool \<Rightarrow> abort \<Rightarrow> bool" where
  "checkpoint initialized broadcast ab \<longleftrightarrow>
     ab_armed ab \<and> initialized \<and> (if ab_source ab then ab_requested ab else broadcast)"

section \<open>A shard\<close>

text \<open>What goes over a socket. \<open>NoTuple\<close> and \<open>R_Other\<close> are values that are no tuple, with their \<open>repr\<close>.\<close>

datatype command =
    PREPARE string bool string nat
  | SANDBOX string string nat
  | GO
  | SKIP
  | SHUTDOWN
  | Unknown string
  | NoTuple string

datatype sh_reply = R_HELLO nat | R_READY nat | R_DONE | R_IDLE nat | R_ERROR string | R_Other string

text \<open>Where a shard's process is: loading, at the loop's \<open>recv\<close>, in \<open>_await_go\<close>, running the block, or gone.\<close>

datatype whereabouts = Loading | AtLoop | AwaitGo | InBlock | Exited

record shard =
  sh_place :: whereabouts
  sh_inbox :: "command list"
  sh_outbox :: "sh_reply list"
  sh_runner :: "string option"
  sh_abort :: abort

datatype block_end = Returns | Aborts | Raises string

text \<open>
  A move of a shard: its weights are loaded (with what loading raises, if it does), it takes the next command (with what building the block raises, if it does), its block
  ends, nothing came for an hour (at the loop, in \<open>_await_go\<close>), rank 0's end was closed, it dies.
\<close>

datatype move = Loaded "string option" | Take "string option" | BlockEnds block_end | IdleHour | GoHour | PeerGone | Dies

definition sh_send :: "sh_reply \<Rightarrow> shard \<Rightarrow> shard" where
  "sh_send m s = s\<lparr>sh_outbox := sh_outbox s @ [m]\<rparr>"

definition sh_exit :: "shard \<Rightarrow> shard" where
  "sh_exit s = s\<lparr>sh_place := Exited, sh_runner := None, sh_abort := disarm (sh_abort s)\<rparr>"

text \<open>\<open>_sandboxed_request\<close> up to its \<open>_await_go\<close>.\<close>

definition sh_sandboxed :: "nat \<Rightarrow> string option \<Rightarrow> string \<Rightarrow> shard \<Rightarrow> shard" where
  "sh_sandboxed rk raised path s =
     (case raised of
        None \<Rightarrow> sh_send (R_READY rk) (s\<lparr>sh_place := AwaitGo, sh_runner := Some path\<rparr>)
      | Some e \<Rightarrow> sh_send (R_ERROR e) s)"

text \<open>The loop of \<open>main\<close> with one command.\<close>

fun sh_command :: "nat \<Rightarrow> string option \<Rightarrow> command \<Rightarrow> shard \<Rightarrow> shard" where
  "sh_command rk raised (NoTuple _) s = sh_exit s"
| "sh_command rk raised SHUTDOWN s = sh_exit s"
| "sh_command rk raised SKIP s = sh_send (R_IDLE rk) s"
| "sh_command rk raised (SANDBOX path _ _) s = sh_sandboxed rk raised path s"
| "sh_command rk raised (PREPARE _ _ _ _) s =
     (case raised of
        None \<Rightarrow> sh_send (R_READY rk) (s\<lparr>sh_place := AwaitGo\<rparr>)
      | Some e \<Rightarrow> sh_send (R_ERROR e) s)"
| "sh_command rk raised _ s = s"

text \<open>\<open>_await_go\<close> and what follows it: into the block, or back to the loop with an acknowledgement.\<close>

definition sh_stand_down :: "nat \<Rightarrow> shard \<Rightarrow> shard" where
  "sh_stand_down rk s = sh_send (R_IDLE rk) (s\<lparr>sh_place := AtLoop, sh_runner := None\<rparr>)"

definition sh_go :: "nat \<Rightarrow> command \<Rightarrow> shard \<Rightarrow> shard" where
  "sh_go rk m s =
     (if m = GO then s\<lparr>sh_place := InBlock, sh_abort := arm (sh_abort s)\<rparr> else sh_stand_down rk s)"

text \<open>The second phase, of either kind of request.\<close>

definition sh_block_end :: "block_end \<Rightarrow> shard \<Rightarrow> shard" where
  "sh_block_end b s =
     sh_send (case b of Raises e \<Rightarrow> R_ERROR e | _ \<Rightarrow> R_DONE)
       (s\<lparr>sh_place := AtLoop, sh_runner := None, sh_abort := disarm (sh_abort s)\<rparr>)"

text \<open>One move; a move that its place does not allow leaves the shard as it is.\<close>

definition new_shard :: shard where
  "new_shard = \<lparr>sh_place = Loading, sh_inbox = [], sh_outbox = [], sh_runner = None, sh_abort = new_abort False\<rparr>"

definition sh_loaded :: "nat \<Rightarrow> string option \<Rightarrow> shard \<Rightarrow> shard" where
  "sh_loaded rk raised s =
     (case raised of
        None \<Rightarrow> sh_send (R_READY rk) (s\<lparr>sh_place := AtLoop\<rparr>)
      | Some e \<Rightarrow> sh_exit (sh_send (R_ERROR e) s))"

fun sh_move :: "nat \<Rightarrow> move \<Rightarrow> shard \<Rightarrow> shard" where
  "sh_move rk (Loaded raised) s = (if sh_place s = Loading then sh_loaded rk raised s else s)"
| "sh_move rk (Take raised) s =
     (case (sh_place s, sh_inbox s) of
        (AtLoop, m # ms) \<Rightarrow> sh_command rk raised m (s\<lparr>sh_inbox := ms\<rparr>)
      | (AwaitGo, m # ms) \<Rightarrow> sh_go rk m (s\<lparr>sh_inbox := ms\<rparr>)
      | _ \<Rightarrow> s)"
| "sh_move rk (BlockEnds b) s = (if sh_place s = InBlock then sh_block_end b s else s)"
| "sh_move rk IdleHour s = (if sh_place s = AtLoop \<and> sh_inbox s = [] then sh_exit s else s)"
| "sh_move rk GoHour s = (if sh_place s = AwaitGo \<and> sh_inbox s = [] then sh_stand_down rk s else s)"
| "sh_move rk PeerGone s = sh_exit s"
| "sh_move rk Dies s = sh_exit s"

section \<open>Rank 0's side: the group\<close>

text \<open>
  The group: its shards by rank, in the order of \<open>self.shards\<close>, which process each has as its own (by the rank
  it was launched with), the processes, and rank 0's clock. \<open>timing\<close> is what rank 0 does not decide: how
  the shards move before each tick, and whether \<open>_drain\<close> finds its deadline past.
\<close>

record group =
  gr_ranks :: "nat list"
  gr_process :: "nat \<Rightarrow> nat"
  gr_shard :: "nat \<Rightarrow> shard"
  gr_clock :: nat

record timing =
  tm_moves :: "nat \<Rightarrow> (nat \<times> move) list"
  tm_late :: "nat \<Rightarrow> bool"

datatype tp_exn = ShardError string | OSErr string | NotRunning | AbortedError | Failed failure

definition with_shard :: "nat \<Rightarrow> (shard \<Rightarrow> shard) \<Rightarrow> group \<Rightarrow> group" where
  "with_shard r f g = g\<lparr>gr_shard := (gr_shard g)(r := f (gr_shard g r))\<rparr>"

definition move_all :: "(nat \<times> move) list \<Rightarrow> group \<Rightarrow> group" where
  "move_all = fold (\<lambda>(r, mv). with_shard r (sh_move r mv))"

definition tick :: "timing \<Rightarrow> group \<Rightarrow> group" where
  "tick tm g = (move_all (tm_moves tm (gr_clock g)) g)\<lparr>gr_clock := Suc (gr_clock g)\<rparr>"

definition gone :: "group \<Rightarrow> nat \<Rightarrow> bool" where
  "gone g r \<longleftrightarrow> sh_place (gr_shard g r) = Exited"

definition healthy :: "group \<Rightarrow> bool" where
  "healthy g \<longleftrightarrow> gr_ranks g \<noteq> [] \<and> list_all (\<lambda>r. \<not> gone g (gr_process g r)) (gr_ranks g)"

definition gr_stop :: "group \<Rightarrow> group" where
  "gr_stop g = (fold (\<lambda>r. with_shard (gr_process g r) sh_exit) (gr_ranks g) g)\<lparr>gr_ranks := []\<rparr>"

text \<open>\<open>send\<close> and \<open>recv\<close> of one channel; what a process that is gone had written can still be read.\<close>

definition gr_send :: "timing \<Rightarrow> command \<Rightarrow> nat \<Rightarrow> group \<Rightarrow> group \<times> (tp_exn + unit)" where
  "gr_send tm m r g =
     (let g = tick tm g in
      if gone g r then (g, Inl (OSErr ''[Errno 32] Broken pipe''))
      else (with_shard r (\<lambda>s. s\<lparr>sh_inbox := sh_inbox s @ [m]\<rparr>) g, Inr ()))"

definition gr_take :: "nat \<Rightarrow> group \<Rightarrow> group \<times> (string + sh_reply)" where
  "gr_take r g =
     (case sh_outbox (gr_shard g r) of
        [] \<Rightarrow> (g, Inl (if gone g r then ''connection closed before message complete'' else ''timed out''))
      | m # ms \<Rightarrow> (with_shard r (\<lambda>s. s\<lparr>sh_outbox := ms\<rparr>) g, Inr m))"

definition gr_recv :: "timing \<Rightarrow> nat \<Rightarrow> group \<Rightarrow> group \<times> (string + sh_reply)" where
  "gr_recv tm r g = gr_take r (tick tm g)"

text \<open>Messages.\<close>

fun describe_reply :: "sh_reply \<Rightarrow> string" where
  "describe_reply (R_HELLO r) = dec r"
| "describe_reply (R_READY r) = dec r"
| "describe_reply R_DONE = ''('' @ [char_of (39 :: nat)] @ ''DONE'' @ [char_of (39 :: nat)] @ '',)''"
| "describe_reply (R_IDLE r) = dec r"
| "describe_reply (R_ERROR e) = e"
| "describe_reply (R_Other e) = e"

definition rank_line :: "nat \<Rightarrow> string \<Rightarrow> string" where
  "rank_line r e = ''rank '' @ dec r @ '': '' @ e"

definition is_ready :: "sh_reply \<Rightarrow> bool" where
  "is_ready m \<longleftrightarrow> (case m of R_READY _ \<Rightarrow> True | _ \<Rightarrow> False)"

definition is_idle :: "sh_reply \<Rightarrow> bool" where
  "is_idle m \<longleftrightarrow> (case m of R_IDLE _ \<Rightarrow> True | _ \<Rightarrow> False)"

definition failures_of :: "(sh_reply \<Rightarrow> bool) \<Rightarrow> (nat, sh_reply) dict \<Rightarrow> string list" where
  "failures_of ok received =
     map (\<lambda>(r, m). rank_line r (describe_reply m)) (filter (\<lambda>(r, m). \<not> ok m) (sort_key fst received))"

subsection \<open>Bringing the group up\<close>

text \<open>The budget \<open>_spawn\<close> passes as \<open>--mem-bytes\<close>.\<close>

definition spawn_budget :: "(int, int) dict \<Rightarrow> nat \<Rightarrow> int" where
  "spawn_budget gpu_mem_bytes_by_id rk =
     (let ordered = sort (map fst gpu_mem_bytes_by_id) in
      if rk < length ordered then the (map_of gpu_mem_bytes_by_id (ordered ! rk)) else 0)"

text \<open>
  \<open>start\<close>: the processes are launched, then as many connections are accepted; \<open>conns\<close> is the first message
  of each connection, in the order they are accepted, or what \<open>accept\<close> or \<open>recv\<close> raised.
\<close>

fun accept_all :: "(sh_reply \<Rightarrow> string) \<Rightarrow> nat list \<Rightarrow> (string + sh_reply) list \<Rightarrow> group \<Rightarrow> group \<times> (tp_exn + unit)" where
  "accept_all py_repr [] conns g = (g, Inr ())"
| "accept_all py_repr (p # ps) (Inr (R_HELLO r) # conns) g =
     accept_all py_repr ps conns (g\<lparr>gr_ranks := gr_ranks g @ [r], gr_process := (gr_process g)(r := p)\<rparr>)"
| "accept_all py_repr (p # ps) (Inr m # conns) g = (g, Inl (ShardError (''shard did not come up: '' @ py_repr m)))"
| "accept_all py_repr (p # ps) (Inl e # conns) g = (g, Inl (OSErr e))"
| "accept_all py_repr (p # ps) [] g = (g, Inl (OSErr ''timed out''))"

definition gr_start :: "(sh_reply \<Rightarrow> string) \<Rightarrow> nat \<Rightarrow> (string + sh_reply) list \<Rightarrow> group \<times> (tp_exn + unit)" where
  "gr_start py_repr tp_size conns =
     (case accept_all py_repr [1..<tp_size] conns
        \<lparr>gr_ranks = [], gr_process = id,
         gr_shard = (\<lambda>r. if r \<in> set [1..<tp_size] then new_shard else sh_exit new_shard), gr_clock = 0\<rparr> of
        (g, Inl e) \<Rightarrow> (gr_stop g, Inl e)
      | (g, Inr _) \<Rightarrow> (g\<lparr>gr_ranks := sort (gr_ranks g)\<rparr>, Inr ()))"

fun ready_all :: "timing \<Rightarrow> nat list \<Rightarrow> group \<Rightarrow> group \<times> (tp_exn + unit)" where
  "ready_all tm [] g = (g, Inr ())"
| "ready_all tm (r # rs) g =
     (case gr_recv tm r g of
        (g, Inl e) \<Rightarrow> (gr_stop g, Inl (ShardError (''rank '' @ dec r @ '' never loaded: '' @ e)))
      | (g, Inr m) \<Rightarrow>
          if is_ready m then ready_all tm rs g
          else (gr_stop g, Inl (ShardError (''rank '' @ dec r @ '' failed to load: '' @ describe_reply m))))"

definition wait_ready :: "timing \<Rightarrow> group \<Rightarrow> group \<times> (tp_exn + unit)" where
  "wait_ready tm g = ready_all tm (gr_ranks g) g"

subsection \<open>One request\<close>

fun send_all :: "timing \<Rightarrow> command \<Rightarrow> nat list \<Rightarrow> group \<Rightarrow> group \<times> (tp_exn + unit)" where
  "send_all tm m [] g = (g, Inr ())"
| "send_all tm m (r # rs) g =
     (case gr_send tm m r g of (g, Inl e) \<Rightarrow> (g, Inl e) | (g, Inr _) \<Rightarrow> send_all tm m rs g)"

fun gather :: "timing \<Rightarrow> nat list \<Rightarrow> group \<Rightarrow> group \<times> string list" where
  "gather tm [] g = (g, [])"
| "gather tm (r # rs) g =
     (case gr_recv tm r g of
        (g, x) \<Rightarrow>
          (case gather tm rs g of
             (g, failures) \<Rightarrow>
               (g, (case x of
                      Inl e \<Rightarrow> [rank_line r e]
                    | Inr m \<Rightarrow> if is_ready m then [] else [rank_line r (describe_reply m)]) @ failures)))"

definition prepare :: "timing \<Rightarrow> string \<Rightarrow> bool \<Rightarrow> string \<Rightarrow> nat \<Rightarrow> group \<Rightarrow> group \<times> (tp_exn + unit)" where
  "prepare tm payload compress env seed g =
     (case send_all tm (PREPARE payload compress env seed) (gr_ranks g) g of
        (g, Inl e) \<Rightarrow> (g, Inl e)
      | (g, Inr _) \<Rightarrow>
          (case gather tm (gr_ranks g) g of
             (g, failures) \<Rightarrow> (g, if failures = [] then Inr () else Inl (ShardError (py_join ''; '' failures)))))"

text \<open>\<open>_drain\<close>: a round reads every channel \<open>select\<close> reports, in the order of \<open>waiting\<close>.\<close>

definition readable :: "group \<Rightarrow> nat \<Rightarrow> bool" where
  "readable g r \<longleftrightarrow> sh_outbox (gr_shard g r) \<noteq> [] \<or> gone g r"

fun read_ready :: "nat list \<Rightarrow> group \<Rightarrow> group \<times> (nat, sh_reply) dict \<times> string list" where
  "read_ready [] g = (g, [], [])"
| "read_ready (r # rs) g =
     (case gr_take r g of
        (g, x) \<Rightarrow>
          (case read_ready rs g of
             (g, received, lost) \<Rightarrow>
               (case x of
                  Inl e \<Rightarrow> (g, received, rank_line r e # lost)
                | Inr m \<Rightarrow> (g, (r, m) # received, lost))))"

definition unanswered :: "nat list \<Rightarrow> string list" where
  "unanswered = map (\<lambda>r. rank_line r ''no answer within the deadline'')"

function drain_loop :: "timing \<Rightarrow> nat list \<Rightarrow> group \<Rightarrow> group \<times> (nat, sh_reply) dict \<times> string list" where
  "drain_loop tm waiting g =
     (if waiting = [] \<or> tm_late tm (gr_clock g) then (g, [], unanswered waiting)
      else
        (let g = tick tm g; ready = filter (readable g) waiting in
         if ready = [] then (g, [], unanswered waiting)
         else
           (case read_ready ready g of
              (g', received, lost) \<Rightarrow>
                (case drain_loop tm (filter (\<lambda>r. \<not> readable g r) waiting) g' of
                   (g', received', lost') \<Rightarrow> (g', received @ received', lost @ lost')))))"
  by pat_completeness auto
termination
  by (relation "measure (\<lambda>(tm, waiting, g). length waiting)") (auto simp: length_filter_less filter_empty_conv)

declare drain_loop.simps [simp del]

definition drain_shards :: "timing \<Rightarrow> group \<Rightarrow> group \<times> (nat, sh_reply) dict \<times> string list" where
  "drain_shards tm g = drain_loop tm (gr_ranks g) g"

definition sandbox :: "timing \<Rightarrow> string \<Rightarrow> string \<Rightarrow> nat \<Rightarrow> group \<Rightarrow> group \<times> (tp_exn + unit)" where
  "sandbox tm path env seed g =
     (case send_all tm (SANDBOX path env seed) (gr_ranks g) g of
        (g, Inl e) \<Rightarrow> (g, Inl e)
      | (g, Inr _) \<Rightarrow>
          (case drain_shards tm g of
             (g, received, lost) \<Rightarrow>
               (let failures = lost @ failures_of is_ready received in
                (g, if failures = [] then Inr () else Inl (ShardError (py_join ''; '' failures))))))"

definition go :: "timing \<Rightarrow> group \<Rightarrow> group \<times> (tp_exn + unit)" where
  "go tm g = send_all tm GO (gr_ranks g) g"

definition release :: "timing \<Rightarrow> group \<Rightarrow> group \<times> string list" where
  "release tm g =
     (case drain_shards tm (fold (\<lambda>r g. fst (gr_send tm SKIP r g)) (gr_ranks g) g) of
        (g, received, lost) \<Rightarrow> (g, lost @ failures_of is_idle received))"

definition collect :: "timing \<Rightarrow> group \<Rightarrow> group \<times> string list \<times> string list" where
  "collect tm g =
     (case drain_shards tm g of
        (g, received, lost) \<Rightarrow> (g, failures_of (\<lambda>m. m = R_DONE) received, lost))"

end
