(* ===== verification/Tensor_Parallel.thy ===== *)
theory Tensor_Parallel
  imports Shard_Group Model_Actor
begin

text \<open>
  The tensor-parallel model actor (\<open>tp/model.py\<close>), rank 0 of its group: loading, and one request from
  \<open>execute\<close> to \<open>cleanup\<close>, on both of its classes. What \<open>run\<close> does with the outcome (the responses, the
  race with the timeout) is that of \<open>Model_Actor\<close>. What torch, nnsight and the runner answer is in the
  \<open>job\<close>; the abort controller stands for both the missing one before loading and a new one;
  \<open>sandboxed\<close> tells \<open>SandboxedTPModelDeployment\<close> from \<open>TPModelDeployment\<close>.
\<close>

section \<open>The actor\<close>

record tp_actor =
  tp_gpu_ids :: "int list"
  tp_budgets :: "(int, int) dict"
  tp_gpu_mem :: "(int, int) dict"
  tp_group :: "group option"
  tp_abort :: abort
  tp_committed :: bool
  tp_rank_zero_raised :: bool
  tp_rank_zero_error :: "tp_exn option"
  tp_dispatched :: bool
  tp_stood_down :: bool
  tp_runner :: "string option"
  tp_runner_up :: bool

text \<open>\<open>__init__\<close>, up to the base's, which loads.\<close>

definition tp_init :: "(int, int) dict \<Rightarrow> string + tp_actor" where
  "tp_init gpu_mem_bytes_by_id =
     (let ids = sort (map fst gpu_mem_bytes_by_id) in
      if length ids < 2 then
        Inl (''a tensor-parallel replica needs at least 2 GPUs, got ['' @ py_join '', '' (map str_int ids) @
             ''].'' @ '' One card wants the ordinary actor.'')
      else
        Inr \<lparr>tp_gpu_ids = ids, tp_budgets = gpu_mem_bytes_by_id,
             tp_gpu_mem = [(0, the (map_of gpu_mem_bytes_by_id (hd ids)))],
             tp_group = None, tp_abort = new_abort True, tp_committed = False, tp_rank_zero_raised = False,
             tp_rank_zero_error = None, tp_dispatched = False, tp_stood_down = True,
             tp_runner = None, tp_runner_up = False\<rparr>)"

text \<open>\<open>load_from_disk\<close>: the group is started, rank 0 loads, and only then the shards are waited for.\<close>

datatype tp_load_error = GroupFailed tp_exn | RankZeroFailed failure | ShardMisplaced placement_error

definition tp_load_from_disk ::
  "(sh_reply \<Rightarrow> string) \<Rightarrow> timing \<Rightarrow> (string + sh_reply) list \<Rightarrow> failure option \<Rightarrow> (string \<times> device) list
   \<Rightarrow> tp_actor \<Rightarrow> tp_actor \<times> (tp_load_error + unit)" where
  "tp_load_from_disk py_repr tm conns raised tensors st =
     (case gr_start py_repr (length (tp_gpu_ids st)) conns of
        (g, Inl e) \<Rightarrow> (st\<lparr>tp_group := Some g\<rparr>, Inl (GroupFailed e))
      | (g, Inr _) \<Rightarrow>
          (case raised of
             Some f \<Rightarrow> (st\<lparr>tp_group := Some g\<rparr>, Inl (RankZeroFailed f))
           | None \<Rightarrow>
               (case wait_ready tm g of
                  (g, Inl e) \<Rightarrow> (st\<lparr>tp_group := Some g\<rparr>, Inl (GroupFailed e))
                | (g, Inr _) \<Rightarrow>
                    (case verify_device_placement tensors (map fst (tp_gpu_mem st)) of
                       Inl e \<Rightarrow> (st\<lparr>tp_group := Some g\<rparr>, Inl (ShardMisplaced e))
                     | Inr _ \<Rightarrow> (st\<lparr>tp_group := Some g, tp_abort := new_abort True\<rparr>, Inr ())))))"

section \<open>One request\<close>

text \<open>
  A request, and what it meets on rank 0: what building the block raises, a runner's socket or what taking
  one from the pool raises, what connecting to it and sending it the payload raise, what running the
  block comes to.
\<close>

record job =
  jb_payload :: string
  jb_compress :: bool
  jb_env :: string
  jb_trusted :: bool
  jb_built :: "failure option"
  jb_acquired :: "failure + string"
  jb_connected :: "failure option"
  jb_sent :: "failure option"
  jb_ran :: "tp_exn + string"

type_synonym tp_outcome = "tp_exn + string"

definition no_group :: tp_exn where
  "no_group = Failed \<lparr>fl_kind = PlainErr, fl_type = ''AttributeError'', fl_text = ''no group''\<rparr>"

definition on_group :: "(group \<Rightarrow> group \<times> 'a) \<Rightarrow> 'a \<Rightarrow> tp_actor \<Rightarrow> tp_actor \<times> 'a" where
  "on_group f none st =
     (case tp_group st of
        None \<Rightarrow> (st, none)
      | Some g \<Rightarrow> (case f g of (g, x) \<Rightarrow> (st\<lparr>tp_group := Some g\<rparr>, x)))"

definition tp_commit :: "timing \<Rightarrow> tp_actor \<Rightarrow> tp_actor \<times> (tp_exn + unit)" where
  "tp_commit tm st =
     (case on_group (go tm) (Inl no_group) st of
        (st, Inl e) \<Rightarrow> (st, Inl e)
      | (st, Inr _) \<Rightarrow> (st\<lparr>tp_abort := arm (tp_abort st), tp_committed := True\<rparr>, Inr ()))"

text \<open>The base's \<open>execute\<close>, with its \<open>commit\<close> between building and running.\<close>

definition base_execute :: "timing \<Rightarrow> job \<Rightarrow> tp_actor \<Rightarrow> tp_actor \<times> tp_outcome" where
  "base_execute tm jb st =
     (case jb_built jb of
        Some f \<Rightarrow> (st, Inl (Failed f))
      | None \<Rightarrow> (case tp_commit tm st of (st, Inl e) \<Rightarrow> (st, Inl e) | (st, Inr _) \<Rightarrow> (st, jb_ran jb)))"

definition tp_dispatch :: "timing \<Rightarrow> nat \<Rightarrow> job \<Rightarrow> tp_actor \<Rightarrow> tp_actor \<times> tp_outcome" where
  "tp_dispatch tm seed jb st =
     (case on_group (prepare tm (jb_payload jb) (jb_compress jb) (jb_env jb) seed) (Inl no_group) st of
        (st, Inl e) \<Rightarrow> (st, Inl e)
      | (st, Inr _) \<Rightarrow> base_execute tm jb st)"

text \<open>\<open>SandboxHost.run_in_runner\<close> with the two hooks of the group.\<close>

definition before_payload :: "timing \<Rightarrow> string \<Rightarrow> nat \<Rightarrow> job \<Rightarrow> tp_actor \<Rightarrow> tp_actor \<times> (tp_exn + unit)" where
  "before_payload tm path seed jb = on_group (sandbox tm path (jb_env jb) seed) (Inl no_group)"

definition run_in_runner :: "timing \<Rightarrow> nat \<Rightarrow> job \<Rightarrow> tp_actor \<Rightarrow> tp_actor \<times> tp_outcome" where
  "run_in_runner tm seed jb st =
     (case jb_acquired jb of
        Inl f \<Rightarrow> (st, Inl (Failed f))
      | Inr path \<Rightarrow>
          (let st = st\<lparr>tp_runner := Some path, tp_runner_up := True\<rparr> in
           case jb_connected jb of
             Some f \<Rightarrow> (st, Inl (Failed f))
           | None \<Rightarrow>
               (case before_payload tm path seed jb st of
                  (st, Inl e) \<Rightarrow> (st, Inl e)
                | (st, Inr _) \<Rightarrow>
                    (case jb_sent jb of
                       Some f \<Rightarrow> (st, Inl (Failed f))
                     | None \<Rightarrow>
                         (case tp_commit tm st of
                            (st, Inl e) \<Rightarrow> (st, Inl e)
                          | (st, Inr _) \<Rightarrow> (st, jb_ran jb))))))"

definition dispatch_to :: "timing \<Rightarrow> bool \<Rightarrow> nat \<Rightarrow> job \<Rightarrow> tp_actor \<Rightarrow> tp_actor \<times> tp_outcome" where
  "dispatch_to tm sandboxed seed jb st =
     (if sandboxed \<and> \<not> jb_trusted jb then run_in_runner tm seed jb st else tp_dispatch tm seed jb st)"

text \<open>\<open>execute\<close>: its reset, the \<open>except\<close> and the \<open>finally\<close>. Time passes before it looks at the group.\<close>

definition begin_request :: "tp_actor \<Rightarrow> tp_actor" where
  "begin_request st =
     st\<lparr>tp_committed := False, tp_rank_zero_raised := False, tp_rank_zero_error := None,
        tp_dispatched := True, tp_stood_down := True\<rparr>"

definition note_failure :: "tp_outcome \<Rightarrow> tp_actor \<Rightarrow> tp_actor" where
  "note_failure x st =
     (case x of
        Inl e \<Rightarrow> st\<lparr>tp_rank_zero_raised := True, tp_rank_zero_error := Some e\<rparr>
      | Inr _ \<Rightarrow> st)"

definition end_request :: "timing \<Rightarrow> tp_actor \<Rightarrow> tp_actor" where
  "end_request tm st =
     (let st = st\<lparr>tp_abort := disarm (tp_abort st)\<rparr> in
      if tp_dispatched st \<and> \<not> tp_committed st then
        (case on_group (release tm) [] st of
           (st, lost) \<Rightarrow> if lost = [] then st else st\<lparr>tp_stood_down := False\<rparr>)
      else st)"

definition looked_at :: "timing \<Rightarrow> tp_actor \<Rightarrow> tp_actor" where
  "looked_at tm st = st\<lparr>tp_group := map_option (tick tm) (tp_group st)\<rparr>"

definition group_running :: "tp_actor \<Rightarrow> bool" where
  "group_running st \<longleftrightarrow> (case tp_group st of None \<Rightarrow> False | Some g \<Rightarrow> healthy g)"

definition tp_execute :: "timing \<Rightarrow> bool \<Rightarrow> nat \<Rightarrow> job \<Rightarrow> tp_actor \<Rightarrow> tp_actor \<times> tp_outcome" where
  "tp_execute tm sandboxed seed jb st =
     (let st = looked_at tm st in
      if \<not> group_running st then (st, Inl NotRunning)
      else
        (case dispatch_to tm sandboxed seed jb (begin_request st) of
           (st, x) \<Rightarrow> (end_request tm (note_failure x st), x)))"

definition tp_interrupt :: "bool \<Rightarrow> tp_actor \<Rightarrow> tp_actor" where
  "tp_interrupt sandboxed st =
     (let st = st\<lparr>tp_abort := request_abort (tp_abort st)\<rparr> in
      if sandboxed \<and> tp_runner st \<noteq> None then st\<lparr>tp_runner_up := False\<rparr> else st)"

text \<open>\<open>_await_shards\<close>: whether the group can serve another request.\<close>

definition await_shards :: "timing \<Rightarrow> tp_actor \<Rightarrow> tp_actor \<times> bool" where
  "await_shards tm st =
     (case tp_group st of
        None \<Rightarrow> (st, True)
      | Some g \<Rightarrow>
          if \<not> tp_committed st then (st, tp_stood_down st)
          else
            (case collect tm g of
               (g, raised, lost) \<Rightarrow>
                 (st\<lparr>tp_group := Some g\<rparr>,
                  if lost \<noteq> [] then False
                  else if raised \<noteq> [] \<and> \<not> tp_rank_zero_raised st then False
                  else healthy g)))"

definition tp_restart :: "tp_actor \<Rightarrow> tp_actor" where
  "tp_restart st = st\<lparr>tp_group := None, tp_runner := None, tp_runner_up := False\<rparr>"

definition discard_sandbox :: "tp_actor \<Rightarrow> tp_actor" where
  "discard_sandbox st = st\<lparr>tp_runner := None, tp_runner_up := False\<rparr>"

definition tp_cleanup :: "timing \<Rightarrow> tp_actor \<Rightarrow> tp_actor" where
  "tp_cleanup tm st =
     (case await_shards tm (discard_sandbox st) of
        (st, settled) \<Rightarrow>
          (let st = st\<lparr>tp_abort := disarm (tp_abort st)\<rparr> in if settled then st else tp_restart st))"

text \<open>\<open>format_error\<close>; the errors that are not the actor's own go to the base's.\<close>

fun as_failure :: "tp_exn \<Rightarrow> failure" where
  "as_failure (ShardError e) = \<lparr>fl_kind = PlainErr, fl_type = ''ShardError'', fl_text = e\<rparr>"
| "as_failure (OSErr e) = \<lparr>fl_kind = PlainErr, fl_type = ''BrokenPipeError'', fl_text = e\<rparr>"
| "as_failure NotRunning =
     \<lparr>fl_kind = PlainErr, fl_type = ''RuntimeError'', fl_text = ''the tensor-parallel shard group is not running''\<rparr>"
| "as_failure AbortedError =
     \<lparr>fl_kind = PlainErr, fl_type = ''AbortedError'', fl_text = ''the run was aborted''\<rparr>"
| "as_failure (Failed f) = f"

fun tp_format_error :: "(failure \<Rightarrow> string) \<Rightarrow> tp_exn \<Rightarrow> string \<times> bool" where
  "tp_format_error tb AbortedError = (''Your job was stopped before it finished.'', False)"
| "tp_format_error tb (ShardError e) =
     (''Your job could not be prepared on every GPU of this model:'' @ newline @ e, False)"
| "tp_format_error tb e = format_error tb (as_failure e)"

text \<open>A request that runs to its end, as \<open>run\<close> has it: \<open>execute\<close>, then \<open>restart\<close> or \<open>cleanup\<close>.\<close>

definition fatal_outcome :: "tp_outcome \<Rightarrow> bool" where
  "fatal_outcome x \<longleftrightarrow> (case x of Inl e \<Rightarrow> snd (tp_format_error fl_text e) | Inr _ \<Rightarrow> False)"

definition tp_serve :: "timing \<Rightarrow> bool \<Rightarrow> nat \<Rightarrow> job \<Rightarrow> tp_actor \<Rightarrow> tp_actor \<times> tp_outcome" where
  "tp_serve tm sandboxed seed jb st =
     (case tp_execute tm sandboxed seed jb st of
        (st, x) \<Rightarrow> (if fatal_outcome x then tp_restart st else tp_cleanup tm st, x))"

text \<open>Requests one after the other, on one process of the actor: it serves none once it restarts.\<close>

fun tp_serve_all :: "timing \<Rightarrow> bool \<Rightarrow> (nat \<times> job) list \<Rightarrow> tp_actor \<Rightarrow> tp_actor \<times> tp_outcome list" where
  "tp_serve_all tm sandboxed [] st = (st, [])"
| "tp_serve_all tm sandboxed ((seed, jb) # jobs) st =
     (if tp_group st = None then (st, [])
      else
        (case tp_serve tm sandboxed seed jb st of
           (st, x) \<Rightarrow> (case tp_serve_all tm sandboxed jobs st of (st, xs) \<Rightarrow> (st, x # xs))))"

end
