(* ===== verification/Shard_Phases.thy ===== *)
theory Shard_Phases
  imports Tensor_Parallel
begin

text \<open>
  How far a shard is in a request, as rank 0 can know it: what was sent to it and what was read from it
  confine it to a \<open>phase\<close>, whatever it does in the meantime, and each thing rank 0 does with its socket takes it
  from one phase to another. A shard that waited an hour for \<open>GO\<close> stands down on its own and is excluded.
\<close>

section \<open>The phases\<close>

datatype phase = Coming | AtRest | Asked | Prepared | Released | Dismissed | Crossed

text \<open>
  \<open>Coming\<close>: it has connected and not said that it is ready. \<open>Asked\<close>: a block or a runner was sent and not answered. \<open>Prepared\<close>: it answered READY. \<open>Released\<close>: it was sent
  \<open>GO\<close> and has not reported. \<open>Dismissed\<close>: it was sent \<open>SKIP\<close> with nothing else under way. \<open>Crossed\<close>: the \<open>SKIP\<close>
  crosses an answer that is still to come, so that answer is what rank 0 reads first.
\<close>

definition asks :: "command \<Rightarrow> bool" where
  "asks m \<longleftrightarrow> (case m of PREPARE _ _ _ _ \<Rightarrow> True | SANDBOX _ _ _ \<Rightarrow> True | _ \<Rightarrow> False)"

definition refuses :: "sh_reply \<Rightarrow> bool" where
  "refuses m \<longleftrightarrow> (case m of R_ERROR _ \<Rightarrow> True | _ \<Rightarrow> False)"

definition reports :: "sh_reply \<Rightarrow> bool" where
  "reports m \<longleftrightarrow> m = R_DONE \<or> refuses m"

definition stale :: "sh_reply \<Rightarrow> bool" where
  "stale m \<longleftrightarrow> \<not> is_idle m"

inductive boxes :: "phase \<Rightarrow> whereabouts \<Rightarrow> command list \<Rightarrow> sh_reply list \<Rightarrow> bool" where
  coming: "boxes Coming Loading [] []"
| coming_ready: "is_ready m \<Longrightarrow> boxes Coming AtLoop [] [m]"
| coming_gone: "boxes Coming Exited i []"
| coming_left: "is_ready m \<or> refuses m \<Longrightarrow> boxes Coming Exited i [m]"
| rest: "boxes AtRest AtLoop [] []"
| rest_gone: "boxes AtRest Exited i []"
| asked: "asks m \<Longrightarrow> boxes Asked AtLoop [m] []"
| asked_ready: "is_ready m \<Longrightarrow> boxes Asked AwaitGo [] [m]"
| asked_refused: "refuses m \<Longrightarrow> boxes Asked AtLoop [] [m]"
| asked_gone: "boxes Asked Exited i []"
| asked_left: "is_ready m \<or> refuses m \<Longrightarrow> boxes Asked Exited i [m]"
| prepared: "boxes Prepared AwaitGo [] []"
| prepared_gone: "boxes Prepared Exited i []"
| released: "boxes Released AwaitGo [GO] []"
| released_runs: "boxes Released InBlock [] []"
| released_ran: "reports m \<Longrightarrow> boxes Released AtLoop [] [m]"
| released_gone: "boxes Released Exited i []"
| released_left: "reports m \<Longrightarrow> boxes Released Exited i [m]"
| dismissed: "pl = AtLoop \<or> pl = AwaitGo \<Longrightarrow> boxes Dismissed pl [SKIP] []"
| dismissed_idle: "is_idle m \<Longrightarrow> boxes Dismissed AtLoop [] [m]"
| dismissed_gone: "boxes Dismissed Exited i []"
| dismissed_left: "is_idle m \<Longrightarrow> boxes Dismissed Exited i [m]"
| crossed: "asks m \<Longrightarrow> boxes Crossed AtLoop [m, SKIP] []"
| crossed_ready: "is_ready m \<Longrightarrow> boxes Crossed AwaitGo [SKIP] [m]"
| crossed_go: "boxes Crossed AwaitGo [GO, SKIP] []"
| crossed_runs: "boxes Crossed InBlock [SKIP] []"
| crossed_ran: "reports m \<Longrightarrow> boxes Crossed AtLoop [SKIP] [m]"
| crossed_both: "stale m \<Longrightarrow> boxes Crossed AtLoop [] [m, k]"
| crossed_gone: "boxes Crossed Exited i []"
| crossed_left: "stale m \<Longrightarrow> boxes Crossed Exited i (m # ms)"

inductive_cases boxes_coming: "boxes Coming pl i ou"
inductive_cases boxes_rest: "boxes AtRest pl i ou"
inductive_cases boxes_asked: "boxes Asked pl i ou"
inductive_cases boxes_prepared: "boxes Prepared pl i ou"
inductive_cases boxes_released: "boxes Released pl i ou"
inductive_cases boxes_dismissed: "boxes Dismissed pl i ou"
inductive_cases boxes_crossed: "boxes Crossed pl i ou"

lemmas boxes_elims = boxes_rest boxes_asked boxes_prepared boxes_released boxes_dismissed boxes_crossed

definition at_phase :: "phase \<Rightarrow> shard \<Rightarrow> bool" where
  "at_phase ph s \<longleftrightarrow> boxes ph (sh_place s) (sh_inbox s) (sh_outbox s)"

text \<open>Between requests a shard holds no runner and its checkpoint is not armed.\<close>

definition tidy :: "shard \<Rightarrow> bool" where
  "tidy s \<longleftrightarrow>
     (sh_place s \<in> {Loading, AtLoop} \<longrightarrow> sh_runner s = None) \<and> (sh_place s \<noteq> InBlock \<longrightarrow> \<not> ab_armed (sh_abort s))"

lemma asks_iff: "asks m \<longleftrightarrow> (\<exists>p c e n. m = PREPARE p c e n) \<or> (\<exists>p e n. m = SANDBOX p e n)"
  by (cases m) (simp_all add: asks_def)

lemma reply_iff:
  "is_ready m \<longleftrightarrow> (\<exists>r. m = R_READY r)" "is_idle m \<longleftrightarrow> (\<exists>r. m = R_IDLE r)"
  "refuses m \<longleftrightarrow> (\<exists>e. m = R_ERROR e)" "reports m \<longleftrightarrow> m = R_DONE \<or> (\<exists>e. m = R_ERROR e)"
  by (cases m; simp add: is_ready_def is_idle_def refuses_def reports_def)+

lemma reply_kinds [simp, intro]:
  "is_ready (R_READY r)" "is_idle (R_IDLE r)" "refuses (R_ERROR e)" "reports R_DONE" "reports (R_ERROR e)"
  by (simp_all add: reply_iff)

lemma staleI [intro]: "is_ready m \<Longrightarrow> stale m" "refuses m \<Longrightarrow> stale m" "reports m \<Longrightarrow> stale m"
  by (auto simp: reply_iff stale_def)

lemmas shard_defs =
  sh_send_def sh_sandboxed_def sh_exit_def sh_stand_down_def sh_go_def sh_block_end_def sh_loaded_def arm_def disarm_def

text \<open>A shard stays in its phase, whatever it does.\<close>

lemma at_phase_exit: "at_phase ph s \<Longrightarrow> at_phase ph (sh_exit s)"
  unfolding at_phase_def
  by (cases rule: boxes.cases) (auto simp: shard_defs boxes.intros staleI)

lemma at_phase_take: "at_phase ph s \<Longrightarrow> at_phase ph (sh_move r (Take b) s)"
  unfolding at_phase_def
  by (cases rule: boxes.cases; cases b) (auto simp: shard_defs asks_iff boxes.intros staleI)

lemma at_phase_block_end: "at_phase ph s \<Longrightarrow> at_phase ph (sh_move r (BlockEnds b) s)"
  unfolding at_phase_def
  by (cases rule: boxes.cases; cases b) (auto simp: shard_defs boxes.intros staleI)

lemma at_phase_loaded: "at_phase ph s \<Longrightarrow> at_phase ph (sh_move r (Loaded b) s)"
  unfolding at_phase_def
  by (cases rule: boxes.cases; cases b) (auto simp: shard_defs boxes.intros)

lemma at_phase_move: "at_phase ph s \<Longrightarrow> mv \<noteq> GoHour \<Longrightarrow> at_phase ph (sh_move r mv s)"
  by (cases mv) (auto simp del: sh_move.simps(1-3) intro: at_phase_exit at_phase_take at_phase_block_end at_phase_loaded)

lemma tidy_move: "tidy s \<Longrightarrow> tidy (sh_move r mv s)"
proof (cases mv)
  case (Take b)
  moreover assume "tidy s"
  ultimately show ?thesis
    by (cases "sh_place s"; cases "sh_inbox s"; cases b; cases "hd (sh_inbox s)")
       (simp_all add: tidy_def shard_defs)
next
  case (BlockEnds b)
  moreover assume "tidy s"
  ultimately show ?thesis by (cases b) (simp_all add: tidy_def shard_defs)
next
  case (Loaded b)
  moreover assume "tidy s"
  ultimately show ?thesis by (cases b) (simp_all add: tidy_def shard_defs)
qed (simp_all add: tidy_def shard_defs)

text \<open>What rank 0 does with a shard's socket.\<close>

lemma at_phase_ask: "at_phase AtRest s \<Longrightarrow> sh_place s \<noteq> Exited \<Longrightarrow> asks m \<Longrightarrow> at_phase Asked (s\<lparr>sh_inbox := sh_inbox s @ [m]\<rparr>)"
  unfolding at_phase_def by (auto elim!: boxes_rest intro: boxes.intros)

lemma at_phase_go: "at_phase Prepared s \<Longrightarrow> sh_place s \<noteq> Exited \<Longrightarrow> at_phase Released (s\<lparr>sh_inbox := sh_inbox s @ [GO]\<rparr>)"
  unfolding at_phase_def by (auto elim!: boxes_prepared intro: boxes.intros)

fun skipped :: "phase \<Rightarrow> phase" where
  "skipped AtRest = Dismissed" | "skipped Prepared = Dismissed" | "skipped _ = Crossed"

lemma at_phase_skip:
  "at_phase ph s \<Longrightarrow> ph \<notin> {Coming, Dismissed, Crossed} \<Longrightarrow> sh_place s \<noteq> Exited \<Longrightarrow>
   at_phase (skipped ph) (s\<lparr>sh_inbox := sh_inbox s @ [SKIP]\<rparr>)"
  unfolding at_phase_def by (erule boxes.cases) (auto simp: boxes.intros staleI reports_def)

lemma at_phase_skip_gone:
  "at_phase ph s \<Longrightarrow> ph \<notin> {Coming, Dismissed, Crossed} \<Longrightarrow> sh_place s = Exited \<Longrightarrow> at_phase (skipped ph) s"
  unfolding at_phase_def by (erule boxes.cases) (auto simp: boxes.intros staleI reports_def)

lemma at_read_asked:
  "at_phase Asked s \<Longrightarrow> sh_outbox s = m # ms \<Longrightarrow>
   at_phase (if is_ready m then Prepared else AtRest) (s\<lparr>sh_outbox := ms\<rparr>)"
  unfolding at_phase_def by (auto elim!: boxes_asked simp: boxes.intros reply_iff)

lemma at_read_coming: "at_phase Coming s \<Longrightarrow> sh_outbox s = m # ms \<Longrightarrow> is_ready m \<Longrightarrow> at_phase AtRest (s\<lparr>sh_outbox := ms\<rparr>)"
  unfolding at_phase_def by (auto elim!: boxes_coming simp: boxes.intros)

lemma at_read_released: "at_phase Released s \<Longrightarrow> sh_outbox s = m # ms \<Longrightarrow> at_phase AtRest (s\<lparr>sh_outbox := ms\<rparr>)"
  unfolding at_phase_def by (auto elim!: boxes_released simp: boxes.intros)

lemma at_read_dismissed:
  "at_phase Dismissed s \<or> at_phase Crossed s \<Longrightarrow> sh_outbox s = m # ms \<Longrightarrow> is_idle m \<Longrightarrow> at_phase AtRest (s\<lparr>sh_outbox := ms\<rparr>)"
  unfolding at_phase_def by (auto elim!: boxes_dismissed boxes_crossed simp: boxes.intros stale_def reply_iff)

text \<open>Both together.\<close>

definition in_phase :: "phase \<Rightarrow> shard \<Rightarrow> bool" where
  "in_phase ph s \<longleftrightarrow> at_phase ph s \<and> tidy s"

lemma tidy_boxes [simp]: "tidy (s\<lparr>sh_inbox := i\<rparr>) = tidy s" "tidy (s\<lparr>sh_outbox := ou\<rparr>) = tidy s"
  by (simp_all add: tidy_def)

lemma phase_move: "in_phase ph s \<Longrightarrow> mv \<noteq> GoHour \<Longrightarrow> in_phase ph (sh_move r mv s)"
  by (simp add: in_phase_def at_phase_move tidy_move)

lemma phase_ask: "in_phase AtRest s \<Longrightarrow> sh_place s \<noteq> Exited \<Longrightarrow> asks m \<Longrightarrow> in_phase Asked (s\<lparr>sh_inbox := sh_inbox s @ [m]\<rparr>)"
  by (simp add: in_phase_def at_phase_ask)

lemma phase_go: "in_phase Prepared s \<Longrightarrow> sh_place s \<noteq> Exited \<Longrightarrow> in_phase Released (s\<lparr>sh_inbox := sh_inbox s @ [GO]\<rparr>)"
  by (simp add: in_phase_def at_phase_go)

lemma phase_skip:
  "in_phase ph s \<Longrightarrow> ph \<notin> {Coming, Dismissed, Crossed} \<Longrightarrow> sh_place s \<noteq> Exited \<Longrightarrow>
   in_phase (skipped ph) (s\<lparr>sh_inbox := sh_inbox s @ [SKIP]\<rparr>)"
  by (simp add: in_phase_def at_phase_skip)

lemma phase_skip_gone:
  "in_phase ph s \<Longrightarrow> ph \<notin> {Coming, Dismissed, Crossed} \<Longrightarrow> sh_place s = Exited \<Longrightarrow> in_phase (skipped ph) s"
  by (simp add: in_phase_def at_phase_skip_gone)

lemma read_asked:
  "in_phase Asked s \<Longrightarrow> sh_outbox s = m # ms \<Longrightarrow>
   in_phase (if is_ready m then Prepared else AtRest) (s\<lparr>sh_outbox := ms\<rparr>)"
  by (simp add: in_phase_def at_read_asked[simplified])

lemma read_coming: "in_phase Coming s \<Longrightarrow> sh_outbox s = m # ms \<Longrightarrow> is_ready m \<Longrightarrow> in_phase AtRest (s\<lparr>sh_outbox := ms\<rparr>)"
  by (simp add: in_phase_def at_read_coming)

lemma read_released: "in_phase Released s \<Longrightarrow> sh_outbox s = m # ms \<Longrightarrow> in_phase AtRest (s\<lparr>sh_outbox := ms\<rparr>)"
  by (simp add: in_phase_def at_read_released)

lemma read_dismissed:
  "in_phase Dismissed s \<or> in_phase Crossed s \<Longrightarrow> sh_outbox s = m # ms \<Longrightarrow> is_idle m \<Longrightarrow> in_phase AtRest (s\<lparr>sh_outbox := ms\<rparr>)"
  using at_read_dismissed by (auto simp: in_phase_def)

text \<open>A shard at rest.\<close>

lemma rest_iff:
  "in_phase AtRest s \<longleftrightarrow>
     sh_place s = Exited \<and> sh_outbox s = [] \<and> tidy s \<or>
     sh_place s = AtLoop \<and> sh_inbox s = [] \<and> sh_outbox s = [] \<and> sh_runner s = None \<and> \<not> ab_armed (sh_abort s)"
  unfolding in_phase_def at_phase_def tidy_def by (auto elim: boxes_rest simp: boxes.intros)

section \<open>Waiting for answers\<close>

text \<open>No shard waits an hour for \<open>GO\<close>.\<close>

definition patient :: "timing \<Rightarrow> bool" where
  "patient tm \<longleftrightarrow> (\<forall>t. \<forall>(r, mv) \<in> set (tm_moves tm t). mv \<noteq> GoHour)"

definition each :: "(nat \<Rightarrow> shard \<Rightarrow> bool) \<Rightarrow> group \<Rightarrow> bool" where
  "each P g \<longleftrightarrow> (\<forall>r \<in> set (gr_ranks g). P r (gr_shard g r))"

lemma group_fields [simp]:
  "gr_ranks (with_shard r f g) = gr_ranks g" "gr_process (with_shard r f g) = gr_process g"
  "gr_clock (with_shard r f g) = gr_clock g" "gr_shard (with_shard r f g) = (gr_shard g)(r := f (gr_shard g r))"
  by (simp_all add: with_shard_def)

lemma move_all_fields [simp]:
  "gr_ranks (move_all ms g) = gr_ranks g" "gr_process (move_all ms g) = gr_process g"
  "gr_clock (move_all ms g) = gr_clock g"
  unfolding move_all_def by (induction ms arbitrary: g; auto)+

lemma tick_fields [simp]:
  "gr_ranks (tick tm g) = gr_ranks g" "gr_process (tick tm g) = gr_process g"
  "gr_clock (tick tm g) = Suc (gr_clock g)"
  by (simp_all add: tick_def)

lemma move_all_keeps:
  assumes "\<And>r mv s. (r, mv) \<in> set ms \<Longrightarrow> P r s \<Longrightarrow> P r (sh_move r mv s)" and "P r (gr_shard g r)"
  shows "P r (gr_shard (move_all ms g) r)"
  using assms unfolding move_all_def
proof (induction ms arbitrary: g)
  case (Cons x ms)
  have "P r (gr_shard (with_shard (fst x) (sh_move (fst x) (snd x)) g) r)"
    using Cons.prems by (cases x) auto
  with Cons.prems(1) Cons.IH[of "with_shard (fst x) (sh_move (fst x) (snd x)) g"]
  show ?case by (cases x) auto
qed simp

lemma tick_keeps:
  assumes "\<And>r mv s. mv \<noteq> GoHour \<Longrightarrow> P r s \<Longrightarrow> P r (sh_move r mv s)" and "patient tm" and "P r (gr_shard g r)"
  shows "P r (gr_shard (tick tm g) r)"
proof -
  have "P r' (sh_move r' mv s)" if "(r', mv) \<in> set (tm_moves tm (gr_clock g))" and "P r' s" for r' mv s
    using that assms(1)[of mv r' s] assms(2) unfolding patient_def by fastforce
  then have "P r (gr_shard (move_all (tm_moves tm (gr_clock g)) g) r)"
    using assms(3) by (rule move_all_keeps)
  then show ?thesis unfolding tick_def by simp
qed

lemma take_cases:
  assumes "gr_take r g = (g', x)"
  obtains e where "x = Inl e" and "g' = g" and "sh_outbox (gr_shard g r) = []"
  | m ms where "x = Inr m" and "sh_outbox (gr_shard g r) = m # ms" and "g' = with_shard r (\<lambda>s. s\<lparr>sh_outbox := ms\<rparr>) g"
  using assms unfolding gr_take_def by (cases "sh_outbox (gr_shard g r)") (auto split: if_splits)

lemma take_fields:
  "gr_take r g = (g', x) \<Longrightarrow> gr_ranks g' = gr_ranks g \<and> gr_process g' = gr_process g \<and> (\<forall>q. q \<noteq> r \<longrightarrow> gr_shard g' q = gr_shard g q)"
  by (erule take_cases) simp_all

lemma read_ready_fields:
  "read_ready rs g = (g', received, lost) \<Longrightarrow>
   gr_ranks g' = gr_ranks g \<and> gr_process g' = gr_process g \<and> (\<forall>q. q \<notin> set rs \<longrightarrow> gr_shard g' q = gr_shard g q)"
proof (induction rs arbitrary: g g' received lost)
  case (Cons r rs)
  obtain g1 x where t: "gr_take r g = (g1, x)" by fastforce
  obtain g2 rc ls where rr: "read_ready rs g1 = (g2, rc, ls)" by (metis prod_cases3)
  have "g' = g2" using Cons.prems t rr by (auto split: sum.splits)
  with Cons.IH[OF rr] take_fields[OF t] show ?case by simp
qed simp

text \<open>One round of \<open>_drain\<close>, or its end.\<close>

lemma drain_loop_cases:
  assumes "drain_loop tm rs g = (g', received, lost)"
  obtains (over) "received = []" and "lost = unanswered rs" and "g' = g \<or> g' = tick tm g"
  | (round) g1 rc ls rc2 ls2 where "read_ready (filter (readable (tick tm g)) rs) (tick tm g) = (g1, rc, ls)"
      and "drain_loop tm (filter (\<lambda>r. \<not> readable (tick tm g) r) rs) g1 = (g', rc2, ls2)"
      and "received = rc @ rc2" and "lost = ls @ ls2" and "length (filter (\<lambda>r. \<not> readable (tick tm g) r) rs) < length rs"
proof (cases "rs = [] \<or> tm_late tm (gr_clock g) \<or> filter (readable (tick tm g)) rs = []")
  case True
  then show thesis using assms over by (subst (asm) drain_loop.simps) (auto simp: Let_def split: if_splits)
next
  case False
  obtain g1 rc ls where rr: "read_ready (filter (readable (tick tm g)) rs) (tick tm g) = (g1, rc, ls)" by (metis prod_cases3)
  obtain g2 rc2 ls2 where dl: "drain_loop tm (filter (\<lambda>r. \<not> readable (tick tm g) r) rs) g1 = (g2, rc2, ls2)"
    by (metis prod_cases3)
  have "g' = g2 \<and> received = rc @ rc2 \<and> lost = ls @ ls2"
    using assms False rr dl by (subst (asm) drain_loop.simps) (auto simp: Let_def)
  moreover have "length (filter (\<lambda>r. \<not> readable (tick tm g) r) rs) < length rs"
    using False by (auto simp: filter_empty_conv intro: length_filter_less)
  ultimately show thesis using round[OF rr] dl by simp
qed

lemma drain_loop_fields:
  "drain_loop tm rs g = (g', received, lost) \<Longrightarrow> gr_ranks g' = gr_ranks g \<and> gr_process g' = gr_process g"
proof (induction "length rs" arbitrary: rs g received lost rule: less_induct)
  case less
  from less.prems show ?case
  proof (cases rule: drain_loop_cases)
    case (round g1 rc ls rc2 ls2)
    then show ?thesis using less.hyps[OF round(5) round(2)] read_ready_fields[OF round(1)] by simp
  qed auto
qed

lemma drain_loop_keeps:
  assumes P: "\<And>r mv s. mv \<noteq> GoHour \<Longrightarrow> P r s \<Longrightarrow> P r (sh_move r mv s)" and tm: "patient tm"
  shows "drain_loop tm rs g = (g', received, lost) \<Longrightarrow> q \<notin> set rs \<Longrightarrow> P q (gr_shard g q) \<Longrightarrow> P q (gr_shard g' q)"
proof (induction "length rs" arbitrary: rs g received lost rule: less_induct)
  case less
  have t: "P q (gr_shard (tick tm g) q)" using tick_keeps[of P] P tm less.prems(3) by blast
  from less.prems(1) show ?case
  proof (cases rule: drain_loop_cases)
    case over
    then show ?thesis using t less.prems(3) by auto
  next
    case (round g1 rc ls rc2 ls2)
    have "P q (gr_shard g1 q)" using t read_ready_fields[OF round(1)] less.prems(2) by simp
    then show ?thesis using less.hyps[OF round(5) round(2)] less.prems(2) by simp
  qed
qed

lemma gather_keeps:
  assumes P: "\<And>r mv s. mv \<noteq> GoHour \<Longrightarrow> P r s \<Longrightarrow> P r (sh_move r mv s)" and tm: "patient tm"
  shows "gather tm rs g = (g', failures) \<Longrightarrow> q \<notin> set rs \<Longrightarrow> P q (gr_shard g q) \<Longrightarrow> P q (gr_shard g' q)"
proof (induction rs arbitrary: g failures)
  case (Cons r rs)
  obtain g1 x where t: "gr_recv tm r g = (g1, x)" by fastforce
  obtain fs where rest: "gather tm rs g1 = (g', fs)" using Cons.prems t by (auto split: prod.splits)
  have "P q (gr_shard (tick tm g) q)" using tick_keeps[of P] P tm Cons.prems(3) by blast
  then have "P q (gr_shard g1 q)" using take_fields[OF t[unfolded gr_recv_def]] Cons.prems(2) by simp
  then show ?case using Cons.IH[OF rest] Cons.prems(2) by simp
qed simp

lemma gather_fields: "gather tm rs g = (g', failures) \<Longrightarrow> gr_ranks g' = gr_ranks g \<and> gr_process g' = gr_process g"
proof (induction rs arbitrary: g failures)
  case (Cons r rs)
  obtain g1 x where t: "gr_recv tm r g = (g1, x)" by fastforce
  obtain fs where rest: "gather tm rs g1 = (g', fs)" using Cons.prems t by (auto split: prod.splits)
  show ?case using Cons.IH[OF rest] take_fields[OF t[unfolded gr_recv_def]] by simp
qed simp

text \<open>
  A wait: \<open>Q\<close> is what is known of a shard until its answer is read, \<open>A\<close> what is known from then on. After it
  every answer was read from a shard waited for, and the others are as they were.
\<close>

definition waited ::
  "(nat \<Rightarrow> shard \<Rightarrow> bool) \<Rightarrow> (nat \<Rightarrow> sh_reply \<Rightarrow> shard \<Rightarrow> bool) \<Rightarrow> nat list \<Rightarrow> group \<Rightarrow> (nat, sh_reply) dict \<Rightarrow> bool" where
  "waited Q A rs g received \<longleftrightarrow>
     fst ` set received \<subseteq> set rs \<and> (\<forall>(r, m) \<in> set received. A r m (gr_shard g r)) \<and>
     (\<forall>r \<in> set rs - fst ` set received. Q r (gr_shard g r))"

locale awaiting =
  fixes Q :: "nat \<Rightarrow> shard \<Rightarrow> bool" and A :: "nat \<Rightarrow> sh_reply \<Rightarrow> shard \<Rightarrow> bool"
  assumes Q_moves: "mv \<noteq> GoHour \<Longrightarrow> Q r s \<Longrightarrow> Q r (sh_move r mv s)"
    and A_moves: "mv \<noteq> GoHour \<Longrightarrow> A r m s \<Longrightarrow> A r m (sh_move r mv s)"
    and A_read: "Q r s \<Longrightarrow> sh_outbox s = m # ms \<Longrightarrow> A r m (s\<lparr>sh_outbox := ms\<rparr>)"
begin

lemma take_reads:
  assumes "gr_take r g = (g', x)" and "Q r (gr_shard g r)"
  shows "case x of Inl _ \<Rightarrow> Q r (gr_shard g' r) | Inr m \<Rightarrow> A r m (gr_shard g' r)"
  using assms(1) by (rule take_cases) (use assms(2) A_read in auto)

lemma tick_Q: "patient tm \<Longrightarrow> Q r (gr_shard g r) \<Longrightarrow> Q r (gr_shard (tick tm g) r)"
  using tick_keeps[of Q] Q_moves by blast

lemma tick_A: "patient tm \<Longrightarrow> A r m (gr_shard g r) \<Longrightarrow> A r m (gr_shard (tick tm g) r)"
  using tick_keeps[of "\<lambda>r. A r m"] A_moves by blast

lemma read_ready_waited:
  assumes "distinct rs" and "\<forall>r \<in> set rs. Q r (gr_shard g r)" and "read_ready rs g = (g', received, lost)"
  shows "waited Q A rs g' received \<and> (lost = [] \<longrightarrow> fst ` set received = set rs)"
  using assms
proof (induction rs arbitrary: g g' received lost)
  case (Cons r rs)
  obtain g1 x where t: "gr_take r g = (g1, x)" by fastforce
  obtain g2 rc ls where rr: "read_ready rs g1 = (g2, rc, ls)" by (metis prod_cases3)
  have ih: "waited Q A rs g2 rc \<and> (ls = [] \<longrightarrow> fst ` set rc = set rs)"
  proof (rule Cons.IH[OF _ _ rr])
    show "\<forall>q \<in> set rs. Q q (gr_shard g1 q)" using Cons.prems take_fields[OF t] by (metis distinct.simps(2) list.set_intros(2))
  qed (use Cons.prems in simp)
  have g: "g' = g2" using Cons.prems t rr by (auto split: sum.splits)
  have keep: "gr_shard g2 r = gr_shard g1 r" using read_ready_fields[OF rr] Cons.prems by simp
  show ?case
  proof (cases x)
    case (Inl e)
    then have "received = rc \<and> lost = rank_line r e # ls" using Cons.prems t rr by simp
    moreover have "Q r (gr_shard g2 r)" using take_reads[OF t] Inl keep Cons.prems by simp
    ultimately show ?thesis using ih g by (auto simp: waited_def)
  next
    case (Inr m)
    then have eq: "received = (r, m) # rc \<and> lost = ls" using Cons.prems t rr by simp
    have "A r m (gr_shard g2 r)" using take_reads[OF t] Inr keep Cons.prems by simp
    then show ?thesis using ih g eq by (auto simp: waited_def)
  qed
qed (simp add: waited_def)

lemma drain_loop_waited:
  assumes tm: "patient tm"
  shows "distinct rs \<Longrightarrow> \<forall>r \<in> set rs. Q r (gr_shard g r) \<Longrightarrow> drain_loop tm rs g = (g', received, lost) \<Longrightarrow>
    waited Q A rs g' received \<and> (lost = [] \<longrightarrow> fst ` set received = set rs)"
proof (induction "length rs" arbitrary: rs g received lost rule: less_induct)
  case less
  have t: "\<forall>r \<in> set rs. Q r (gr_shard (tick tm g) r)" using less.prems(2) tick_Q tm by blast
  from less.prems(3) show ?case
  proof (cases rule: drain_loop_cases)
    case over
    then show ?thesis using t less.prems(2) by (cases rs) (auto simp: waited_def unanswered_def)
  next
    case (round g1 rc ls rc2 ls2)
    let ?ready = "filter (readable (tick tm g)) rs" and ?wait = "filter (\<lambda>r. \<not> readable (tick tm g) r) rs"
    have first: "waited Q A ?ready g1 rc \<and> (ls = [] \<longrightarrow> fst ` set rc = set ?ready)"
      using less.prems(1) t by (intro read_ready_waited[OF _ _ round(1)]) auto
    have "\<forall>r \<in> set ?wait. Q r (gr_shard g1 r)" using t read_ready_fields[OF round(1)] by auto
    then have later: "waited Q A ?wait g' rc2 \<and> (ls2 = [] \<longrightarrow> fst ` set rc2 = set ?wait)"
      using less.hyps[OF round(5) _ _ round(2)] less.prems(1) by simp
    have keepA: "A r m (gr_shard g' r)" if "(r, m) \<in> set rc" for r m
    proof (rule drain_loop_keeps[of "\<lambda>r. A r m", OF _ tm round(2)])
      show "r \<notin> set ?wait" using first that by (auto simp: waited_def)
      show "A r m (gr_shard g1 r)" using first that by (auto simp: waited_def)
    qed (rule A_moves)
    have keepQ: "Q r (gr_shard g' r)" if "r \<in> set ?ready - fst ` set rc" for r
    proof (rule drain_loop_keeps[of Q, OF _ tm round(2)])
      show "r \<notin> set ?wait" using that by auto
      show "Q r (gr_shard g1 r)" using first that by (auto simp: waited_def)
    qed (rule Q_moves)
    have sets: "set ?ready \<union> set ?wait = set rs" by auto
    have "waited Q A rs g' (rc @ rc2)"
      unfolding waited_def
    proof (intro conjI)
      show "fst ` set (rc @ rc2) \<subseteq> set rs" using first later by (auto simp: waited_def)
      show "\<forall>(r, m) \<in> set (rc @ rc2). A r m (gr_shard g' r)" using keepA later by (auto simp: waited_def)
      show "\<forall>r \<in> set rs - fst ` set (rc @ rc2). Q r (gr_shard g' r)"
      proof
        fix r assume r: "r \<in> set rs - fst ` set (rc @ rc2)"
        then have "r \<in> set ?ready - fst ` set rc \<or> r \<in> set ?wait - fst ` set rc2" by auto
        then show "Q r (gr_shard g' r)" using keepQ later unfolding waited_def by blast
      qed
    qed
    moreover have "lost = [] \<longrightarrow> fst ` set received = set rs" using first later sets round(3,4) by (auto simp: image_Un)
    ultimately show ?thesis using round(3) by simp
  qed
qed

lemma gather_reads:
  assumes tm: "patient tm"
  shows "distinct rs \<Longrightarrow> \<forall>r \<in> set rs. Q r (gr_shard g r) \<Longrightarrow> gather tm rs g = (g', failures) \<Longrightarrow>
    (\<forall>r \<in> set rs. Q r (gr_shard g' r) \<or> (\<exists>m. A r m (gr_shard g' r))) \<and>
    (failures = [] \<longrightarrow> (\<forall>r \<in> set rs. \<exists>m. is_ready m \<and> A r m (gr_shard g' r)))"
proof (induction rs arbitrary: g failures)
  case (Cons r rs)
  obtain g1 x where t: "gr_recv tm r g = (g1, x)" by fastforce
  obtain fs where rest: "gather tm rs g1 = (g', fs)" using Cons.prems t by (auto split: prod.splits)
  have fl: "failures = (case x of Inl e \<Rightarrow> [rank_line r e]
      | Inr m \<Rightarrow> if is_ready m then [] else [rank_line r (describe_reply m)]) @ fs" using Cons.prems t rest by simp
  have q: "\<forall>p \<in> set (r # rs). Q p (gr_shard (tick tm g) p)" using Cons.prems(2) tick_Q tm by blast
  then have "\<forall>p \<in> set rs. Q p (gr_shard g1 p)"
    using take_fields[OF t[unfolded gr_recv_def]] Cons.prems(1) by (metis distinct.simps(2) list.set_intros(2))
  then have ih: "(\<forall>r \<in> set rs. Q r (gr_shard g' r) \<or> (\<exists>m. A r m (gr_shard g' r))) \<and>
    (fs = [] \<longrightarrow> (\<forall>r \<in> set rs. \<exists>m. is_ready m \<and> A r m (gr_shard g' r)))" using Cons.IH[OF _ _ rest] Cons.prems(1) by simp
  have "case x of Inl _ \<Rightarrow> Q r (gr_shard g1 r) | Inr m \<Rightarrow> A r m (gr_shard g1 r)"
    using take_reads[OF t[unfolded gr_recv_def]] q by simp
  then have "case x of Inl _ \<Rightarrow> Q r (gr_shard g' r) | Inr m \<Rightarrow> A r m (gr_shard g' r)"
    using gather_keeps[of Q, OF _ tm rest] gather_keeps[of "\<lambda>r. A r m" for m, OF _ tm rest] Q_moves A_moves Cons.prems(1)
    by (cases x) auto
  then show ?case using ih fl by (cases x) auto
qed simp

end

end
