(* ===== verification/Tensor_Parallel_Props.thy ===== *)
theory Tensor_Parallel_Props
  imports Shard_Phases
begin

text \<open>
  What the two-phase protocol gives: a group that counts as settled is at rest, a request that never ran costs
  a prompt group nothing, and the two ways in which the bookkeeping of \<open>tp/model.py\<close> is wrong about its group.
\<close>

section \<open>What is sent\<close>

lemma gr_send_cases:
  assumes "gr_send tm m r g = (g', x)"
  obtains e where "x = Inl e" and "g' = tick tm g" and "gone (tick tm g) r"
  | "x = Inr ()" and "\<not> gone (tick tm g) r"
    and "g' = with_shard r (\<lambda>s. s\<lparr>sh_inbox := sh_inbox s @ [m]\<rparr>) (tick tm g)"
  using assms unfolding gr_send_def by (auto simp: Let_def split: if_splits)

lemma gr_send_fields: "gr_send tm m r g = (g', x) \<Longrightarrow> gr_ranks g' = gr_ranks g \<and> gr_process g' = gr_process g"
  by (erule gr_send_cases) simp_all

text \<open>A command sent: \<open>Q\<close> is known of a shard before, \<open>Q'\<close> of one that got it.\<close>

locale sending =
  fixes m :: command and Q Q' :: "nat \<Rightarrow> shard \<Rightarrow> bool"
  assumes Q_moves: "mv \<noteq> GoHour \<Longrightarrow> Q r s \<Longrightarrow> Q r (sh_move r mv s)"
    and Q'_moves: "mv \<noteq> GoHour \<Longrightarrow> Q' r s \<Longrightarrow> Q' r (sh_move r mv s)"
    and Q'_sent: "Q r s \<Longrightarrow> sh_place s \<noteq> Exited \<Longrightarrow> Q' r (s\<lparr>sh_inbox := sh_inbox s @ [m]\<rparr>)"
begin

lemma tick_both:
  "patient tm \<Longrightarrow> Q r (gr_shard g r) \<Longrightarrow> Q r (gr_shard (tick tm g) r)"
  "patient tm \<Longrightarrow> Q' r (gr_shard g r) \<Longrightarrow> Q' r (gr_shard (tick tm g) r)"
  using tick_keeps[of Q] tick_keeps[of Q'] Q_moves Q'_moves by blast+

lemma send_one:
  assumes "patient tm" and "gr_send tm m r g = (g', x)"
  shows "Q r (gr_shard g r) \<Longrightarrow> (case x of Inl _ \<Rightarrow> Q r (gr_shard g' r) | Inr _ \<Rightarrow> Q' r (gr_shard g' r))"
    and "q \<noteq> r \<Longrightarrow> Q q (gr_shard g q) \<Longrightarrow> Q q (gr_shard g' q)"
    and "q \<noteq> r \<Longrightarrow> Q' q (gr_shard g q) \<Longrightarrow> Q' q (gr_shard g' q)"
  using assms(2) by (rule gr_send_cases; use assms(1) tick_both Q'_sent in \<open>auto simp: gone_def\<close>)+

lemma send_all_fields: "send_all tm c rs g = (g', x) \<Longrightarrow> gr_ranks g' = gr_ranks g \<and> gr_process g' = gr_process g"
proof (induction rs arbitrary: g)
  case (Cons r rs)
  obtain g1 y where t: "gr_send tm c r g = (g1, y)" by fastforce
  with Cons show ?case using gr_send_fields[OF t] by (cases y) auto
qed simp

lemma send_all_frame:
  "patient tm \<Longrightarrow> send_all tm m rs g = (g', x) \<Longrightarrow> q \<notin> set rs \<Longrightarrow> Q' q (gr_shard g q) \<Longrightarrow> Q' q (gr_shard g' q)"
proof (induction rs arbitrary: g)
  case (Cons r rs)
  obtain g1 y where t: "gr_send tm m r g = (g1, y)" by fastforce
  then have "Q' q (gr_shard g1 q)" using send_one(3)[OF Cons.prems(1) t] Cons.prems by simp
  then show ?case using Cons t by (cases y) auto
qed simp

lemma send_all_reach:
  "patient tm \<Longrightarrow> distinct rs \<Longrightarrow> \<forall>r \<in> set rs. Q r (gr_shard g r) \<Longrightarrow> send_all tm m rs g = (g', x) \<Longrightarrow>
   (\<forall>r \<in> set rs. Q r (gr_shard g' r) \<or> Q' r (gr_shard g' r)) \<and> (x = Inr () \<longrightarrow> (\<forall>r \<in> set rs. Q' r (gr_shard g' r)))"
proof (induction rs arbitrary: g)
  case (Cons r rs)
  obtain g1 y where t: "gr_send tm m r g = (g1, y)" by fastforce
  have rest: "\<forall>q \<in> set rs. Q q (gr_shard g1 q)"
    using send_one(2)[OF Cons.prems(1) t] Cons.prems(2,3) by (metis distinct.simps(2) list.set_intros(2))
  have one: "case y of Inl _ \<Rightarrow> Q r (gr_shard g1 r) | Inr _ \<Rightarrow> Q' r (gr_shard g1 r)"
    using send_one(1)[OF Cons.prems(1) t] Cons.prems by simp
  show ?case
  proof (cases y)
    case (Inl e)
    then show ?thesis using Cons.prems t rest one by auto
  next
    case (Inr u)
    then have s: "send_all tm m rs g1 = (g', x)" using Cons.prems t by simp
    have "Q' r (gr_shard g' r)" using send_all_frame[OF Cons.prems(1) s] Cons.prems one Inr by simp
    then show ?thesis using Cons.IH[OF Cons.prems(1) _ rest s] Cons.prems by auto
  qed
qed simp

end

definition phased :: "phase set \<Rightarrow> group \<Rightarrow> bool" where
  "phased P g \<longleftrightarrow> each (\<lambda>r s. \<exists>ph \<in> P. in_phase ph s) g"

lemma phased_mono: "phased P g \<Longrightarrow> P \<subseteq> P' \<Longrightarrow> phased P' g"
  unfolding phased_def each_def by blast

lemma phased_one: "phased {ph} g \<longleftrightarrow> (\<forall>r \<in> set (gr_ranks g). in_phase ph (gr_shard g r))"
  unfolding phased_def each_def by simp

definition sh_under_way :: "shard \<Rightarrow> bool" where
  "sh_under_way s \<longleftrightarrow> (\<exists>ph \<in> {AtRest, Asked, Prepared, Released}. in_phase ph s)"

definition called_off :: "shard \<Rightarrow> bool" where
  "called_off s \<longleftrightarrow> in_phase Dismissed s \<or> in_phase Crossed s"

interpretation asking: sending "PREPARE p c e n" "\<lambda>r. in_phase AtRest" "\<lambda>r. in_phase Asked"
  by unfold_locales (simp_all add: phase_move phase_ask asks_def)

interpretation pointing: sending "SANDBOX p e n" "\<lambda>r. in_phase AtRest" "\<lambda>r. in_phase Asked"
  by unfold_locales (simp_all add: phase_move phase_ask asks_def)

interpretation releasing: sending GO "\<lambda>r. in_phase Prepared" "\<lambda>r. in_phase Released"
  by unfold_locales (simp_all add: phase_move phase_go)

interpretation asked: awaiting "\<lambda>r. in_phase Asked" "\<lambda>r m. in_phase (if is_ready m then Prepared else AtRest)"
  by unfold_locales (simp_all add: phase_move read_asked)

interpretation released: awaiting "\<lambda>r. in_phase Released" "\<lambda>r m. in_phase AtRest"
  by unfold_locales (simp_all add: phase_move read_released)

interpretation dismissed: awaiting "\<lambda>r. called_off" "\<lambda>r m s. is_idle m \<longrightarrow> in_phase AtRest s"
  by unfold_locales (auto simp: called_off_def phase_move read_dismissed)

interpretation resting: awaiting "\<lambda>r. in_phase AtRest" "\<lambda>r m s. False"
  by unfold_locales (simp add: phase_move, auto simp: in_phase_def at_phase_def elim: boxes_rest)

section \<open>The group's operations\<close>

definition wf_group :: "group \<Rightarrow> bool" where
  "wf_group g \<longleftrightarrow> distinct (gr_ranks g) \<and> gr_process g ` set (gr_ranks g) = set (gr_ranks g)"

lemma wf_same: "gr_ranks g' = gr_ranks g \<and> gr_process g' = gr_process g \<Longrightarrow> wf_group g' = wf_group g"
  by (simp add: wf_group_def)

lemma phased_tick: "patient tm \<Longrightarrow> phased P g \<Longrightarrow> phased P (tick tm g)"
proof -
  assume tm: "patient tm" and p: "phased P g"
  have "\<exists>ph \<in> P. in_phase ph (gr_shard (tick tm g) r)" if r: "r \<in> set (gr_ranks g)" for r
  proof -
    obtain ph where "ph \<in> P" and "in_phase ph (gr_shard g r)" using p r by (auto simp: phased_def each_def)
    then show ?thesis using tick_keeps[of "\<lambda>r. in_phase ph"] phase_move tm by blast
  qed
  then show ?thesis by (simp add: phased_def each_def)
qed

lemma failures_of_Nil: "failures_of ok received = [] \<longleftrightarrow> (\<forall>(r, m) \<in> set received. ok m)"
  by (auto simp: failures_of_def filter_empty_conv)

text \<open>Asking the group: all shards are prepared, or some are at rest or yet to answer.\<close>

lemma prepare_phases:
  assumes tm: "patient tm" and g: "wf_group g" "phased {AtRest} g" and p: "prepare tm pl c e n g = (g', x)"
  shows "gr_ranks g' = gr_ranks g \<and> gr_process g' = gr_process g \<and> phased {AtRest, Asked, Prepared} g' \<and>
    (x = Inr () \<longrightarrow> phased {Prepared} g')"
proof -
  obtain g1 y where s: "send_all tm (PREPARE pl c e n) (gr_ranks g) g = (g1, y)" by fastforce
  obtain g2 fs where ga: "gather tm (gr_ranks g1) g1 = (g2, fs)" by fastforce
  note f1 = asking.send_all_fields[OF s]
  have sent: "(\<forall>r \<in> set (gr_ranks g). in_phase AtRest (gr_shard g1 r) \<or> in_phase Asked (gr_shard g1 r)) \<and>
    (y = Inr () \<longrightarrow> (\<forall>r \<in> set (gr_ranks g). in_phase Asked (gr_shard g1 r)))"
    using asking.send_all_reach[OF tm _ _ s] g by (simp add: wf_group_def phased_one)
  show ?thesis
  proof (cases y)
    case (Inl e)
    then have "g' = g1 \<and> x = Inl e" using p s by (simp add: prepare_def)
    then show ?thesis using f1 sent by (auto simp: phased_def each_def)
  next
    case (Inr u)
    then have x: "g' = g2 \<and> (x = Inr () \<longrightarrow> fs = [])" using p s ga by (auto simp: prepare_def split: if_splits)
    have all: "\<forall>r \<in> set (gr_ranks g1). in_phase Asked (gr_shard g1 r)" using sent Inr f1 by simp
    have d: "distinct (gr_ranks g1)" using g(1) f1 by (simp add: wf_group_def)
    note got = asked.gather_reads[OF tm d all ga]
    then have "phased {AtRest, Asked, Prepared} g2"
      using gather_fields[OF ga] unfolding phased_def each_def by (auto split: if_splits)
    moreover have "fs = [] \<longrightarrow> phased {Prepared} g2"
      using got gather_fields[OF ga] unfolding phased_one by auto
    ultimately show ?thesis using x f1 gather_fields[OF ga] by simp
  qed
qed

lemma sandbox_phases:
  assumes tm: "patient tm" and g: "wf_group g" "phased {AtRest} g" and p: "sandbox tm path e n g = (g', x)"
  shows "gr_ranks g' = gr_ranks g \<and> gr_process g' = gr_process g \<and> phased {AtRest, Asked, Prepared} g' \<and>
    (x = Inr () \<longrightarrow> phased {Prepared} g')"
proof -
  obtain g1 y where s: "send_all tm (SANDBOX path e n) (gr_ranks g) g = (g1, y)" by fastforce
  obtain g2 rc ls where dr: "drain_loop tm (gr_ranks g1) g1 = (g2, rc, ls)" by (metis prod_cases3)
  note f1 = pointing.send_all_fields[OF s]
  have sent: "(\<forall>r \<in> set (gr_ranks g). in_phase AtRest (gr_shard g1 r) \<or> in_phase Asked (gr_shard g1 r)) \<and>
    (y = Inr () \<longrightarrow> (\<forall>r \<in> set (gr_ranks g). in_phase Asked (gr_shard g1 r)))"
    using pointing.send_all_reach[OF tm _ _ s] g by (simp add: wf_group_def phased_one)
  show ?thesis
  proof (cases y)
    case (Inl e)
    then have "g' = g1 \<and> x = Inl e" using p s by (simp add: sandbox_def)
    then show ?thesis using f1 sent by (auto simp: phased_def each_def)
  next
    case (Inr u)
    then have x: "g' = g2 \<and> (x = Inr () \<longrightarrow> ls = [] \<and> failures_of is_ready rc = [])"
      using p s dr by (auto simp: sandbox_def drain_shards_def Let_def split: if_splits)
    have all: "\<forall>r \<in> set (gr_ranks g1). in_phase Asked (gr_shard g1 r)" using sent Inr f1 by simp
    have d: "distinct (gr_ranks g1)" using g(1) f1 by (simp add: wf_group_def)
    note got = asked.drain_loop_waited[OF tm d all dr] and f2 = drain_loop_fields[OF dr]
    have "phased {AtRest, Asked, Prepared} g2" unfolding phased_def each_def
    proof
      fix r assume r: "r \<in> set (gr_ranks g2)"
      show "\<exists>ph \<in> {AtRest, Asked, Prepared}. in_phase ph (gr_shard g2 r)"
        using got r f2 by (cases "r \<in> fst ` set rc") (fastforce simp: waited_def split: if_splits)+
    qed
    moreover have "ls = [] \<and> failures_of is_ready rc = [] \<longrightarrow> phased {Prepared} g2"
      using got f2 unfolding phased_one failures_of_Nil waited_def by fastforce
    ultimately show ?thesis using x f1 f2 by simp
  qed
qed

lemma go_phases:
  assumes tm: "patient tm" and g: "wf_group g" "phased {Prepared} g" and p: "go tm g = (g', x)"
  shows "gr_ranks g' = gr_ranks g \<and> gr_process g' = gr_process g \<and> phased {Prepared, Released} g' \<and>
    (x = Inr () \<longrightarrow> phased {Released} g')"
proof -
  have s: "send_all tm GO (gr_ranks g) g = (g', x)" using p by (simp add: go_def)
  then show ?thesis using releasing.send_all_reach[OF tm _ _ s] releasing.send_all_fields[OF s] g
    by (auto simp: phased_def each_def wf_group_def)
qed

lemma collect_phases:
  assumes tm: "patient tm" and g: "wf_group g" and p: "collect tm g = (g', raised, lost)"
  shows "gr_ranks g' = gr_ranks g \<and> gr_process g' = gr_process g"
    and "phased {Released} g \<Longrightarrow> lost = [] \<Longrightarrow> phased {AtRest} g'"
    and "phased {AtRest} g \<Longrightarrow> phased {AtRest} g'"
proof -
  obtain rc where dr: "drain_loop tm (gr_ranks g) g = (g', rc, lost)"
    using p by (auto simp: collect_def drain_shards_def split: prod.splits)
  have d: "distinct (gr_ranks g)" using g by (simp add: wf_group_def)
  show f: "gr_ranks g' = gr_ranks g \<and> gr_process g' = gr_process g" using drain_loop_fields[OF dr] .
  show "phased {AtRest} g'" if "phased {Released} g" "lost = []"
    using released.drain_loop_waited[OF tm d _ dr] that f unfolding phased_one waited_def by fastforce
  show "phased {AtRest} g'" if "phased {AtRest} g"
    using resting.drain_loop_waited[OF tm d _ dr] that f unfolding phased_one waited_def by fastforce
qed

text \<open>Standing the group down: when every shard acknowledges, every shard is at rest, whatever was under way.\<close>

lemma called_off_sent:
  assumes "sh_under_way s"
  shows "sh_place s \<noteq> Exited \<Longrightarrow> called_off (s\<lparr>sh_inbox := sh_inbox s @ [SKIP]\<rparr>)" and "sh_place s = Exited \<Longrightarrow> called_off s"
proof -
  obtain ph where ph: "ph \<in> {AtRest, Asked, Prepared, Released}" and s: "in_phase ph s" using assms unfolding sh_under_way_def by blast
  then have "skipped ph = Dismissed \<or> skipped ph = Crossed" by auto
  then show "sh_place s \<noteq> Exited \<Longrightarrow> called_off (s\<lparr>sh_inbox := sh_inbox s @ [SKIP]\<rparr>)" and "sh_place s = Exited \<Longrightarrow> called_off s"
    using phase_skip[OF s] phase_skip_gone[OF s] ph unfolding called_off_def by auto
qed

lemma called_off_move: "mv \<noteq> GoHour \<Longrightarrow> called_off s \<Longrightarrow> called_off (sh_move r mv s)"
  unfolding called_off_def using phase_move by blast

lemma under_way_move: "mv \<noteq> GoHour \<Longrightarrow> sh_under_way s \<Longrightarrow> sh_under_way (sh_move r mv s)"
  unfolding sh_under_way_def using phase_move by blast

interpretation skipping: sending SKIP "\<lambda>r. sh_under_way" "\<lambda>r. called_off"
  by unfold_locales (use under_way_move called_off_move called_off_sent in blast)+

lemma skip_one:
  assumes tm: "patient tm" and "sh_under_way (gr_shard g r)"
  shows "called_off (gr_shard (fst (gr_send tm SKIP r g)) r)"
proof -
  obtain g' x where s: "gr_send tm SKIP r g = (g', x)" by fastforce
  then show ?thesis
  proof (cases rule: gr_send_cases)
    case 1
    then show ?thesis using skipping.tick_both(1)[OF tm assms(2)] called_off_sent(2) s by (simp add: gone_def)
  next
    case 2
    then show ?thesis using skipping.send_one(1)[OF tm s assms(2)] s by simp
  qed
qed

lemma skip_all:
  assumes tm: "patient tm"
  shows "distinct rs \<Longrightarrow> \<forall>r \<in> set rs. sh_under_way (gr_shard g r) \<Longrightarrow> g' = fold (\<lambda>r g. fst (gr_send tm SKIP r g)) rs g \<Longrightarrow>
    gr_ranks g' = gr_ranks g \<and> gr_process g' = gr_process g \<and> (\<forall>r \<in> set rs. called_off (gr_shard g' r)) \<and>
    (\<forall>q. q \<notin> set rs \<longrightarrow> called_off (gr_shard g q) \<longrightarrow> called_off (gr_shard g' q))"
proof (induction rs arbitrary: g)
  case (Cons r rs)
  obtain g1 x where s: "gr_send tm SKIP r g = (g1, x)" by fastforce
  have one: "called_off (gr_shard g1 r)" using skip_one[OF tm, of g r] Cons.prems(2) s by simp
  have "\<forall>q \<in> set rs. sh_under_way (gr_shard g1 q)"
    using skipping.send_one(2)[OF tm s] Cons.prems(1,2) by (metis distinct.simps(2) list.set_intros(2))
  then have ih: "gr_ranks g' = gr_ranks g1 \<and> gr_process g' = gr_process g1 \<and> (\<forall>r \<in> set rs. called_off (gr_shard g' r)) \<and>
    (\<forall>q. q \<notin> set rs \<longrightarrow> called_off (gr_shard g1 q) \<longrightarrow> called_off (gr_shard g' q))"
    using Cons.IH[of g1] Cons.prems(1,3) s by simp
  have "r \<notin> set rs" using Cons.prems(1) by simp
  then have r: "called_off (gr_shard g' r)" using ih one by blast
  have "called_off (gr_shard g' q)" if "q \<notin> set (r # rs)" and "called_off (gr_shard g q)" for q
    using ih skipping.send_one(3)[OF tm s, of q] that by simp
  then show ?case using gr_send_fields[OF s] ih r by simp
qed simp

lemma release_phases:
  assumes tm: "patient tm" and g: "wf_group g" "phased {AtRest, Asked, Prepared, Released} g" and p: "release tm g = (g', lost)"
  shows "gr_ranks g' = gr_ranks g \<and> gr_process g' = gr_process g \<and> (lost = [] \<longrightarrow> phased {AtRest} g')"
proof -
  define g1 where "g1 = fold (\<lambda>r g. fst (gr_send tm SKIP r g)) (gr_ranks g) g"
  have off: "gr_ranks g1 = gr_ranks g \<and> gr_process g1 = gr_process g \<and> (\<forall>r \<in> set (gr_ranks g). called_off (gr_shard g1 r))"
    using skip_all[OF tm _ _ g1_def] g by (simp add: wf_group_def phased_def each_def sh_under_way_def)
  obtain rc ls where dr: "drain_loop tm (gr_ranks g1) g1 = (g', rc, ls)" and lost: "lost = ls @ failures_of is_idle rc"
    using p unfolding release_def drain_shards_def g1_def[symmetric] by (auto split: prod.splits)
  have "distinct (gr_ranks g1)" and "\<forall>r \<in> set (gr_ranks g1). called_off (gr_shard g1 r)"
    using off g by (simp_all add: wf_group_def)
  note got = dismissed.drain_loop_waited[OF tm this dr] and f = drain_loop_fields[OF dr]
  have "in_phase AtRest (gr_shard g' r)" if none: "lost = []" and r: "r \<in> set (gr_ranks g')" for r
  proof -
    have "ls = []" and idle: "\<forall>(r, m) \<in> set rc. is_idle m" using none lost by (simp_all add: failures_of_Nil)
    then obtain m where m: "(r, m) \<in> set rc" using got f r by force
    with idle have "is_idle m" by blast
    moreover have "is_idle m \<longrightarrow> in_phase AtRest (gr_shard g' r)" using got m unfolding waited_def by blast
    ultimately show ?thesis by blast
  qed
  then show ?thesis using f off by (simp add: phased_one)
qed

section \<open>A request\<close>

text \<open>The group at rest; a torn-down group has nothing to be in.\<close>

definition rests :: "tp_actor \<Rightarrow> bool" where
  "rests st \<longleftrightarrow> (case tp_group st of None \<Rightarrow> True | Some g \<Rightarrow> wf_group g \<and> phased {AtRest} g)"

text \<open>What the flags say of the group, between \<open>execute\<close> and \<open>cleanup\<close>.\<close>

definition flags_tell :: "tp_actor \<Rightarrow> bool" where
  "flags_tell st \<longleftrightarrow>
     (case tp_group st of
        None \<Rightarrow> True
      | Some g \<Rightarrow> wf_group g \<and>
          (if tp_committed st then phased {Released} g \<or> phased {AtRest} g else tp_stood_down st \<longrightarrow> phased {AtRest} g))"

text \<open>\<open>far\<close>: how far a request got, by whether it was committed.\<close>

definition far :: "tp_actor \<Rightarrow> bool" where
  "far st \<longleftrightarrow>
     (\<exists>g. tp_group st = Some g \<and> wf_group g \<and> tp_dispatched st \<and> tp_stood_down st \<and>
       (if tp_committed st then phased {Released} g else phased {AtRest, Asked, Prepared, Released} g))"

lemma commit_far:
  assumes tm: "patient tm" and st: "tp_group st = Some g" "wf_group g" "phased {Prepared} g" "tp_dispatched st" "tp_stood_down st"
    "\<not> tp_committed st" and c: "tp_commit tm st = (st', x)"
  shows "far st' \<and> (x = Inr () \<longrightarrow> tp_committed st')"
proof -
  obtain g' y where go: "go tm g = (g', y)" by fastforce
  note ph = go_phases[OF tm st(2,3) go]
  have wf: "wf_group g'" using ph st(2) wf_same by blast
  show ?thesis
  proof (cases y)
    case (Inl e)
    then have "st' = st\<lparr>tp_group := Some g'\<rparr> \<and> x = Inl e" using c go st(1) by (simp add: tp_commit_def on_group_def)
    moreover have "phased {AtRest, Asked, Prepared, Released} g'" using ph phased_mono[of "{Prepared, Released}" g'] by simp
    ultimately show ?thesis using wf st by (simp add: far_def)
  next
    case (Inr u)
    then have "st' = st\<lparr>tp_group := Some g', tp_abort := arm (tp_abort st), tp_committed := True\<rparr>"
      using c go st(1) by (simp add: tp_commit_def on_group_def)
    then show ?thesis using ph Inr wf st by (simp add: far_def)
  qed
qed

lemma dispatch_far:
  assumes tm: "patient tm" and st: "tp_group st = Some g" "wf_group g" "phased {AtRest} g" "tp_dispatched st" "tp_stood_down st"
    "\<not> tp_committed st" and d: "tp_dispatch tm seed jb st = (st', x)"
  shows "far st'"
proof -
  obtain g' y where pr: "prepare tm (jb_payload jb) (jb_compress jb) (jb_env jb) seed g = (g', y)" by fastforce
  note ph = prepare_phases[OF tm st(2,3) pr]
  have wf: "wf_group g'" using ph st(2) wf_same by blast
  have any: "far (st\<lparr>tp_group := Some g'\<rparr>)"
    using ph wf st phased_mono[of "{AtRest, Asked, Prepared}" g' "{AtRest, Asked, Prepared, Released}"] by (auto simp: far_def)
  show ?thesis
  proof (cases y)
    case (Inl e)
    then have "st' = st\<lparr>tp_group := Some g'\<rparr>" using d pr st(1) by (simp add: tp_dispatch_def on_group_def)
    then show ?thesis using any by simp
  next
    case (Inr u)
    then have b: "base_execute tm jb (st\<lparr>tp_group := Some g'\<rparr>) = (st', x)"
      using d pr st(1) by (simp add: tp_dispatch_def on_group_def)
    obtain st2 z where c: "tp_commit tm (st\<lparr>tp_group := Some g'\<rparr>) = (st2, z)" by fastforce
    have "far st2" using commit_far[OF tm _ wf _ _ _ _ c] ph Inr st by simp
    then show ?thesis using b c any by (auto simp: base_execute_def split: option.splits sum.splits)
  qed
qed

lemma runner_far:
  assumes tm: "patient tm" and st: "tp_group st = Some g" "wf_group g" "phased {AtRest} g" "tp_dispatched st" "tp_stood_down st"
    "\<not> tp_committed st" and d: "run_in_runner tm seed jb st = (st', x)"
  shows "far st'"
proof -
  have start: "far (st\<lparr>tp_runner := r, tp_runner_up := b\<rparr>)" "far st" for r b
    using st phased_mono[of "{AtRest}" g] by (auto simp: far_def)
  show ?thesis
  proof (cases "jb_acquired jb")
    case (Inl f)
    then show ?thesis using d start by (simp add: run_in_runner_def)
  next
    case path: (Inr path)
    define st1 where "st1 = st\<lparr>tp_runner := Some path, tp_runner_up := True\<rparr>"
    obtain g' y where sb: "sandbox tm path (jb_env jb) seed g = (g', y)" by fastforce
    note ph = sandbox_phases[OF tm st(2,3) sb]
    have wf: "wf_group g'" using ph st(2) wf_same by blast
    have any: "far (st1\<lparr>tp_group := Some g'\<rparr>)"
      using ph wf st phased_mono[of "{AtRest, Asked, Prepared}" g' "{AtRest, Asked, Prepared, Released}"]
      by (auto simp: far_def st1_def)
    obtain st2 z where c: "tp_commit tm (st1\<lparr>tp_group := Some g'\<rparr>) = (st2, z)" by fastforce
    have "y = Inr () \<Longrightarrow> far st2" using commit_far[OF tm _ wf _ _ _ _ c] ph st by (simp add: st1_def)
    moreover have "st' = st1 \<or> st' = st1\<lparr>tp_group := Some g'\<rparr> \<or> y = Inr () \<and> st' = st2"
      using d path sb c st(1)
      by (auto simp: run_in_runner_def before_payload_def on_group_def st1_def Let_def split: option.splits sum.splits)
    ultimately show ?thesis using any start st1_def by auto
  qed
qed

lemma end_request_tells:
  assumes tm: "patient tm" and st: "far st"
  shows "flags_tell (end_request tm st)"
proof -
  obtain g where g: "tp_group st = Some g" and wf: "wf_group g" and d: "tp_dispatched st" and s: "tp_stood_down st"
    and ph: "if tp_committed st then phased {Released} g else phased {AtRest, Asked, Prepared, Released} g"
    using st by (auto simp: far_def)
  show ?thesis
  proof (cases "tp_committed st")
    case True
    then show ?thesis using g wf ph by (simp add: end_request_def flags_tell_def)
  next
    case False
    obtain g' lost where r: "release tm g = (g', lost)" by fastforce
    have "gr_ranks g' = gr_ranks g \<and> gr_process g' = gr_process g \<and> (lost = [] \<longrightarrow> phased {AtRest} g')"
      using release_phases[OF tm wf _ r] ph False by simp
    then show ?thesis using False g d r wf wf_same[of g' g]
      by (cases "lost = []") (simp_all add: end_request_def on_group_def flags_tell_def Let_def)
  qed
qed

lemma execute_tells:
  assumes tm: "patient tm" and st: "rests st" and e: "tp_execute tm sandboxed seed jb st = (st', x)"
  shows "flags_tell st'"
proof (cases "tp_group st")
  case None
  then have "st' = looked_at tm st" using e by (simp add: tp_execute_def looked_at_def group_running_def Let_def)
  then show ?thesis using None by (simp add: flags_tell_def looked_at_def)
next
  case (Some g)
  define st1 where "st1 = begin_request (looked_at tm st)"
  have g1: "tp_group (looked_at tm st) = Some (tick tm g)" using Some by (simp add: looked_at_def)
  have wf: "wf_group (tick tm g)" and rest: "phased {AtRest} (tick tm g)"
    using st Some phased_tick[OF tm] by (simp_all add: rests_def wf_group_def)
  show ?thesis
  proof (cases "group_running (looked_at tm st)")
    case False
    then show ?thesis using e g1 wf rest by (auto simp: tp_execute_def flags_tell_def Let_def)
  next
    case True
    obtain st2 y where d: "dispatch_to tm sandboxed seed jb st1 = (st2, y)" by fastforce
    have st1: "tp_group st1 = Some (tick tm g)" "tp_dispatched st1" "tp_stood_down st1" "\<not> tp_committed st1"
      using g1 by (simp_all add: st1_def begin_request_def)
    have "far st2"
    proof (cases "sandboxed \<and> \<not> jb_trusted jb")
      case True
      then have "run_in_runner tm seed jb st1 = (st2, y)" using d by (simp add: dispatch_to_def)
      then show ?thesis by (rule runner_far[OF tm st1(1) wf rest st1(2-4)])
    next
      case False
      then have "tp_dispatch tm seed jb st1 = (st2, y)" using d by (auto simp: dispatch_to_def)
      then show ?thesis by (rule dispatch_far[OF tm st1(1) wf rest st1(2-4)])
    qed
    then have "far (note_failure y st2)" by (auto simp: note_failure_def far_def split: sum.splits)
    moreover have "st' = end_request tm (note_failure y st2)" using e True d by (auto simp: tp_execute_def st1_def Let_def)
    ultimately show ?thesis using end_request_tells[OF tm] by simp
  qed
qed

lemma await_rests:
  assumes tm: "patient tm" and st: "flags_tell st" and a: "await_shards tm st = (st', settled)"
  shows "settled \<longrightarrow> rests st'"
proof (cases "tp_group st")
  case (Some g)
  show ?thesis
  proof (cases "tp_committed st")
    case True
    obtain g' raised lost where c: "collect tm g = (g', raised, lost)" by (metis prod_cases3)
    have wf: "wf_group g" using st Some by (simp add: flags_tell_def)
    have "st' = st\<lparr>tp_group := Some g'\<rparr>" and "settled \<longrightarrow> lost = []"
      using a Some True c by (auto simp: await_shards_def split: if_splits)
    moreover have "lost = [] \<longrightarrow> phased {AtRest} g'"
      using collect_phases(2,3)[OF tm wf c] st Some True by (auto simp: flags_tell_def)
    ultimately show ?thesis using collect_phases(1)[OF tm wf c] wf wf_same[of g' g] by (simp add: rests_def)
  next
    case False
    then show ?thesis using a Some st by (auto simp: await_shards_def flags_tell_def rests_def)
  qed
qed (use a in \<open>simp add: await_shards_def rests_def\<close>)

lemma cleanup_rests:
  assumes tm: "patient tm" and st: "flags_tell st"
  shows "rests (tp_cleanup tm st)"
proof -
  obtain st' settled where a: "await_shards tm (discard_sandbox st) = (st', settled)" by fastforce
  have "flags_tell (discard_sandbox st)" using st by (auto simp: flags_tell_def discard_sandbox_def split: option.splits)
  then have "settled \<longrightarrow> rests st'" using await_rests[OF tm _ a] by simp
  then show ?thesis using a by (auto simp: tp_cleanup_def tp_restart_def rests_def Let_def)
qed

lemma serve_rests:
  assumes tm: "patient tm" and st: "rests st"
  shows "rests (fst (tp_serve tm sandboxed seed jb st))"
proof -
  obtain st' x where e: "tp_execute tm sandboxed seed jb st = (st', x)" by fastforce
  then show ?thesis using cleanup_rests[OF tm execute_tells[OF tm st e]]
    by (simp add: tp_serve_def tp_restart_def rests_def)
qed

lemma serve_all_rests: "patient tm \<Longrightarrow> rests st \<Longrightarrow> rests (fst (tp_serve_all tm sandboxed jobs st))"
proof (induction jobs arbitrary: st)
  case (Cons sj jobs)
  obtain seed jb where sj: "sj = (seed, jb)" by fastforce
  obtain st' x where s: "tp_serve tm sandboxed seed jb st = (st', x)" by fastforce
  then have "rests st'" using serve_rests[OF Cons.prems, of sandboxed seed jb] by simp
  then show ?case using Cons.IH[of st'] Cons.prems sj s by (auto split: prod.splits)
qed simp

section \<open>The group that is loaded\<close>

interpretation coming: awaiting "\<lambda>r. in_phase Coming" "\<lambda>r m s. is_ready m \<longrightarrow> in_phase AtRest s"
  by unfold_locales (simp_all add: phase_move read_coming)

lemma ready_all_phases:
  assumes tm: "patient tm"
  shows "distinct rs \<Longrightarrow> \<forall>r \<in> set rs. in_phase Coming (gr_shard g r) \<Longrightarrow> ready_all tm rs g = (g', Inr ()) \<Longrightarrow>
    gr_ranks g' = gr_ranks g \<and> gr_process g' = gr_process g \<and> (\<forall>r \<in> set rs. in_phase AtRest (gr_shard g' r)) \<and>
    (\<forall>q ph. q \<notin> set rs \<longrightarrow> in_phase ph (gr_shard g q) \<longrightarrow> in_phase ph (gr_shard g' q))"
proof (induction rs arbitrary: g)
  case (Cons r rs)
  obtain g1 x where t: "gr_recv tm r g = (g1, x)" by fastforce
  then obtain m where m: "x = Inr m" "is_ready m" and rest: "ready_all tm rs g1 = (g', Inr ())"
    using Cons.prems(3) by (auto split: sum.splits if_splits)
  note f = take_fields[OF t[unfolded gr_recv_def]]
  have keep: "in_phase ph (gr_shard (tick tm g) q)" if "in_phase ph (gr_shard g q)" for q ph
    using tick_keeps[of "\<lambda>r. in_phase ph", OF _ tm that] phase_move by blast
  have r: "in_phase AtRest (gr_shard g1 r)"
    using coming.take_reads[OF t[unfolded gr_recv_def]] keep Cons.prems(2) m by simp
  have "\<forall>q \<in> set rs. in_phase Coming (gr_shard g1 q)"
    using f keep Cons.prems(1,2) by (metis distinct.simps(2) list.set_intros(2))
  then have ih: "gr_ranks g' = gr_ranks g1 \<and> gr_process g' = gr_process g1 \<and> (\<forall>r \<in> set rs. in_phase AtRest (gr_shard g' r)) \<and>
    (\<forall>q ph. q \<notin> set rs \<longrightarrow> in_phase ph (gr_shard g1 q) \<longrightarrow> in_phase ph (gr_shard g' q))"
    using Cons.IH[of g1] Cons.prems(1) rest by simp
  have "r \<notin> set rs" using Cons.prems(1) by simp
  then have "in_phase AtRest (gr_shard g' r)" using ih r by blast
  moreover have "in_phase ph (gr_shard g' q)" if "q \<notin> set (r # rs)" and "in_phase ph (gr_shard g q)" for q ph
    using ih f keep that by simp
  ultimately show ?case using ih f by simp
qed simp

lemma accept_all_hello:
  "length hs = length ps \<Longrightarrow> accept_all py_repr ps (map (Inr \<circ> R_HELLO) hs) g =
     (g\<lparr>gr_ranks := gr_ranks g @ hs, gr_process := fold (\<lambda>(h, p) f. f(h := p)) (zip hs ps) (gr_process g)\<rparr>, Inr ())"
proof (induction hs arbitrary: ps g)
  case (Cons h hs)
  then show ?case by (cases ps) auto
qed simp

lemma assign_image:
  "length hs = length ps \<Longrightarrow> distinct hs \<Longrightarrow> fold (\<lambda>(h, p) f. f(h := p)) (zip hs ps) f ` set hs = set ps"
proof (induction hs arbitrary: ps f)
  case (Cons h hs)
  obtain p ps' where ps: "ps = p # ps'" using Cons.prems(1) by (cases ps) auto
  have out: "fold (\<lambda>(h, p) f. f(h := p)) (zip hs' qs) f' h = f' h" if "h \<notin> set hs'" for hs' qs f' and h :: 'a
    using that by (induction hs' arbitrary: qs f') (auto simp: zip_Cons1 split: list.splits)
  let ?f = "fold (\<lambda>(h, p) f. f(h := p)) (zip hs ps') (f(h := p))"
  have "?f ` set hs = set ps'" by (rule Cons.IH) (use Cons.prems ps in simp_all)
  moreover have "?f h = p" using out[of h hs ps' "f(h := p)"] Cons.prems(2) by simp
  moreover have "fold (\<lambda>(h, p) f. f(h := p)) (zip (h # hs) ps) f = ?f" using ps by simp
  ultimately show ?case using ps by (simp del: fold_Cons zip_Cons_Cons fun_upd_apply)
qed simp

text \<open>Loading, when the shards connect in any order: every one is at rest once rank 0 has seen them all ready.\<close>

lemma load_rests:
  assumes tm: "patient tm" and hs: "mset hs = mset [1..<length (tp_gpu_ids st)]"
    and l: "tp_load_from_disk py_repr tm (map (Inr \<circ> R_HELLO) hs) raised tensors st = (st', Inr ())"
  shows "rests st' \<and> (\<exists>g. tp_group st' = Some g \<and> gr_ranks g = [1..<length (tp_gpu_ids st)])"
proof -
  let ?n = "length (tp_gpu_ids st)"
  have len: "length hs = length [1..<?n]" and d: "distinct hs" and set: "set hs = set [1..<?n]"
    using hs by (metis size_mset, metis distinct_upt mset_eq_imp_distinct_iff, metis set_mset_mset)
  obtain g where start: "gr_start py_repr ?n (map (Inr \<circ> R_HELLO) hs) = (g, Inr ())"
    and ranks: "gr_ranks g = sort hs" and procs: "gr_process g ` set hs = set hs"
    and shards: "\<forall>r \<in> set hs. gr_shard g r = new_shard"
  proof
    define g1 where "g1 = \<lparr>gr_ranks = [] :: nat list, gr_process = id :: nat \<Rightarrow> nat,
      gr_shard = (\<lambda>r. if r \<in> set [1..<?n] then new_shard else sh_exit new_shard), gr_clock = 0\<rparr>"
    define g2 where "g2 = g1\<lparr>gr_ranks := gr_ranks g1 @ hs,
      gr_process := fold (\<lambda>(h, p) f. f(h := p)) (zip hs [1..<?n]) (gr_process g1)\<rparr>"
    show "gr_start py_repr ?n (map (Inr \<circ> R_HELLO) hs) = (g2\<lparr>gr_ranks := sort (gr_ranks g2)\<rparr>, Inr ())"
      unfolding gr_start_def accept_all_hello[OF len] g1_def[symmetric] g2_def[symmetric] by simp
    show "gr_ranks (g2\<lparr>gr_ranks := sort (gr_ranks g2)\<rparr>) = sort hs" by (simp add: g2_def g1_def)
    show "gr_process (g2\<lparr>gr_ranks := sort (gr_ranks g2)\<rparr>) ` set hs = set hs"
      using assign_image[OF len d, of "gr_process g1"] unfolding set by (simp add: g2_def)
    show "\<forall>r \<in> set hs. gr_shard (g2\<lparr>gr_ranks := sort (gr_ranks g2)\<rparr>) r = new_shard"
      unfolding set by (simp add: g2_def g1_def)
  qed
  have sorted: "sort hs = [1..<?n]" by (rule properties_for_sort) (use hs in simp_all)
  obtain g' where wr: "wait_ready tm g = (g', Inr ())" and st': "tp_group st' = Some g'"
    using l start by (auto simp: tp_load_from_disk_def split: option.splits sum.splits prod.splits)
  have new: "in_phase Coming new_shard"
    by (simp add: in_phase_def at_phase_def tidy_def new_shard_def new_abort_def boxes.intros)
  have "distinct (gr_ranks g)" and "\<forall>r \<in> set (gr_ranks g). in_phase Coming (gr_shard g r)"
    using d ranks shards new by simp_all
  note got = ready_all_phases[OF tm this wr[unfolded wait_ready_def]]
  then have "wf_group g'" and "phased {AtRest} g'"
    using ranks d procs by (simp_all add: wf_group_def phased_one)
  then show ?thesis using st' got ranks sorted by (simp add: rests_def)
qed

end
