(* ===== verification/Tensor_Parallel_Prompt.thy ===== *)
theory Tensor_Parallel_Prompt
  imports Tensor_Parallel_Props
begin

text \<open>
  A group whose processes stay up and answer in time: what rank 0 sends is taken, what it waits for comes, so
  that nothing but a divergence of the ranks, or an error that poisons the device, costs the replica.
\<close>

section \<open>Processes that stay up\<close>

definition mild :: "move \<Rightarrow> bool" where
  "mild mv \<longleftrightarrow> mv \<notin> {GoHour, IdleHour, PeerGone, Dies}"

definition sh_serving :: "shard \<Rightarrow> bool" where
  "sh_serving s \<longleftrightarrow> sh_place s \<notin> {Loading, Exited} \<and> list_all (\<lambda>m. m \<noteq> SHUTDOWN \<and> (\<forall>v. m \<noteq> NoTuple v)) (sh_inbox s)"

text \<open>
  Between two of rank 0's looks every shard takes what was sent to it and ends what it runs, and no deadline
  passes with an answer in the socket.
\<close>

definition keeps_up :: "timing \<Rightarrow> nat list \<Rightarrow> bool" where
  "keeps_up tm rs \<longleftrightarrow>
     (\<forall>t. list_all (mild \<circ> snd) (tm_moves tm t)) \<and> (\<forall>t. \<not> tm_late tm t) \<and>
     (\<forall>t. \<forall>r \<in> set rs. \<exists>b e. subseq [Take b, BlockEnds e] (map snd (filter (\<lambda>x. fst x = r) (tm_moves tm t))))"

lemma keeps_up_patient: "keeps_up tm rs \<Longrightarrow> patient tm"
  unfolding keeps_up_def patient_def mild_def list_all_iff by fastforce

lemma serving_move:
  assumes "sh_serving s" and "mild mv"
  shows "sh_serving (sh_move r mv s)"
proof (cases mv)
  case (Take b)
  then show ?thesis using assms(1)
    by (cases "sh_place s"; cases "sh_inbox s"; cases b; cases "hd (sh_inbox s)") (simp_all add: sh_serving_def shard_defs)
next
  case (BlockEnds b)
  then show ?thesis using assms(1) by (cases b) (simp_all add: sh_serving_def shard_defs)
qed (use assms in \<open>simp_all add: sh_serving_def mild_def\<close>)

text \<open>What one shard does in a tick does not depend on the others.\<close>

lemma move_all_shard:
  "gr_shard (move_all ms g) r = fold (sh_move r) (map snd (filter (\<lambda>x. fst x = r) ms)) (gr_shard g r)"
proof (induction ms arbitrary: g)
  case (Cons x ms)
  then show ?case by (cases x) (simp add: move_all_def)
qed (simp add: move_all_def)

lemma fold_keeps: "(\<And>mv s. mv \<in> set ms \<Longrightarrow> P s \<Longrightarrow> P (f mv s)) \<Longrightarrow> P s \<Longrightarrow> P (fold f ms s)"
  by (induction ms arbitrary: s) auto

lemma tick_serving:
  assumes "keeps_up tm rs" and "sh_serving (gr_shard g r)"
  shows "sh_serving (gr_shard (tick tm g) r)"
proof -
  have "sh_serving (fold (sh_move r) (map snd (filter (\<lambda>x. fst x = r) (tm_moves tm (gr_clock g)))) (gr_shard g r))"
    using assms by (intro fold_keeps[of _ sh_serving]) (auto intro: serving_move simp: keeps_up_def list_all_iff)
  then show ?thesis by (simp add: tick_def move_all_shard)
qed

text \<open>A shard that owes an answer has given it after a take and the end of a block.\<close>

definition sh_taken :: "shard \<Rightarrow> bool" where
  "sh_taken s \<longleftrightarrow> sh_outbox s \<noteq> [] \<or> sh_place s = InBlock"

lemma outbox_move: "sh_outbox s \<noteq> [] \<Longrightarrow> sh_outbox (sh_move r mv s) \<noteq> []"
proof (cases mv)
  case (Take b)
  moreover assume "sh_outbox s \<noteq> []"
  ultimately show ?thesis
    by (cases "sh_place s"; cases "sh_inbox s"; cases b; cases "hd (sh_inbox s)") (simp_all add: shard_defs)
next
  case (Loaded b)
  moreover assume "sh_outbox s \<noteq> []"
  ultimately show ?thesis by (cases b) (simp_all add: shard_defs)
qed (simp_all add: shard_defs)

lemma taken_move:
  assumes "mild mv" and "sh_taken s"
  shows "sh_taken (sh_move r mv s)"
proof (cases "sh_outbox s = []")
  case True
  then have "sh_place s = InBlock" using assms(2) by (simp add: sh_taken_def)
  then show ?thesis using assms(1) by (cases mv) (simp_all add: sh_taken_def mild_def shard_defs)
qed (simp add: sh_taken_def outbox_move)

lemma taken_take:
  assumes "in_phase ph s" and "ph \<in> {Asked, Released, Dismissed}" and "sh_serving s"
  shows "sh_taken (sh_move r (Take b) s)"
proof (cases "sh_taken s")
  case True
  then show ?thesis by (rule taken_move[rotated]) (simp add: mild_def)
next
  case False
  then have out: "sh_outbox s = []" "sh_place s \<noteq> InBlock" "sh_place s \<noteq> Exited" "sh_place s \<noteq> Loading"
    using assms(3) by (auto simp: sh_taken_def sh_serving_def)
  have "boxes ph (sh_place s) (sh_inbox s) []" using assms(1) out(1) by (simp add: in_phase_def at_phase_def)
  then have "sh_place s = AtLoop \<and> (\<exists>m. asks m \<and> sh_inbox s = [m]) \<or>
      (sh_place s = AtLoop \<or> sh_place s = AwaitGo) \<and> sh_inbox s = [SKIP] \<or> sh_place s = AwaitGo \<and> sh_inbox s = [GO]"
    using assms(2) out(2-4) by (auto elim: boxes_asked boxes_released boxes_dismissed)
  then show ?thesis by (cases b) (auto simp: sh_taken_def asks_iff shard_defs)
qed

lemma taken_end: "sh_taken s \<Longrightarrow> sh_outbox (sh_move r (BlockEnds e) s) \<noteq> []"
  by (auto simp: sh_taken_def shard_defs)

lemma fold_answers:
  assumes "subseq [Take b, BlockEnds e] ms" and "list_all mild ms" and "ph \<in> {Asked, Released, Dismissed}"
    and "in_phase ph s" and "sh_serving s"
  shows "sh_outbox (fold (sh_move r) ms s) \<noteq> []"
proof -
  obtain xs ys where ms: "ms = xs @ Take b # ys" and later: "subseq [BlockEnds e] ys"
    using list_emb_ConsD[OF assms(1)] by auto
  obtain us vs where ys: "ys = us @ BlockEnds e # vs" using list_emb_ConsD[OF later] by auto
  let ?s1 = "fold (sh_move r) xs s"
  have "in_phase ph ?s1"
    using assms(2,4) ms by (intro fold_keeps[of _ "in_phase ph"]) (auto intro: phase_move simp: mild_def list_all_iff)
  moreover have "sh_serving ?s1"
    using assms(2,5) ms by (intro fold_keeps[of _ sh_serving]) (auto intro: serving_move simp: list_all_iff)
  ultimately have "sh_taken (sh_move r (Take b) ?s1)" using assms(3) by (intro taken_take)
  then have "sh_taken (fold (sh_move r) us (sh_move r (Take b) ?s1))"
    using assms(2) ms ys by (intro fold_keeps[of _ sh_taken]) (auto intro: taken_move simp: list_all_iff)
  then have "sh_outbox (sh_move r (BlockEnds e) (fold (sh_move r) us (sh_move r (Take b) ?s1))) \<noteq> []" by (rule taken_end)
  then have "sh_outbox (fold (sh_move r) vs (sh_move r (BlockEnds e) (fold (sh_move r) us (sh_move r (Take b) ?s1)))) \<noteq> []"
    by (rule fold_keeps[where P = "\<lambda>s. sh_outbox s \<noteq> []", rotated]) (rule outbox_move)
  then show ?thesis using ms ys by simp
qed

lemma tick_answers:
  assumes k: "keeps_up tm rs" and "r \<in> set rs" and "ph \<in> {Asked, Released, Dismissed}"
    and "in_phase ph (gr_shard g r)" and "sh_serving (gr_shard g r)"
  shows "sh_outbox (gr_shard (tick tm g) r) \<noteq> []"
proof -
  let ?ms = "map snd (filter (\<lambda>x. fst x = r) (tm_moves tm (gr_clock g)))"
  obtain b e where "subseq [Take b, BlockEnds e] ?ms" using k assms(2) unfolding keeps_up_def by blast
  moreover have "list_all mild ?ms"
    using k unfolding keeps_up_def list_all_iff comp_def by fastforce
  ultimately show ?thesis using fold_answers[OF _ _ assms(3-5)] by (simp add: tick_def move_all_shard)
qed

section \<open>A group that stays up\<close>

definition up :: "group \<Rightarrow> bool" where
  "up g \<longleftrightarrow> wf_group g \<and> gr_ranks g \<noteq> [] \<and> (\<forall>r \<in> set (gr_ranks g). sh_serving (gr_shard g r))"

lemma up_healthy: "up g \<Longrightarrow> healthy g"
  unfolding up_def healthy_def wf_group_def gone_def sh_serving_def list_all_iff by fastforce

lemma serving_boxes [simp]: "sh_serving (s\<lparr>sh_outbox := ou\<rparr>) = sh_serving s"
  "sh_serving (s\<lparr>sh_inbox := sh_inbox s @ [m]\<rparr>) = (sh_serving s \<and> m \<noteq> SHUTDOWN \<and> (\<forall>v. m \<noteq> NoTuple v))"
  by (auto simp: sh_serving_def)

lemma wf_tick: "wf_group (tick tm g) = wf_group g"
  by (simp add: wf_group_def)

text \<open>What each exchange keeps: the shards go on serving.\<close>

definition all_serving :: "group \<Rightarrow> bool" where
  "all_serving g \<longleftrightarrow> (\<forall>r \<in> set (gr_ranks g). sh_serving (gr_shard g r))"

definition sendable_command :: "command \<Rightarrow> bool" where
  "sendable_command m \<longleftrightarrow> m \<noteq> SHUTDOWN \<and> (\<forall>v. m \<noteq> NoTuple v)"

lemma serving_tick: "keeps_up tm rs \<Longrightarrow> all_serving g \<Longrightarrow> all_serving (tick tm g)"
  by (simp add: all_serving_def tick_serving)

lemma serving_take: "all_serving g \<Longrightarrow> gr_take r g = (g', x) \<Longrightarrow> all_serving g'"
  by (erule take_cases) (simp_all add: all_serving_def)

lemma serving_send:
  assumes k: "keeps_up tm rs" and g: "all_serving g" "r \<in> set (gr_ranks g)" and m: "sendable_command m"
    and s: "gr_send tm m r g = (g', x)"
  shows "x = Inr () \<and> all_serving g'"
  using s
proof (cases rule: gr_send_cases)
  case 1
  then show ?thesis using serving_tick[OF k g(1)] g(2) by (simp add: gone_def all_serving_def sh_serving_def)
next
  case 2
  then show ?thesis using serving_tick[OF k g(1)] m by (simp add: all_serving_def sendable_command_def)
qed

lemma serving_send_all:
  assumes k: "keeps_up tm rs" and m: "sendable_command m"
  shows "all_serving g \<Longrightarrow> set qs \<subseteq> set (gr_ranks g) \<Longrightarrow> send_all tm m qs g = (g', x) \<Longrightarrow> x = Inr () \<and> all_serving g'"
proof (induction qs arbitrary: g)
  case (Cons q qs)
  obtain g1 y where s: "gr_send tm m q g = (g1, y)" by fastforce
  then have "y = Inr () \<and> all_serving g1" using serving_send[OF k _ _ m s] Cons.prems by simp
  moreover have "gr_ranks g1 = gr_ranks g" using gr_send_fields[OF s] by simp
  ultimately show ?case using Cons.IH[of g1] Cons.prems s by simp
qed simp

lemma serving_read_ready: "all_serving g \<Longrightarrow> read_ready qs g = (g', received, lost) \<Longrightarrow> all_serving g'"
proof (induction qs arbitrary: g received lost)
  case (Cons q qs)
  obtain g1 x where t: "gr_take q g = (g1, x)" by fastforce
  obtain g2 rc ls where rr: "read_ready qs g1 = (g2, rc, ls)" by (metis prod_cases3)
  have "g2 = g'" using Cons.prems(2) t rr by (auto split: sum.splits)
  then show ?case using Cons.IH[OF serving_take[OF Cons.prems(1) t]] rr by blast
qed simp

lemma take_answer: "sh_outbox (gr_shard g r) \<noteq> [] \<Longrightarrow> gr_take r g = (g', x) \<Longrightarrow> \<exists>m. x = Inr m"
  by (erule take_cases) simp_all

text \<open>Every round of \<open>_drain\<close> hears from all the shards that owe an answer.\<close>

lemma read_ready_all:
  "distinct qs \<Longrightarrow> \<forall>q \<in> set qs. sh_outbox (gr_shard g q) \<noteq> [] \<Longrightarrow> read_ready qs g = (g', received, lost) \<Longrightarrow> lost = []"
proof (induction qs arbitrary: g g' received lost)
  case (Cons q qs)
  obtain g1 x where t: "gr_take q g = (g1, x)" by fastforce
  obtain g2 rc ls where rr: "read_ready qs g1 = (g2, rc, ls)" by (metis prod_cases3)
  have "\<forall>p \<in> set qs. sh_outbox (gr_shard g1 p) \<noteq> []"
    using take_fields[OF t] Cons.prems(1,2) by (metis distinct.simps(2) list.set_intros(2))
  then have "ls = []" using Cons.IH[OF _ _ rr] Cons.prems(1) by simp
  moreover have "\<exists>m. x = Inr m" using take_answer[OF _ t] Cons.prems(2) by simp
  ultimately show ?case using Cons.prems(3) t rr by auto
qed simp

lemma drain_answers:
  assumes k: "keeps_up tm (gr_ranks g)" and up: "up g"
    and owes: "\<forall>r \<in> set (gr_ranks g). \<exists>ph \<in> {Asked, Released, Dismissed}. in_phase ph (gr_shard g r)"
    and d: "drain_loop tm (gr_ranks g) g = (g', received, lost)"
  shows "lost = [] \<and> up g'"
proof -
  let ?g = "tick tm g"
  have out: "\<forall>r \<in> set (gr_ranks g). sh_outbox (gr_shard ?g r) \<noteq> []"
    using owes up tick_answers[OF k] unfolding up_def by blast
  then have all: "filter (readable ?g) (gr_ranks g) = gr_ranks g"
    and none: "filter (\<lambda>r. \<not> readable ?g r) (gr_ranks g) = []"
    by (simp_all add: readable_def filter_id_conv filter_empty_conv)
  obtain g1 rc ls where rr: "read_ready (gr_ranks g) ?g = (g1, rc, ls)" by (metis prod_cases3)
  have "drain_loop tm [] g1 = (g1, [], [])" by (simp add: drain_loop.simps unanswered_def)
  then have eq: "g' = g1 \<and> lost = ls"
    using d k up rr all none by (subst (asm) drain_loop.simps) (auto simp: Let_def keeps_up_def up_def)
  have "distinct (gr_ranks g)" using up by (simp add: up_def wf_group_def)
  then have "ls = []" using read_ready_all[OF _ out rr] by simp
  moreover have "all_serving g1"
    using up serving_read_ready[OF serving_tick[OF k] rr] by (simp add: up_def all_serving_def)
  moreover have "gr_ranks g1 = gr_ranks g \<and> gr_process g1 = gr_process g" using read_ready_fields[OF rr] by simp
  ultimately show ?thesis using eq up by (simp add: up_def all_serving_def wf_group_def)
qed

lemma gather_answers:
  assumes k: "keeps_up tm rs"
  shows "distinct qs \<Longrightarrow> set qs \<subseteq> set rs \<Longrightarrow> set qs \<subseteq> set (gr_ranks g) \<Longrightarrow> all_serving g \<Longrightarrow>
    \<forall>q \<in> set qs. in_phase Asked (gr_shard g q) \<Longrightarrow> gather tm qs g = (g', failures) \<Longrightarrow>
    all_serving g' \<and> (\<forall>q \<in> set qs. in_phase Prepared (gr_shard g' q) \<or> in_phase AtRest (gr_shard g' q))"
proof (induction qs arbitrary: g failures)
  case (Cons q qs)
  note tm = keeps_up_patient[OF k]
  obtain g1 x where t: "gr_recv tm q g = (g1, x)" by fastforce
  obtain fs where rest: "gather tm qs g1 = (g', fs)" using Cons.prems t by (auto split: prod.splits)
  note f = take_fields[OF t[unfolded gr_recv_def]]
  have "sh_outbox (gr_shard (tick tm g) q) \<noteq> []"
    using tick_answers[OF k, of q Asked g] Cons.prems by (simp add: all_serving_def)
  then obtain m where m: "x = Inr m" using take_answer[OF _ t[unfolded gr_recv_def]] by blast
  have "in_phase (if is_ready m then Prepared else AtRest) (gr_shard g1 q)"
    using asked.take_reads[OF t[unfolded gr_recv_def]] asked.tick_Q[OF tm] Cons.prems(5) m by simp
  then have "in_phase (if is_ready m then Prepared else AtRest) (gr_shard g' q)"
    using gather_keeps[of "\<lambda>r. in_phase (if is_ready m then Prepared else AtRest)", OF _ tm rest] phase_move Cons.prems(1) by simp
  moreover have "\<forall>p \<in> set qs. in_phase Asked (gr_shard g1 p)"
    using asked.tick_Q[OF tm] f Cons.prems(1,5) by (metis distinct.simps(2) list.set_intros(2))
  moreover have "all_serving g1" using serving_take[OF serving_tick[OF k Cons.prems(4)] t[unfolded gr_recv_def]] .
  ultimately show ?case using Cons.IH[OF _ _ _ _ _ rest] Cons.prems f by (auto split: if_splits)
qed simp

lemma up_serving: "up g \<longleftrightarrow> wf_group g \<and> gr_ranks g \<noteq> [] \<and> all_serving g"
  by (simp add: up_def all_serving_def)

lemma up_same: "gr_ranks g' = gr_ranks g \<and> gr_process g' = gr_process g \<Longrightarrow> up g \<Longrightarrow> all_serving g' \<Longrightarrow> up g'"
  by (simp add: up_serving wf_group_def)

section \<open>A request on such a group\<close>

lemma prepare_up:
  assumes k: "keeps_up tm (gr_ranks g)" and g: "up g" "phased {AtRest} g" and p: "prepare tm pl c e n g = (g', x)"
  shows "up g' \<and> phased {AtRest, Prepared} g'"
proof -
  note tm = keeps_up_patient[OF k]
  have wf: "wf_group g" using g(1) by (simp add: up_def)
  obtain g1 y where s: "send_all tm (PREPARE pl c e n) (gr_ranks g) g = (g1, y)" by fastforce
  obtain g2 fs where ga: "gather tm (gr_ranks g1) g1 = (g2, fs)" by fastforce
  note f1 = asking.send_all_fields[OF s] and f2 = gather_fields[OF ga]
  have y: "y = Inr () \<and> all_serving g1"
    using serving_send_all[OF k _ _ _ s] g(1) by (simp add: up_serving sendable_command_def)
  then have "\<forall>r \<in> set (gr_ranks g1). in_phase Asked (gr_shard g1 r)"
    using asking.send_all_reach[OF tm _ _ s] g(2) wf f1 by (simp add: wf_group_def phased_one)
  then have "all_serving g2 \<and> (\<forall>q \<in> set (gr_ranks g1). in_phase Prepared (gr_shard g2 q) \<or> in_phase AtRest (gr_shard g2 q))"
    using gather_answers[OF k _ _ _ _ _ ga] y wf f1 by (simp add: wf_group_def)
  moreover have "g' = g2" using p s ga y by (simp add: prepare_def)
  ultimately show ?thesis using up_same[OF _ g(1)] f1 f2 by (auto simp: phased_def each_def)
qed

lemma sandbox_up:
  assumes k: "keeps_up tm (gr_ranks g)" and g: "up g" "phased {AtRest} g" and p: "sandbox tm path e n g = (g', x)"
  shows "up g' \<and> phased {AtRest, Prepared} g'"
proof -
  note tm = keeps_up_patient[OF k]
  have wf: "wf_group g" using g(1) by (simp add: up_def)
  obtain g1 y where s: "send_all tm (SANDBOX path e n) (gr_ranks g) g = (g1, y)" by fastforce
  obtain g2 rc ls where dr: "drain_loop tm (gr_ranks g1) g1 = (g2, rc, ls)" by (metis prod_cases3)
  note f1 = pointing.send_all_fields[OF s] and f2 = drain_loop_fields[OF dr]
  have y: "y = Inr () \<and> all_serving g1"
    using serving_send_all[OF k _ _ _ s] g(1) by (simp add: up_serving sendable_command_def)
  then have ask: "\<forall>r \<in> set (gr_ranks g1). in_phase Asked (gr_shard g1 r)"
    using pointing.send_all_reach[OF tm _ _ s] g(2) wf f1 by (simp add: wf_group_def phased_one)
  have up1: "up g1" using up_same[OF f1 g(1)] y by simp
  have got: "ls = [] \<and> up g2" using drain_answers[OF _ up1 _ dr] k f1 ask by auto
  have "distinct (gr_ranks g1)" using up1 by (simp add: up_def wf_group_def)
  note w = asked.drain_loop_waited[OF tm this ask dr]
  have "phased {AtRest, Prepared} g2" unfolding phased_def each_def
  proof
    fix r assume "r \<in> set (gr_ranks g2)"
    then obtain m where "(r, m) \<in> set rc" using w got f2 by force
    then have "in_phase (if is_ready m then Prepared else AtRest) (gr_shard g2 r)" using w unfolding waited_def by blast
    then show "\<exists>ph \<in> {AtRest, Prepared}. in_phase ph (gr_shard g2 r)" by (auto split: if_splits)
  qed
  moreover have "g' = g2" using p s dr y by (simp add: sandbox_def drain_shards_def Let_def)
  ultimately show ?thesis using got by simp
qed

lemma go_up:
  assumes k: "keeps_up tm (gr_ranks g)" and g: "up g" and p: "go tm g = (g', x)"
  shows "x = Inr () \<and> up g'"
proof -
  have s: "send_all tm GO (gr_ranks g) g = (g', x)" using p by (simp add: go_def)
  then show ?thesis
    using serving_send_all[OF k _ _ _ s] releasing.send_all_fields[OF s] g up_same[of g' g]
    by (simp add: up_serving sendable_command_def)
qed

lemma collect_up:
  assumes k: "keeps_up tm (gr_ranks g)" and g: "up g" "phased {Released} g" and p: "collect tm g = (g', raised, lost)"
  shows "lost = [] \<and> up g'"
proof -
  obtain rc where "drain_loop tm (gr_ranks g) g = (g', rc, lost)"
    using p by (auto simp: collect_def drain_shards_def split: prod.splits)
  then show ?thesis using drain_answers[OF k g(1)] g(2) by (simp add: phased_one)
qed

lemma skips_serving:
  assumes k: "keeps_up tm rs"
  shows "all_serving g \<Longrightarrow> set qs \<subseteq> set (gr_ranks g) \<Longrightarrow> all_serving (fold (\<lambda>r g. fst (gr_send tm SKIP r g)) qs g)"
proof (induction qs arbitrary: g)
  case (Cons q qs)
  obtain g1 y where s: "gr_send tm SKIP q g = (g1, y)" by fastforce
  then have "all_serving g1" using serving_send[OF k _ _ _ s] Cons.prems by (simp add: sendable_command_def)
  moreover have "gr_ranks g1 = gr_ranks g" using gr_send_fields[OF s] by simp
  ultimately show ?case using Cons.IH[of g1] Cons.prems s by simp
qed simp

text \<open>Shards that have answered can be stood down.\<close>

definition sh_answered :: "shard \<Rightarrow> bool" where
  "sh_answered s \<longleftrightarrow> in_phase AtRest s \<or> in_phase Prepared s"

interpretation quieting: sending SKIP "\<lambda>r. sh_answered" "\<lambda>r. in_phase Dismissed"
proof
  show "sh_answered (sh_move r mv s)" if "mv \<noteq> GoHour" and "sh_answered s" for mv r s
    using that phase_move unfolding sh_answered_def by blast
  show "in_phase Dismissed (s\<lparr>sh_inbox := sh_inbox s @ [SKIP]\<rparr>)" if "sh_answered s" and "sh_place s \<noteq> Exited" for s :: shard
    using that phase_skip[of AtRest s] phase_skip[of Prepared s] unfolding sh_answered_def by auto
qed (rule phase_move)

interpretation quieted: awaiting "\<lambda>r. in_phase Dismissed" "\<lambda>r m s. is_idle m \<and> in_phase AtRest s"
proof
  show "is_idle m \<and> in_phase AtRest (s\<lparr>sh_outbox := ms\<rparr>)" if "in_phase Dismissed s" and "sh_outbox s = m # ms" for s m ms
    using that read_dismissed[of s m ms] by (auto simp: in_phase_def at_phase_def elim: boxes_dismissed)
qed (simp_all add: phase_move)

lemma quiet_all:
  assumes k: "keeps_up tm rs"
  shows "distinct qs \<Longrightarrow> all_serving g \<Longrightarrow> set qs \<subseteq> set (gr_ranks g) \<Longrightarrow> \<forall>r \<in> set qs. sh_answered (gr_shard g r) \<Longrightarrow>
    g' = fold (\<lambda>r g. fst (gr_send tm SKIP r g)) qs g \<Longrightarrow>
    (\<forall>r \<in> set qs. in_phase Dismissed (gr_shard g' r)) \<and>
    (\<forall>q. q \<notin> set qs \<longrightarrow> in_phase Dismissed (gr_shard g q) \<longrightarrow> in_phase Dismissed (gr_shard g' q))"
proof (induction qs arbitrary: g)
  case (Cons r qs)
  note tm = keeps_up_patient[OF k]
  obtain g1 x where s: "gr_send tm SKIP r g = (g1, x)" by fastforce
  have x: "x = Inr () \<and> all_serving g1" using serving_send[OF k _ _ _ s] Cons.prems by (simp add: sendable_command_def)
  have one: "in_phase Dismissed (gr_shard g1 r)" using quieting.send_one(1)[OF tm s] Cons.prems(4) x by simp
  have "\<forall>q \<in> set qs. sh_answered (gr_shard g1 q)"
    using quieting.send_one(2)[OF tm s] Cons.prems(1,4) by (metis distinct.simps(2) list.set_intros(2))
  then have ih: "(\<forall>r \<in> set qs. in_phase Dismissed (gr_shard g' r)) \<and>
    (\<forall>q. q \<notin> set qs \<longrightarrow> in_phase Dismissed (gr_shard g1 q) \<longrightarrow> in_phase Dismissed (gr_shard g' q))"
    using Cons.IH[of g1] Cons.prems x gr_send_fields[OF s] s by simp
  have "r \<notin> set qs" using Cons.prems(1) by simp
  then have r: "in_phase Dismissed (gr_shard g' r)" using ih one by blast
  have "in_phase Dismissed (gr_shard g' q)" if "q \<notin> set (r # qs)" and "in_phase Dismissed (gr_shard g q)" for q
    using ih quieting.send_one(3)[OF tm s, of q] that by simp
  then show ?case using ih r by simp
qed simp

lemma release_up:
  assumes k: "keeps_up tm (gr_ranks g)" and g: "up g" "phased {AtRest, Prepared} g" and p: "release tm g = (g', lost)"
  shows "lost = [] \<and> up g'"
proof -
  note tm = keeps_up_patient[OF k]
  define g1 where "g1 = fold (\<lambda>r g. fst (gr_send tm SKIP r g)) (gr_ranks g) g"
  have "\<forall>r \<in> set (gr_ranks g). sh_answered (gr_shard g r)" using g(2) by (auto simp: phased_def each_def sh_answered_def)
  then have dis: "\<forall>r \<in> set (gr_ranks g). in_phase Dismissed (gr_shard g1 r)"
    using quiet_all[OF k _ _ _ _ g1_def] g(1) by (simp add: up_serving wf_group_def)
  have "phased {AtRest, Asked, Prepared, Released} g" using g(2) by (rule phased_mono) simp
  then have same: "gr_ranks g1 = gr_ranks g \<and> gr_process g1 = gr_process g"
    using skip_all[OF tm _ _ g1_def] g by (simp add: up_def wf_group_def phased_def each_def sh_under_way_def)
  have up1: "up g1" using up_same[OF same g(1)] skips_serving[OF k, of g "gr_ranks g"] g(1) g1_def by (simp add: up_serving)
  obtain rc ls where dr: "drain_loop tm (gr_ranks g1) g1 = (g', rc, ls)" and lost: "lost = ls @ failures_of is_idle rc"
    using p unfolding release_def drain_shards_def g1_def[symmetric] by (auto split: prod.splits)
  have "ls = [] \<and> up g'" using drain_answers[OF _ up1 _ dr] k same dis by auto
  moreover have "distinct (gr_ranks g1)" and "\<forall>r \<in> set (gr_ranks g1). in_phase Dismissed (gr_shard g1 r)"
    using up1 dis same by (simp_all add: up_def wf_group_def)
  then have "\<forall>(r, m) \<in> set rc. is_idle m"
    using quieted.drain_loop_waited[OF tm _ _ dr] unfolding waited_def by blast
  ultimately show ?thesis using lost by (simp add: failures_of_Nil)
qed

text \<open>How far a request got with a group that stays up: nothing is unanswered but what was released.\<close>

definition came_to :: "nat list \<Rightarrow> tp_actor \<Rightarrow> bool" where
  "came_to rs st \<longleftrightarrow>
     (\<exists>g. tp_group st = Some g \<and> gr_ranks g = rs \<and> up g \<and> tp_dispatched st \<and> tp_stood_down st \<and>
       (if tp_committed st then phased {Released} g else phased {AtRest, Prepared} g))"

lemma commit_up:
  assumes k: "keeps_up tm rs" and st: "tp_group st = Some g" "gr_ranks g = rs" "up g" "phased {Prepared} g"
    "tp_dispatched st" "tp_stood_down st" and c: "tp_commit tm st = (st', x)"
  shows "came_to rs st'"
proof -
  obtain g' y where go: "go tm g = (g', y)" by fastforce
  have wf: "wf_group g" using st(3) by (simp add: up_def)
  note ph = go_phases[OF keeps_up_patient[OF k] wf st(4) go] and u = go_up[OF _ st(3) go]
  then have "st' = st\<lparr>tp_group := Some g', tp_abort := arm (tp_abort st), tp_committed := True\<rparr>"
    using c go st(1,2) k by (simp add: tp_commit_def on_group_def)
  then show ?thesis using ph u st k by (simp add: came_to_def)
qed

lemma dispatch_up:
  assumes k: "keeps_up tm rs" and st: "tp_group st = Some g" "gr_ranks g = rs" "up g" "phased {AtRest} g"
    "tp_dispatched st" "tp_stood_down st" "\<not> tp_committed st" and d: "tp_dispatch tm seed jb st = (st', x)"
  shows "came_to rs st'"
proof -
  have wf: "wf_group g" using st(3) by (simp add: up_def)
  obtain g' y where pr: "prepare tm (jb_payload jb) (jb_compress jb) (jb_env jb) seed g = (g', y)" by fastforce
  note ph = prepare_phases[OF keeps_up_patient[OF k] wf st(4) pr] and u = prepare_up[OF _ st(3,4) pr]
  have any: "came_to rs (st\<lparr>tp_group := Some g'\<rparr>)" using ph u st k by (simp add: came_to_def)
  show ?thesis
  proof (cases y)
    case (Inl e)
    then have "st' = st\<lparr>tp_group := Some g'\<rparr>" using d pr st(1) by (simp add: tp_dispatch_def on_group_def)
    then show ?thesis using any by simp
  next
    case (Inr v)
    then have b: "base_execute tm jb (st\<lparr>tp_group := Some g'\<rparr>) = (st', x)"
      using d pr st(1) by (simp add: tp_dispatch_def on_group_def)
    obtain st2 z where c: "tp_commit tm (st\<lparr>tp_group := Some g'\<rparr>) = (st2, z)" by fastforce
    have "came_to rs st2" using commit_up[OF k _ _ _ _ _ _ c] ph u Inr st k by simp
    then show ?thesis using b c any by (auto simp: base_execute_def split: option.splits sum.splits)
  qed
qed

lemma runner_up:
  assumes k: "keeps_up tm rs" and st: "tp_group st = Some g" "gr_ranks g = rs" "up g" "phased {AtRest} g"
    "tp_dispatched st" "tp_stood_down st" "\<not> tp_committed st" and d: "run_in_runner tm seed jb st = (st', x)"
  shows "came_to rs st'"
proof -
  have wf: "wf_group g" using st(3) by (simp add: up_def)
  have start: "came_to rs (st\<lparr>tp_runner := r, tp_runner_up := b\<rparr>)" "came_to rs st" for r b
    using st phased_mono[of "{AtRest}" g "{AtRest, Prepared}"] by (auto simp: came_to_def)
  show ?thesis
  proof (cases "jb_acquired jb")
    case (Inl f)
    then show ?thesis using d start by (simp add: run_in_runner_def)
  next
    case path: (Inr path)
    define st1 where "st1 = st\<lparr>tp_runner := Some path, tp_runner_up := True\<rparr>"
    obtain g' y where sb: "sandbox tm path (jb_env jb) seed g = (g', y)" by fastforce
    note ph = sandbox_phases[OF keeps_up_patient[OF k] wf st(4) sb] and u = sandbox_up[OF _ st(3,4) sb]
    have any: "came_to rs (st1\<lparr>tp_group := Some g'\<rparr>)" using ph u st k by (simp add: came_to_def st1_def)
    obtain st2 z where c: "tp_commit tm (st1\<lparr>tp_group := Some g'\<rparr>) = (st2, z)" by fastforce
    have "y = Inr () \<Longrightarrow> came_to rs st2" using commit_up[OF k _ _ _ _ _ _ c] ph u st k by (simp add: st1_def)
    moreover have "st' = st1 \<or> st' = st1\<lparr>tp_group := Some g'\<rparr> \<or> y = Inr () \<and> st' = st2"
      using d path sb c st(1)
      by (auto simp: run_in_runner_def before_payload_def on_group_def st1_def Let_def split: option.splits sum.splits)
    ultimately show ?thesis using any start st1_def by auto
  qed
qed

text \<open>A request that failed, and the cleanup after it.\<close>

definition settled_up :: "nat list \<Rightarrow> tp_actor \<Rightarrow> bool" where
  "settled_up rs st \<longleftrightarrow>
     (\<exists>g. tp_group st = Some g \<and> gr_ranks g = rs \<and> up g \<and> tp_stood_down st \<and> (tp_committed st \<longrightarrow> phased {Released} g))"

lemma end_request_up:
  assumes k: "keeps_up tm rs" and st: "came_to rs st"
  shows "settled_up rs (end_request tm st) \<and> tp_rank_zero_raised (end_request tm st) = tp_rank_zero_raised st"
proof -
  obtain g where g: "tp_group st = Some g" "gr_ranks g = rs" "up g" and d: "tp_dispatched st" "tp_stood_down st"
    and ph: "if tp_committed st then phased {Released} g else phased {AtRest, Prepared} g"
    using st by (auto simp: came_to_def)
  show ?thesis
  proof (cases "tp_committed st")
    case True
    then show ?thesis using g d ph by (simp add: end_request_def settled_up_def Let_def)
  next
    case False
    obtain g' lost where r: "release tm g = (g', lost)" by fastforce
    have "lost = [] \<and> up g'" using release_up[OF _ g(3) _ r] k g(2) ph False by simp
    moreover have "gr_ranks g' = gr_ranks g"
      using release_phases[OF keeps_up_patient[OF k] _ _ r] g(3) ph False phased_mono[of "{AtRest, Prepared}" g]
      by (simp add: up_def)
    ultimately show ?thesis using False g d r by (simp add: end_request_def on_group_def settled_up_def Let_def)
  qed
qed

lemma execute_up:
  assumes k: "keeps_up tm rs" and st: "tp_group st = Some g" "gr_ranks g = rs" "up g" "phased {AtRest} g"
    and e: "tp_execute tm sandboxed seed jb st = (st', x)"
  shows "settled_up rs st' \<and> (\<forall>v. x = Inl v \<longrightarrow> tp_rank_zero_raised st')"
proof -
  define st1 where "st1 = begin_request (looked_at tm st)"
  have st1: "tp_group st1 = Some (tick tm g)" "tp_dispatched st1" "tp_stood_down st1" "\<not> tp_committed st1"
    using st(1) by (simp_all add: st1_def begin_request_def looked_at_def)
  have up1: "up (tick tm g)" using st(3) serving_tick[OF k] by (simp add: up_serving wf_tick)
  have ph1: "phased {AtRest} (tick tm g)" using phased_tick[OF keeps_up_patient[OF k] st(4)] .
  have rk: "gr_ranks (tick tm g) = rs" using st(2) by simp
  have run: "group_running (looked_at tm st)" using up_healthy[OF up1] st(1) by (simp add: group_running_def looked_at_def)
  obtain st2 y where d: "dispatch_to tm sandboxed seed jb st1 = (st2, y)" by fastforce
  have "came_to rs st2"
  proof (cases "sandboxed \<and> \<not> jb_trusted jb")
    case True
    then have "run_in_runner tm seed jb st1 = (st2, y)" using d by (simp add: dispatch_to_def)
    then show ?thesis by (rule runner_up[OF k st1(1) rk up1 ph1 st1(2-4)])
  next
    case False
    then have "tp_dispatch tm seed jb st1 = (st2, y)" using d by (auto simp: dispatch_to_def)
    then show ?thesis by (rule dispatch_up[OF k st1(1) rk up1 ph1 st1(2-4)])
  qed
  then have "came_to rs (note_failure y st2)" by (auto simp: note_failure_def came_to_def split: sum.splits)
  moreover have "st' = end_request tm (note_failure y st2) \<and> x = y" using e run d by (auto simp: tp_execute_def st1_def Let_def)
  moreover have "y = Inl v \<Longrightarrow> tp_rank_zero_raised (note_failure y st2)" for v by (simp add: note_failure_def)
  ultimately show ?thesis using end_request_up[OF k] by blast
qed

lemma cleanup_up:
  assumes k: "keeps_up tm rs" and st: "settled_up rs st" and raised: "tp_rank_zero_raised st"
  shows "\<exists>g. tp_group (tp_cleanup tm st) = Some g \<and> healthy g"
proof -
  obtain g where g: "tp_group st = Some g" "gr_ranks g = rs" "up g" "tp_stood_down st" "tp_committed st \<longrightarrow> phased {Released} g"
    using st by (auto simp: settled_up_def)
  show ?thesis
  proof (cases "tp_committed st")
    case True
    obtain g' rd lost where c: "collect tm g = (g', rd, lost)" by (metis prod_cases3)
    have "lost = [] \<and> up g'" using collect_up[OF _ g(3) _ c] k g(2,5) True by simp
    then show ?thesis using True g(1) c raised up_healthy[of g']
      by (simp add: tp_cleanup_def await_shards_def discard_sandbox_def Let_def)
  next
    case False
    then show ?thesis using g up_healthy by (simp add: tp_cleanup_def await_shards_def discard_sandbox_def Let_def)
  qed
qed

end
