(* ===== verification/Tensor_Parallel_Theorems.thy ===== *)
theory Tensor_Parallel_Theorems
  imports Tensor_Parallel_Prompt
begin

text \<open>
  The properties of the tensor-parallel actor, each on a replica of two cards.
\<close>

section \<open>The group keeps its ranks\<close>

definition ranks_kept :: "tp_actor \<Rightarrow> tp_actor \<Rightarrow> bool" where
  "ranks_kept st st' \<longleftrightarrow> (\<forall>g'. tp_group st' = Some g' \<longrightarrow> (\<exists>g. tp_group st = Some g \<and> gr_ranks g' = gr_ranks g))"

lemma ranks_kept_trans: "ranks_kept a b \<Longrightarrow> ranks_kept b c \<Longrightarrow> ranks_kept a c"
  unfolding ranks_kept_def by metis

lemma ranks_kept_same: "tp_group st' = tp_group st \<Longrightarrow> ranks_kept st st'"
  by (simp add: ranks_kept_def)

lemma prepare_ranks: "prepare tm pl c e n g = (g', x) \<Longrightarrow> gr_ranks g' = gr_ranks g"
  unfolding prepare_def
  by (auto split: prod.splits sum.splits if_splits dest!: asking.send_all_fields gather_fields)

lemma sandbox_ranks: "sandbox tm path e n g = (g', x) \<Longrightarrow> gr_ranks g' = gr_ranks g"
  unfolding sandbox_def drain_shards_def Let_def
  by (auto split: prod.splits sum.splits if_splits dest!: asking.send_all_fields drain_loop_fields)

lemma go_ranks: "go tm g = (g', x) \<Longrightarrow> gr_ranks g' = gr_ranks g"
  unfolding go_def by (auto dest!: asking.send_all_fields)

lemma collect_ranks: "collect tm g = (g', x) \<Longrightarrow> gr_ranks g' = gr_ranks g"
  unfolding collect_def drain_shards_def by (auto split: prod.splits dest!: drain_loop_fields)

lemma skips_ranks: "gr_ranks (fold (\<lambda>r g. fst (gr_send tm SKIP r g)) rs g) = gr_ranks g"
proof (induction rs arbitrary: g)
  case (Cons r rs)
  obtain g1 x where "gr_send tm SKIP r g = (g1, x)" by fastforce
  then show ?case using Cons gr_send_fields by fastforce
qed simp

lemma release_ranks: "release tm g = (g', x) \<Longrightarrow> gr_ranks g' = gr_ranks g"
  unfolding release_def drain_shards_def by (auto split: prod.splits dest!: drain_loop_fields simp: skips_ranks)

lemma on_group_ranks:
  "(\<And>g g' x. f g = (g', x) \<Longrightarrow> gr_ranks g' = gr_ranks g) \<Longrightarrow> on_group f none st = (st', y) \<Longrightarrow> ranks_kept st st'"
  by (auto simp: on_group_def ranks_kept_def split: option.splits prod.splits)

lemma commit_ranks: "tp_commit tm st = (st', x) \<Longrightarrow> ranks_kept st st'"
proof -
  assume c: "tp_commit tm st = (st', x)"
  obtain st1 y where o: "on_group (go tm) (Inl no_group) st = (st1, y)" by fastforce
  have "tp_group st' = tp_group st1" using c o by (auto simp: tp_commit_def split: sum.splits)
  moreover have "ranks_kept st st1" by (rule on_group_ranks[OF _ o]) (rule go_ranks)
  ultimately show ?thesis by (simp add: ranks_kept_def)
qed

lemma dispatch_ranks:
  assumes "dispatch_to tm sandboxed seed jb st = (st', x)"
  shows "ranks_kept st st'"
proof (cases "sandboxed \<and> \<not> jb_trusted jb")
  case False
  obtain st1 y where o: "on_group (prepare tm (jb_payload jb) (jb_compress jb) (jb_env jb) seed) (Inl no_group) st = (st1, y)"
    by fastforce
  obtain st2 z where c: "tp_commit tm st1 = (st2, z)" by fastforce
  have "st' = st1 \<or> st' = st2"
    using assms False o c by (auto simp: dispatch_to_def tp_dispatch_def base_execute_def split: sum.splits option.splits)
  moreover have "ranks_kept st st1" by (rule on_group_ranks[OF _ o]) (rule prepare_ranks)
  ultimately show ?thesis using commit_ranks[OF c] ranks_kept_trans by blast
next
  case True
  show ?thesis
  proof (cases "jb_acquired jb")
    case (Inl f)
    then show ?thesis using assms True by (simp add: dispatch_to_def run_in_runner_def ranks_kept_same)
  next
    case (Inr path)
    define st0 where "st0 = st\<lparr>tp_runner := Some path, tp_runner_up := True\<rparr>"
    have st0: "ranks_kept st st0" by (rule ranks_kept_same) (simp add: st0_def)
    obtain st1 y where o: "before_payload tm path seed jb st0 = (st1, y)" by fastforce
    obtain st2 z where c: "tp_commit tm st1 = (st2, z)" by fastforce
    have "st' = st0 \<or> st' = st1 \<or> st' = st2"
      using assms True Inr o c by (auto simp: dispatch_to_def run_in_runner_def st0_def Let_def split: sum.splits option.splits)
    moreover have "ranks_kept st0 st1" by (rule on_group_ranks[OF _ o[unfolded before_payload_def]]) (rule sandbox_ranks)
    ultimately show ?thesis using commit_ranks[OF c] st0 ranks_kept_trans by blast
  qed
qed

lemma execute_ranks:
  assumes "tp_execute tm sandboxed seed jb st = (st', x)"
  shows "ranks_kept st st'"
proof -
  have look: "ranks_kept st (looked_at tm st)" by (auto simp: ranks_kept_def looked_at_def)
  have begun: "ranks_kept st (begin_request (looked_at tm st))"
    by (auto simp: ranks_kept_def looked_at_def begin_request_def)
  obtain st2 y where d: "dispatch_to tm sandboxed seed jb (begin_request (looked_at tm st)) = (st2, y)" by fastforce
  have noted: "ranks_kept st2 (note_failure y st2)" by (rule ranks_kept_same) (simp add: note_failure_def split: sum.splits)
  have ended: "ranks_kept st3 (end_request tm st3)" for st3
  proof -
    obtain st4 lost where o: "on_group (release tm) [] (st3\<lparr>tp_abort := disarm (tp_abort st3)\<rparr>) = (st4, lost)" by fastforce
    have "ranks_kept (st3\<lparr>tp_abort := disarm (tp_abort st3)\<rparr>) st4" by (rule on_group_ranks[OF _ o]) (rule release_ranks)
    then have "ranks_kept st3 st4" by (simp add: ranks_kept_def)
    moreover have "tp_group (end_request tm st3) = tp_group st3 \<or> tp_group (end_request tm st3) = tp_group st4"
      using o by (auto simp: end_request_def Let_def)
    ultimately show ?thesis by (auto simp: ranks_kept_def)
  qed
  have "ranks_kept st (end_request tm (note_failure y st2))"
    by (rule ranks_kept_trans[OF ranks_kept_trans[OF ranks_kept_trans[OF begun dispatch_ranks[OF d]] noted] ended])
  moreover have "st' = looked_at tm st \<or> st' = end_request tm (note_failure y st2)"
    using assms d by (auto simp: tp_execute_def Let_def split: if_splits)
  ultimately show ?thesis using look by blast
qed

lemma cleanup_ranks: "ranks_kept st (tp_cleanup tm st)"
proof -
  obtain st1 settled where a: "await_shards tm (discard_sandbox st) = (st1, settled)" by fastforce
  have "ranks_kept st st1"
    using a collect_ranks by (fastforce simp: await_shards_def discard_sandbox_def ranks_kept_def split: option.splits if_splits prod.splits)
  then show ?thesis using a by (auto simp: tp_cleanup_def tp_restart_def ranks_kept_def Let_def)
qed

lemma serve_ranks: "tp_serve tm sandboxed seed jb st = (st', x) \<Longrightarrow> ranks_kept st st'"
proof -
  assume s: "tp_serve tm sandboxed seed jb st = (st', x)"
  obtain st1 y where e: "tp_execute tm sandboxed seed jb st = (st1, y)" by fastforce
  have "st' = tp_restart st1 \<or> st' = tp_cleanup tm st1" using s e by (auto simp: tp_serve_def split: if_splits)
  moreover have "ranks_kept st (tp_cleanup tm st1)" using ranks_kept_trans[OF execute_ranks[OF e] cleanup_ranks] .
  moreover have "ranks_kept st (tp_restart st1)" by (simp add: ranks_kept_def tp_restart_def)
  ultimately show ?thesis by blast
qed

lemma serve_all_ranks: "ranks_kept st (fst (tp_serve_all tm sandboxed jobs st))"
proof (induction jobs arbitrary: st)
  case (Cons sj jobs)
  obtain seed jb where sj: "sj = (seed, jb)" by fastforce
  obtain st' x where s: "tp_serve tm sandboxed seed jb st = (st', x)" by fastforce
  have "tp_group st \<noteq> None \<Longrightarrow> fst (tp_serve_all tm sandboxed (sj # jobs) st) = fst (tp_serve_all tm sandboxed jobs st')"
    using sj s by (auto split: prod.splits)
  moreover have "tp_group st = None \<Longrightarrow> fst (tp_serve_all tm sandboxed (sj # jobs) st) = st" using sj by simp
  ultimately show ?case using Cons.IH[of st'] serve_ranks[OF s] ranks_kept_trans ranks_kept_same by metis
qed (simp add: ranks_kept_same)

section \<open>A replica of two cards\<close>

definition ex_tm :: timing where
  "ex_tm = \<lparr>tm_moves = (\<lambda>t. [(1, Loaded None), (1, Take None), (1, BlockEnds Returns)]), tm_late = (\<lambda>t. False)\<rparr>"

definition ex_new :: tp_actor where
  "ex_new = \<lparr>tp_gpu_ids = [4, 7], tp_budgets = [(4, 16), (7, 24)], tp_gpu_mem = [(0, 16)], tp_group = None,
     tp_abort = new_abort True, tp_committed = False, tp_rank_zero_raised = False, tp_rank_zero_error = None,
     tp_dispatched = False, tp_stood_down = True, tp_runner = None, tp_runner_up = False\<rparr>"

definition ex_loaded :: tp_actor where
  "ex_loaded = fst (tp_load_from_disk describe_reply ex_tm (map (Inr \<circ> R_HELLO) [1]) None [(''w'', Cuda 0)] ex_new)"

definition ex_tp_job :: job where
  "ex_tp_job = \<lparr>jb_payload = ''block'', jb_compress = False, jb_env = ''{}'', jb_trusted = True, jb_built = None,
     jb_acquired = Inr ''/tmp/sbx'', jb_connected = None, jb_sent = None, jb_ran = Inr ''saved''\<rparr>"

definition ex_failure :: failure where
  "ex_failure = \<lparr>fl_kind = RequestErr, fl_type = ''PayloadError'', fl_text = ''no''\<rparr>"

lemma ex_init: "tp_init [(4, 16), (7, 24)] = Inr ex_new"
  by (simp add: tp_init_def ex_new_def Let_def)

lemma ex_load: "tp_load_from_disk describe_reply ex_tm (map (Inr \<circ> R_HELLO) [1]) None [(''w'', Cuda 0)] ex_new = (ex_loaded, Inr ())"
proof -
  have "snd (tp_load_from_disk describe_reply ex_tm (map (Inr \<circ> R_HELLO) [1]) None [(''w'', Cuda 0)] ex_new) = Inr ()" by code_simp
  then show ?thesis unfolding ex_loaded_def by (simp add: prod_eq_iff)
qed

lemma ex_patient: "patient ex_tm" "keeps_up ex_tm [1]"
  by (auto simp: patient_def keeps_up_def ex_tm_def mild_def)

section \<open>The properties\<close>

lemma rests_said:
  "rests st \<Longrightarrow> tp_group st = Some g \<Longrightarrow> r \<in> set (gr_ranks g) \<Longrightarrow>
   sh_outbox (gr_shard g r) = [] \<and>
   (sh_place (gr_shard g r) = Exited \<or>
    sh_place (gr_shard g r) = AtLoop \<and> sh_inbox (gr_shard g r) = [] \<and> sh_runner (gr_shard g r) = None \<and>
      \<not> ab_armed (sh_abort (gr_shard g r)))"
  by (auto simp: rests_def phased_one rest_iff)



text \<open>C29. When the group is at rest and its processes stay up and answer in time, a request that fails, wherever
  it does (a payload one rank or all cannot build, a runner a shard cannot reach, a block that raises or is
  aborted), never costs the replica: unless the error poisoned the device, the group is not torn down, all its
  processes are up and all its shards are back at their loops for the next request.\<close>

theorem failed_request_keeps_group:
  assumes "keeps_up tm (gr_ranks g)" and "tp_group st = Some g" and "wf_group g" and "gr_ranks g \<noteq> []"
    and "\<forall>r \<in> set (gr_ranks g). sh_place (gr_shard g r) = AtLoop \<and> in_phase AtRest (gr_shard g r)"
    and "tp_serve tm sandboxed seed jb st = (st', Inl e)" and "\<not> fatal_outcome (Inl e)"
  shows "\<exists>g'. tp_group st' = Some g' \<and> gr_ranks g' = gr_ranks g \<and> healthy g' \<and>
    (\<forall>r \<in> set (gr_ranks g'). sh_place (gr_shard g' r) = AtLoop \<and> in_phase AtRest (gr_shard g' r))"
proof -
  have up: "up g" using assms(3-5) by (auto simp: up_def sh_serving_def rest_iff)
  have ph: "phased {AtRest} g" using assms(5) by (simp add: phased_one)
  obtain st1 where e: "tp_execute tm sandboxed seed jb st = (st1, Inl e)" and st': "st' = tp_cleanup tm st1"
    using assms(6,7) by (auto simp: tp_serve_def split: prod.splits)
  have "settled_up (gr_ranks g) st1 \<and> tp_rank_zero_raised st1" using execute_up[OF assms(1,2) refl up ph e] by blast
  then obtain g' where g': "tp_group st' = Some g'" and h: "healthy g'" using cleanup_up[OF assms(1)] st' by blast
  have "rests st" using assms(2,3) ph by (simp add: rests_def)
  then have "rests st'" using serve_rests[OF keeps_up_patient[OF assms(1)], of st sandboxed seed jb] assms(6) by simp
  moreover have "gr_ranks g' = gr_ranks g" using serve_ranks[OF assms(6)] g' assms(2) by (simp add: ranks_kept_def)
  moreover have "sh_place (gr_shard g' r) \<noteq> Exited" if "r \<in> set (gr_ranks g')" for r
  proof -
    have "r \<in> gr_process g' ` set (gr_ranks g')" using that \<open>rests st'\<close> g' by (simp add: rests_def wf_group_def)
    then show ?thesis using h by (auto simp: healthy_def gone_def list_all_iff)
  qed
  ultimately show ?thesis using g' h rest_iff by (auto simp: rests_def phased_one)
qed

theorem failed_request_keeps_group_witness:
  "\<exists>g'. tp_group (fst (tp_serve ex_tm False 5 (ex_tp_job\<lparr>jb_built := Some ex_failure\<rparr>) ex_loaded)) = Some g' \<and> healthy g'"
proof -
  let ?serve = "tp_serve ex_tm False 5 (ex_tp_job\<lparr>jb_built := Some ex_failure\<rparr>) ex_loaded"
  obtain g where g: "tp_group ex_loaded = Some g" and ranks: "gr_ranks g = [1]"
    using load_rests[OF ex_patient(1) _ ex_load] by (auto simp: ex_new_def)
  have "rests ex_loaded" using load_rests[OF ex_patient(1) _ ex_load] by (simp add: ex_new_def)
  then have wf: "wf_group g" and rest: "in_phase AtRest (gr_shard g 1)" using g ranks by (auto simp: rests_def phased_one)
  have "map_option (\<lambda>g. sh_place (gr_shard g 1)) (tp_group ex_loaded) = Some AtLoop" by code_simp
  then have "\<forall>r \<in> set (gr_ranks g). sh_place (gr_shard g r) = AtLoop \<and> in_phase AtRest (gr_shard g r)"
    using g ranks rest by simp
  moreover have s: "snd ?serve = Inl (Failed ex_failure)" by code_simp
  then have "?serve = (fst ?serve, Inl (Failed ex_failure))" by (simp add: prod_eq_iff)
  moreover have "\<not> fatal_outcome (Inl (Failed ex_failure))" by (simp add: fatal_outcome_def ex_failure_def format_error_def)
  ultimately show ?thesis
    using failed_request_keeps_group[of ex_tm g ex_loaded False 5] ex_patient(2) g wf ranks by (metis list.distinct(1))
qed

section \<open>Where the bookkeeping is wrong\<close>

lemma move_gone: "sh_place s = Exited \<Longrightarrow> sh_place (sh_move r mv s) = Exited"
  by (cases mv) (simp_all add: sh_exit_def)

lemma tick_gone: "gone g r \<Longrightarrow> gone (tick tm g) r"
proof -
  have "sh_place (fold (sh_move r) ms s) = Exited" if "sh_place s = Exited" for ms s
    using that by (induction ms arbitrary: s) (simp_all add: move_gone del: sh_move.simps)
  then show "gone g r \<Longrightarrow> gone (tick tm g) r" by (simp add: gone_def tick_def move_all_shard)
qed

lemma tick_unhealthy: "\<not> healthy g \<Longrightarrow> \<not> healthy (tick tm g)"
  using tick_gone by (auto simp: healthy_def list_all_iff)

lemma not_running_not_fatal: "\<not> fatal_outcome (Inl NotRunning)"
  by code_simp

lemma dead_serve:
  assumes "tp_group st = Some g" and "\<not> healthy g" and "\<not> tp_committed st" and "tp_stood_down st"
  shows "\<exists>st' g'. tp_serve tm sandboxed seed jb st = (st', Inl NotRunning) \<and>
    tp_group st' = Some g' \<and> \<not> healthy g' \<and> \<not> tp_committed st' \<and> tp_stood_down st'"
  using assms tick_unhealthy[OF assms(2), of tm] not_running_not_fatal
  by (simp add: tp_serve_def tp_execute_def looked_at_def group_running_def tp_cleanup_def await_shards_def discard_sandbox_def Let_def)

text \<open>C30. A tensor-parallel replica one of whose processes is gone (it exits when nothing came for an hour) and whose
  last request, if it had any, was not committed, fails every request it is given from then on, and is never
  restarted: \<open>execute\<close> refuses before it resets its flags, and \<open>cleanup\<close> takes the stale flags of the request
  before for a group that was stood down.\<close>

theorem dead_group_is_never_restarted:
  assumes "tp_group st = Some g" and "\<not> healthy g" and "\<not> tp_committed st" and "tp_stood_down st"
  shows "\<exists>st'. tp_serve_all tm sandboxed jobs st = (st', replicate (length jobs) (Inl NotRunning)) \<and> tp_group st' \<noteq> None"
  using assms
proof (induction jobs arbitrary: st g)
  case (Cons sj jobs)
  obtain seed jb where sj: "sj = (seed, jb)" by fastforce
  obtain st1 g1 where s: "tp_serve tm sandboxed seed jb st = (st1, Inl NotRunning)"
    and next1: "tp_group st1 = Some g1" "\<not> healthy g1" "\<not> tp_committed st1" "tp_stood_down st1"
    using dead_serve[OF Cons.prems] by blast
  from Cons.IH[OF next1] obtain st2 where "tp_serve_all tm sandboxed jobs st1 = (st2, replicate (length jobs) (Inl NotRunning))"
    and "tp_group st2 \<noteq> None" by blast
  then show ?case using Cons.prems(1) sj s by simp
qed simp

definition ex_idle :: timing where
  "ex_idle = \<lparr>tm_moves = (\<lambda>t. [(1, IdleHour)]), tm_late = (\<lambda>t. False)\<rparr>"

theorem dead_group_is_never_restarted_witness:
  "snd (tp_serve_all ex_tm False [(5, ex_tp_job), (6, ex_tp_job)] (looked_at ex_idle ex_loaded)) = [Inl NotRunning, Inl NotRunning]"
proof -
  let ?st = "looked_at ex_idle ex_loaded"
  have "\<not> group_running ?st" and none: "tp_group ?st \<noteq> None" and "\<not> tp_committed ?st" and "tp_stood_down ?st" by code_simp+
  moreover from none obtain g where g: "tp_group ?st = Some g" by auto
  ultimately have h: "\<not> healthy g" "\<not> tp_committed ?st" "tp_stood_down ?st" by (simp_all add: group_running_def)
  obtain st' where "tp_serve_all ex_tm False [(5, ex_tp_job), (6, ex_tp_job)] ?st = (st', replicate 2 (Inl NotRunning))"
    using dead_group_is_never_restarted[OF g h, of ex_tm False "[(5, ex_tp_job), (6, ex_tp_job)]"] by (auto simp: numeral_2_eq_2)
  then show ?thesis by (simp add: numeral_2_eq_2)
qed

text \<open>C31. A trusted request that is timed out while its thread is still in the first phase counts as
  settled: \<open>cleanup\<close> keeps the group, although every shard is (or died) waiting for \<open>GO\<close>. When the thread, which
  nothing stops, goes on, it releases the group into the block, and arming the checkpoint forgets the
  abort that was requested.\<close>

theorem interrupted_prepare_runs_anyway:
  assumes "patient tm" and "tp_group st = Some g" and "wf_group g" and "\<forall>r \<in> set (gr_ranks g). in_phase AtRest (gr_shard g r)"
    and "on_group (prepare tm pl c env seed) (Inl no_group) (begin_request st) = (st1, Inr ())"
    and "tp_cleanup tm (tp_interrupt sandboxed st1) = st2" and "tp_commit tm st2 = (st3, Inr ())"
  shows "\<exists>g'. tp_group st2 = Some g' \<and>
    (\<forall>r \<in> set (gr_ranks g'). sh_place (gr_shard g' r) = AwaitGo \<or> sh_place (gr_shard g' r) = Exited) \<and>
    tp_committed st3 \<and> ab_armed (tp_abort st3) \<and> \<not> ab_requested (tp_abort st3)"
proof -
  obtain g' where p: "prepare tm pl c env seed g = (g', Inr ())" and st1: "st1 = (begin_request st)\<lparr>tp_group := Some g'\<rparr>"
    using assms(2,5) by (auto simp: on_group_def begin_request_def split: prod.splits)
  have "phased {Prepared} g'" using prepare_phases[OF assms(1,3) _ p] assms(4) by (simp add: phased_one)
  then have "\<forall>r \<in> set (gr_ranks g'). sh_place (gr_shard g' r) = AwaitGo \<or> sh_place (gr_shard g' r) = Exited"
    by (auto simp: phased_one in_phase_def at_phase_def elim: boxes_prepared)
  moreover have "tp_group st2 = Some g'"
    using assms(6) st1
    by (auto simp: tp_cleanup_def tp_interrupt_def await_shards_def discard_sandbox_def begin_request_def Let_def)
  moreover have "tp_committed st3 \<and> tp_abort st3 = arm (tp_abort st2)"
    using assms(7) by (auto simp: tp_commit_def on_group_def split: prod.splits sum.splits option.splits)
  ultimately show ?thesis by (simp add: arm_def)
qed

theorem interrupted_prepare_runs_anyway_witness:
  "\<exists>g'. tp_group (tp_cleanup ex_tm (tp_interrupt False (fst (on_group (prepare ex_tm ''block'' False ''{}'' 5) (Inl no_group)
       (begin_request ex_loaded))))) = Some g' \<and> (\<forall>r \<in> set (gr_ranks g'). sh_place (gr_shard g' r) \<noteq> AtLoop)"
proof -
  let ?p = "on_group (prepare ex_tm ''block'' False ''{}'' 5) (Inl no_group) (begin_request ex_loaded)"
  let ?st2 = "tp_cleanup ex_tm (tp_interrupt False (fst ?p))"
  obtain g where g: "tp_group ex_loaded = Some g" using load_rests[OF ex_patient(1) _ ex_load] by (auto simp: ex_new_def)
  have "rests ex_loaded" using load_rests[OF ex_patient(1) _ ex_load] by (simp add: ex_new_def)
  then have r: "wf_group g" "\<forall>r \<in> set (gr_ranks g). in_phase AtRest (gr_shard g r)" using g by (auto simp: rests_def phased_one)
  have "snd ?p = Inr ()" by code_simp
  then have p: "?p = (fst ?p, Inr ())" by (simp add: prod_eq_iff)
  have "snd (tp_commit ex_tm ?st2) = Inr ()" by code_simp
  then have c: "tp_commit ex_tm ?st2 = (fst (tp_commit ex_tm ?st2), Inr ())" by (simp add: prod_eq_iff)
  show ?thesis using interrupted_prepare_runs_anyway[OF ex_patient(1) g r p refl c] by fastforce
qed

end
