(* ===== verification/Runner_Pool.thy ===== *)
theory Runner_Pool
  imports Prelude
begin

text \<open>
  The pool of runners of a sandboxing actor (\<open>Pool\<close> of \<open>sandbox/host.py\<close>): a queue of warm runners, the threads
  that warm more, and its callers. An event is what one thread does between two points at which another can
  run: a section under the lock, one operation on the queue, one test of \<open>closed\<close>. Runners are numbered as
  they come up; a \<open>spawn\<close> that raises is an event of its own.
\<close>

section \<open>The pool\<close>

text \<open>Where a warming thread is: spawning; back with a runner, before its test of \<open>closed\<close>; past it.\<close>

datatype warming = Spawning | Landed nat | Putting nat

text \<open>Where a caller of \<open>acquire\<close> is: in \<open>ready.get\<close>, spawning for itself, or with a runner, before \<open>refill\<close>.\<close>

datatype acquiring = InGet | SpawnsOwn | GotRunner nat

record pool =
  pl_size :: int
  pl_ready :: "nat list"
  pl_spawning :: int
  pl_closed :: bool
  pl_threads :: "warming list"
  pl_callers :: "acquiring list"
  pl_next :: nat
  pl_given :: "nat list"
  pl_stopped :: "nat list"

definition pl_refill :: "pool \<Rightarrow> pool" where
  "pl_refill p =
     (if pl_closed p \<or> int (length (pl_ready p)) + pl_spawning p \<ge> pl_size p then p
      else p\<lparr>pl_spawning := pl_spawning p + 1, pl_threads := pl_threads p @ [Spawning]\<rparr>)"

definition new_pool :: "int \<Rightarrow> pool" where
  "new_pool n =
     (pl_refill ^^ nat n)
       \<lparr>pl_size = n, pl_ready = [], pl_spawning = 0, pl_closed = False, pl_threads = [], pl_callers = [],
        pl_next = 0, pl_given = [], pl_stopped = []\<rparr>"

text \<open>\<open>warm\<close>: the \<open>finally\<close> under the lock, the test, the \<open>put\<close>.\<close>

definition pl_spawned :: "nat \<Rightarrow> pool \<Rightarrow> pool" where
  "pl_spawned i p =
     p\<lparr>pl_spawning := pl_spawning p - 1, pl_threads := (pl_threads p)[i := Landed (pl_next p)], pl_next := Suc (pl_next p)\<rparr>"

definition pl_spawn_failed :: "nat \<Rightarrow> pool \<Rightarrow> pool" where
  "pl_spawn_failed i p =
     p\<lparr>pl_spawning := pl_spawning p - 1, pl_threads := take i (pl_threads p) @ drop (Suc i) (pl_threads p)\<rparr>"

definition pl_landed :: "nat \<Rightarrow> nat \<Rightarrow> pool \<Rightarrow> pool" where
  "pl_landed i s p =
     (if pl_closed p then
        p\<lparr>pl_threads := take i (pl_threads p) @ drop (Suc i) (pl_threads p), pl_stopped := pl_stopped p @ [s]\<rparr>
      else p\<lparr>pl_threads := (pl_threads p)[i := Putting s]\<rparr>)"

definition pl_put :: "nat \<Rightarrow> nat \<Rightarrow> pool \<Rightarrow> pool" where
  "pl_put i s p =
     p\<lparr>pl_threads := take i (pl_threads p) @ drop (Suc i) (pl_threads p), pl_ready := pl_ready p @ [s]\<rparr>"

text \<open>\<open>acquire\<close>: the \<open>get\<close>, its timeout, the runner it spawns itself, and \<open>refill\<close> before it returns.\<close>

definition set_caller :: "nat \<Rightarrow> acquiring \<Rightarrow> pool \<Rightarrow> pool" where
  "set_caller c a p = p\<lparr>pl_callers := (pl_callers p)[c := a]\<rparr>"

definition pl_get :: "nat \<Rightarrow> pool \<Rightarrow> pool option" where
  "pl_get c p =
     (case pl_ready p of
        [] \<Rightarrow> None
      | s # ready \<Rightarrow> Some (set_caller c (GotRunner s) (p\<lparr>pl_ready := ready\<rparr>)))"

definition pl_own :: "nat \<Rightarrow> pool \<Rightarrow> pool" where
  "pl_own c p = set_caller c (GotRunner (pl_next p)) (p\<lparr>pl_next := Suc (pl_next p)\<rparr>)"

definition drop_caller :: "nat \<Rightarrow> pool \<Rightarrow> pool" where
  "drop_caller c p = p\<lparr>pl_callers := take c (pl_callers p) @ drop (Suc c) (pl_callers p)\<rparr>"

definition pl_return :: "nat \<Rightarrow> nat \<Rightarrow> pool \<Rightarrow> pool" where
  "pl_return c s p = (let p = pl_refill p in (drop_caller c p)\<lparr>pl_given := pl_given p @ [s]\<rparr>)"

text \<open>\<open>close\<close>: the flag under the lock, then the runners one by one.\<close>

definition pl_close :: "pool \<Rightarrow> pool" where
  "pl_close p = p\<lparr>pl_closed := True\<rparr>"

definition pl_drain :: "pool \<Rightarrow> pool option" where
  "pl_drain p =
     (case pl_ready p of [] \<Rightarrow> None | s # ready \<Rightarrow> Some (p\<lparr>pl_ready := ready, pl_stopped := pl_stopped p @ [s]\<rparr>))"

datatype pool_event =
    Spawned nat | SpawnFailed nat | Tested nat | Put nat
  | Acquire | GetReady nat | GetTimesOut nat | OwnSpawned nat | OwnFailed nat | Returned nat
  | Close | Drain

text \<open>An event that its thread is not at is none.\<close>

definition slot :: "'a list \<Rightarrow> nat \<Rightarrow> 'a option" where
  "slot xs i = (if i < length xs then Some (xs ! i) else None)"

fun pool_fire :: "pool_event \<Rightarrow> pool \<Rightarrow> pool option" where
  "pool_fire (Spawned i) p = (if slot (pl_threads p) i = Some Spawning then Some (pl_spawned i p) else None)"
| "pool_fire (SpawnFailed i) p = (if slot (pl_threads p) i = Some Spawning then Some (pl_spawn_failed i p) else None)"
| "pool_fire (Tested i) p = (case slot (pl_threads p) i of Some (Landed s) \<Rightarrow> Some (pl_landed i s p) | _ \<Rightarrow> None)"
| "pool_fire (Put i) p = (case slot (pl_threads p) i of Some (Putting s) \<Rightarrow> Some (pl_put i s p) | _ \<Rightarrow> None)"
| "pool_fire Acquire p = Some (p\<lparr>pl_callers := pl_callers p @ [InGet]\<rparr>)"
| "pool_fire (GetReady c) p = (if slot (pl_callers p) c = Some InGet then pl_get c p else None)"
| "pool_fire (GetTimesOut c) p =
     (if slot (pl_callers p) c = Some InGet \<and> pl_ready p = [] then Some (set_caller c SpawnsOwn p) else None)"
| "pool_fire (OwnSpawned c) p = (if slot (pl_callers p) c = Some SpawnsOwn then Some (pl_own c p) else None)"
| "pool_fire (OwnFailed c) p = (if slot (pl_callers p) c = Some SpawnsOwn then Some (drop_caller c p) else None)"
| "pool_fire (Returned c) p = (case slot (pl_callers p) c of Some (GotRunner s) \<Rightarrow> Some (pl_return c s p) | _ \<Rightarrow> None)"
| "pool_fire Close p = Some (pl_close p)"
| "pool_fire Drain p = (if pl_closed p then pl_drain p else None)"

fun pool_run :: "pool_event list \<Rightarrow> pool \<Rightarrow> pool option" where
  "pool_run [] p = Some p"
| "pool_run (e # es) p = (case pool_fire e p of None \<Rightarrow> None | Some p' \<Rightarrow> pool_run es p')"

section \<open>Where the runners are\<close>

fun warmed :: "warming \<Rightarrow> nat list" where
  "warmed Spawning = []" | "warmed (Landed s) = [s]" | "warmed (Putting s) = [s]"

fun acquired :: "acquiring \<Rightarrow> nat list" where
  "acquired InGet = []" | "acquired SpawnsOwn = []" | "acquired (GotRunner s) = [s]"

definition runners :: "pool \<Rightarrow> nat multiset" where
  "runners p =
     mset (pl_ready p) + mset (concat (map warmed (pl_threads p))) + mset (concat (map acquired (pl_callers p))) +
     mset (pl_given p) + mset (pl_stopped p)"

text \<open>Every runner that came up is in exactly one place, and \<open>spawning\<close> counts the threads that spawn.\<close>

definition pool_inv :: "pool \<Rightarrow> bool" where
  "pool_inv p \<longleftrightarrow>
     runners p = mset [0..<pl_next p] \<and> pl_spawning p = int (length (filter (\<lambda>w. w = Spawning) (pl_threads p))) \<and>
     pl_spawning p \<le> max 0 (pl_size p)"

lemma slot_split: "slot xs i = Some x \<longleftrightarrow> (\<exists>us vs. xs = us @ x # vs \<and> length us = i)"
proof
  assume "slot xs i = Some x"
  then have "i < length xs" and "xs ! i = x" by (simp_all add: slot_def split: if_splits)
  then show "\<exists>us vs. xs = us @ x # vs \<and> length us = i"
    using id_take_nth_drop[of i xs] by (intro exI[of _ "take i xs"] exI[of _ "drop (Suc i) xs"]) simp
qed (auto simp: slot_def nth_append)

lemma refill_inv:
  assumes "pool_inv p"
  shows "pool_inv (pl_refill p) \<and> pl_ready (pl_refill p) = pl_ready p \<and> pl_callers (pl_refill p) = pl_callers p \<and>
    pl_given (pl_refill p) = pl_given p \<and> pl_size (pl_refill p) = pl_size p"
  using assms by (auto simp: pl_refill_def pool_inv_def runners_def)

lemma new_pool_inv: "pool_inv (new_pool n)"
proof -
  have "pool_inv ((pl_refill ^^ k) p)" if "pool_inv p" for k p
    using that by (induction k) (simp_all add: refill_inv)
  then show ?thesis unfolding new_pool_def by this (simp add: pool_inv_def runners_def)
qed

lemma fire_inv:
  assumes "pool_inv p" and "pool_fire e p = Some p'"
  shows "pool_inv p'"
proof (cases e)
  case (Spawned i)
  then obtain us vs where "pl_threads p = us @ Spawning # vs" and "length us = i" and "p' = pl_spawned i p"
    using assms(2) by (auto simp: slot_split split: if_splits)
  then show ?thesis using assms(1) by (auto simp: pl_spawned_def pool_inv_def runners_def)
next
  case (SpawnFailed i)
  then obtain us vs where "pl_threads p = us @ Spawning # vs" and "length us = i" and "p' = pl_spawn_failed i p"
    using assms(2) by (auto simp: slot_split split: if_splits)
  then show ?thesis using assms(1) by (auto simp: pl_spawn_failed_def pool_inv_def runners_def)
next
  case (Tested i)
  then obtain s us vs where "pl_threads p = us @ Landed s # vs" and "length us = i" and "p' = pl_landed i s p"
    using assms(2) by (auto simp: slot_split split: option.splits warming.splits)
  then show ?thesis using assms(1) by (auto simp: pl_landed_def pool_inv_def runners_def)
next
  case (Put i)
  then obtain s us vs where "pl_threads p = us @ Putting s # vs" and "length us = i" and "p' = pl_put i s p"
    using assms(2) by (auto simp: slot_split split: option.splits warming.splits)
  then show ?thesis using assms(1) by (auto simp: pl_put_def pool_inv_def runners_def)
next
  case (GetReady c)
  then obtain s rest us vs where "pl_callers p = us @ InGet # vs" and "length us = c" and "pl_ready p = s # rest"
    and "p' = set_caller c (GotRunner s) (p\<lparr>pl_ready := rest\<rparr>)"
    using assms(2) by (auto simp: slot_split pl_get_def split: if_splits list.splits)
  then show ?thesis using assms(1) by (auto simp: set_caller_def pool_inv_def runners_def)
next
  case (GetTimesOut c)
  then obtain us vs where "pl_callers p = us @ InGet # vs" and "length us = c" and "p' = set_caller c SpawnsOwn p"
    using assms(2) by (auto simp: slot_split split: if_splits)
  then show ?thesis using assms(1) by (auto simp: set_caller_def pool_inv_def runners_def)
next
  case (OwnSpawned c)
  then obtain us vs where "pl_callers p = us @ SpawnsOwn # vs" and "length us = c" and "p' = pl_own c p"
    using assms(2) by (auto simp: slot_split split: if_splits)
  then show ?thesis using assms(1) by (auto simp: pl_own_def set_caller_def pool_inv_def runners_def)
next
  case (OwnFailed c)
  then obtain us vs where "pl_callers p = us @ SpawnsOwn # vs" and "length us = c" and "p' = drop_caller c p"
    using assms(2) by (auto simp: slot_split split: if_splits)
  then show ?thesis using assms(1) by (auto simp: drop_caller_def pool_inv_def runners_def)
next
  case (Returned c)
  then obtain s us vs where c: "pl_callers p = us @ GotRunner s # vs" "length us = c" and p': "p' = pl_return c s p"
    using assms(2) by (auto simp: slot_split split: option.splits acquiring.splits)
  have r: "pool_inv (pl_refill p)" "pl_callers (pl_refill p) = us @ GotRunner s # vs" using refill_inv[OF assms(1)] c by simp_all
  then show ?thesis using p' c(2) by (auto simp: pl_return_def drop_caller_def pool_inv_def runners_def Let_def)
next
  case Drain
  then show ?thesis using assms by (auto simp: pl_drain_def pool_inv_def runners_def split: if_splits list.splits)
qed (use assms in \<open>auto simp: pl_close_def pool_inv_def runners_def\<close>)

lemma run_pool_inv: "pool_inv p \<Longrightarrow> pool_run es p = Some p' \<Longrightarrow> pool_inv p'"
  by (induction es arbitrary: p) (auto dest: fire_inv split: option.splits)

lemma refill_size [simp]: "pl_size (pl_refill p) = pl_size p"
  by (simp add: pl_refill_def)

lemma fire_size: "pool_fire e p = Some p' \<Longrightarrow> pl_size p' = pl_size p"
  by (cases e)
     (auto simp: pl_spawned_def pl_spawn_failed_def pl_landed_def pl_put_def pl_get_def set_caller_def pl_own_def
        drop_caller_def pl_return_def pl_close_def pl_drain_def Let_def
      split: if_splits option.splits warming.splits acquiring.splits list.splits)

lemma run_size: "pool_run es p = Some p' \<Longrightarrow> pl_size p' = pl_size p"
  by (induction es arbitrary: p) (auto dest: fire_size split: option.splits)

lemma new_pool_size: "pl_size (new_pool n) = n"
proof -
  have "pl_size ((pl_refill ^^ k) p) = pl_size p" for k p by (induction k) simp_all
  then show ?thesis by (simp add: new_pool_def)
qed

section \<open>Fresh runners\<close>



text \<open>
  A runner that comes up while the pool is closed outlives it: a thread past its test of \<open>closed\<close> puts its runner
  into the queue \<open>close\<close> has already emptied.
\<close>

lemma late_runner_outlives_pool:
  assumes "pl_threads p = us @ Putting s # vs" and "pl_ready p = []"
  shows "\<exists>p1 p2. pool_fire Close p = Some p1 \<and> pool_fire Drain p1 = None \<and> pool_fire (Put (length us)) p1 = Some p2 \<and>
    pl_closed p2 \<and> pl_ready p2 = [s] \<and> pl_stopped p2 = pl_stopped p"
  using assms by (simp add: pl_close_def pl_drain_def pl_put_def slot_def)

end
