(* ===== verification/Monitor.thy ===== *)
theory Monitor
  imports Prelude
begin

text \<open>
  The monitor job (\<open>dashboard/jobs/monitor.py\<close> with \<open>jobs/util.py\<close>): a tick of cron probes the API, records
  whether it is up, tells Discord of a change, and now and then traces every HOT model. What the API, a
  trace and the clock answer are arguments; \<open>cut\<close> is the alarm going off during the traces. Texts are lists
  of code points, time is in seconds, and a notification is its template with the fields it is given.
\<close>

section \<open>Text\<close>

type_synonym code_text = "nat list"

definition lit :: "string \<Rightarrow> code_text" where
  "lit = map of_char"

definition line_breaks :: "nat list" where
  "line_breaks = [10, 11, 12, 13, 28, 29, 30, 133, 8232, 8233]"

definition blanks :: "nat list" where
  "blanks = [9, 10, 11, 12, 13, 28, 29, 30, 31, 32, 133, 160, 5760] @ [8192..<8203] @ [8232, 8233, 8239, 8287, 12288]"

text \<open>\<open>splitlines\<close>, with an empty line between a return and the newline after it (empty lines are dropped below).\<close>

fun split_lines :: "code_text \<Rightarrow> code_text list" where
  "split_lines [] = [[]]"
| "split_lines (c # cs) =
     (if c \<in> set line_breaks then [] # split_lines cs
      else (case split_lines cs of [] \<Rightarrow> [[c]] | l # ls \<Rightarrow> (c # l) # ls))"

definition strip_text :: "code_text \<Rightarrow> code_text" where
  "strip_text s = rev (dropWhile (\<lambda>c. c \<in> set blanks) (rev (dropWhile (\<lambda>c. c \<in> set blanks) s)))"

definition starts_with :: "code_text \<Rightarrow> code_text \<Rightarrow> bool" where
  "starts_with p s \<longleftrightarrow> take (length p) s = p"

definition summarize_error :: "code_text option \<Rightarrow> code_text" where
  "summarize_error err =
     (let ls = filter (\<lambda>l. l \<noteq> []) (map strip_text (split_lines (case err of None \<Rightarrow> [] | Some e \<Rightarrow> e))) in
      if ls = [] then lit ''unknown''
      else if starts_with (lit ''Traceback (most recent call last):'') (hd ls) then last ls else hd ls)"

section \<open>The probe\<close>

text \<open>What \<open>requests.get\<close> comes to; the exceptions with their type and text, an HTTP error with its body too.\<close>

record request_failure =
  rf_type :: code_text
  rf_text :: code_text
  rf_body :: "code_text option"

definition describe_failure :: "(code_text \<Rightarrow> code_text) \<Rightarrow> request_failure \<Rightarrow> code_text" where
  "describe_failure squeeze e =
     rf_type e @ lit '': '' @ summarize_error (Some (rf_text e)) @
     (case rf_body e of None \<Rightarrow> [] | Some body \<Rightarrow> lit '' '' @ take 200 (squeeze body))"

definition check_connected :: "(nat \<Rightarrow> code_text) \<Rightarrow> nat \<Rightarrow> bool \<times> code_text" where
  "check_connected digits_of code =
     (if code = 200 then (True, lit ''ok'')
      else if code = 503 then (False, lit ''service disconnected (503)'')
      else (False, lit ''unexpected status '' @ digits_of code))"

record status_entry =
  se_repo_id :: "code_text option"
  se_model_key :: "code_text option"
  se_level :: "code_text option"
  se_task :: "code_text option"
  se_trust_remote_code :: bool

definition extract_hot_models :: "status_entry list \<Rightarrow> status_entry list" where
  "extract_hot_models deployments = filter (\<lambda>m. se_level m = Some (lit ''HOT'')) deployments"

definition probe_health ::
  "(code_text \<Rightarrow> code_text) \<Rightarrow> (nat \<Rightarrow> code_text) \<Rightarrow> request_failure + nat \<Rightarrow> request_failure + status_entry list
   \<Rightarrow> bool \<times> code_text \<times> status_entry list option" where
  "probe_health squeeze digits_of conn status =
     (case conn of
        Inl e \<Rightarrow> (False, lit ''API unreachable: '' @ describe_failure squeeze e, None)
      | Inr code \<Rightarrow>
          (case check_connected digits_of code of
             (False, reason) \<Rightarrow> (False, reason, None)
           | (True, _) \<Rightarrow>
               (case status of
                  Inl e \<Rightarrow> (False, lit ''/status failed: '' @ describe_failure squeeze e, None)
                | Inr deployments \<Rightarrow>
                    if extract_hot_models deployments = [] then (False, lit ''no HOT models deployed'', Some deployments)
                    else (True, lit ''ok'', Some deployments))))"

section \<open>State and notifications\<close>

record monitor_state =
  mo_last_ok :: bool
  mo_down_since :: "rat option"
  mo_last_model_check :: "rat option"
  mo_last_failed_models :: "code_text list"

definition default_state :: monitor_state where
  "default_state = \<lparr>mo_last_ok = True, mo_down_since = None, mo_last_model_check = None, mo_last_failed_models = []\<rparr>"

datatype notice =
    Down code_text rat
  | StillDown code_text rat "rat option"
  | BackUp rat "rat option"
  | ModelsFailed code_text

definition notify_status :: "bool \<Rightarrow> bool \<Rightarrow> rat option \<Rightarrow> bool \<Rightarrow> code_text \<Rightarrow> rat \<Rightarrow> notice list" where
  "notify_status webhook was_ok down_since is_ok reason timestamp =
     (if \<not> webhook then []
      else if was_ok \<and> \<not> is_ok then [Down reason timestamp]
      else if \<not> was_ok \<and> \<not> is_ok then [StillDown reason timestamp down_since]
      else if \<not> was_ok \<and> is_ok then [BackUp timestamp down_since]
      else [])"

definition record_status_transition ::
  "bool \<Rightarrow> bool \<Rightarrow> code_text \<Rightarrow> rat \<Rightarrow> monitor_state \<Rightarrow> monitor_state \<times> notice list" where
  "record_status_transition webhook is_ok reason timestamp st =
     (let was_ok = mo_last_ok st;
          down_since = (if \<not> is_ok \<and> was_ok then Some timestamp else mo_down_since st);
          st = (if \<not> is_ok \<and> was_ok then st\<lparr>mo_down_since := Some timestamp\<rparr>
                else if is_ok then st\<lparr>mo_down_since := None\<rparr> else st)
      in (st\<lparr>mo_last_ok := is_ok\<rparr>, notify_status webhook was_ok down_since is_ok reason timestamp))"

definition model_check_due :: "monitor_state \<Rightarrow> rat \<Rightarrow> rat \<Rightarrow> bool" where
  "model_check_due st now interval \<longleftrightarrow>
     \<not> mo_last_ok st \<or> (case mo_last_model_check st of None \<Rightarrow> True | Some before \<Rightarrow> now - before \<ge> interval)"

section \<open>The model traces\<close>

record trace_result =
  tr_model :: code_text
  tr_status :: code_text
  tr_error :: "code_text option"
  tr_request_id :: "code_text option"

text \<open>\<open>run_model_traces\<close>: \<open>trace\<close> is what \<open>check_model\<close> comes to for a model key.\<close>

definition shown_name :: "status_entry \<Rightarrow> code_text" where
  "shown_name m =
     (let repo = (case se_repo_id m of None \<Rightarrow> lit ''unknown'' | Some r \<Rightarrow> r);
          fields = filter (\<lambda>f. f \<noteq> [])
            ((case se_task m of None \<Rightarrow> [] | Some t \<Rightarrow> [t]) @ (if se_trust_remote_code m then [lit ''trust_remote_code''] else []))
      in if fields = [] then repo
         else repo @ lit '' ('' @ hd fields @ concat (map ((@) (lit '', '')) (tl fields)) @ lit '')'')"

definition run_model_traces :: "(code_text \<Rightarrow> trace_result) \<Rightarrow> status_entry list \<Rightarrow> trace_result list" where
  "run_model_traces trace hot_models =
     concat (map (\<lambda>m. case se_model_key m of
         None \<Rightarrow> []
       | Some k \<Rightarrow> if k = [] then [] else [(trace k)\<lparr>tr_model := shown_name m\<rparr>]) hot_models)"

text \<open>
  \<open>notify_model_failures\<close>. \<open>templ\<close> is the template \<open>models_failed\<close> with its count, total and mention filled in, a
  function of the model list.
\<close>

definition discord_limit :: nat where
  "discord_limit = 2000"

definition short_error :: "code_text option \<Rightarrow> code_text" where
  "short_error err = (let s = summarize_error err in if length s > 120 then take 120 s @ [8230] else s)"

definition fmt_line :: "trace_result \<Rightarrow> code_text" where
  "fmt_line r =
     lit ''> **'' @ tr_model r @ lit ''** '' @ [8212] @ lit '' `'' @ tr_status r @ lit ''`'' @
     (case tr_request_id r of None \<Rightarrow> [] | Some q \<Rightarrow> if q = [] then [] else lit '' (req `'' @ q @ lit ''`)'') @
     lit '': '' @ short_error (tr_error r)"

definition join_lines :: "code_text list \<Rightarrow> code_text" where
  "join_lines ls = (case ls of [] \<Rightarrow> [] | l # ls \<Rightarrow> l @ concat (map ((#) 10) ls))"

definition build_message ::
  "(code_text \<Rightarrow> code_text) \<Rightarrow> (nat \<Rightarrow> code_text) \<Rightarrow> trace_result list \<Rightarrow> nat \<Rightarrow> code_text" where
  "build_message templ digits_of included dropped =
     templ (join_lines (map fmt_line included @
       (if dropped = 0 then [] else [lit ''> '' @ [8230] @ lit ''and '' @ digits_of dropped @ lit '' more (see models_*.log)''])))"

fun include_models ::
  "(code_text \<Rightarrow> code_text) \<Rightarrow> (nat \<Rightarrow> code_text) \<Rightarrow> nat \<Rightarrow> trace_result list \<Rightarrow> trace_result list \<Rightarrow> trace_result list" where
  "include_models templ digits_of n included [] = included"
| "include_models templ digits_of n included (r # rs) =
     (if length (build_message templ digits_of (included @ [r]) (n - (length included + 1))) > discord_limit then included
      else include_models templ digits_of n (included @ [r]) rs)"

definition notify_model_failures ::
  "bool \<Rightarrow> (nat \<Rightarrow> nat \<Rightarrow> code_text \<Rightarrow> code_text) \<Rightarrow> (nat \<Rightarrow> code_text) \<Rightarrow> trace_result list \<Rightarrow> nat \<Rightarrow> notice list" where
  "notify_model_failures webhook templ digits_of failed n =
     (if \<not> webhook \<or> failed = [] then []
      else
        (let build = build_message (templ (length failed) n) digits_of;
             included = include_models (templ (length failed) n) digits_of (length failed) [] failed
         in [ModelsFailed (build included (length failed - length included))]))"

definition notify_if_failures_changed ::
  "bool \<Rightarrow> (nat \<Rightarrow> nat \<Rightarrow> code_text \<Rightarrow> code_text) \<Rightarrow> (nat \<Rightarrow> code_text) \<Rightarrow> trace_result list
   \<Rightarrow> monitor_state \<Rightarrow> monitor_state \<times> notice list" where
  "notify_if_failures_changed webhook templ digits_of results st =
     (let failed = filter (\<lambda>r. tr_status r \<noteq> lit ''ok'') results;
          failed_set = sort (map tr_model failed)
      in (st\<lparr>mo_last_failed_models := failed_set\<rparr>,
          if failed \<noteq> [] \<and> failed_set \<noteq> mo_last_failed_models st
          then notify_model_failures webhook templ digits_of failed (length results) else []))"

section \<open>A tick\<close>

text \<open>\<open>write_models_log\<close>'s entry, \<open>rotate_logs\<close> on the sorted names of one pattern.\<close>

definition models_entry :: "trace_result list \<Rightarrow> bool \<times> nat \<times> nat" where
  "models_entry results =
     (let ok = length (filter (\<lambda>r. tr_status r = lit ''ok'') results) in (ok = length results, ok, length results))"

definition rotate_logs :: "nat \<Rightarrow> code_text list \<Rightarrow> code_text list" where
  "rotate_logs max_days files = (let fs = sort files in drop (length fs - max_days) fs)"

text \<open>What one run of \<open>main\<close> meets, and what its configuration gives it.\<close>

record tick =
  ti_now :: rat
  ti_connected :: "request_failure + nat"
  ti_status :: "request_failure + status_entry list"
  ti_trace :: "code_text \<Rightarrow> trace_result"
  ti_cut :: bool

record monitor_config =
  mc_webhook :: bool
  mc_api_key :: bool
  mc_interval :: rat
  mc_templ :: "nat \<Rightarrow> nat \<Rightarrow> code_text \<Rightarrow> code_text"
  mc_digits :: "nat \<Rightarrow> code_text"
  mc_squeeze :: "code_text \<Rightarrow> code_text"

definition probed :: "monitor_config \<Rightarrow> tick \<Rightarrow> bool \<times> code_text \<times> status_entry list option" where
  "probed cf ti = probe_health (mc_squeeze cf) (mc_digits cf) (ti_connected ti) (ti_status ti)"

text \<open>\<open>main\<close>: the state it saves, with what it sent to Discord and wrote to \<open>models_*.log\<close>. A pass cut off by the
  alarm leaves what was saved before it.\<close>

definition run_tick ::
  "monitor_config \<Rightarrow> tick \<Rightarrow> monitor_state \<Rightarrow> monitor_state \<times> notice list \<times> (bool \<times> nat \<times> nat) list" where
  "run_tick cf ti st =
     (case probed cf ti of
        (is_ok, reason, data) \<Rightarrow>
          (let check_models = is_ok \<and> model_check_due st (ti_now ti) (mc_interval cf) in
           case record_status_transition (mc_webhook cf) is_ok reason (ti_now ti) st of
             (st1, sent) \<Rightarrow>
               if \<not> check_models then (st1, sent, [])
               else if \<not> mc_api_key cf then (st1\<lparr>mo_last_model_check := Some (ti_now ti)\<rparr>, sent, [])
               else if ti_cut ti then (st1, sent, [])
               else
                 (let results = run_model_traces (ti_trace ti)
                        (extract_hot_models (case data of None \<Rightarrow> [] | Some d \<Rightarrow> d)) in
                  case notify_if_failures_changed (mc_webhook cf) (mc_templ cf) (mc_digits cf) results st1 of
                    (st2, extra) \<Rightarrow>
                      (st2\<lparr>mo_last_model_check := Some (ti_now ti)\<rparr>, sent @ extra, [models_entry results]))))"

fun run_ticks :: "monitor_config \<Rightarrow> tick list \<Rightarrow> monitor_state \<Rightarrow> monitor_state \<times> notice list list" where
  "run_ticks cf [] st = (st, [])"
| "run_ticks cf (ti # tis) st =
     (case run_tick cf ti st of
        (st, sent, _) \<Rightarrow> (case run_ticks cf tis st of (st, rest) \<Rightarrow> (st, sent # rest)))"

section \<open>Alerts and outages\<close>

definition tick_ok :: "monitor_config \<Rightarrow> tick \<Rightarrow> bool" where
  "tick_ok cf ti = fst (probed cf ti)"

definition tick_reason :: "monitor_config \<Rightarrow> tick \<Rightarrow> code_text" where
  "tick_reason cf ti = fst (snd (probed cf ti))"

text \<open>The reference: when the outage under way began, from the ticks so far, the latest first; and what is to be told.\<close>

fun outage_start :: "monitor_config \<Rightarrow> tick list \<Rightarrow> rat option" where
  "outage_start cf [] = None"
| "outage_start cf (ti # earlier) =
     (if tick_ok cf ti then None
      else (case outage_start cf earlier of None \<Rightarrow> Some (ti_now ti) | Some t \<Rightarrow> Some t))"

definition alert :: "monitor_config \<Rightarrow> tick list \<Rightarrow> tick \<Rightarrow> notice list" where
  "alert cf earlier ti =
     (if \<not> mc_webhook cf then []
      else
        (case outage_start cf earlier of
           None \<Rightarrow> if tick_ok cf ti then [] else [Down (tick_reason cf ti) (ti_now ti)]
         | Some t \<Rightarrow>
             if tick_ok cf ti then [BackUp (ti_now ti) (Some t)]
             else [StillDown (tick_reason cf ti) (ti_now ti) (Some t)]))"

fun is_alert :: "notice \<Rightarrow> bool" where
  "is_alert (ModelsFailed _) = False" | "is_alert _ = True"

definition tells :: "monitor_config \<Rightarrow> tick list \<Rightarrow> monitor_state \<Rightarrow> bool" where
  "tells cf earlier st \<longleftrightarrow>
     mo_down_since st = outage_start cf earlier \<and> (mo_last_ok st \<longleftrightarrow> outage_start cf earlier = None)"

lemma models_no_alert: "filter is_alert (notify_model_failures w templ d failed n) = []"
  by (simp add: notify_model_failures_def Let_def)

lemma changed_fields:
  "notify_if_failures_changed w templ d results st = (st', extra) \<Longrightarrow>
   mo_last_ok st' = mo_last_ok st \<and> mo_down_since st' = mo_down_since st \<and> filter is_alert extra = []"
  by (auto simp: notify_if_failures_changed_def models_no_alert Let_def split: if_splits)

lemma transition_tells:
  assumes "tells cf earlier st"
    and "record_status_transition (mc_webhook cf) (tick_ok cf ti) (tick_reason cf ti) (ti_now ti) st = (st', sent)"
  shows "tells cf (ti # earlier) st' \<and> sent = alert cf earlier ti \<and> filter is_alert sent = sent"
  using assms
  by (auto simp: record_status_transition_def notify_status_def tells_def alert_def Let_def split: option.splits)

lemma tick_tells:
  assumes "tells cf earlier st" and "run_tick cf ti st = (st', sent, entries)"
  shows "tells cf (ti # earlier) st' \<and> filter is_alert sent = alert cf earlier ti"
proof -
  obtain st1 s1 where r: "record_status_transition (mc_webhook cf) (tick_ok cf ti) (tick_reason cf ti) (ti_now ti) st = (st1, s1)"
    by fastforce
  obtain data where p: "probed cf ti = (tick_ok cf ti, tick_reason cf ti, data)"
    by (cases "probed cf ti") (simp add: tick_ok_def tick_reason_def)
  obtain st2 extra where c: "notify_if_failures_changed (mc_webhook cf) (mc_templ cf) (mc_digits cf)
      (run_model_traces (ti_trace ti) (extract_hot_models (case data of None \<Rightarrow> [] | Some d \<Rightarrow> d))) st1 = (st2, extra)"
    by fastforce
  note t = transition_tells[OF assms(1) r] and m = changed_fields[OF c]
  show ?thesis using assms(2) t m
    by (auto simp: run_tick_def p r c tells_def Let_def split: if_splits)
qed

lemma ticks_tell:
  "tells cf earlier st \<Longrightarrow> run_ticks cf tis st = (st', sent) \<Longrightarrow>
   length sent = length tis \<and> tells cf (rev tis @ earlier) st' \<and>
   (\<forall>k < length tis. filter is_alert (sent ! k) = alert cf (rev (take k tis) @ earlier) (tis ! k))"
proof (induction tis arbitrary: earlier st sent)
  case (Cons ti tis)
  obtain st1 s1 en where t: "run_tick cf ti st = (st1, s1, en)" by (metis prod_cases3)
  obtain rest where r: "run_ticks cf tis st1 = (st', rest)" and sent: "sent = s1 # rest"
    using Cons.prems(2) t by (auto split: prod.splits)
  note one = tick_tells[OF Cons.prems(1) t]
  have ih: "length rest = length tis \<and> tells cf (rev tis @ ti # earlier) st' \<and>
    (\<forall>k < length tis. filter is_alert (rest ! k) = alert cf (rev (take k tis) @ ti # earlier) (tis ! k))"
    using Cons.IH[OF conjunct1[OF one] r] by simp
  have "filter is_alert (sent ! k) = alert cf (rev (take k (ti # tis)) @ earlier) ((ti # tis) ! k)" if "k < Suc (length tis)" for k
    using that one ih sent by (cases k) simp_all
  then show ?case using ih sent by simp
qed simp

text \<open>C39. From the first run of the monitor on, every tick tells Discord about the API exactly what the history of
  probes calls for: that it is down, once, at the first failed probe of an outage, at every further one that it
  is still down since that first, at the first good one that it is back, with the same beginning; and
  nothing otherwise, whatever the model traces come to and wherever the alarm cuts them off.\<close>

theorem alerts_follow_outages:
  assumes "run_ticks cf tis default_state = (st, sent)"
  shows "length sent = length tis \<and> mo_down_since st = outage_start cf (rev tis) \<and>
    (\<forall>k < length tis. filter is_alert (sent ! k) = alert cf (rev (take k tis)) (tis ! k))"
proof -
  have "tells cf [] default_state" by (simp add: tells_def default_state_def)
  then show ?thesis using ticks_tell[OF _ assms, of "[]"] by (simp add: tells_def)
qed

section \<open>The list of failed models\<close>

lemma include_models_fits:
  assumes "length (build_message templ digits_of inc (n - length inc)) \<le> discord_limit"
  shows "\<exists>k \<le> length rs. include_models templ digits_of n inc rs = inc @ take k rs \<and>
    length (build_message templ digits_of (inc @ take k rs) (n - (length inc + k))) \<le> discord_limit"
  using assms
proof (induction rs arbitrary: inc)
  case (Cons r rs)
  show ?case
  proof (cases "length (build_message templ digits_of (inc @ [r]) (n - (length inc + 1))) > discord_limit")
    case True
    then show ?thesis using Cons.prems by (intro exI[of _ 0]) simp
  next
    case False
    then obtain k where "k \<le> length rs" and "include_models templ digits_of n (inc @ [r]) rs = (inc @ [r]) @ take k rs"
      and "length (build_message templ digits_of ((inc @ [r]) @ take k rs) (n - (length (inc @ [r]) + k))) \<le> discord_limit"
      using Cons.IH[of "inc @ [r]"] by auto
    then show ?thesis using False by (intro exI[of _ "Suc k"]) simp
  qed
qed simp

text \<open>
  If the template fits without any model, the message does, names the first failed models, and says how many
  are left out.
\<close>

theorem models_message_fits:
  assumes "notify_model_failures webhook templ digits_of failed n = [ModelsFailed m]"
    and "length (build_message (templ (length failed) n) digits_of [] (length failed)) \<le> discord_limit"
  shows "length m \<le> discord_limit \<and>
    (\<exists>k \<le> length failed. m = build_message (templ (length failed) n) digits_of (take k failed) (length failed - k))"
proof -
  obtain k where k: "k \<le> length failed" and inc: "include_models (templ (length failed) n) digits_of (length failed) [] failed = take k failed"
    and fits: "length (build_message (templ (length failed) n) digits_of (take k failed) (length failed - k)) \<le> discord_limit"
    using include_models_fits[of "templ (length failed) n" digits_of "[]" "length failed" failed] assms(2) by auto
  have "m = build_message (templ (length failed) n) digits_of (take k failed) (length failed - k)"
    using assms(1) inc k by (auto simp: notify_model_failures_def Let_def split: if_splits)
  then show ?thesis using k fits by blast
qed

section \<open>A day with an outage\<close>

definition ex_cf :: monitor_config where
  "ex_cf = \<lparr>mc_webhook = True, mc_api_key = True, mc_interval = 7200, mc_templ = (\<lambda>f n l. l), mc_digits = (\<lambda>n. [n]), mc_squeeze = id\<rparr>"

definition ex_entry :: status_entry where
  "ex_entry = \<lparr>se_repo_id = Some [103], se_model_key = Some [107], se_level = Some (lit ''HOT''), se_task = None,
     se_trust_remote_code = False\<rparr>"

definition ex_tick :: "rat \<Rightarrow> nat \<Rightarrow> tick" where
  "ex_tick now code =
     \<lparr>ti_now = now, ti_connected = Inr code, ti_status = Inr [ex_entry],
      ti_trace = (\<lambda>k. \<lparr>tr_model = k, tr_status = lit ''error'', tr_error = None, tr_request_id = None\<rparr>), ti_cut = False\<rparr>"

theorem alerts_follow_outages_witness:
  "\<exists>st sent. run_ticks ex_cf [ex_tick 0 200, ex_tick 300 503, ex_tick 600 503, ex_tick 900 200] default_state = (st, sent) \<and>
     filter is_alert (sent ! 3) = [BackUp 900 (Some 300)]"
proof -
  let ?tis = "[ex_tick 0 200, ex_tick 300 503, ex_tick 600 503, ex_tick 900 200]"
  obtain st sent where r: "run_ticks ex_cf ?tis default_state = (st, sent)" by fastforce
  have ok: "tick_ok ex_cf (ex_tick t 200)" "\<not> tick_ok ex_cf (ex_tick t 503)" for t
    by (simp_all add: tick_ok_def probed_def probe_health_def check_connected_def ex_tick_def ex_entry_def extract_hot_models_def)
  have "filter is_alert (sent ! 3) = alert ex_cf (rev (take 3 ?tis)) (?tis ! 3)"
    using alerts_follow_outages[OF r] by (simp del: take_Suc_Cons nth_Cons_Suc)
  also have "\<dots> = [BackUp 900 (Some 300)]" using ok by (simp add: alert_def ex_cf_def[THEN arg_cong[of _ _ mc_webhook]] ex_tick_def)
  finally show ?thesis using r by blast
qed

end
