(* ===== verification/Spec2Isabelle.thy ===== *)
theory Spec2Isabelle
  imports Status Dispatcher_Props Wire Coalesce Operations_Props Schedule_Props Model_Actor_Props
    Tensor_Parallel_Theorems Runner_Pool Monitor
begin

text \<open>
  A verification of NDIF, the service that runs users' interventions on large models hosted on a GPU
  cluster (\<open>src/src/ndif\<close>; the paths below are relative to it).

  \<^bold>\<open>The program.\<close> A client posts a request to the API (\<open>services/api\<close>), which authenticates it and pushes it
  onto a Redis list. The dispatcher (\<open>services/api/queue\<close>) takes requests off the list and hands each to
  the processor of its model, which keeps a priority queue and a pool of replicas; a worker per replica
  takes requests from the queue and calls the replica's model actor on Ray. When a model has no replica
  its processor asks the controller (\<open>services/ray/deployments/controller\<close>) for one; the controller places
  replicas on the GPUs of the cluster's nodes, evicting or parking others, and creates, parks, restores
  and deletes Ray actors accordingly. The model actor (\<open>services/ray/deployments/modeling\<close>) executes the
  block and answers the client; untrusted blocks run behind a socket (\<open>services/ray/sandbox\<close>), models
  sharded over several GPUs run in one process per GPU (\<open>services/ray/tp\<close>). Operators deploy and evict
  models with the command line (\<open>cli/lib\<close>) and with the dashboard (\<open>services/dashboard\<close>), whose schedule
  a cron job makes the cluster follow.

  \<^bold>\<open>The theories\<close>, in the order the components build on each other:

  \<^item> \<open>Prelude\<close>: exceptions and results as values (\<open>exn\<close>, \<open>res\<close>, \<open>run\<close>), Python dictionaries, slices, and the
    interfaces \<open>keyed_table\<close> (what a table holds after a write; interpreted for flat and for two-level
    dictionaries) and \<open>kept\<close> (what every step of a computation keeps).
  \<^item> \<open>Schema\<close> (\<open>common/types.py\<close>, \<open>common/schema/controller.py\<close>), \<open>Deployment\<close>, \<open>Evaluator\<close>, \<open>Node\<close>, \<open>Cluster\<close>,
    \<open>Controller\<close>, \<open>Status\<close>: the controller, one theory per module of \<open>controller/\<close>, an operation per
    method with the state as a record. \<open>Node_Inv\<close>, \<open>Placement\<close>, \<open>Node_Props\<close>, \<open>Cluster_Inv\<close>, \<open>Cluster_Deploy\<close>,
    \<open>Cluster_Evict\<close>, \<open>Cluster_Props\<close>, \<open>Controller_Inv\<close> and \<open>Controller_Props\<close> show that no card and no CPU
    budget is over-committed, that what a node proposes it can carry out, that a batch's response is
    what happened, that evicting ends and clears a model, and that what the controller believes was
    applied to Ray is what the cluster holds, whatever Ray answered. \<open>Example\<close> is the cluster at which the
    witnesses evaluate them.
  \<^item> \<open>Request\<close> (\<open>common/schema/request.py\<close>), \<open>Heapq\<close> (the standard library's heap, with the interface
    \<open>min_queue\<close>), \<open>Request_Queue\<close> (\<open>queue/request_queue.py\<close>, refined to a list), \<open>Processor\<close>
    (\<open>queue/processor.py\<close> and \<open>queue/replica.py\<close>). \<open>Processor_Steps\<close> is the transition system of a processor;
    \<open>Processor_Account\<close>, \<open>Processor_Progress\<close> and \<open>Processor_Props\<close> show that no request is lost, that a
    queued request is attended, that a worker serves the queue in order, that a request whose replica
    was evicted goes first, and name the steps after which a request is stranded.
  \<^item> \<open>Ingress\<close> (\<open>api/auth.py\<close>, \<open>api/versioning.py\<close>, \<open>POST /request\<close> of \<open>api/app.py\<close>), \<open>Dispatcher\<close>
    (\<open>queue/dispatcher.py\<close>, \<open>queue/config.py\<close>) and \<open>Dispatcher_Props\<close>: the dispatcher's steps interleaved with
    those of all its processors; nothing is lost between the Redis list and an answer, each processor
    has only requests of its model, and a lost connection resets everything.
  \<^item> \<open>Coalesce\<close>: \<open>_coalesced_fetch\<close> of \<open>api/app.py\<close> with \<open>status_worker\<close> and \<open>env_worker\<close> of the dispatcher, step by
    Redis command.
  \<^item> \<open>Wire\<close> (\<open>sandbox/protocol.py\<close>): frames, codec and fan-out, with their round trips.
  \<^item> \<open>Model_Util\<close>, \<open>Model_Actor\<close>, \<open>Model_Actor_Props\<close> (\<open>modeling/base.py\<close>, \<open>modeling/util.py\<close>, \<open>common/errors.py\<close>,
    the publish limit of \<open>providers/redis.py\<close>): the model actor's event loop interleaved with the execution
    thread; a run is answered once or handed back, and, with the processor's steps, back in the queue.
  \<^item> \<open>Shard_Group\<close> (\<open>tp/common.py\<close>, \<open>tp/shard.py\<close>, \<open>tp/host.py\<close>) and \<open>Tensor_Parallel\<close> (\<open>tp/model.py\<close> with
    \<open>SandboxHost.run_in_runner\<close> of \<open>sandbox/model.py\<close>): rank 0 and its shards, which move between any two
    things rank 0 does as an argument \<open>timing\<close> says. \<open>Shard_Phases\<close> confines a shard to a phase of the two-phase
    protocol by what was sent to it and read from it, and has the interface \<open>awaiting\<close> of a wait for answers;
    \<open>Tensor_Parallel_Props\<close>, \<open>Tensor_Parallel_Prompt\<close> and \<open>Tensor_Parallel_Theorems\<close> show that a group that is kept
    is at rest between requests, that a failed request does not cost a group that answers in time, and
    where the flags of \<open>tp/model.py\<close> are wrong about the group.
  \<^item> \<open>Runner_Pool\<close> (\<open>Pool\<close> of \<open>sandbox/host.py\<close>): its threads and callers, an event per atomic step.
  \<^item> \<open>Operations\<close>, \<open>Operations_Props\<close> (\<open>cli/lib\<close>): the operators' commands against a \<open>service\<close>; the sync mode
    is proved from the contract \<open>eviction_service\<close>, which the modelled controller satisfies.
  \<^item> \<open>Schedule\<close>, \<open>Schedule_Props\<close> (\<open>dashboard/backend/schedule_store.py\<close>, \<open>routers/schedule.py\<close>,
    \<open>jobs/reconcile.py\<close>): the schedule's routes, one pass of the reconcile job, and runs of passes.
  \<^item> \<open>Monitor\<close> (\<open>jobs/monitor.py\<close>, \<open>jobs/util.py\<close>): a tick of the monitor job; its alerts are those an outage
    calls for, and its message about failed models keeps to Discord's limit.

  \<^bold>\<open>Concurrency.\<close> An asyncio process is a machine whose steps are what runs between two awaits, as an
  executable function from an event to the next state and what it shows; the arguments of an event are
  what Ray, Redis or the controller answered, so that a property quantified over runs holds for every
  interleaving and every answer. The publication of a status message is part of the step that sends it.
  \<open>Coalesce\<close> is finer: a step is one Redis command. In \<open>Shard_Group\<close> the rank-0 code is sequential and the other
  ranks' moves are interleaved with it by a schedule over which the properties quantify.

  \<^bold>\<open>Termination.\<close> Every definition is total. Loops that need an argument have one: draining a replica
  (\<open>Cluster\<close>, by the weight of what is left), draining the shards' sockets (\<open>Shard_Group\<close>), sifting (\<open>Heapq\<close>), splitting lines and fields (\<open>Model_Util\<close>).
  There is no fuel. Blocking loops (waiting for Ray, for Redis) are the events that resume them.

  \<^bold>\<open>Abstractions.\<close> Floats are rationals, rounding being modelled where the code rounds; strings are byte
  strings and white space is ASCII's; Redis delivers what it accepted, except for the blocking read of a
  refresh worker; log lines and most metrics are left out. Code outside the repository is an argument
  with the documented behaviour as a hypothesis where one is needed: nnsight's model keys, sizes and
  execution, torch's memory figures and serialization, pydantic's parsing, the order of versions, the
  answers of Ray.

  \<^bold>\<open>Not modelled.\<close> The sandbox's driver and runner and \<open>modeling/nns.py\<close>, which replay nnsight's
  interleaver across the socket and are mostly calls into nnsight and torch; launching a runner process;
  the collectives between ranks (NCCL); the result pickler of
  \<open>modeling/util.py\<close> (pickle's internals); the monitor's cluster snapshot, the dashboard's report job, log reader, sessions
  and front end; the command line's argument parsing, printing and process control; the clients of
  InfluxDB, Loki, PostgreSQL and the object store, and the metrics sent to them.
\<close>

end
